(* ===== verification/Vault_Prelude.thy ===== *)
theory Vault_Prelude
  imports Main "HOL-Library.List_Lexorder" "HOL-Library.Char_ord"
    "HOL-Library.Product_Lexorder" "HOL-Library.AList"
begin

text \<open>
  The shared base of the development: the result type of fallible code, the pieces of the Rust
  standard library the modelled code calls (clamping, the iterator adaptors whose choice among
  equal elements matters), the generic lemmas about them, and the interface of a token codec,
  the contract every string-backed enumeration of the program promises.
\<close>

section \<open>Collections of hints\<close>

named_theorems codec_simps \<open>tokens and variant lists of the string-backed enumerations\<close>
named_theorems store_simps \<open>what an operation on a stored row leaves of every other row\<close>
named_theorems step_simps \<open>unfolding of one operation of a component\<close>

section \<open>Results\<close>

type_synonym ('e, 'a) result = "'e + 'a"

abbreviation Err :: "'e \<Rightarrow> ('e, 'a) result" where "Err \<equiv> Inl"
abbreviation Ok :: "'a \<Rightarrow> ('e, 'a) result" where "Ok \<equiv> Inr"

definition is_ok :: "('e, 'a) result \<Rightarrow> bool" where
  "is_ok r = (case r of Inl _ \<Rightarrow> False | Inr _ \<Rightarrow> True)"

lemma is_ok_simps [simp]: "is_ok (Ok x)" "\<not> is_ok (Err e)"
  by (simp_all add: is_ok_def)

lemma is_ok_iff: "is_ok r \<longleftrightarrow> (\<exists>x. r = Ok x)"
  by (cases r) simp_all

definition bind_result :: "('e, 'a) result \<Rightarrow> ('a \<Rightarrow> ('e, 'b) result) \<Rightarrow> ('e, 'b) result" where
  "bind_result r f = (case r of Inl e \<Rightarrow> Inl e | Inr x \<Rightarrow> f x)"

lemma bind_result_simps [simp]:
  "bind_result (Ok x) f = f x" "bind_result (Err e) f = Err e"
  by (simp_all add: bind_result_def)

lemma bind_result_ok_iff:
  "bind_result r f = Ok y \<longleftrightarrow> (\<exists>x. r = Ok x \<and> f x = Ok y)"
  by (cases r) simp_all

section \<open>Clamping\<close>

definition clamp_to :: "'a::linorder \<Rightarrow> 'a \<Rightarrow> 'a \<Rightarrow> 'a" where
  "clamp_to lo hi x = (if x < lo then lo else if hi < x then hi else x)"

lemma clamp_to_bounds:
  "lo \<le> hi \<Longrightarrow> lo \<le> clamp_to lo hi x" "lo \<le> hi \<Longrightarrow> clamp_to lo hi x \<le> hi"
  by (auto simp: clamp_to_def)

lemma clamp_to_id [simp]: "lo \<le> x \<Longrightarrow> x \<le> hi \<Longrightarrow> clamp_to lo hi x = x"
  by (auto simp: clamp_to_def)

lemma clamp_to_mono: "lo \<le> hi \<Longrightarrow> x \<le> y \<Longrightarrow> clamp_to lo hi x \<le> clamp_to lo hi y"
  by (auto simp: clamp_to_def)

lemma clamp_to_idem: "lo \<le> hi \<Longrightarrow> clamp_to lo hi (clamp_to lo hi x) = clamp_to lo hi x"
  by (auto simp: clamp_to_def)

section \<open>Iterator adaptors\<close>

text \<open>
  Rust's \<open>Iterator::max_by_key\<close> returns the last of several maximal elements, and
  \<open>min_by_key\<close> the first of several minimal ones.
\<close>

definition keep_max :: "('a \<Rightarrow> 'k::linorder) \<Rightarrow> 'a \<Rightarrow> 'a \<Rightarrow> 'a" where
  "keep_max f x best = (if f best \<le> f x then x else best)"

fun max_by_key_last :: "('a \<Rightarrow> 'k::linorder) \<Rightarrow> 'a list \<Rightarrow> 'a option" where
  "max_by_key_last f [] = None"
| "max_by_key_last f (x # xs) = Some (fold (keep_max f) xs x)"

lemma fold_keep_max_in: "fold (keep_max f) xs x \<in> insert x (set xs)"
proof (induction xs arbitrary: x)
  case (Cons y ys)
  show ?case using Cons.IH [of "keep_max f y x"] by (auto simp: keep_max_def split: if_splits)
qed simp

lemma fold_keep_max_ge: "y \<in> insert x (set xs) \<Longrightarrow> f y \<le> f (fold (keep_max f) xs x)"
proof (induction xs arbitrary: x y)
  case (Cons z zs)
  have head: "f (keep_max f z x) \<le> f (fold (keep_max f) zs (keep_max f z x))"
    by (rule Cons.IH) simp
  have rest: "f w \<le> f (fold (keep_max f) zs (keep_max f z x))" if "w \<in> set zs" for w
    using that by (intro Cons.IH) simp
  have both: "f x \<le> f (keep_max f z x)" "f z \<le> f (keep_max f z x)"
    by (auto simp: keep_max_def)
  show ?case using Cons.prems rest order_trans [OF both(1) head] order_trans [OF both(2) head]
    by auto
qed simp

lemma max_by_key_last_mem: "max_by_key_last f xs = Some m \<Longrightarrow> m \<in> set xs"
  using fold_keep_max_in by (cases xs) force+

lemma max_by_key_last_ge: "max_by_key_last f xs = Some m \<Longrightarrow> y \<in> set xs \<Longrightarrow> f y \<le> f m"
  by (cases xs) (auto intro: fold_keep_max_ge)

lemma max_by_key_last_None [simp]: "max_by_key_last f xs = None \<longleftrightarrow> xs = []"
  by (cases xs) simp_all

lemma max_by_key_last_Some: "xs \<noteq> [] \<Longrightarrow> \<exists>m. max_by_key_last f xs = Some m"
  by (cases xs) simp_all

section \<open>Sorted prefixes\<close>

text \<open>Lemmas on \<open>ORDER BY ... LIMIT\<close>: the stable sort by a key and its first elements.\<close>

lemma map_insort_key: "map g (insort_key (\<lambda>x. f (g x)) x xs) = insort_key f (g x) (map g xs)"
  by (induction xs) auto

lemma map_sort_key: "map g (sort_key (\<lambda>x. f (g x)) xs) = sort_key f (map g xs)"
  by (induction xs) (simp_all add: map_insort_key)

lemma take_filter_prefix:
  assumes "\<And>y. y \<in> set (take n ys) \<Longrightarrow> P y"
  shows "take n (filter P ys) = take n ys"
proof -
  have "filter P ys = filter P (take n ys) @ filter P (drop n ys)"
    by (metis append_take_drop_id filter_append)
  moreover have "filter P (take n ys) = take n ys" using assms by (simp add: filter_id_conv)
  ultimately have split: "filter P ys = take n ys @ filter P (drop n ys)" by simp
  show ?thesis
  proof (cases "n \<le> length ys")
    case True
    then show ?thesis by (simp add: split)
  next
    case False
    then show ?thesis by (simp add: split)
  qed
qed

lemma sorted_prefix_smaller:
  assumes "sorted (map f ys)" "x \<in> set (take n ys)"
  shows "length [y \<leftarrow> ys. f y < f x] < n"
proof -
  obtain i where i: "i < n" "i < length ys" "ys ! i = x"
    using assms(2) by (auto simp: in_set_conv_nth)
  have "[y \<leftarrow> drop i ys. f y < f x] = []"
  proof -
    have "\<not> f (drop i ys ! j) < f x" if "j < length (drop i ys)" for j
      using sorted_nth_mono [OF assms(1), of i "i + j"] i that
      by (simp add: less_diff_conv add.commute not_less)
    then have "\<forall>y \<in> set (drop i ys). \<not> f y < f x" unfolding all_set_conv_all_nth by blast
    then show ?thesis by (simp add: filter_empty_conv)
  qed
  then have "[y \<leftarrow> ys. f y < f x] = [y \<leftarrow> take i ys. f y < f x]"
    by (metis append_Nil2 append_take_drop_id filter_append)
  also have "length \<dots> \<le> i" by (metis length_filter_le length_take min.cobounded2 order_trans)
  finally show ?thesis using i(1) by simp
qed

text \<open>Dropping elements that are behind \<open>n\<close> others leaves the first \<open>n\<close> of the order alone.\<close>

lemma take_sort_filter:
  fixes f :: "'a \<Rightarrow> 'k::linorder"
  assumes "\<And>x. x \<in> set xs \<Longrightarrow> \<not> P x \<Longrightarrow> n \<le> length [y \<leftarrow> xs. f y < f x]"
  shows "take n (sort_key f (filter P xs)) = take n (sort_key f xs)"
proof -
  have "P y" if y: "y \<in> set (take n (sort_key f xs))" for y
  proof (rule ccontr)
    assume "\<not> P y"
    moreover have "y \<in> set xs" using y in_set_takeD by fastforce
    ultimately have "n \<le> length [z \<leftarrow> xs. f z < f y]" using assms by blast
    also have "\<dots> = length [z \<leftarrow> sort_key f xs. f z < f y]"
      by (simp add: filter_sort)
    also have "\<dots> < n" using y by (intro sorted_prefix_smaller) simp_all
    finally show False by simp
  qed
  then show ?thesis by (simp add: filter_sort [symmetric] take_filter_prefix)
qed

section \<open>Association lists and finite maps\<close>

lemma map_upd_other [store_simps]: "k \<noteq> k' \<Longrightarrow> (m(k \<mapsto> v)) k' = m k'"
  by simp

lemma card_insert_fresh: "finite A \<Longrightarrow> x \<notin> A \<Longrightarrow> card (insert x A) = Suc (card A)"
  by simp

lemma find_Some_mem: "find P xs = Some x \<Longrightarrow> x \<in> set xs \<and> P x"
  by (induction xs) (auto split: if_splits)

lemma distinct_singleton: "distinct xs \<Longrightarrow> set xs = {a} \<Longrightarrow> xs = [a]"
  by (cases xs; cases "tl xs") auto

lemma find_not_None: "find P xs \<noteq> None \<longleftrightarrow> list_ex P xs"
  by (induction xs) auto

lemma find_map_none: "(\<And>x. \<not> P (f x)) \<Longrightarrow> find P (map f xs) = None"
  by (induction xs) auto

lemma find_unique:
  assumes "x \<in> set xs" "P x" "\<And>y. y \<in> set xs \<Longrightarrow> P y \<Longrightarrow> y = x"
  shows "find P xs = Some x"
proof (cases "find P xs")
  case None
  then show ?thesis using assms(1,2) by (auto simp: find_None_iff)
next
  case (Some y)
  then show ?thesis using find_Some_mem [OF Some] assms(3) by auto
qed

section \<open>Tables\<close>

text \<open>
  A database table is an association list from its primary key to the rest of the row, in
  insertion order. \<open>AList.update\<close> is the \<open>INSERT ... ON CONFLICT DO UPDATE\<close> of the
  code: it rewrites the row of a key that is present and appends a row otherwise.
\<close>

type_synonym ('k, 'r) tbl = "('k \<times> 'r) list"

definition row_update :: "'k \<Rightarrow> ('r \<Rightarrow> 'r) \<Rightarrow> ('k, 'r) tbl \<Rightarrow> ('k, 'r) tbl" where
  "row_update k f t = map (\<lambda>(k', r). (k', if k' = k then f r else r)) t"

lemma map_of_row_update [simp]:
  "map_of (row_update k f t) k' = (if k' = k then map_option f (map_of t k') else map_of t k')"
  unfolding row_update_def by (induction t) auto

lemma row_update_keys [simp]: "map fst (row_update k f t) = map fst t"
  unfolding row_update_def by (induction t) auto

lemma row_update_rows:
  "(\<And>r. (k, r) \<in> set t \<Longrightarrow> P (f r)) \<Longrightarrow> (\<And>k' r. (k', r) \<in> set t \<Longrightarrow> P r) \<Longrightarrow>
   (k', r) \<in> set (row_update k f t) \<Longrightarrow> P r"
  unfolding row_update_def by auto

text \<open>
  The contract of a row that is read and written by key: what is written is read back, and no
  other row moves.
\<close>

locale row_store =
  fixes get :: "'s \<Rightarrow> 'k \<Rightarrow> 'v option"
    and put :: "'k \<Rightarrow> 'v \<Rightarrow> 's \<Rightarrow> 's"
  assumes get_put_same: "get (put k v s) k = Some v"
    and get_put_other: "k' \<noteq> k \<Longrightarrow> get (put k v s) k' = get s k'"
begin

lemma get_put: "get (put k v s) k' = (if k' = k then Some v else get s k')"
  using get_put_same get_put_other by simp

lemma put_put_same: "get (put k v (put k w s)) = get (put k v s)"
  by (rule ext) (simp add: get_put)

lemma get_fold_put_other:
  "k \<notin> fst ` set kvs \<Longrightarrow> get (fold (\<lambda>(k, v). put k v) kvs s) k = get s k"
  by (induction kvs arbitrary: s) (auto simp: get_put)

lemma get_fold_put:
  "get (fold (\<lambda>(k, v). put k v) kvs s) k =
     (case map_of (rev kvs) k of None \<Rightarrow> get s k | Some v \<Rightarrow> Some v)"
  by (induction kvs arbitrary: s) (auto simp: get_put map_add_def split: option.split)

end

section \<open>Fallible operations on a state\<close>

text \<open>
  An operation of a service that reads and writes a store and may fail part way: it returns its
  result and the state it leaves, whichever way it ended. \<open>?\<close> in the code is
  \<open>act_bind\<close>.
\<close>

type_synonym ('s, 'e, 'a) act = "'s \<Rightarrow> ('e, 'a) result \<times> 's"

definition act_return :: "'a \<Rightarrow> ('s, 'e, 'a) act" where
  "act_return x s = (Ok x, s)"

definition act_fail :: "'e \<Rightarrow> ('s, 'e, 'a) act" where
  "act_fail e s = (Err e, s)"

definition act_modify :: "('s \<Rightarrow> 's) \<Rightarrow> ('s, 'e, unit) act" where
  "act_modify f s = (Ok (), f s)"

definition act_bind :: "('s, 'e, 'a) act \<Rightarrow> ('a \<Rightarrow> ('s, 'e, 'b) act) \<Rightarrow> ('s, 'e, 'b) act" where
  "act_bind m k s = (case m s of (Inl e, s') \<Rightarrow> (Inl e, s') | (Inr x, s') \<Rightarrow> k x s')"

definition act_then :: "('s, 'e, unit) act \<Rightarrow> ('s, 'e, 'b) act \<Rightarrow> ('s, 'e, 'b) act" where
  "act_then m k = act_bind m (\<lambda>_. k)"

fun act_for :: "('x \<Rightarrow> ('s, 'e, unit) act) \<Rightarrow> 'x list \<Rightarrow> ('s, 'e, unit) act" where
  "act_for f [] = act_return ()"
| "act_for f (x # xs) = act_then (f x) (act_for f xs)"

lemma act_simps [simp]:
  "act_return x s = (Ok x, s)" "act_fail e s = (Err e, s)" "act_modify f s = (Ok (), f s)"
  by (simp_all add: act_return_def act_fail_def act_modify_def)

lemma act_bind_ok:
  "act_bind m k s = (Ok y, s'') \<longleftrightarrow> (\<exists>x s'. m s = (Ok x, s') \<and> k x s' = (Ok y, s''))"
  by (auto simp: act_bind_def split: prod.splits sum.splits)

lemma act_then_ok:
  "act_then m k s = (Ok y, s'') \<longleftrightarrow> (\<exists>s'. m s = (Ok (), s') \<and> k s' = (Ok y, s''))"
  by (simp add: act_then_def act_bind_ok)

lemma act_bind_step: "m s = (Ok x, s') \<Longrightarrow> act_bind m k s = k x s'"
  by (simp add: act_bind_def)

lemma act_then_step: "m s = (Ok u, s') \<Longrightarrow> act_then m k s = k s'"
  by (simp add: act_then_def act_bind_def)

lemma act_bind_return [simp]: "act_bind (act_return x) k = k x"
  by (rule ext) (simp add: act_bind_def)

lemma act_then_modify [simp]: "act_then (act_modify f) k s = k (f s)"
  by (simp add: act_then_def act_bind_def)

lemma act_then_return [simp]: "act_then (act_return u) k s = k s"
  by (simp add: act_then_def act_bind_def)

lemma act_then_fail [simp]: "act_then (act_fail e) k s = (Err e, s)"
  by (simp add: act_then_def act_bind_def)

text \<open>An invariant that every step keeps is kept however the loop ends.\<close>

lemma act_bind_inv:
  assumes "\<And>r s'. m s = (r, s') \<Longrightarrow> P s'" "\<And>x s' r t. P s' \<Longrightarrow> k x s' = (r, t) \<Longrightarrow> P t"
  shows "act_bind m k s = (r, t) \<Longrightarrow> P t"
  using assms by (auto simp: act_bind_def split: prod.splits sum.splits)

lemma act_then_inv:
  assumes "\<And>r s'. m s = (r, s') \<Longrightarrow> P s'" "\<And>s' r t. P s' \<Longrightarrow> k s' = (r, t) \<Longrightarrow> P t"
  shows "act_then m k s = (r, t) \<Longrightarrow> P t"
  unfolding act_then_def using assms by (rule act_bind_inv)

lemma act_for_inv:
  assumes "\<And>x s r t. x \<in> set xs \<Longrightarrow> P s \<Longrightarrow> f x s = (r, t) \<Longrightarrow> P t"
    and "P s" and "act_for f xs s = (r, t)"
  shows "P t"
  using assms
proof (induction xs arbitrary: s r t)
  case (Cons x xs)
  show ?case
  proof (rule act_then_inv [where P = P, OF _ _ Cons.prems(3) [unfolded act_for.simps]])
    show "P s'" if "f x s = (q, s')" for q s'
      using Cons.prems(1) [OF _ Cons.prems(2) that] by simp
    show "P t'" if "P s'" "act_for f xs s' = (q, t')" for s' q t'
      by (rule Cons.IH [OF _ that]) (use Cons.prems(1) in auto)
  qed
qed simp

section \<open>Token codecs\<close>

text \<open>
  The contract of an enumeration that is stored and published as a string: every variant is
  listed, every variant's token parses back to it, and whatever parses is the token of what it
  parsed to.
\<close>

locale token_codec =
  fixes enc :: "'a \<Rightarrow> string"
    and dec :: "string \<Rightarrow> ('e, 'a) result"
    and variants :: "'a list"
  assumes complete: "x \<in> set variants"
    and dec_enc: "dec (enc x) = Ok x"
    and dec_sound: "dec s = Ok x \<Longrightarrow> enc x = s"
begin

lemma enc_eq_iff: "enc x = enc y \<longleftrightarrow> x = y"
  by (metis dec_enc sum.inject(2))

lemma dec_ok_iff: "dec s = Ok x \<longleftrightarrow> s = enc x"
  using dec_enc dec_sound by auto

lemma dec_ok_tokens: "is_ok (dec s) \<longleftrightarrow> s \<in> enc ` set variants"
  using complete by (auto simp: is_ok_iff dec_ok_iff)

lemma dec_inj: "dec s = Ok x \<Longrightarrow> dec t = Ok x \<Longrightarrow> s = t"
  by (simp add: dec_ok_iff)

lemma UNIV_variants: "set variants = UNIV"
  using complete by auto

end

end
