(* ===== verification/Domain_Enums.thy ===== *)
theory Domain_Enums
  imports Vault_Prelude
begin

text \<open>
  The string-backed enumerations of \<open>src/crates/domain/src/enums.rs\<close> and
  \<open>scan_stage.rs\<close>: the variants, their tokens, the variant lists and the parsers that the
  \<open>str_enum!\<close> macro generates, and the stage timing record a scan task leaves behind. Every
  enumeration is shown to be a token codec, so what is written to the database reads back.
\<close>

section \<open>The macro\<close>

record parse_enum_error =
  pee_kind :: string
  pee_value :: string

definition str_enum_from_str ::
  "string \<Rightarrow> ('a \<Rightarrow> string) \<Rightarrow> 'a list \<Rightarrow> string \<Rightarrow> (parse_enum_error, 'a) result" where
  "str_enum_from_str kind as_str variants s =
     (case find (\<lambda>v. as_str v = s) variants of
        Some v \<Rightarrow> Ok v
      | None \<Rightarrow> Err \<lparr>pee_kind = kind, pee_value = s\<rparr>)"

lemma str_enum_codec:
  assumes complete: "\<And>x. x \<in> set variants" and tokens: "distinct (map as_str variants)"
  shows "token_codec as_str (str_enum_from_str kind as_str variants) variants"
proof
  fix x
  show "x \<in> set variants" by (rule complete)
  have "inj_on as_str (set variants)" using tokens by (simp add: distinct_map)
  then have "y = x" if "as_str y = as_str x" for y
    using that complete by (simp add: inj_on_def)
  then have "find (\<lambda>v. as_str v = as_str x) variants = Some x"
    by (intro find_unique complete) auto
  then show "str_enum_from_str kind as_str variants (as_str x) = Ok x"
    by (simp add: str_enum_from_str_def)
next
  fix s x
  assume "str_enum_from_str kind as_str variants s = Ok x"
  then show "as_str x = s"
    by (auto simp: str_enum_from_str_def dest: find_Some_mem split: option.splits)
qed

lemma str_enum_error:
  "str_enum_from_str kind as_str variants s = Err e \<Longrightarrow>
     pee_kind e = kind \<and> pee_value e = s \<and> s \<notin> as_str ` set variants"
  by (auto simp: str_enum_from_str_def find_None_iff split: option.splits)

section \<open>The enumerations\<close>

datatype content_type = Manga | Manhwa | Manhua | Webtoon | Unknown

fun content_type_as_str :: "content_type \<Rightarrow> string" where
  "content_type_as_str Manga = ''manga''"
| "content_type_as_str Manhwa = ''manhwa''"
| "content_type_as_str Manhua = ''manhua''"
| "content_type_as_str Webtoon = ''webtoon''"
| "content_type_as_str content_type.Unknown = ''unknown''"

definition content_type_all :: "content_type list" where
  [codec_simps]: "content_type_all = [Manga, Manhwa, Manhua, Webtoon, content_type.Unknown]"

definition content_type_from_str :: "string \<Rightarrow> (parse_enum_error, content_type) result" where
  "content_type_from_str = str_enum_from_str ''ContentType'' content_type_as_str content_type_all"

definition content_type_default :: content_type where
  "content_type_default = content_type.Unknown"

interpretation content_type_codec:
  token_codec content_type_as_str content_type_from_str content_type_all
  unfolding content_type_from_str_def
  by (rule str_enum_codec, case_tac x) (simp_all add: codec_simps)

datatype series_status = Ongoing | Completed | Hiatus | Cancelled | Unknown

fun series_status_as_str :: "series_status \<Rightarrow> string" where
  "series_status_as_str series_status.Ongoing = ''ongoing''"
| "series_status_as_str series_status.Completed = ''completed''"
| "series_status_as_str series_status.Hiatus = ''hiatus''"
| "series_status_as_str series_status.Cancelled = ''cancelled''"
| "series_status_as_str series_status.Unknown = ''unknown''"

definition series_status_all :: "series_status list" where
  [codec_simps]: "series_status_all =
     [series_status.Ongoing, series_status.Completed, series_status.Hiatus, series_status.Cancelled, series_status.Unknown]"

definition series_status_from_str :: "string \<Rightarrow> (parse_enum_error, series_status) result" where
  "series_status_from_str = str_enum_from_str ''SeriesStatus'' series_status_as_str series_status_all"

definition series_status_default :: series_status where
  "series_status_default = series_status.Unknown"

interpretation series_status_codec:
  token_codec series_status_as_str series_status_from_str series_status_all
  unfolding series_status_from_str_def
  by (rule str_enum_codec, case_tac x) (simp_all add: codec_simps)

datatype adapter_kind = Madara | MangaThemesia | Manganato | Keyoapp | GenericConfig | Custom

fun adapter_kind_as_str :: "adapter_kind \<Rightarrow> string" where
  "adapter_kind_as_str adapter_kind.Madara = ''madara''"
| "adapter_kind_as_str adapter_kind.MangaThemesia = ''mangathemesia''"
| "adapter_kind_as_str adapter_kind.Manganato = ''manganato''"
| "adapter_kind_as_str adapter_kind.Keyoapp = ''keyoapp''"
| "adapter_kind_as_str adapter_kind.GenericConfig = ''generic_config''"
| "adapter_kind_as_str adapter_kind.Custom = ''custom''"

definition adapter_kind_all :: "adapter_kind list" where
  [codec_simps]: "adapter_kind_all =
     [adapter_kind.Madara, adapter_kind.MangaThemesia, adapter_kind.Manganato, adapter_kind.Keyoapp, adapter_kind.GenericConfig, adapter_kind.Custom]"

definition adapter_kind_from_str :: "string \<Rightarrow> (parse_enum_error, adapter_kind) result" where
  "adapter_kind_from_str = str_enum_from_str ''AdapterKind'' adapter_kind_as_str adapter_kind_all"

definition adapter_kind_default :: adapter_kind where
  "adapter_kind_default = adapter_kind.GenericConfig"

interpretation adapter_kind_codec:
  token_codec adapter_kind_as_str adapter_kind_from_str adapter_kind_all
  unfolding adapter_kind_from_str_def
  by (rule str_enum_codec, case_tac x) (simp_all add: codec_simps)

datatype chapter_access = Free | EarlyAccess

fun chapter_access_as_str :: "chapter_access \<Rightarrow> string" where
  "chapter_access_as_str chapter_access.Free = ''free''"
| "chapter_access_as_str chapter_access.EarlyAccess = ''early_access''"

definition chapter_access_all :: "chapter_access list" where
  [codec_simps]: "chapter_access_all =
     [chapter_access.Free, chapter_access.EarlyAccess]"

definition chapter_access_from_str :: "string \<Rightarrow> (parse_enum_error, chapter_access) result" where
  "chapter_access_from_str = str_enum_from_str ''ChapterAccess'' chapter_access_as_str chapter_access_all"

definition chapter_access_default :: chapter_access where
  "chapter_access_default = chapter_access.Free"

interpretation chapter_access_codec:
  token_codec chapter_access_as_str chapter_access_from_str chapter_access_all
  unfolding chapter_access_from_str_def
  by (rule str_enum_codec, case_tac x) (simp_all add: codec_simps)

datatype provider_state = Active | Degraded | Challenged | Solving | Blocked | Disabled

fun provider_state_as_str :: "provider_state \<Rightarrow> string" where
  "provider_state_as_str provider_state.Active = ''active''"
| "provider_state_as_str provider_state.Degraded = ''degraded''"
| "provider_state_as_str provider_state.Challenged = ''challenged''"
| "provider_state_as_str provider_state.Solving = ''solving''"
| "provider_state_as_str provider_state.Blocked = ''blocked''"
| "provider_state_as_str provider_state.Disabled = ''disabled''"

definition provider_state_all :: "provider_state list" where
  [codec_simps]: "provider_state_all =
     [provider_state.Active, provider_state.Degraded, provider_state.Challenged, provider_state.Solving, provider_state.Blocked, provider_state.Disabled]"

definition provider_state_from_str :: "string \<Rightarrow> (parse_enum_error, provider_state) result" where
  "provider_state_from_str = str_enum_from_str ''ProviderState'' provider_state_as_str provider_state_all"

definition provider_state_default :: provider_state where
  "provider_state_default = provider_state.Active"

interpretation provider_state_codec:
  token_codec provider_state_as_str provider_state_from_str provider_state_all
  unfolding provider_state_from_str_def
  by (rule str_enum_codec, case_tac x) (simp_all add: codec_simps)

datatype scan_mode = Full | Fast

fun scan_mode_as_str :: "scan_mode \<Rightarrow> string" where
  "scan_mode_as_str scan_mode.Full = ''full''"
| "scan_mode_as_str scan_mode.Fast = ''fast''"

definition scan_mode_all :: "scan_mode list" where
  [codec_simps]: "scan_mode_all =
     [scan_mode.Full, scan_mode.Fast]"

definition scan_mode_from_str :: "string \<Rightarrow> (parse_enum_error, scan_mode) result" where
  "scan_mode_from_str = str_enum_from_str ''ScanMode'' scan_mode_as_str scan_mode_all"

definition scan_mode_default :: scan_mode where
  "scan_mode_default = scan_mode.Fast"

interpretation scan_mode_codec:
  token_codec scan_mode_as_str scan_mode_from_str scan_mode_all
  unfolding scan_mode_from_str_def
  by (rule str_enum_codec, case_tac x) (simp_all add: codec_simps)

datatype run_state = Queued | Running | Completed | Failed | Cancelled

fun run_state_as_str :: "run_state \<Rightarrow> string" where
  "run_state_as_str run_state.Queued = ''queued''"
| "run_state_as_str run_state.Running = ''running''"
| "run_state_as_str run_state.Completed = ''completed''"
| "run_state_as_str run_state.Failed = ''failed''"
| "run_state_as_str run_state.Cancelled = ''cancelled''"

definition run_state_all :: "run_state list" where
  [codec_simps]: "run_state_all =
     [run_state.Queued, run_state.Running, run_state.Completed, run_state.Failed, run_state.Cancelled]"

definition run_state_from_str :: "string \<Rightarrow> (parse_enum_error, run_state) result" where
  "run_state_from_str = str_enum_from_str ''RunState'' run_state_as_str run_state_all"

definition run_state_default :: run_state where
  "run_state_default = run_state.Queued"

interpretation run_state_codec:
  token_codec run_state_as_str run_state_from_str run_state_all
  unfolding run_state_from_str_def
  by (rule str_enum_codec, case_tac x) (simp_all add: codec_simps)

datatype task_state = Queued | Claimed | Running | Done | Failed | Skipped

fun task_state_as_str :: "task_state \<Rightarrow> string" where
  "task_state_as_str task_state.Queued = ''queued''"
| "task_state_as_str task_state.Claimed = ''claimed''"
| "task_state_as_str task_state.Running = ''running''"
| "task_state_as_str task_state.Done = ''done''"
| "task_state_as_str task_state.Failed = ''failed''"
| "task_state_as_str task_state.Skipped = ''skipped''"

definition task_state_all :: "task_state list" where
  [codec_simps]: "task_state_all =
     [task_state.Queued, task_state.Claimed, task_state.Running, task_state.Done, task_state.Failed, task_state.Skipped]"

definition task_state_from_str :: "string \<Rightarrow> (parse_enum_error, task_state) result" where
  "task_state_from_str = str_enum_from_str ''TaskState'' task_state_as_str task_state_all"

definition task_state_default :: task_state where
  "task_state_default = task_state.Queued"

interpretation task_state_codec:
  token_codec task_state_as_str task_state_from_str task_state_all
  unfolding task_state_from_str_def
  by (rule str_enum_codec, case_tac x) (simp_all add: codec_simps)

datatype watch_status = Reading | Planned | Completed | Dropped | Paused

fun watch_status_as_str :: "watch_status \<Rightarrow> string" where
  "watch_status_as_str watch_status.Reading = ''reading''"
| "watch_status_as_str watch_status.Planned = ''planned''"
| "watch_status_as_str watch_status.Completed = ''completed''"
| "watch_status_as_str watch_status.Dropped = ''dropped''"
| "watch_status_as_str watch_status.Paused = ''paused''"

definition watch_status_all :: "watch_status list" where
  [codec_simps]: "watch_status_all =
     [watch_status.Reading, watch_status.Planned, watch_status.Completed, watch_status.Dropped, watch_status.Paused]"

definition watch_status_from_str :: "string \<Rightarrow> (parse_enum_error, watch_status) result" where
  "watch_status_from_str = str_enum_from_str ''WatchStatus'' watch_status_as_str watch_status_all"

definition watch_status_default :: watch_status where
  "watch_status_default = watch_status.Reading"

interpretation watch_status_codec:
  token_codec watch_status_as_str watch_status_from_str watch_status_all
  unfolding watch_status_from_str_def
  by (rule str_enum_codec, case_tac x) (simp_all add: codec_simps)

datatype account_status = Active | Suspended

fun account_status_as_str :: "account_status \<Rightarrow> string" where
  "account_status_as_str account_status.Active = ''active''"
| "account_status_as_str account_status.Suspended = ''suspended''"

definition account_status_all :: "account_status list" where
  [codec_simps]: "account_status_all =
     [account_status.Active, account_status.Suspended]"

definition account_status_from_str :: "string \<Rightarrow> (parse_enum_error, account_status) result" where
  "account_status_from_str = str_enum_from_str ''AccountStatus'' account_status_as_str account_status_all"

definition account_status_default :: account_status where
  "account_status_default = account_status.Active"

interpretation account_status_codec:
  token_codec account_status_as_str account_status_from_str account_status_all
  unfolding account_status_from_str_def
  by (rule str_enum_codec, case_tac x) (simp_all add: codec_simps)

definition may_authenticate :: "account_status \<Rightarrow> bool" where
  "may_authenticate s = (case s of account_status.Active \<Rightarrow> True | account_status.Suspended \<Rightarrow> False)"

section \<open>Scan stages\<close>

datatype parse_stage_error = ParseStageError string

datatype scan_stage =
    Starting | CatalogFetch | CatalogRegister | CatalogFanout | FeedFetch | FeedFanout
  | SeriesMetadata | SeriesChapters | SeriesIngest

fun scan_stage_as_str :: "scan_stage \<Rightarrow> string" where
  "scan_stage_as_str Starting = ''starting''"
| "scan_stage_as_str CatalogFetch = ''catalog_fetch''"
| "scan_stage_as_str CatalogRegister = ''catalog_register''"
| "scan_stage_as_str CatalogFanout = ''catalog_fanout''"
| "scan_stage_as_str FeedFetch = ''feed_fetch''"
| "scan_stage_as_str FeedFanout = ''feed_fanout''"
| "scan_stage_as_str SeriesMetadata = ''series_metadata''"
| "scan_stage_as_str SeriesChapters = ''series_chapters''"
| "scan_stage_as_str SeriesIngest = ''series_ingest''"

definition scan_stage_all :: "scan_stage list" where
  [codec_simps]: "scan_stage_all =
     [Starting, CatalogFetch, CatalogRegister, CatalogFanout, FeedFetch, FeedFanout,
      SeriesMetadata, SeriesChapters, SeriesIngest]"

fun is_network :: "scan_stage \<Rightarrow> bool" where
  "is_network CatalogFetch = True"
| "is_network FeedFetch = True"
| "is_network SeriesMetadata = True"
| "is_network SeriesChapters = True"
| "is_network _ = False"

definition scan_stage_from_str :: "string \<Rightarrow> (parse_stage_error, scan_stage) result" where
  "scan_stage_from_str s =
     (case find (\<lambda>stage. scan_stage_as_str stage = s) scan_stage_all of
        Some stage \<Rightarrow> Ok stage
      | None \<Rightarrow> Err (ParseStageError s))"

lemma scan_stage_from_str_iff:
  "scan_stage_from_str s = Ok x \<longleftrightarrow>
   str_enum_from_str kind scan_stage_as_str scan_stage_all s = Ok x"
  by (simp add: scan_stage_from_str_def str_enum_from_str_def split: option.split)

interpretation scan_stage_codec: token_codec scan_stage_as_str scan_stage_from_str scan_stage_all
proof -
  have "token_codec scan_stage_as_str
          (str_enum_from_str [] scan_stage_as_str scan_stage_all) scan_stage_all"
    by (rule str_enum_codec, case_tac x) (simp_all add: codec_simps)
  then show "token_codec scan_stage_as_str scan_stage_from_str scan_stage_all"
    by (simp add: token_codec_def scan_stage_from_str_iff [where kind = "[]"])
qed

section \<open>Stage timings\<close>

text \<open>
  The map of \<open>StageTimings\<close> is a \<open>BTreeMap<String, i64>\<close>: an association list
  sorted by key, which is the order its iterator has. The counters are the \<open>i64\<close> of the
  code, as integers: they are sums of durations in milliseconds.
\<close>

record stage_timings =
  st_stages :: "(string \<times> int) list"
  st_requests :: int
  st_fetch_ms :: int
  st_pace_wait_ms :: int
  st_solver_ms :: int
  st_solver_calls :: int
  st_throttled :: int

definition stage_timings_default :: stage_timings where
  "stage_timings_default =
     \<lparr>st_stages = [], st_requests = 0, st_fetch_ms = 0, st_pace_wait_ms = 0,
      st_solver_ms = 0, st_solver_calls = 0, st_throttled = 0\<rparr>"

text \<open>\<open>entry(k).or_insert(0) += v\<close> on a sorted association list.\<close>

fun entry_add :: "'k::linorder \<Rightarrow> int \<Rightarrow> ('k \<times> int) list \<Rightarrow> ('k \<times> int) list" where
  "entry_add k v [] = [(k, v)]"
| "entry_add k v ((k', w) # rest) =
     (if k < k' then (k, v) # (k', w) # rest
      else if k = k' then (k', w + v) # rest
      else (k', w) # entry_add k v rest)"

definition add_stage :: "scan_stage \<Rightarrow> int \<Rightarrow> stage_timings \<Rightarrow> stage_timings" where
  "add_stage stage millis t =
     t\<lparr>st_stages := entry_add (scan_stage_as_str stage) millis (st_stages t)\<rparr>"

definition dominant_stage :: "stage_timings \<Rightarrow> (string \<times> int) option" where
  "dominant_stage t = max_by_key_last snd (st_stages t)"

definition timings_wf :: "stage_timings \<Rightarrow> bool" where
  "timings_wf t \<longleftrightarrow> sorted (map fst (st_stages t)) \<and> distinct (map fst (st_stages t))"

lemma entry_add_keys: "set (map fst (entry_add k v xs)) = insert k (set (map fst xs))"
  by (induction k v xs rule: entry_add.induct) auto

lemma entry_add_wf:
  assumes "sorted (map fst xs)" "distinct (map fst xs)"
  shows "sorted (map fst (entry_add k v xs)) \<and> distinct (map fst (entry_add k v xs))"
  using assms
proof (induction k v xs rule: entry_add.induct)
  case (2 k v k' w rest)
  have keys: "fst ` set (entry_add k v rest) = insert k (fst ` set rest)"
    using entry_add_keys [of k v rest] by simp
  show ?case using 2 by (auto simp: keys)
qed simp

lemma entry_add_lookup:
  assumes "sorted (map fst xs)"
  shows "map_of (entry_add k v xs) j =
     (if j = k then Some ((case map_of xs k of None \<Rightarrow> 0 | Some w \<Rightarrow> w) + v) else map_of xs j)"
  using assms
proof (induction k v xs rule: entry_add.induct)
  case (2 k v k' w rest)
  have "map_of rest k = None" if "k < k'"
    using that 2(2) by (auto simp: map_of_eq_None_iff)
  then show ?case using 2 by auto
qed simp

lemma add_stage_wf: "timings_wf t \<Longrightarrow> timings_wf (add_stage stage ms t)"
  unfolding timings_wf_def add_stage_def using entry_add_wf by fastforce

end
