(* ===== verification/Rust_Float.thy ===== *)
theory Rust_Float
  imports Complex_Main "HOL-Library.Log_Nat" Vault_Prelude
begin

text \<open>
  The floating-point numbers of the code. A finite \<open>f32\<close> or \<open>f64\<close> is the rational it
  denotes; an operation of the code is the exact operation followed by \<open>fl p\<close>, rounding to
  the nearest number of \<open>p\<close> significant bits with ties to even (24 bits for \<open>f32\<close>, 53 for
  \<open>f64\<close>). Underflow to subnormal numbers and overflow to infinity are outside every range
  the modelled code works in and are not represented; signed zeros are one zero.
\<close>

section \<open>Powers of two and binary exponents\<close>

definition exp2 :: "int \<Rightarrow> rat" where
  "exp2 e = (if 0 \<le> e then 2 ^ nat e else 1 / 2 ^ nat (- e))"

lemma exp2_powi: "exp2 e = 2 powi e"
  by (auto simp: exp2_def power_int_def field_simps)

lemma exp2_pos [simp]: "0 < exp2 e"
  by (simp add: exp2_powi)

lemma exp2_add: "exp2 (a + b) = exp2 a * exp2 b"
  by (simp add: exp2_powi power_int_add)

lemma exp2_mono: "a \<le> b \<Longrightarrow> exp2 a \<le> exp2 b"
  by (simp add: exp2_powi power_int_increasing)

lemma exp2_less_iff: "exp2 a < exp2 b \<longleftrightarrow> a < b"
proof
  show "a < b" if "exp2 a < exp2 b"
    using that exp2_mono [of b a] by (meson linorder_not_less)
  show "exp2 a < exp2 b" if "a < b"
    using that by (simp add: exp2_powi power_int_strict_increasing)
qed

definition flog2 :: "rat \<Rightarrow> int" where
  "flog2 x =
     (let (n, d) = quotient_of x; e = bitlen n - bitlen d
      in if exp2 e \<le> x then e else e - 1)"

lemma bitlen_range:
  assumes "0 < n" shows "exp2 (bitlen n - 1) \<le> of_int n" "of_int n < exp2 (bitlen n)"
proof -
  have pos: "0 < bitlen n" using assms bitlen_nonneg [of n] bitlen_le_iff_power [of n 0] by fastforce
  have "2 ^ nat (bitlen n - 1) \<le> n" "n < 2 ^ nat (bitlen n)"
    using bitlen_bounds [OF assms] by auto
  then have "(2::rat) ^ nat (bitlen n - 1) \<le> of_int n" "of_int n < (2::rat) ^ nat (bitlen n)"
    by (metis of_int_le_iff of_int_numeral of_int_power)
      (metis \<open>n < 2 ^ nat (bitlen n)\<close> of_int_less_iff of_int_numeral of_int_power)
  then show "exp2 (bitlen n - 1) \<le> of_int n" "of_int n < exp2 (bitlen n)"
    using pos by (simp_all add: exp2_def)
qed

lemma flog2_bounds:
  assumes "0 < x"
  shows "exp2 (flog2 x) \<le> x \<and> x < exp2 (flog2 x + 1)"
proof -
  obtain n d where q: "quotient_of x = (n, d)" by (cases "quotient_of x")
  have d: "0 < d" using quotient_of_denom_pos [OF q] .
  have x: "x = of_int n / of_int d" using quotient_of_div [OF q] .
  have n: "0 < n" using assms d by (simp add: x zero_less_divide_iff)
  note bn = bitlen_range [OF n] and bd = bitlen_range [OF d]
  have dpos: "0 < (of_int d :: rat)" using d by simp
  let ?e = "bitlen n - bitlen d"
  have upper: "x < exp2 (?e + 1)"
  proof -
    have "of_int n < exp2 (?e + 1) * exp2 (bitlen d - 1)"
      using bn(2) by (simp flip: exp2_add)
    also have "\<dots> \<le> exp2 (?e + 1) * of_int d"
      by (rule mult_left_mono [OF bd(1)]) (simp add: less_imp_le)
    finally show ?thesis using dpos by (simp add: x pos_divide_less_eq)
  qed
  have lower: "exp2 (?e - 1) \<le> x"
  proof -
    have "exp2 (?e - 1) * of_int d \<le> exp2 (?e - 1) * exp2 (bitlen d)"
      by (rule mult_left_mono) (use bd(2) in \<open>simp_all add: less_imp_le\<close>)
    also have "\<dots> \<le> of_int n" using bn(1) by (simp flip: exp2_add)
    finally show ?thesis using dpos by (simp add: x pos_le_divide_eq)
  qed
  show ?thesis using upper lower by (auto simp: flog2_def q Let_def)
qed

section \<open>Rounding\<close>

definition round_even :: "rat \<Rightarrow> int" where
  "round_even y =
     (let f = \<lfloor>y\<rfloor>; r = y - of_int f
      in if r < 1 / 2 then f else if 1 / 2 < r then f + 1 else if even f then f else f + 1)"

definition fl :: "nat \<Rightarrow> rat \<Rightarrow> rat" where
  "fl p x =
     (if x = 0 then 0
      else let u = exp2 (flog2 \<bar>x\<bar> - (int p - 1)) in of_int (round_even (x / u)) * u)"

abbreviation f64 :: "rat \<Rightarrow> rat" where "f64 \<equiv> fl 53"
abbreviation f32 :: "rat \<Rightarrow> rat" where "f32 \<equiv> fl 24"

text \<open>\<open>f64::round\<close>: the nearest integer, ties away from zero.\<close>

definition round_away :: "rat \<Rightarrow> int" where
  "round_away x = (if 0 \<le> x then \<lfloor>x + 1 / 2\<rfloor> else - \<lfloor>- x + 1 / 2\<rfloor>)"

lemma round_even_cases:
  "round_even y = \<lfloor>y\<rfloor> \<and> y - of_int \<lfloor>y\<rfloor> \<le> 1 / 2 \<or>
   round_even y = \<lfloor>y\<rfloor> + 1 \<and> 1 / 2 \<le> y - of_int \<lfloor>y\<rfloor>"
proof -
  have "(if r < h then f else if h < r then f + 1 else if even f then f else f + 1) = f \<and> r \<le> h \<or>
    (if r < h then f else if h < r then f + 1 else if even f then f else f + 1) = f + 1 \<and> h \<le> r"
    for r h :: rat and f :: int by auto
  then show ?thesis unfolding round_even_def Let_def .
qed

lemma round_even_error: "\<bar>of_int (round_even y) - y\<bar> \<le> 1 / 2"
proof -
  have f: "of_int \<lfloor>y\<rfloor> \<le> y" "y < of_int \<lfloor>y\<rfloor> + 1" by linarith+
  from round_even_cases [of y] show ?thesis
  proof
    assume "round_even y = \<lfloor>y\<rfloor> \<and> y - of_int \<lfloor>y\<rfloor> \<le> 1 / 2"
    then show ?thesis using f by (intro abs_leI; linarith)
  next
    assume "round_even y = \<lfloor>y\<rfloor> + 1 \<and> 1 / 2 \<le> y - of_int \<lfloor>y\<rfloor>"
    then have "of_int (round_even y) = of_int \<lfloor>y\<rfloor> + (1 :: rat)" "1 / 2 \<le> y - of_int \<lfloor>y\<rfloor>"
      by simp_all
    then show ?thesis using f by (intro abs_leI; linarith)
  qed
qed

lemma round_even_of_int [simp]: "round_even (of_int k) = k"
  by (simp add: round_even_def)

lemma round_even_mono: "x \<le> y \<Longrightarrow> round_even x \<le> round_even y"
proof -
  assume le: "x \<le> y"
  have fl: "\<lfloor>x\<rfloor> \<le> \<lfloor>y\<rfloor>" using le by (rule floor_mono)
  have range: "\<lfloor>x\<rfloor> \<le> round_even x" "round_even x \<le> \<lfloor>x\<rfloor> + 1" for x
    by (auto simp: round_even_def Let_def)
  show ?thesis
  proof (cases "\<lfloor>x\<rfloor> = \<lfloor>y\<rfloor>")
    case True
    then show ?thesis using le by (auto simp: round_even_def Let_def)
  next
    case False
    then show ?thesis using fl range(2) [of x] range(1) [of y] by linarith
  qed
qed

lemma round_away_of_int [simp]: "round_away (of_int k) = k"
  unfolding round_away_def by (cases "0 \<le> k") (auto, linarith+)

lemma round_away_near: "\<bar>x - of_int k\<bar> < 1 / 2 \<Longrightarrow> round_away x = k"
proof -
  assume near: "\<bar>x - of_int k\<bar> < 1 / 2"
  then have "x - of_int k < 1 / 2" "- (1 / 2) < x - of_int k"
    by (simp_all only: abs_less_iff) linarith
  then have "\<lfloor>x + 1 / 2\<rfloor> = k" "\<lfloor>- x + 1 / 2\<rfloor> = - k"
    by (intro floor_unique; simp)+
  then show ?thesis by (simp only: round_away_def) simp
qed

lemma fl_zero [simp]: "fl p 0 = 0"
  by (simp add: fl_def)

lemma fl_error: "\<bar>fl p x - x\<bar> \<le> exp2 (- int p) * \<bar>x\<bar>"
proof (cases "x = 0")
  case False
  define u where "u = exp2 (flog2 \<bar>x\<bar> - (int p - 1))"
  have u: "0 < u" by (simp add: u_def)
  have "fl p x - x = (of_int (round_even (x / u)) - x / u) * u"
    using False u unfolding fl_def Let_def u_def [symmetric] by (simp add: left_diff_distrib)
  then have "\<bar>fl p x - x\<bar> = \<bar>of_int (round_even (x / u)) - x / u\<bar> * u"
    using u by (simp add: abs_mult)
  also have "\<dots> \<le> 1 / 2 * u"
    by (rule mult_right_mono [OF round_even_error]) (use u in simp)
  also have "1 / 2 * u = exp2 (- int p) * exp2 (flog2 \<bar>x\<bar>)"
  proof -
    have "u = exp2 1 * (exp2 (- int p) * exp2 (flog2 \<bar>x\<bar>))"
      unfolding u_def exp2_add [symmetric] by (simp add: algebra_simps)
    then show ?thesis by (simp add: exp2_def)
  qed
  also have "\<dots> \<le> exp2 (- int p) * \<bar>x\<bar>"
    by (rule mult_left_mono) (use flog2_bounds [of "\<bar>x\<bar>"] False in \<open>auto simp: less_imp_le\<close>)
  finally show ?thesis .
qed simp

lemma fl_of_int:
  assumes "\<bar>k\<bar> < 2 ^ p"
  shows "fl p (of_int k) = of_int k"
proof (cases "k = 0")
  case False
  let ?e = "flog2 \<bar>of_int k\<bar>"
  have "exp2 ?e \<le> \<bar>of_int k\<bar>" using flog2_bounds [of "\<bar>of_int k\<bar>"] False by simp
  also have "\<bar>of_int k :: rat\<bar> < 2 ^ p"
    using assms by (metis of_int_abs of_int_less_iff of_int_numeral of_int_power)
  also have "\<dots> = exp2 (int p)" by (simp add: exp2_def)
  finally have e: "?e < int p" by (simp add: exp2_less_iff)
  define u where "u = exp2 (?e - (int p - 1))"
  have "1 / u = of_int (2 ^ nat (int p - 1 - ?e))"
  proof (cases "?e - (int p - 1) = 0")
    case True
    then show ?thesis by (simp add: u_def exp2_def)
  next
    case False
    then show ?thesis using e by (simp add: u_def exp2_def algebra_simps)
  qed
  then have quot: "of_int k / u = of_int (k * 2 ^ nat (int p - 1 - ?e))"
    by (metis divide_inverse_commute inverse_eq_divide mult.commute of_int_mult times_divide_eq_right
        mult.right_neutral)
  have u: "u \<noteq> 0" by (simp add: u_def order_less_imp_not_eq2)
  have "fl p (of_int k) = of_int (round_even (of_int k / u)) * u"
    using False by (simp add: fl_def Let_def u_def)
  also have "\<dots> = of_int k / u * u" unfolding quot by (simp only: round_even_of_int)
  finally show ?thesis using u by simp
qed simp

lemma fl_nonneg: "0 \<le> x \<Longrightarrow> 0 \<le> fl p x"
proof -
  assume x: "0 \<le> x"
  have "round_even 0 = 0" by (simp add: round_even_def)
  then have pos: "0 \<le> round_even y" if "0 \<le> y" for y using round_even_mono [OF that] by simp
  have "0 \<le> x / exp2 e" for e using x by (simp add: divide_nonneg_pos)
  then show ?thesis
    unfolding fl_def Let_def by (simp add: pos less_imp_le [OF exp2_pos])
qed

text \<open>Rounding is monotone: it never swaps two values, at most it makes them equal.\<close>

lemma fl_pos_bounds:
  assumes "0 < x" "0 < p"
  shows "exp2 (flog2 x) \<le> fl p x \<and> fl p x \<le> exp2 (flog2 x + 1)"
proof -
  define e where "e = flog2 x"
  define u where "u = exp2 (e - (int p - 1))"
  have u: "0 < u" by (simp add: u_def)
  have x: "exp2 e \<le> x" "x < exp2 (e + 1)" using flog2_bounds [OF assms(1)] by (simp_all add: e_def)
  have fl: "fl p x = of_int (round_even (x / u)) * u"
    using assms(1) by (simp add: fl_def Let_def u_def e_def)
  have hi: "of_int (2 ^ p) * u = exp2 (e + 1)" and lo: "of_int (2 ^ (p - 1)) * u = exp2 e"
  proof -
    have "of_int (2 ^ q) = exp2 (int q)" for q by (simp add: exp2_def)
    then show "of_int (2 ^ p) * u = exp2 (e + 1)" "of_int (2 ^ (p - 1)) * u = exp2 e"
      using assms(2) by (simp_all add: u_def of_nat_diff flip: exp2_add)
  qed
  have "x / u \<le> of_int (2 ^ p)" "of_int (2 ^ (p - 1)) \<le> x / u"
    using x u by (simp_all only: pos_divide_le_eq pos_le_divide_eq hi lo less_imp_le)
  then have "round_even (x / u) \<le> 2 ^ p" "2 ^ (p - 1) \<le> round_even (x / u)"
    using round_even_mono [of "x / u" "of_int (2 ^ p)"] round_even_mono [of "of_int (2 ^ (p - 1))" "x / u"]
    by (simp_all only: round_even_of_int)
  then have "of_int (round_even (x / u)) * u \<le> of_int (2 ^ p) * u"
    "of_int (2 ^ (p - 1)) * u \<le> of_int (round_even (x / u)) * u"
    using u by (simp_all only: mult_right_mono of_int_le_iff less_imp_le)
  then show ?thesis by (simp only: fl hi lo e_def [symmetric])
qed

lemma fl_mono:
  assumes "0 \<le> x" "x \<le> y" "0 < p"
  shows "fl p x \<le> fl p y"
proof (cases "x = 0")
  case True
  then show ?thesis using assms fl_nonneg by simp
next
  case False
  then have x: "0 < x" and y: "0 < y" using assms by simp_all
  have "exp2 (flog2 x) < exp2 (flog2 y + 1)"
    using flog2_bounds [OF x] flog2_bounds [OF y] assms(2) by linarith
  then have le: "flog2 x \<le> flog2 y" by (simp add: exp2_less_iff)
  show ?thesis
  proof (cases "flog2 x = flog2 y")
    case True
    define u where "u = exp2 (flog2 y - (int p - 1))"
    have u: "0 < u" by (simp add: u_def)
    have "round_even (x / u) \<le> round_even (y / u)"
      by (rule round_even_mono) (use assms(2) u in \<open>simp add: divide_right_mono\<close>)
    then have "of_int (round_even (x / u)) * u \<le> of_int (round_even (y / u)) * u"
      using u by (simp add: mult_right_mono)
    then show ?thesis using x y True by (simp add: fl_def Let_def u_def)
  next
    case False
    then have "exp2 (flog2 x + 1) \<le> exp2 (flog2 y)" using le by (intro exp2_mono) simp
    then show ?thesis
      using fl_pos_bounds [OF x assms(3)] fl_pos_bounds [OF y assms(3)] by linarith
  qed
qed

text \<open>Rounding a rounded value changes nothing.\<close>

lemma exp2_abs [simp]: "\<bar>exp2 e\<bar> = exp2 e"
  by (simp add: less_imp_le)

lemma flog2_eq: "exp2 e \<le> x \<Longrightarrow> x < exp2 (e + 1) \<Longrightarrow> flog2 x = e"
proof -
  assume e: "exp2 e \<le> x" "x < exp2 (e + 1)"
  then have "0 < x" using exp2_pos [of e] by linarith
  from flog2_bounds [OF this] e have "exp2 (flog2 x) < exp2 (e + 1)" "exp2 e < exp2 (flog2 x + 1)"
    by linarith+
  then show ?thesis by (simp add: exp2_less_iff)
qed

lemma fl_scale: "fl p (x * exp2 e) = fl p x * exp2 e"
proof (cases "x = 0")
  case False
  have f: "flog2 \<bar>x * exp2 e\<bar> = flog2 \<bar>x\<bar> + e"
  proof (rule flog2_eq)
    have b: "exp2 (flog2 \<bar>x\<bar>) \<le> \<bar>x\<bar>" "\<bar>x\<bar> < exp2 (flog2 \<bar>x\<bar> + 1)"
      using flog2_bounds [of "\<bar>x\<bar>"] False by auto
    have "exp2 (flog2 \<bar>x\<bar>) * exp2 e \<le> \<bar>x\<bar> * exp2 e" "\<bar>x\<bar> * exp2 e < exp2 (flog2 \<bar>x\<bar> + 1) * exp2 e"
      using b by simp_all
    then show "exp2 (flog2 \<bar>x\<bar> + e) \<le> \<bar>x * exp2 e\<bar>" "\<bar>x * exp2 e\<bar> < exp2 (flog2 \<bar>x\<bar> + e + 1)"
      by (simp_all add: abs_mult algebra_simps flip: exp2_add)
  qed
  define u where "u = exp2 (flog2 \<bar>x\<bar> - (int p - 1))"
  have u': "exp2 (flog2 \<bar>x * exp2 e\<bar> - (int p - 1)) = u * exp2 e"
    by (simp add: f u_def algebra_simps flip: exp2_add)
  have pos: "u \<noteq> 0" "exp2 e \<noteq> 0" by (simp_all add: u_def order_less_imp_not_eq2)
  have "x * exp2 e \<noteq> 0" using False pos by simp
  then have "fl p (x * exp2 e) = of_int (round_even (x * exp2 e / (u * exp2 e))) * (u * exp2 e)"
    unfolding fl_def Let_def u' by simp
  also have "x * exp2 e / (u * exp2 e) = x / u" using pos by simp
  finally show ?thesis using False by (simp add: fl_def Let_def u_def)
qed simp

lemma fl_representable:
  assumes "\<bar>k\<bar> \<le> 2 ^ p" "0 < p"
  shows "fl p (of_int k * exp2 e) = of_int k * exp2 e"
proof (cases "\<bar>k\<bar> = 2 ^ p")
  case False
  then show ?thesis using assms fl_of_int [of k p] by (simp add: fl_scale)
next
  case True
  then have k: "of_int k = of_int (sgn k) * exp2 (int p)"
    by (metis exp2_def mult_sgn_abs mult.commute nat_int of_int_mult of_int_numeral of_int_power of_nat_0_le_iff)
  have "\<bar>sgn k\<bar> < 2 ^ p" using assms(2) by (cases "k = 0") (auto simp: abs_sgn_eq)
  then have "fl p (of_int (sgn k)) = of_int (sgn k)" by (rule fl_of_int)
  then have "fl p (of_int (sgn k) * exp2 (int p + e)) = of_int (sgn k) * exp2 (int p + e)"
    by (simp only: fl_scale)
  then show ?thesis unfolding k by (simp add: exp2_add mult.assoc)
qed

lemma fl_idem [simp]:
  assumes "0 < p"
  shows "fl p (fl p x) = fl p x"
proof (cases "x = 0")
  case False
  define e where "e = flog2 \<bar>x\<bar> - (int p - 1)"
  have e: "0 < exp2 e" by simp
  have fl: "fl p x = of_int (round_even (x / exp2 e)) * exp2 e"
    using False by (simp add: fl_def Let_def e_def)
  have "\<bar>x\<bar> < exp2 (flog2 \<bar>x\<bar> + 1)" using flog2_bounds [of "\<bar>x\<bar>"] False by simp
  also have "\<dots> = of_int (2 ^ p) * exp2 e"
  proof -
    have "of_int (2 ^ p) = exp2 (int p)" by (simp add: exp2_def)
    then show ?thesis by (simp add: e_def flip: exp2_add)
  qed
  finally have "\<bar>x / exp2 e\<bar> \<le> of_int (2 ^ p)"
    by (simp add: pos_divide_le_eq)
  then have "x / exp2 e \<le> of_int (2 ^ p)" "of_int (- (2 ^ p)) \<le> x / exp2 e"
    by (simp_all only: abs_le_iff) simp
  then have "round_even (x / exp2 e) \<le> 2 ^ p" "- (2 ^ p) \<le> round_even (x / exp2 e)"
    using round_even_mono [of "x / exp2 e" "of_int (2 ^ p)"]
      round_even_mono [of "of_int (- (2 ^ p))" "x / exp2 e"]
    by (simp_all only: round_even_of_int)
  then show ?thesis unfolding fl by (intro fl_representable assms) simp
qed simp

section \<open>Values that need not be finite\<close>

datatype float_value = Fin rat | PosInf | NegInf | NaN

fun is_finite :: "float_value \<Rightarrow> bool" where
  "is_finite (Fin _) = True"
| "is_finite _ = False"

end
