(* ===== verification/Chapter_Number.thy ===== *)
theory Chapter_Number
  imports Rust_Float "HOL-Library.Signed_Division"
begin

text \<open>
  The storage form of a chapter number, \<open>src/crates/domain/src/chapter_number.rs\<close>: an
  \<open>f64\<close> scaled to a 32-bit integer, the way back, and the query bounds computed from it. The
  multiplication and the division are the rounded ones of the code.
\<close>

section \<open>Definitions\<close>

definition milli_scale :: rat where "milli_scale = 10000"
definition milli_scale_int :: int where "milli_scale_int = 10000"
definition max_chapter_number :: rat where "max_chapter_number = 200000"
definition i32_max :: int where "i32_max = 2 ^ 31 - 1"

fun is_storable :: "float_value \<Rightarrow> bool" where
  "is_storable (Fin x) \<longleftrightarrow> 0 \<le> x \<and> x \<le> max_chapter_number"
| "is_storable _ \<longleftrightarrow> False"

fun to_milli :: "float_value \<Rightarrow> int option" where
  "to_milli (Fin x) =
     (if \<not> is_storable (Fin x) then None else Some (round_away (f64 (x * milli_scale))))"
| "to_milli v = None"

definition from_milli :: "int \<Rightarrow> rat" where
  "from_milli milli = f64 (of_int milli / milli_scale)"

definition whole_of_milli :: "int \<Rightarrow> int" where
  "whole_of_milli milli = milli sdiv milli_scale_int"

text \<open>\<open>clamp\<close> keeps a \<open>NaN\<close>, and the cast sends it to zero.\<close>

fun clamp_whole :: "float_value \<Rightarrow> int" where
  "clamp_whole (Fin x) = \<lfloor>clamp_to 0 max_chapter_number x\<rfloor>"
| "clamp_whole PosInf = \<lfloor>max_chapter_number\<rfloor>"
| "clamp_whole NegInf = 0"
| "clamp_whole NaN = 0"

fun whole_ceil :: "float_value \<Rightarrow> int" where
  "whole_ceil (Fin x) = clamp_whole (Fin (of_int \<lceil>x\<rceil>))"
| "whole_ceil v = clamp_whole v"

fun whole_floor :: "float_value \<Rightarrow> int" where
  "whole_floor (Fin x) = clamp_whole (Fin (of_int \<lfloor>x\<rfloor>))"
| "whole_floor v = clamp_whole v"

definition milli_of_whole :: "int \<Rightarrow> int" where
  "milli_of_whole whole = whole * milli_scale_int"

fun milli_ceil :: "float_value \<Rightarrow> int" where
  "milli_ceil (Fin x) = clamp_to 0 i32_max \<lceil>f64 (x * milli_scale)\<rceil>"
| "milli_ceil PosInf = i32_max"
| "milli_ceil NegInf = 0"
| "milli_ceil NaN = 0"

section \<open>The round trip\<close>

definition milli_ok :: "int \<Rightarrow> bool" where
  "milli_ok m \<longleftrightarrow> 0 \<le> m \<and> m \<le> 2000000000"

lemma from_milli_nonneg: "0 \<le> m \<Longrightarrow> 0 \<le> from_milli m"
  unfolding from_milli_def milli_scale_def by (rule fl_nonneg) simp

lemma from_milli_mono: "0 \<le> m \<Longrightarrow> m \<le> n \<Longrightarrow> from_milli m \<le> from_milli n"
  unfolding from_milli_def milli_scale_def by (rule fl_mono) (simp_all add: divide_right_mono)

lemma from_milli_whole:
  "\<bar>w\<bar> < 2 ^ 53 \<Longrightarrow> from_milli (milli_of_whole w) = of_int w"
proof -
  assume "\<bar>w\<bar> < 2 ^ 53"
  moreover have "of_int (milli_of_whole w) / milli_scale = of_int w"
    by (simp add: milli_of_whole_def milli_scale_def milli_scale_int_def)
  ultimately show ?thesis by (simp only: from_milli_def fl_of_int)
qed

lemma from_milli_storable: "milli_ok m \<Longrightarrow> is_storable (Fin (from_milli m))"
proof -
  assume ok: "milli_ok m"
  have "from_milli m \<le> from_milli (milli_of_whole 200000)"
    by (rule from_milli_mono) (use ok in \<open>simp_all add: milli_ok_def milli_of_whole_def milli_scale_int_def\<close>)
  also have "\<dots> = 200000" by (subst from_milli_whole) simp_all
  finally show ?thesis
    using ok from_milli_nonneg [of m] by (simp add: max_chapter_number_def milli_ok_def)
qed

lemma scaled_back_error:
  assumes "0 \<le> m" "m \<le> 4000000000"
  shows "\<bar>f64 (from_milli m * milli_scale) - of_int m\<bar> < 1 / 2"
proof -
  define eps where "eps = exp2 (- int 53)"
  have eps: "eps = 1 / 9007199254740992" by (simp add: eps_def exp2_def)
  define x where "x = (of_int m :: rat) / 10000"
  define a where "a = f64 x"
  define b where "b = f64 (a * 10000)"
  have m: "(0::rat) \<le> of_int m" "(of_int m :: rat) \<le> 4000000000"
    using assms by simp_all
  have x: "0 \<le> x" "x \<le> 400000" using m by (simp_all add: x_def)
  have a: "0 \<le> a" using fl_nonneg [OF x(1)] by (simp add: a_def)
  have e1: "\<bar>a - x\<bar> \<le> eps * x" using fl_error [of 53 x] x by (simp add: a_def eps_def)
  have e2: "\<bar>b - a * 10000\<bar> \<le> eps * (a * 10000)"
    using fl_error [of 53 "a * 10000"] a by (simp add: b_def eps_def)
  have e1': "a - x \<le> eps * x" "x - a \<le> eps * x" using e1 by (simp_all only: abs_le_iff) linarith
  have e2': "b - a * 10000 \<le> eps * (a * 10000)" "a * 10000 - b \<le> eps * (a * 10000)"
    using e2 by (simp_all only: abs_le_iff) linarith
  have ex: "eps * x \<le> 1 / 100000" using x by (simp add: eps)
  have a2: "a \<le> 800000" using e1'(1) ex x by linarith
  have ea: "eps * (a * 10000) \<le> 1 / 10" using a2 a by (simp add: eps)
  have mx: "of_int m = x * 10000" by (simp add: x_def)
  have "b - of_int m < 1 / 2" "of_int m - b < 1 / 2"
    using e1' e2' ex ea unfolding mx by linarith+
  then have "\<bar>b - of_int m\<bar> < 1 / 2" by (intro abs_less_iff [THEN iffD2] conjI; linarith)
  then show ?thesis by (simp add: b_def a_def x_def from_milli_def milli_scale_def)
qed

lemma to_milli_from_milli: "milli_ok m \<Longrightarrow> to_milli (Fin (from_milli m)) = Some m"
  using from_milli_storable scaled_back_error [of m] round_away_near by (simp add: milli_ok_def)

text \<open>Distinct stored values read back as distinct numbers, in the same order.\<close>

lemma from_milli_strict:
  assumes "0 \<le> m" "m < n" "n \<le> 4000000000"
  shows "from_milli m < from_milli n"
proof -
  have "from_milli m \<noteq> from_milli n"
  proof
    assume "from_milli m = from_milli n"
    then show False
      using round_away_near [OF scaled_back_error [of m]] round_away_near [OF scaled_back_error [of n]]
        assms by simp
  qed
  then show ?thesis using from_milli_mono [of m n] assms by simp
qed

lemma from_milli_le_iff:
  assumes "0 \<le> m" "m \<le> 4000000000" "0 \<le> n" "n \<le> 4000000000"
  shows "from_milli m \<le> from_milli n \<longleftrightarrow> m \<le> n"
  using from_milli_mono from_milli_strict assms by (meson linorder_not_less)

lemma floor_from_milli:
  assumes "milli_ok m"
  shows "\<lfloor>from_milli m\<rfloor> = m div 10000"
proof (rule floor_unique)
  let ?w = "m div 10000"
  have m: "0 \<le> m" "m \<le> 2000000000" using assms by (simp_all add: milli_ok_def)
  have w: "0 \<le> ?w" "?w \<le> 200000" "milli_of_whole ?w \<le> m" "m < milli_of_whole (?w + 1)"
    "0 \<le> milli_of_whole ?w" "milli_of_whole (?w + 1) \<le> 4000000000"
    using m div_mult_mod_eq [of m 10000] pos_mod_bound [of 10000 m] pos_mod_sign [of 10000 m]
    unfolding milli_of_whole_def milli_scale_int_def by (simp_all add: pos_imp_zdiv_nonneg_iff)
  have ends: "from_milli (milli_of_whole k) = of_int k" if "0 \<le> k" "k \<le> 200001" for k
    by (rule from_milli_whole) (use that in simp)
  have "from_milli (milli_of_whole ?w) \<le> from_milli m"
    by (rule from_milli_mono) (use w in simp_all)
  then show "of_int ?w \<le> from_milli m" using ends [of ?w] w by simp
  have "from_milli m < from_milli (milli_of_whole (?w + 1))"
    by (rule from_milli_strict) (use w m in simp_all)
  then show "from_milli m < of_int ?w + 1" using ends [of "?w + 1"] w by simp
qed

lemma to_milli_range:
  assumes "to_milli v = Some m" shows "milli_ok m"
proof -
  obtain x where v: "v = Fin x" and st: "is_storable (Fin x)"
    and m: "m = round_away (f64 (x * milli_scale))"
    using assms by (cases v) (auto split: if_splits)
  have x: "0 \<le> x" "x \<le> 200000" using st by (simp_all add: max_chapter_number_def)
  have lo: "0 \<le> f64 (x * milli_scale)" using x by (intro fl_nonneg) (simp add: milli_scale_def)
  have "f64 (x * milli_scale) \<le> f64 (of_int 2000000000)"
    by (rule fl_mono) (use x in \<open>simp_all add: milli_scale_def\<close>)
  also have "\<dots> = of_int 2000000000" by (rule fl_of_int) simp
  finally have hi: "f64 (x * milli_scale) \<le> 2000000000" by simp
  show ?thesis
    using lo hi unfolding m milli_ok_def round_away_def by (simp add: le_floor_iff floor_le_iff)
qed

section \<open>Query bounds\<close>

lemma milli_ceil_near:
  assumes "milli_ok m"
  shows "m \<le> milli_ceil (Fin (from_milli m)) \<and> milli_ceil (Fin (from_milli m)) \<le> m + 1"
proof -
  let ?b = "f64 (from_milli m * milli_scale)"
  have near: "?b - of_int m < 1 / 2" "of_int m - ?b < 1 / 2"
  proof -
    have "\<bar>?b - of_int m\<bar> < 1 / 2" using scaled_back_error [of m] assms by (simp add: milli_ok_def)
    then show "?b - of_int m < 1 / 2" "of_int m - ?b < 1 / 2"
      by (simp_all only: abs_less_iff) linarith
  qed
  have c: "m \<le> \<lceil>?b\<rceil>" "\<lceil>?b\<rceil> \<le> m + 1"
    using near by (simp_all add: le_ceiling_iff ceiling_le_iff)
  have "clamp_to 0 i32_max \<lceil>?b\<rceil> = \<lceil>?b\<rceil>"
  proof (rule clamp_to_id)
    show "0 \<le> \<lceil>?b\<rceil>" using assms c by (simp only: milli_ok_def) linarith
    have "i32_max = 2147483647" by (simp add: i32_max_def)
    then show "\<lceil>?b\<rceil> \<le> i32_max" using assms c by (simp only: milli_ok_def) linarith
  qed
  then show ?thesis using c by (simp only: milli_ceil.simps)
qed

lemma milli_ceil_whole:
  assumes "0 \<le> w" "w \<le> 200000"
  shows "milli_ceil (Fin (of_int w)) = milli_of_whole w"
proof -
  have "f64 (of_int w * milli_scale) = of_int (w * 10000)"
    using assms by (simp add: milli_scale_def fl_of_int [of "w * 10000" 53, simplified])
  then have "milli_ceil (Fin (of_int w)) = clamp_to 0 i32_max (w * 10000)"
    by (simp only: milli_ceil.simps ceiling_of_int)
  then show ?thesis
    using assms by (simp add: milli_of_whole_def milli_scale_int_def i32_max_def)
qed

lemma whole_of_milli_floor:
  "0 \<le> m \<Longrightarrow> whole_of_milli m = \<lfloor>of_int m / milli_scale :: rat\<rfloor>"
  by (cases "m = 0") (simp_all add: whole_of_milli_def signed_divide_int_def milli_scale_def milli_scale_int_def
      floor_divide_of_int_eq [of m 10000, simplified])

end
