(* ===== verification/Reading_Progress.thy ===== *)
theory Reading_Progress
  imports Chapter_Number
begin

text \<open>
  A reader's two frontiers per series, \<open>src/crates/db/src/repo/tracking/progress.rs\<close>: the
  highest whole chapter read and a part release read ahead of it, the statements that move them
  and the test that reads them. The columns are \<open>numeric(10,4)\<close>, kept here as the integer
  number of ten-thousandths; the code reads them back as \<open>f64\<close>. A series' catalogue is the
  list of the scaled chapter numbers its sources carry.
\<close>

section \<open>The stored rows\<close>

type_synonym user_id = nat
type_synonym series_id = nat

text \<open>\<open>NoAnswer\<close> is the failure of a statement that never reached the tables: it changes nothing.\<close>

datatype db_error = NumericOverflow | RowNotFound | ForeignKeyViolation | UniqueViolation | NoAnswer

text \<open>The cast \<open>float8::numeric(10,4)\<close>: four decimals, ten digits, and an error past them.\<close>

definition to_numeric :: "rat \<Rightarrow> (db_error, int) result" where
  "to_numeric x = (let m = round_away (x * 10000) in
     if 10 ^ 10 \<le> \<bar>m\<bar> then Err NumericOverflow else Ok m)"

record progress_row =
  pr_whole :: int
  pr_part :: "int option"
  pr_updated_at :: int

record read_progress =
  last_read_whole_number :: rat
  last_read_part_number :: "rat option"

definition read_progress_default :: read_progress where
  "read_progress_default = \<lparr>last_read_whole_number = 0, last_read_part_number = None\<rparr>"

definition is_whole :: "rat \<Rightarrow> bool" where
  "is_whole number \<longleftrightarrow> number - of_int (if 0 \<le> number then \<lfloor>number\<rfloor> else \<lceil>number\<rceil>) = 0"

definition covers :: "read_progress \<Rightarrow> rat \<Rightarrow> bool" where
  "covers r number \<longleftrightarrow>
     of_int \<lfloor>number\<rfloor> \<le> last_read_whole_number r \<or>
     (\<not> is_whole number \<and>
      (case last_read_part_number r of None \<Rightarrow> False | Some p \<Rightarrow> number \<le> p))"

type_synonym progress_table = "(user_id \<times> series_id, progress_row) tbl"

definition progress_get_full :: "progress_table \<Rightarrow> user_id \<Rightarrow> series_id \<Rightarrow> read_progress option" where
  "progress_get_full t u s =
     map_option (\<lambda>r. \<lparr>last_read_whole_number = from_milli (pr_whole r),
       last_read_part_number = map_option from_milli (pr_part r)\<rparr>) (map_of t (u, s))"

definition progress_state :: "progress_table \<Rightarrow> user_id \<Rightarrow> series_id \<Rightarrow> (rat \<times> int) option" where
  "progress_state t u s =
     map_option (\<lambda>r. (from_milli (pr_whole r), pr_updated_at r)) (map_of t (u, s))"

text \<open>The row \<open>progress_set\<close> leaves, once its value has been cast.\<close>

definition set_row :: "int \<Rightarrow> int \<Rightarrow> progress_row option \<Rightarrow> progress_row" where
  "set_row now m old =
     (case old of
        None \<Rightarrow> \<lparr>pr_whole = m, pr_part = None, pr_updated_at = now\<rparr>
      | Some r \<Rightarrow> \<lparr>pr_whole = m,
          pr_part = (case pr_part r of
             None \<Rightarrow> None
           | Some p \<Rightarrow> if p div 10000 * 10000 \<le> m then None else Some p),
          pr_updated_at = now\<rparr>)"

definition progress_put :: "int \<Rightarrow> user_id \<times> series_id \<Rightarrow> int \<Rightarrow> progress_table \<Rightarrow> progress_table" where
  "progress_put now k m t = AList.update k (set_row now m (map_of t k)) t"

definition progress_set ::
  "int \<Rightarrow> user_id \<Rightarrow> series_id \<Rightarrow> rat \<Rightarrow> progress_table \<Rightarrow> (db_error, progress_table) result" where
  "progress_set now u s x t =
     bind_result (to_numeric x) (\<lambda>m. Ok (progress_put now (u, s) m t))"

definition progress_write ::
  "int \<Rightarrow> user_id \<Rightarrow> series_id \<Rightarrow> rat \<Rightarrow> rat option \<Rightarrow> progress_table \<Rightarrow>
     (db_error, progress_table) result" where
  "progress_write now u s whole part t =
     bind_result (to_numeric whole) (\<lambda>w.
     bind_result (case part of None \<Rightarrow> Ok None | Some p \<Rightarrow> bind_result (to_numeric p) (\<lambda>m. Ok (Some m)))
       (\<lambda>p. Ok (AList.update (u, s) \<lparr>pr_whole = w, pr_part = p, pr_updated_at = now\<rparr> t)))"

section \<open>Moving the frontiers\<close>

definition max_option :: "int list \<Rightarrow> int option" where
  "max_option xs = (if xs = [] then None else Some (Max (set xs)))"

definition prev_whole_below :: "int list \<Rightarrow> rat \<Rightarrow> rat" where
  "prev_whole_below chapters number =
     (let bound = milli_of_whole (whole_ceil (Fin number))
      in case max_option (map (\<lambda>c. c div 10000) [c \<leftarrow> chapters. c < bound]) of
           None \<Rightarrow> 0
         | Some w \<Rightarrow> of_int w)"

definition prev_part_below :: "int list \<Rightarrow> rat \<Rightarrow> rat \<Rightarrow> rat option" where
  "prev_part_below chapters number whole =
     (let upper = milli_ceil (Fin number);
          lower = milli_of_whole (whole_floor (Fin whole) + 1)
      in map_option from_milli
           (max_option [c \<leftarrow> chapters. c < upper \<and> lower \<le> c \<and> c mod 10000 \<noteq> 0]))"

definition mark_read_frontiers :: "int list \<Rightarrow> read_progress \<Rightarrow> rat \<Rightarrow> read_progress" where
  "mark_read_frontiers chapters cur number =
     (let whole = last_read_whole_number cur; part = last_read_part_number cur
      in if is_whole number then
           (let whole' = max whole number
            in \<lparr>last_read_whole_number = whole',
                last_read_part_number =
                  (case part of None \<Rightarrow> None
                   | Some p \<Rightarrow> if of_int \<lfloor>p\<rfloor> \<le> whole' then None else Some p)\<rparr>)
         else if whole < of_int \<lfloor>number\<rfloor> then
           \<lparr>last_read_whole_number =
              (if whole + 1 < of_int \<lfloor>number\<rfloor>
               then max whole (prev_whole_below chapters (of_int \<lfloor>number\<rfloor>)) else whole),
            last_read_part_number =
              Some (case part of None \<Rightarrow> number | Some p \<Rightarrow> max p number)\<rparr>
         else cur)"

definition mark_unread_frontiers :: "int list \<Rightarrow> read_progress \<Rightarrow> rat \<Rightarrow> read_progress" where
  "mark_unread_frontiers chapters cur number =
     (let whole = last_read_whole_number cur; part = last_read_part_number cur
      in if is_whole number then
           (if number \<le> whole then
              \<lparr>last_read_whole_number = prev_whole_below chapters number,
               last_read_part_number = None\<rparr>
            else if (case part of None \<Rightarrow> False | Some p \<Rightarrow> number \<le> p) then
              \<lparr>last_read_whole_number = whole,
               last_read_part_number = prev_part_below chapters number whole\<rparr>
            else cur)
         else if of_int \<lfloor>number\<rfloor> \<le> whole then
           (let whole' = prev_whole_below chapters (of_int \<lfloor>number\<rfloor>)
            in \<lparr>last_read_whole_number = whole',
                last_read_part_number = prev_part_below chapters number whole'\<rparr>)
         else
           \<lparr>last_read_whole_number = whole,
            last_read_part_number =
              (case part of
                 None \<Rightarrow> None
               | Some p \<Rightarrow> if p < number then Some p else prev_part_below chapters number whole)\<rparr>)"

definition progress_mark_read ::
  "int \<Rightarrow> int list \<Rightarrow> user_id \<Rightarrow> series_id \<Rightarrow> rat \<Rightarrow> progress_table \<Rightarrow>
     (db_error, progress_table) result" where
  "progress_mark_read now chapters u s number t =
     (let cur = (case progress_get_full t u s of None \<Rightarrow> read_progress_default | Some r \<Rightarrow> r);
          new = mark_read_frontiers chapters cur number
      in progress_write now u s (last_read_whole_number new) (last_read_part_number new) t)"

definition progress_mark_unread ::
  "int \<Rightarrow> int list \<Rightarrow> user_id \<Rightarrow> series_id \<Rightarrow> rat \<Rightarrow> progress_table \<Rightarrow>
     (db_error, progress_table) result" where
  "progress_mark_unread now chapters u s number t =
     (let cur = (case progress_get_full t u s of None \<Rightarrow> read_progress_default | Some r \<Rightarrow> r);
          new = mark_unread_frontiers chapters cur number
      in progress_write now u s (last_read_whole_number new) (last_read_part_number new) t)"

text \<open>What a reader sees: no row reads as the default.\<close>

definition reading :: "progress_table \<Rightarrow> user_id \<Rightarrow> series_id \<Rightarrow> read_progress" where
  "reading t u s = (case progress_get_full t u s of None \<Rightarrow> read_progress_default | Some r \<Rightarrow> r)"

section \<open>Storage\<close>

lemma to_numeric_from_milli:
  assumes "milli_ok m" shows "to_numeric (from_milli m) = Ok m"
proof -
  define x where "x = (of_int m :: rat) / 10000"
  have x: "0 \<le> x" "x \<le> 200000" using assms by (simp_all add: x_def milli_ok_def)
  have err: "\<bar>from_milli m - x\<bar> \<le> exp2 (- int 53) * x"
    using fl_error [of 53 x] x by (simp add: from_milli_def milli_scale_def x_def)
  have "exp2 (- int 53) * x \<le> 1 / 100000" using x by (simp add: exp2_def)
  with err have "\<bar>from_milli m - x\<bar> \<le> 1 / 100000" by linarith
  then have "from_milli m - x \<le> 1 / 100000" "- (1 / 100000) \<le> from_milli m - x"
    by (simp_all only: abs_le_iff) linarith
  then have "\<bar>from_milli m * 10000 - of_int m\<bar> < 1 / 2"
    unfolding x_def by (intro abs_less_iff [THEN iffD2] conjI) linarith+
  then have "round_away (from_milli m * 10000) = m" by (rule round_away_near)
  then show ?thesis using assms by (simp add: to_numeric_def milli_ok_def)
qed

lemma to_numeric_whole:
  assumes "\<bar>w\<bar> < 1000000" shows "to_numeric (of_int w) = Ok (milli_of_whole w)"
proof -
  have "round_away (of_int w * 10000) = w * 10000"
    using round_away_of_int [of "w * 10000"] by simp
  then show ?thesis
    using assms by (simp add: to_numeric_def Let_def milli_of_whole_def milli_scale_int_def abs_mult)
qed

interpretation progress_whole:
  row_store "\<lambda>t k. map_option pr_whole (map_of t k)" "progress_put now"
  by unfold_locales (simp_all add: progress_put_def update_conv' set_row_def split: option.split)

section \<open>The frontiers in the stored domain\<close>

definition frontier :: "int \<Rightarrow> int option \<Rightarrow> read_progress" where
  "frontier w p = \<lparr>last_read_whole_number = of_int w, last_read_part_number = map_option from_milli p\<rparr>"

definition part_ahead :: "int \<Rightarrow> int option \<Rightarrow> bool" where
  "part_ahead w p \<longleftrightarrow> (\<forall>c. p = Some c \<longrightarrow> milli_ok c \<and> c mod 10000 \<noteq> 0 \<and> w < c div 10000)"

lemma part_ahead_simps:
  "part_ahead w None" "part_ahead w (Some c) \<longleftrightarrow> milli_ok c \<and> c mod 10000 \<noteq> 0 \<and> w < c div 10000"
  by (auto simp: part_ahead_def)

definition frontier_ok :: "read_progress \<Rightarrow> bool" where
  "frontier_ok r \<longleftrightarrow> (\<exists>w p. r = frontier w p \<and> 0 \<le> w \<and> w \<le> 200000 \<and> part_ahead w p)"

lemma frontier_sel [simp]:
  "last_read_whole_number (frontier w p) = of_int w"
  "last_read_part_number (frontier w p) = map_option from_milli p"
  by (simp_all add: frontier_def)

lemma div_lt_mono: "(a::int) div 10000 < b div 10000 \<Longrightarrow> a < b"
  by (meson linorder_not_less zdiv_mono1 zero_less_numeral)

lemma milli_div_range: "milli_ok m \<Longrightarrow> 0 \<le> m div 10000 \<and> m div 10000 \<le> 200000"
  using div_mult_mod_eq [of m 10000] pos_mod_sign [of 10000 m] pos_mod_bound [of 10000 m]
  by (auto simp: milli_ok_def pos_imp_zdiv_nonneg_iff)

lemma from_milli_eq_of_int:
  "milli_ok m \<Longrightarrow> m mod 10000 = 0 \<Longrightarrow> from_milli m = of_int (m div 10000)"
proof -
  assume m: "milli_ok m" "m mod 10000 = 0"
  then have "m = milli_of_whole (m div 10000)"
    by (simp add: milli_of_whole_def milli_scale_int_def)
      (metis add.right_neutral div_mult_mod_eq)
  moreover have "from_milli (milli_of_whole (m div 10000)) = of_int (m div 10000)"
    by (rule from_milli_whole) (use milli_div_range [OF m(1)] in simp)
  ultimately show ?thesis by simp
qed

lemma is_whole_of_int [simp]: "is_whole (of_int k)"
  by (simp add: is_whole_def)

lemma is_whole_from_milli:
  assumes "milli_ok m" shows "is_whole (from_milli m) \<longleftrightarrow> m mod 10000 = 0"
proof
  have nn: "0 \<le> from_milli m" using assms from_milli_nonneg by (simp add: milli_ok_def)
  show "is_whole (from_milli m)" if "m mod 10000 = 0"
    using from_milli_eq_of_int [OF assms that] nn by (simp add: is_whole_def)
  assume "is_whole (from_milli m)"
  then have "from_milli m = of_int (m div 10000)"
    using nn by (simp add: is_whole_def floor_from_milli [OF assms])
  also have "\<dots> = from_milli (milli_of_whole (m div 10000))"
    by (rule from_milli_whole [symmetric]) (use milli_div_range [OF assms] in simp)
  finally have eq: "from_milli m = from_milli (milli_of_whole (m div 10000))" .
  have "\<not> milli_of_whole (m div 10000) < m"
  proof
    assume "milli_of_whole (m div 10000) < m"
    then have "from_milli (milli_of_whole (m div 10000)) < from_milli m"
      using assms milli_div_range [OF assms]
      by (intro from_milli_strict) (simp_all add: milli_ok_def milli_of_whole_def milli_scale_int_def)
    then show False using eq by simp
  qed
  then have "m \<le> m div 10000 * 10000" by (simp add: milli_of_whole_def milli_scale_int_def)
  moreover have "m div 10000 * 10000 + m mod 10000 = m" by (rule div_mult_mod_eq)
  ultimately show "m mod 10000 = 0" using pos_mod_sign [of 10000 m] by linarith
qed

lemma from_milli_le: "milli_ok m \<Longrightarrow> milli_ok n \<Longrightarrow> from_milli m \<le> from_milli n \<longleftrightarrow> m \<le> n"
  by (rule from_milli_le_iff) (simp_all add: milli_ok_def)

lemma from_milli_less: "milli_ok m \<Longrightarrow> milli_ok n \<Longrightarrow> from_milli m < from_milli n \<longleftrightarrow> m < n"
  using from_milli_le [of n m] by (simp add: linorder_not_le [symmetric])

lemma covers_frontier:
  assumes "milli_ok m" "part_ahead w p"
  shows "covers (frontier w p) (from_milli m) \<longleftrightarrow>
    m div 10000 \<le> w \<or> (m mod 10000 \<noteq> 0 \<and> (\<exists>c. p = Some c \<and> m \<le> c))"
  using assms
  by (cases p) (simp_all add: covers_def floor_from_milli is_whole_from_milli part_ahead_def
      from_milli_le)

section \<open>The catalogue queries\<close>

lemma max_option_None [simp]: "max_option xs = None \<longleftrightarrow> xs = []"
  by (simp add: max_option_def)

lemma max_option_Some: "max_option xs = Some x \<Longrightarrow> x \<in> set xs"
  by (auto simp: max_option_def split: if_splits intro!: Max_in)

lemma max_option_ge: "max_option xs = Some x \<Longrightarrow> y \<in> set xs \<Longrightarrow> y \<le> x"
  by (auto simp: max_option_def split: if_splits)

definition catalogue_ok :: "int list \<Rightarrow> bool" where
  "catalogue_ok chapters \<longleftrightarrow> (\<forall>c \<in> set chapters. milli_ok c)"

lemma prev_whole_below_spec:
  assumes cat: "catalogue_ok chapters" and k: "0 \<le> k" "k \<le> 200000"
  shows "\<exists>w. prev_whole_below chapters (of_int k) = of_int w \<and> 0 \<le> w \<and> (w < k \<or> w = 0)"
proof -
  have bound: "milli_of_whole (whole_ceil (Fin (of_int k))) = k * 10000"
    using k by (simp add: milli_of_whole_def milli_scale_int_def max_chapter_number_def)
  let ?q = "max_option (map (\<lambda>c. c div 10000) [c \<leftarrow> chapters. c < k * 10000])"
  have prev: "prev_whole_below chapters (of_int k) = (case ?q of None \<Rightarrow> 0 | Some w \<Rightarrow> of_int w)"
    by (simp only: prev_whole_below_def Let_def bound)
  show ?thesis
  proof (cases ?q)
    case None
    show ?thesis unfolding prev None by (intro exI [of _ 0]) simp
  next
    case (Some w)
    then obtain c where c: "c \<in> set chapters" "c < k * 10000" "w = c div 10000"
      using max_option_Some [OF Some] by auto
    have "0 \<le> w" using c cat milli_div_range by (auto simp: catalogue_ok_def)
    moreover have "w < k" using c by simp
    ultimately show ?thesis unfolding prev Some by (intro exI [of _ w]) simp
  qed
qed

lemma prev_part_below_spec:
  assumes cat: "catalogue_ok chapters" and m: "milli_ok m" and w: "0 \<le> w" "w \<le> 200000"
  shows "\<exists>p. prev_part_below chapters (from_milli m) (of_int w) = map_option from_milli p \<and>
     part_ahead w p \<and>
     (\<forall>c. p = Some c \<longrightarrow> c \<in> set chapters \<and> c < milli_ceil (Fin (from_milli m))) \<and>
     (\<forall>c \<in> set chapters. c < milli_ceil (Fin (from_milli m)) \<longrightarrow> w < c div 10000 \<longrightarrow> c mod 10000 \<noteq> 0 \<longrightarrow>
        (\<exists>d. p = Some d \<and> c \<le> d))"
proof -
  define up where "up = milli_ceil (Fin (from_milli m))"
  define q where "q = max_option [c \<leftarrow> chapters. c < up \<and> milli_of_whole (w + 1) \<le> c \<and> c mod 10000 \<noteq> 0]"
  have lower: "whole_floor (Fin (of_int w)) = w"
    using w by (simp add: max_chapter_number_def)
  have eq: "prev_part_below chapters (from_milli m) (of_int w) = map_option from_milli q"
    by (simp only: prev_part_below_def Let_def lower q_def up_def)
  have found: "c \<in> set chapters \<and> c < up \<and> milli_of_whole (w + 1) \<le> c \<and> c mod 10000 \<noteq> 0"
    if "q = Some c" for c
    using max_option_Some [OF that [unfolded q_def]] by simp
  have ahead: "w < c div 10000" if "milli_of_whole (w + 1) \<le> c" for c
    using zdiv_mono1 [OF that, of 10000] by (simp add: milli_of_whole_def milli_scale_int_def)
  have "part_ahead w q"
    using found ahead cat by (simp add: part_ahead_def catalogue_ok_def)
  moreover have "\<exists>d. q = Some d \<and> c \<le> d"
    if "c \<in> set chapters" "c < up" "w < c div 10000" "c mod 10000 \<noteq> 0" for c
  proof -
    have "milli_of_whole (w + 1) \<le> c"
      using that(3) by (simp add: milli_of_whole_def milli_scale_int_def)
    then have "c \<in> set [c \<leftarrow> chapters. c < up \<and> milli_of_whole (w + 1) \<le> c \<and> c mod 10000 \<noteq> 0]"
      using that by simp
    then show ?thesis unfolding q_def by (cases "max_option [c \<leftarrow> chapters. c < up \<and> milli_of_whole (w + 1) \<le> c \<and> c mod 10000 \<noteq> 0]")
        (auto dest: max_option_ge simp del: set_filter)
  qed
  ultimately show ?thesis using found eq by (auto simp: up_def)
qed

section \<open>What the transitions promise\<close>

definition reads :: "int \<Rightarrow> int option \<Rightarrow> int \<Rightarrow> bool" where
  "reads w p m \<longleftrightarrow> m div 10000 \<le> w \<or> (m mod 10000 \<noteq> 0 \<and> (\<exists>c. p = Some c \<and> m \<le> c))"

lemma reads_Some:
  "reads w (Some c) m \<longleftrightarrow> m div 10000 \<le> w \<or> (m mod 10000 \<noteq> 0 \<and> m \<le> c)"
  by (auto simp: reads_def)

lemma max_of_int: "max (of_int a :: rat) (of_int b) = of_int (max a b)"
  by (simp add: max_def)

lemma mark_read_whole:
  assumes m: "milli_ok m" "m mod 10000 = 0" and w: "0 \<le> w" "w \<le> 200000" and p: "part_ahead w p"
  shows "mark_read_frontiers chapters (frontier w p) (from_milli m) =
     frontier (max w (m div 10000))
       (case p of None \<Rightarrow> None | Some c \<Rightarrow> if c div 10000 \<le> max w (m div 10000) then None else Some c)"
proof -
  have "milli_ok c" if "p = Some c" for c using p that by (simp add: part_ahead_def)
  moreover have "of_int \<lfloor>from_milli c\<rfloor> \<le> max (of_int w) (of_int (m div 10000) :: rat) \<longleftrightarrow>
      c div 10000 \<le> max w (m div 10000)" if "milli_ok c" for c
    unfolding max_of_int by (simp add: floor_from_milli [OF that])
  ultimately show ?thesis
    using m by (cases p) (simp_all add: mark_read_frontiers_def Let_def is_whole_from_milli
        from_milli_eq_of_int frontier_def max_of_int del: of_int_le_iff)
qed

lemma mark_read_spec:
  assumes m: "milli_ok m" and w: "0 \<le> w" "w \<le> 200000" and p: "part_ahead w p"
    and cat: "catalogue_ok chapters"
  shows "\<exists>w' p'. mark_read_frontiers chapters (frontier w p) (from_milli m) = frontier w' p' \<and>
     0 \<le> w' \<and> w' \<le> 200000 \<and> part_ahead w' p' \<and> reads w' p' m \<and>
     (\<forall>n. reads w p n \<longrightarrow> reads w' p' n)"
proof (cases "m mod 10000 = 0")
  case True
  note eq = mark_read_whole [OF m True w p, of chapters]
  have d: "m div 10000 \<le> 200000" using milli_div_range [OF m] by simp
  have stale: "n div 10000 \<le> c div 10000" if "n \<le> c" for n c :: int
    using that by (simp add: zdiv_mono1)
  define w' where "w' = max w (m div 10000)"
  define p' where "p' = (case p of None \<Rightarrow> None | Some c \<Rightarrow> if c div 10000 \<le> w' then None else Some c)"
  have w': "w \<le> w'" "m div 10000 \<le> w'" "w' \<le> 200000" using w d by (simp_all add: w'_def)
  have ahead: "part_ahead w' p'"
    using p by (cases p) (simp_all add: p'_def part_ahead_def)
  have kept: "reads w' p' n" if r: "reads w p n" for n
  proof (cases "n div 10000 \<le> w'")
    case False
    then obtain c where c: "n mod 10000 \<noteq> 0" "p = Some c" "n \<le> c"
      using r w'(1) by (auto simp: reads_def)
    have "\<not> c div 10000 \<le> w'" using stale [OF c(3)] False by linarith
    then show ?thesis using c by (simp add: reads_def p'_def)
  qed (simp add: reads_def)
  have "mark_read_frontiers chapters (frontier w p) (from_milli m) = frontier w' p'"
    unfolding eq w'_def p'_def ..
  then show ?thesis
    using w' w ahead kept by (intro exI [of _ w'] exI [of _ p']) (simp add: reads_def)
next
  case False
  let ?k = "m div 10000"
  note mw = is_whole_from_milli [OF m] and mf = floor_from_milli [OF m]
  show ?thesis
  proof (cases "w < ?k")
    case ahead: True
    obtain v where v: "prev_whole_below chapters (of_int ?k) = of_int v" "0 \<le> v" "v < ?k \<or> v = 0"
      using prev_whole_below_spec [OF cat, of ?k] milli_div_range [OF m] by auto
    define w' where "w' = (if w + 1 < ?k then max w v else w)"
    define p' where "p' = (case p of None \<Rightarrow> m | Some c \<Rightarrow> max c m)"
    have pm: "max (from_milli c) (from_milli m) = from_milli (max c m)" if "milli_ok c" for c
      using from_milli_le [OF that m] by (auto simp: max_def)
    have eq: "mark_read_frontiers chapters (frontier w p) (from_milli m) = frontier w' (Some p')"
    proof -
      define k where "k = ?k"
      have k: "w < k" "\<lfloor>from_milli m\<rfloor> = k" "prev_whole_below chapters (of_int k) = of_int v"
        using ahead mf v(1) by (simp_all add: k_def)
      have step: "(of_int w :: rat) + 1 < of_int k \<longleftrightarrow> w + 1 < k"
        by (metis of_int_1 of_int_add of_int_less_iff)
      have nw: "\<not> is_whole (from_milli m)" using False mw by simp
      have mp: "max (from_milli c) (from_milli m) = from_milli (max c m)" if "p = Some c" for c
        using p that pm by (simp add: part_ahead_def)
      show ?thesis
        unfolding w'_def p'_def k_def [symmetric]
        using k(1) nw mp by (cases p) (simp_all add: mark_read_frontiers_def Let_def k(2,3) step
            frontier_def max_of_int)
    qed
    have below: "w' < ?k" using ahead v w by (auto simp: w'_def)
    have mp': "m \<le> p'" by (simp add: p'_def split: option.split)
    have "?k \<le> p' div 10000" by (rule zdiv_mono1 [OF mp']) simp
    then have over: "w' < p' div 10000" by (rule less_le_trans [OF below])
    have okp: "milli_ok p'" "p' mod 10000 \<noteq> 0"
      using p m False by (cases p; simp add: p'_def part_ahead_def max_def)+
    have grows: "c \<le> p'" if "p = Some c" for c using that by (simp add: p'_def)
    have up: "w \<le> w'" by (simp add: w'_def)
    have top: "w' \<le> 200000" using below milli_div_range [OF m] by linarith
    have new: "part_ahead w' (Some p')"
      using over okp unfolding part_ahead_simps by blast
    have this_one: "reads w' (Some p') m" using mp' False unfolding reads_Some by blast
    have kept: "reads w' (Some p') n" if "reads w p n" for n
      using that unfolding reads_def [of w]
    proof
      assume "n div 10000 \<le> w"
      then have "n div 10000 \<le> w'" using up by (rule order_trans)
      then show ?thesis unfolding reads_Some ..
    next
      assume "n mod 10000 \<noteq> 0 \<and> (\<exists>c. p = Some c \<and> n \<le> c)"
      then obtain c where "n mod 10000 \<noteq> 0" "p = Some c" "n \<le> c" by blast
      then show ?thesis using order_trans [OF _ grows] unfolding reads_Some by blast
    qed
    show ?thesis
      unfolding eq
      by (intro exI [of _ w'] exI [of _ "Some p'"] conjI allI impI refl top new this_one kept
          order_trans [OF w(1) up])
  next
    case behind: False
    have "mark_read_frontiers chapters (frontier w p) (from_milli m) = frontier w p"
      using False behind by (simp add: mark_read_frontiers_def Let_def mw mf)
    then show ?thesis using w p behind by (intro exI conjI) (auto simp: reads_def)
  qed
qed

text \<open>
  Un-reading rests on the query bound of the part frontier. Where the bound is the exact one the
  chapter itself is left out and ends up unread; where the rounded product is one too high, the
  catalogue's own row of the chapter is what the frontier retreats to.
\<close>

lemma mark_unread_spec:
  assumes m: "milli_ok m" and w: "0 \<le> w" "w \<le> 200000" and p: "part_ahead w p"
    and cat: "catalogue_ok chapters"
  shows "\<exists>w' p'. mark_unread_frontiers chapters (frontier w p) (from_milli m) = frontier w' p' \<and>
     0 \<le> w' \<and> w' \<le> 200000 \<and> part_ahead w' p' \<and> (\<forall>n. reads w' p' n \<longrightarrow> reads w p n) \<and>
     (reads w' p' m \<longleftrightarrow> m < 10000 \<or>
        m mod 10000 \<noteq> 0 \<and> milli_ceil (Fin (from_milli m)) \<noteq> m \<and> m \<in> set chapters \<and> reads w p m)"
proof -
  let ?k = "m div 10000"
  note mw = is_whole_from_milli [OF m] and mf = floor_from_milli [OF m]
    and k = milli_div_range [OF m]
  obtain v where v: "prev_whole_below chapters (of_int ?k) = of_int v" "0 \<le> v" "v < ?k \<or> v = 0"
    using prev_whole_below_spec [OF cat, of ?k] k by auto
  let ?stay = "milli_ceil (Fin (from_milli m)) \<noteq> m \<and> m \<in> set chapters"
  have near: "milli_ceil (Fin (from_milli m)) \<le> m + 1" "m \<le> milli_ceil (Fin (from_milli m))"
    using milli_ceil_near [OF m] by simp_all
  have part: "\<exists>q. prev_part_below chapters (from_milli m) (of_int u) = map_option from_milli q \<and>
      part_ahead u q \<and> (\<forall>c. q = Some c \<longrightarrow> c \<le> m) \<and>
      (u < ?k \<longrightarrow> m mod 10000 \<noteq> 0 \<longrightarrow> (q = Some m \<longleftrightarrow> ?stay))"
    if u: "0 \<le> u" "u \<le> 200000" for u
  proof -
    obtain q where q: "prev_part_below chapters (from_milli m) (of_int u) = map_option from_milli q" "part_ahead u q"
      "\<And>c. q = Some c \<Longrightarrow> c \<in> set chapters \<and> c < milli_ceil (Fin (from_milli m))"
      "\<And>c. c \<in> set chapters \<Longrightarrow> c < milli_ceil (Fin (from_milli m)) \<Longrightarrow> u < c div 10000 \<Longrightarrow> c mod 10000 \<noteq> 0 \<Longrightarrow>
         \<exists>d. q = Some d \<and> c \<le> d"
      using prev_part_below_spec [OF cat m u] by (elim exE conjE) (rule that; blast)
    have le: "c \<le> m" if "q = Some c" for c using q(3) [OF that] near by linarith
    moreover have "q = Some m" if "?stay" "u < ?k" "m mod 10000 \<noteq> 0"
    proof -
      have "m < milli_ceil (Fin (from_milli m))" using that near by linarith
      then show ?thesis using q(4) [of m] le that by force
    qed
    ultimately show ?thesis using q by (intro exI [of _ q]) auto
  qed
  have low: "?k \<le> 0 \<longleftrightarrow> m < 10000" using m by (simp add: milli_ok_def) linarith
  have down: "n div 10000 \<le> c div 10000" if "n \<le> c" for n c :: int using that by (simp add: zdiv_mono1)
  show ?thesis
  proof (cases "m mod 10000 = 0")
    case whole: True
    note me = from_milli_eq_of_int [OF m whole]
    show ?thesis
    proof (cases "?k \<le> w")
      case True
      have "mark_unread_frontiers chapters (frontier w p) (from_milli m) = frontier v None"
        using whole True mw by (simp add: mark_unread_frontiers_def Let_def me v(1) frontier_def)
      moreover have "?k \<le> v \<longleftrightarrow> m < 10000" using v k low by linarith
      ultimately show ?thesis using v k True w low whole
        by (intro exI [of _ v] exI [of _ None]) (auto simp: reads_def part_ahead_def)
    next
      case ahead: False
      then have far: "\<not> m < 10000" using w low by linarith
      show ?thesis
      proof (cases "\<exists>c. p = Some c \<and> m \<le> c")
        case True
        then obtain c where c: "p = Some c" "m \<le> c" by auto
        obtain q where q: "prev_part_below chapters (from_milli m) (of_int w) = map_option from_milli q"
          "part_ahead w q" "\<And>d. q = Some d \<Longrightarrow> d \<le> m" using part [OF w] by auto
        have "from_milli m \<le> from_milli c"
          using c p from_milli_le [OF m, of c] by (simp add: part_ahead_def)
        then have "mark_unread_frontiers chapters (frontier w p) (from_milli m) = frontier w q"
          using whole ahead mw c q(1) me
          by (simp add: mark_unread_frontiers_def Let_def frontier_def)
        then show ?thesis using q(2,3) w ahead whole c far
          by (intro exI [of _ w] exI [of _ q]) (auto simp: reads_def intro: order_trans)
      next
        case False
        then have "\<not> from_milli m \<le> from_milli c" if "p = Some c" for c
          using that p from_milli_le [OF m, of c] by (simp add: part_ahead_def)
        moreover have "\<not> from_milli m \<le> of_int w" using ahead by (simp add: me)
        ultimately have "mark_unread_frontiers chapters (frontier w p) (from_milli m) = frontier w p"
          using whole mw by (cases p) (simp_all add: mark_unread_frontiers_def Let_def)
        then show ?thesis using w p ahead whole far by (intro exI [of _ w] exI [of _ p]) (auto simp: reads_def)
      qed
    qed
  next
    case frac: False
    show ?thesis
    proof (cases "?k \<le> w")
      case True
      have v200: "v \<le> 200000" "v \<le> w" using v k True w by auto
      obtain q where q: "prev_part_below chapters (from_milli m) (of_int v) = map_option from_milli q"
        "part_ahead v q" "\<And>d. q = Some d \<Longrightarrow> d \<le> m" "v < ?k \<Longrightarrow> q = Some m \<longleftrightarrow> ?stay"
        using part [OF v(2) v200(1)] frac by blast
      have "mark_unread_frontiers chapters (frontier w p) (from_milli m) = frontier v q"
        using frac True mw mf v(1) q(1) by (simp add: mark_unread_frontiers_def Let_def frontier_def)
      moreover have "n div 10000 \<le> w" if "q = Some d" "n \<le> d" for n d
        using down [of n m] q(3) [OF that(1)] that(2) True by linarith
      moreover have "?k \<le> v \<longleftrightarrow> m < 10000" using v k low by linarith
      moreover have "(\<exists>c. q = Some c \<and> m \<le> c) \<longleftrightarrow> ?stay" if "\<not> m < 10000"
        using that q(3,4) calculation(3) by fastforce
      ultimately show ?thesis using q(2) v v200 k True frac
        by (intro exI [of _ v] exI [of _ q]) (auto simp: reads_def)
    next
      case ahead: False
      then have far: "\<not> m < 10000" using w low by linarith
      obtain q where q: "prev_part_below chapters (from_milli m) (of_int w) = map_option from_milli q"
        "part_ahead w q" "\<And>d. q = Some d \<Longrightarrow> d \<le> m" "q = Some m \<longleftrightarrow> ?stay"
        using part [OF w] frac ahead by force
      define p' where "p' = (case p of None \<Rightarrow> None | Some c \<Rightarrow> if c < m then Some c else q)"
      have eq: "mark_unread_frontiers chapters (frontier w p) (from_milli m) = frontier w p'"
        using frac ahead mw mf q(1) p from_milli_less [OF _ m] unfolding p'_def
        by (cases p) (auto simp: mark_unread_frontiers_def Let_def frontier_def part_ahead_def)
      have "part_ahead w p'" using p q(2) by (auto simp: p'_def part_ahead_def split: option.split)
      moreover have "\<exists>c. p = Some c \<and> d \<le> c" if "p' = Some d" for d
        using that q(3) by (auto simp: p'_def split: option.splits if_splits dest: order_trans)
      moreover have "(\<exists>d. p' = Some d \<and> m \<le> d) \<longleftrightarrow> ?stay \<and> (\<exists>c. p = Some c \<and> m \<le> c)"
      proof -
        have "(\<exists>d. q = Some d \<and> m \<le> d) \<longleftrightarrow> q = Some m" using q(3) by (auto intro: antisym)
        then show ?thesis
          using q(4) by (cases p; cases "the p < m") (simp_all add: p'_def not_less)
      qed
      ultimately have ok: "part_ahead w p'" "\<forall>n. reads w p' n \<longrightarrow> reads w p n"
        "reads w p' m \<longleftrightarrow> ?stay \<and> reads w p m"
        using frac ahead by (auto simp: reads_def intro: order_trans)
      then show ?thesis using w frac far unfolding eq
        by (intro exI [of _ w] exI [of _ p']) simp
    qed
  qed
qed

section \<open>The transitions on the table\<close>

definition row_ok :: "progress_row \<Rightarrow> bool" where
  "row_ok r \<longleftrightarrow> (\<exists>w. pr_whole r = milli_of_whole w \<and> 0 \<le> w \<and> w \<le> 200000 \<and> part_ahead w (pr_part r))"

definition progress_ok :: "progress_table \<Rightarrow> bool" where
  "progress_ok t \<longleftrightarrow> (\<forall>k r. map_of t k = Some r \<longrightarrow> row_ok r)"

lemma progress_ok_row: "progress_ok t \<Longrightarrow> map_of t k = Some r \<Longrightarrow> row_ok r"
  unfolding progress_ok_def by blast

lemma reading_frontier:
  assumes "progress_ok t"
  shows "\<exists>w p. reading t u s = frontier w p \<and> 0 \<le> w \<and> w \<le> 200000 \<and> part_ahead w p"
proof (cases "map_of t (u, s)")
  case None
  then show ?thesis
    by (intro exI [of _ 0] exI [of _ None])
      (simp add: reading_def progress_get_full_def read_progress_default_def frontier_def part_ahead_def)
next
  case (Some r)
  then obtain w where "pr_whole r = milli_of_whole w" "0 \<le> w" "w \<le> 200000" "part_ahead w (pr_part r)"
    using progress_ok_row [OF assms Some] by (auto simp: row_ok_def)
  then show ?thesis
    by (intro exI [of _ w] exI [of _ "pr_part r"])
      (simp add: reading_def progress_get_full_def Some frontier_def from_milli_whole)
qed

lemma progress_write_frontier:
  assumes ok: "progress_ok t" and w: "0 \<le> w" "w \<le> 200000" and p: "part_ahead w p"
  defines "r \<equiv> frontier w p"
  shows "\<exists>t'. progress_write now u s (last_read_whole_number r) (last_read_part_number r) t = Ok t' \<and>
     progress_ok t' \<and> reading t' u s = r \<and> (\<forall>k. k \<noteq> (u, s) \<longrightarrow> map_of t' k = map_of t k)"
proof -
  let ?row = "\<lparr>pr_whole = milli_of_whole w, pr_part = p, pr_updated_at = now\<rparr>"
  have "to_numeric (from_milli c) = Ok c" if "p = Some c" for c
    using p that to_numeric_from_milli by (simp add: part_ahead_def)
  then have "progress_write now u s (last_read_whole_number r) (last_read_part_number r) t =
      Ok (AList.update (u, s) ?row t)"
    using w by (cases p) (simp_all add: progress_write_def r_def to_numeric_whole)
  moreover have "row_ok ?row" using w p by (auto simp: row_ok_def)
  moreover have "reading (AList.update (u, s) ?row t) u s = r"
    using w by (simp add: reading_def progress_get_full_def update_conv' r_def frontier_def
        from_milli_whole)
  ultimately show ?thesis using ok by (auto simp: progress_ok_def update_conv')
qed

lemma covers_reads:
  "milli_ok m \<Longrightarrow> part_ahead w p \<Longrightarrow> covers (frontier w p) (from_milli m) \<longleftrightarrow> reads w p m"
  by (simp add: covers_frontier reads_def)

text \<open>C4: marking a chapter read always succeeds on a well-formed table, leaves the table
  well-formed, makes the chapter count as read, takes no chapter that counted as read away from
  the reader, and touches no other reader's or series' row.\<close>

theorem mark_read_table:
  assumes ok: "progress_ok t" and m: "milli_ok m" and cat: "catalogue_ok chapters"
  shows "\<exists>t'. progress_mark_read now chapters u s (from_milli m) t = Ok t' \<and> progress_ok t' \<and>
     covers (reading t' u s) (from_milli m) \<and>
     (\<forall>n. milli_ok n \<longrightarrow> covers (reading t u s) (from_milli n) \<longrightarrow>
        covers (reading t' u s) (from_milli n)) \<and>
     (\<forall>k. k \<noteq> (u, s) \<longrightarrow> map_of t' k = map_of t k)"
proof -
  obtain w p where r: "reading t u s = frontier w p" "0 \<le> w" "w \<le> 200000" "part_ahead w p"
    using reading_frontier [OF ok] by blast
  obtain w' p' where n: "mark_read_frontiers chapters (frontier w p) (from_milli m) = frontier w' p'"
    "0 \<le> w'" "w' \<le> 200000" "part_ahead w' p'" "reads w' p' m" "\<forall>n. reads w p n \<longrightarrow> reads w' p' n"
    using mark_read_spec [OF m r(2-4) cat] by blast
  show ?thesis
    using progress_write_frontier [OF ok n(2-4), of now u s] n m r
    by (auto simp: progress_mark_read_def Let_def covers_reads simp flip: reading_def)
qed

text \<open>C9: marking a chapter unread succeeds, leaves the table well-formed, never makes a
  further chapter count as read and touches no other row. The chapter itself stops counting as read
  with exactly two exceptions: a chapter below 1, which every reader has read
  (\<open>chapter_zero_always_read\<close>), and a part release of the catalogue that was read and whose query
  bound is rounded up past it, like chapter 1.11 (\<open>unread_part_noop\<close>).\<close>

theorem mark_unread_table:
  assumes ok: "progress_ok t" and m: "milli_ok m" and cat: "catalogue_ok chapters"
  shows "\<exists>t'. progress_mark_unread now chapters u s (from_milli m) t = Ok t' \<and> progress_ok t' \<and>
     (\<forall>n. milli_ok n \<longrightarrow> covers (reading t' u s) (from_milli n) \<longrightarrow>
        covers (reading t u s) (from_milli n)) \<and>
     (covers (reading t' u s) (from_milli m) \<longleftrightarrow>
        m < 10000 \<or> m mod 10000 \<noteq> 0 \<and> milli_ceil (Fin (from_milli m)) \<noteq> m \<and> m \<in> set chapters \<and>
          covers (reading t u s) (from_milli m)) \<and>
     (\<forall>k. k \<noteq> (u, s) \<longrightarrow> map_of t' k = map_of t k)"
proof -
  obtain w p where r: "reading t u s = frontier w p" "0 \<le> w" "w \<le> 200000" "part_ahead w p"
    using reading_frontier [OF ok] by blast
  obtain w' p' where n: "mark_unread_frontiers chapters (frontier w p) (from_milli m) = frontier w' p'"
    "0 \<le> w'" "w' \<le> 200000" "part_ahead w' p'" "\<forall>n. reads w' p' n \<longrightarrow> reads w p n"
    "reads w' p' m \<longleftrightarrow> m < 10000 \<or>
       m mod 10000 \<noteq> 0 \<and> milli_ceil (Fin (from_milli m)) \<noteq> m \<and> m \<in> set chapters \<and> reads w p m"
    using mark_unread_spec [OF m r(2-4) cat] by (elim exE conjE) (rule that)
  obtain t' where t': "progress_write now u s (last_read_whole_number (frontier w' p'))
      (last_read_part_number (frontier w' p')) t = Ok t'" "progress_ok t'" "reading t' u s = frontier w' p'"
      "\<forall>k. k \<noteq> (u, s) \<longrightarrow> map_of t' k = map_of t k"
    using progress_write_frontier [OF ok n(2-4)] by blast
  have "progress_mark_unread now chapters u s (from_milli m) t = Ok t'"
    using t'(1) n(1) r(1) by (simp add: progress_mark_unread_def Let_def flip: reading_def)
  moreover have "covers (reading t' u s) (from_milli c) \<longleftrightarrow> reads w' p' c"
    and "covers (reading t u s) (from_milli c) \<longleftrightarrow> reads w p c" if "milli_ok c" for c
    using that n(4) r(1,4) t'(3) by (simp_all add: covers_reads)
  ultimately show ?thesis using t'(2,4) n(5,6) m by (intro exI [of _ t']) simp
qed

text \<open>
  A counterexample to the bound: \<open>1.11 * 10000\<close> is rounded up past \<open>11100\<close>, so the
  ceiling is \<open>11101\<close> and the catalogue query that should stay below chapter 1.11 returns it.
\<close>

lemma milli_ceil_inexact: "milli_ceil (Fin (from_milli 11100)) = 11101"
  by code_simp

text \<open>The part query bound is not exact: the ceiling of the stored chapter 1.11 is one past
  its stored value, and marking chapter 1.11 unread leaves it counting as read.\<close>

theorem unread_part_noop:
  "milli_ceil (Fin (from_milli 11100)) = 11100 + 1 \<and>
   covers (mark_unread_frontiers [10000, 11100] (frontier 0 (Some 11100)) (from_milli 11100))
     (from_milli 11100)"
  by code_simp

text \<open>A chapter numbered below one counts as read for every reader of a well-formed table,
  one without any progress row included, so no transition can ever make it unread.\<close>

theorem chapter_zero_always_read:
  assumes ok: "progress_ok t" and m: "milli_ok m" "m < 10000"
  shows "covers (reading t u s) (from_milli m)"
proof -
  obtain w p where r: "reading t u s = frontier w p" "0 \<le> w" "part_ahead w p"
    using reading_frontier [OF ok] by blast
  have "m div 10000 = 0" using m by (simp add: milli_ok_def)
  then show ?thesis using r m by (simp add: covers_reads reads_def)
qed

text \<open>
  The statement with a whole-chapter value, the one an external sync writes, keeps the table in
  the same shape.
\<close>

lemma progress_set_table:
  assumes ok: "progress_ok t" and w: "0 \<le> w" "w \<le> 200000"
  shows "\<exists>t'. progress_set now u s (of_int w) t = Ok t' \<and> progress_ok t' \<and>
     (progress_state t' u s = Some (of_int w, now)) \<and>
     (\<forall>k. k \<noteq> (u, s) \<longrightarrow> map_of t' k = map_of t k)"
proof -
  let ?row = "set_row now (milli_of_whole w) (map_of t (u, s))"
  have eq: "progress_set now u s (of_int w) t = Ok (AList.update (u, s) ?row t)"
    using w by (simp add: progress_set_def to_numeric_whole progress_put_def)
  have "c div 10000 * 10000 \<le> milli_of_whole w \<longleftrightarrow> c div 10000 \<le> w" for c
    by (simp add: milli_of_whole_def milli_scale_int_def)
  then have "row_ok ?row"
    using progress_ok_row [OF ok, of "(u, s)"] w
    by (fastforce simp: row_ok_def set_row_def part_ahead_def split: option.splits)
  moreover have "progress_state (AList.update (u, s) ?row t) u s = Some (of_int w, now)"
    using w by (simp add: progress_state_def update_conv' set_row_def from_milli_whole
        split: option.split)
  ultimately show ?thesis using eq ok by (auto simp: progress_ok_def update_conv')
qed

section \<open>Witnesses\<close>

lemma sample_table_ok:
  "progress_ok [((7, 1), \<lparr>pr_whole = 400000, pr_part = Some 421000, pr_updated_at = 5\<rparr>)]"
proof -
  have "row_ok \<lparr>pr_whole = 400000, pr_part = Some 421000, pr_updated_at = 5\<rparr>"
    unfolding row_ok_def
    by (intro exI [of _ 40]) (simp add: milli_of_whole_def milli_scale_int_def part_ahead_def milli_ok_def)
  then show ?thesis by (auto simp: progress_ok_def)
qed

theorem mark_read_table_witness:
  "\<exists>t'. progress_mark_read 9 [400000, 455000, 461000] 7 1 (from_milli 461000)
      [((7, 1), \<lparr>pr_whole = 400000, pr_part = Some 421000, pr_updated_at = 5\<rparr>)] = Ok t' \<and>
    covers (reading t' 7 1) (from_milli 461000)"
  using mark_read_table [OF sample_table_ok, of 461000 "[400000, 455000, 461000]" 9 7 1]
  by (auto simp: milli_ok_def catalogue_ok_def)

theorem mark_unread_table_witness:
  "\<exists>t'. progress_mark_unread 9 [390000, 400000] 7 1 (from_milli 400000)
      [((7, 1), \<lparr>pr_whole = 400000, pr_part = Some 421000, pr_updated_at = 5\<rparr>)] = Ok t' \<and>
    \<not> covers (reading t' 7 1) (from_milli 400000)"
  using mark_unread_table [OF sample_table_ok, of 400000 "[390000, 400000]" 9 7 1]
  by (auto simp: milli_ok_def catalogue_ok_def)

theorem chapter_zero_always_read_witness: "covers (reading [] 7 1) (from_milli 5000)"
  by (rule chapter_zero_always_read) (simp_all add: progress_ok_def milli_ok_def)

end
