(* ===== verification/Sync_Merge.thy ===== *)
theory Sync_Merge
  imports Complex_Main Domain_Enums
begin

text \<open>
  The pure half of external sync: \<open>src/services/sync/src/mapping.rs\<close> (status vocabularies and
  the three-way merge of one field), \<open>src/services/sync/src/engine/plan.rs\<close> (the plan for one
  series) and the conflict policy of \<open>src/crates/contracts/src/sync.rs\<close>.

  A progress is an \<open>f64\<close> the code only compares, copies and rounds; it is a rational here.
  Timestamps are integers.
\<close>

section \<open>Remote statuses\<close>

datatype anilist_status = Current | Planning | Completed | Dropped | Paused | Repeating

fun as_graphql :: "anilist_status \<Rightarrow> string" where
  "as_graphql Current = ''CURRENT''"
| "as_graphql Planning = ''PLANNING''"
| "as_graphql anilist_status.Completed = ''COMPLETED''"
| "as_graphql anilist_status.Dropped = ''DROPPED''"
| "as_graphql anilist_status.Paused = ''PAUSED''"
| "as_graphql Repeating = ''REPEATING''"

definition parse_anilist_status :: "string \<Rightarrow> anilist_status option" where
  "parse_anilist_status token =
     (if token = ''CURRENT'' then Some Current
      else if token = ''PLANNING'' then Some Planning
      else if token = ''COMPLETED'' then Some anilist_status.Completed
      else if token = ''DROPPED'' then Some anilist_status.Dropped
      else if token = ''PAUSED'' then Some anilist_status.Paused
      else if token = ''REPEATING'' then Some Repeating
      else None)"

fun to_watch_status :: "anilist_status \<Rightarrow> watch_status" where
  "to_watch_status Current = Reading"
| "to_watch_status Repeating = Reading"
| "to_watch_status Planning = Planned"
| "to_watch_status anilist_status.Completed = watch_status.Completed"
| "to_watch_status anilist_status.Dropped = watch_status.Dropped"
| "to_watch_status anilist_status.Paused = watch_status.Paused"

fun from_watch_status :: "watch_status \<Rightarrow> anilist_status" where
  "from_watch_status Reading = Current"
| "from_watch_status Planned = Planning"
| "from_watch_status watch_status.Completed = anilist_status.Completed"
| "from_watch_status watch_status.Dropped = anilist_status.Dropped"
| "from_watch_status watch_status.Paused = anilist_status.Paused"

definition content_type_from_origin :: "string option \<Rightarrow> string option \<Rightarrow> content_type" where
  "content_type_from_origin country format =
     (if country = Some ''JP'' then Manga
      else if country = Some ''KR'' then Manhwa
      else if country \<in> {Some ''CN'', Some ''TW'', Some ''HK''} then Manhua
      else if format \<in> {Some ''MANGA'', Some ''ONE_SHOT''} then Manga
      else content_type.Unknown)"

definition series_status_from_media :: "string option \<Rightarrow> series_status" where
  "series_status_from_media status =
     (if status = Some ''RELEASING'' then Ongoing
      else if status = Some ''FINISHED'' then series_status.Completed
      else if status = Some ''HIATUS'' then Hiatus
      else if status = Some ''CANCELLED'' then series_status.Cancelled
      else series_status.Unknown)"

text \<open>
  \<open>progress.max(0.0).round() as i64\<close>: rounding is half away from zero, which on a
  non-negative number is the floor of one half more, and the cast saturates.
\<close>

definition i64_max :: int where "i64_max = 2 ^ 63 - 1"

definition progress_to_int :: "rat \<Rightarrow> int" where
  "progress_to_int progress = min i64_max \<lfloor>max 0 progress + 1 / 2\<rfloor>"

lemma parse_as_graphql [simp]: "parse_anilist_status (as_graphql s) = Some s"
  by (cases s) (simp_all add: parse_anilist_status_def)

lemma as_graphql_parse: "parse_anilist_status t = Some s \<Longrightarrow> as_graphql s = t"
  by (auto simp: parse_anilist_status_def split: if_splits)

lemma to_from_watch_status [simp]: "to_watch_status (from_watch_status w) = w"
  by (cases w) simp_all

lemma from_to_watch_status: "from_watch_status (to_watch_status a) = a \<longleftrightarrow> a \<noteq> Repeating"
  by (cases a) simp_all

lemma progress_to_int_whole:
  assumes "0 \<le> n" "n \<le> i64_max"
  shows "progress_to_int (of_int n) = n"
proof -
  have "\<lfloor>of_int n + (1 / 2 :: rat)\<rfloor> = n" by linarith
  then show ?thesis using assms by (simp add: progress_to_int_def max_def)
qed

lemma progress_to_int_range: "0 \<le> progress_to_int p" "progress_to_int p \<le> i64_max"
  by (auto simp: progress_to_int_def i64_max_def)

lemma progress_to_int_mono: "p \<le> q \<Longrightarrow> progress_to_int p \<le> progress_to_int q"
  unfolding progress_to_int_def by (intro min.mono floor_mono add_right_mono max.mono) auto

section \<open>The conflict policy\<close>

datatype conflict_policy = LocalWins | RemoteWins | NewestWins | AskMe

definition conflict_policy_all :: "conflict_policy list" where
  [codec_simps]: "conflict_policy_all = [LocalWins, RemoteWins, NewestWins, AskMe]"

fun conflict_policy_as_str :: "conflict_policy \<Rightarrow> string" where
  "conflict_policy_as_str LocalWins = ''local_wins''"
| "conflict_policy_as_str RemoteWins = ''remote_wins''"
| "conflict_policy_as_str NewestWins = ''newest_wins''"
| "conflict_policy_as_str AskMe = ''ask_me''"

datatype unknown_conflict_policy = UnknownConflictPolicy string

definition conflict_policy_from_str ::
  "string \<Rightarrow> (unknown_conflict_policy, conflict_policy) result" where
  "conflict_policy_from_str token =
     (case find (\<lambda>p. conflict_policy_as_str p = token) conflict_policy_all of
        Some p \<Rightarrow> Ok p
      | None \<Rightarrow> Err (UnknownConflictPolicy token))"

interpretation conflict_policy_codec:
  token_codec conflict_policy_as_str conflict_policy_from_str conflict_policy_all
proof -
  have "token_codec conflict_policy_as_str
          (str_enum_from_str [] conflict_policy_as_str conflict_policy_all) conflict_policy_all"
    by (rule str_enum_codec, case_tac x) (simp_all add: codec_simps)
  moreover have "conflict_policy_from_str s = Ok x \<longleftrightarrow>
      str_enum_from_str [] conflict_policy_as_str conflict_policy_all s = Ok x" for s x
    by (simp add: conflict_policy_from_str_def str_enum_from_str_def split: option.split)
  ultimately show
    "token_codec conflict_policy_as_str conflict_policy_from_str conflict_policy_all"
    by (simp add: token_codec_def)
qed

section \<open>The three-way merge of one field\<close>

datatype side = Local | Remote

datatype merge_action = Noop | PushLocal | PullRemote | Conflict

record merge_decision =
  md_action :: merge_action
  md_winner :: side
  md_reason :: string

definition decision :: "merge_action \<Rightarrow> side \<Rightarrow> string \<Rightarrow> merge_decision" where
  "decision a w r = \<lparr>md_action = a, md_winner = w, md_reason = r\<rparr>"

fun resolve_conflict :: "conflict_policy \<Rightarrow> side \<Rightarrow> bool \<Rightarrow> merge_decision" where
  "resolve_conflict LocalWins _ True = decision PushLocal Local ''no_ancestor_policy_local_wins''"
| "resolve_conflict LocalWins _ False =
     decision PushLocal Local ''both_sides_changed_policy_local_wins''"
| "resolve_conflict RemoteWins _ True =
     decision PullRemote Remote ''no_ancestor_policy_remote_wins''"
| "resolve_conflict RemoteWins _ False =
     decision PullRemote Remote ''both_sides_changed_policy_remote_wins''"
| "resolve_conflict NewestWins Local True =
     decision PushLocal Local ''no_ancestor_newest_is_local''"
| "resolve_conflict NewestWins Local False =
     decision PushLocal Local ''both_sides_changed_newest_is_local''"
| "resolve_conflict NewestWins Remote True =
     decision PullRemote Remote ''no_ancestor_newest_is_remote''"
| "resolve_conflict NewestWins Remote False =
     decision PullRemote Remote ''both_sides_changed_newest_is_remote''"
| "resolve_conflict AskMe _ True = decision Conflict Local ''no_ancestor_queued_for_the_reader''"
| "resolve_conflict AskMe _ False =
     decision Conflict Local ''both_sides_changed_queued_for_the_reader''"

definition three_way ::
  "'a \<Rightarrow> 'a \<Rightarrow> 'a option \<Rightarrow> 'a option \<Rightarrow> conflict_policy \<Rightarrow> side \<Rightarrow> merge_decision" where
  "three_way current_local current_remote last_local last_remote policy newer =
     (let local_changed = (last_local \<noteq> Some current_local);
          remote_changed = (last_remote \<noteq> Some current_remote);
          have_ancestor = (last_local \<noteq> None \<and> last_remote \<noteq> None)
      in if \<not> have_ancestor then
           (if current_local = current_remote
            then decision Noop Local ''no_ancestor_agreement''
            else resolve_conflict policy newer True)
         else if \<not> local_changed \<and> \<not> remote_changed
           then decision Noop Local ''neither_side_changed''
         else if local_changed \<and> \<not> remote_changed
           then decision PushLocal Local ''only_local_changed''
         else if \<not> local_changed \<and> remote_changed
           then decision PullRemote Remote ''only_remote_changed''
         else if current_local = current_remote
           then decision Noop Local ''both_sides_converged''
         else resolve_conflict policy newer False)"

text \<open>
  What a three-way merge promises, stated without the action vocabulary: the value a decision
  settles on, and the side a policy prefers when both sides have really moved.
\<close>

definition settled_value :: "merge_action \<Rightarrow> 'a \<Rightarrow> 'a \<Rightarrow> 'a option" where
  "settled_value act l r =
     (case act of Noop \<Rightarrow> Some l | PushLocal \<Rightarrow> Some l | PullRemote \<Rightarrow> Some r | Conflict \<Rightarrow> None)"

definition policy_choice :: "conflict_policy \<Rightarrow> side \<Rightarrow> 'a \<Rightarrow> 'a \<Rightarrow> 'a option" where
  "policy_choice pol newer l r =
     (case pol of
        LocalWins \<Rightarrow> Some l
      | RemoteWins \<Rightarrow> Some r
      | NewestWins \<Rightarrow> (case newer of Local \<Rightarrow> Some l | Remote \<Rightarrow> Some r)
      | AskMe \<Rightarrow> None)"

definition merge_spec ::
  "'a option \<Rightarrow> 'a \<Rightarrow> 'a \<Rightarrow> conflict_policy \<Rightarrow> side \<Rightarrow> 'a option" where
  "merge_spec anc l r pol newer =
     (if l = r then Some l
      else if anc = Some l then Some r
      else if anc = Some r then Some l
      else policy_choice pol newer l r)"

lemma decision_simps [simp]:
  "md_action (decision a w r) = a" "md_winner (decision a w r) = w" "md_reason (decision a w r) = r"
  by (simp_all add: decision_def)

lemma resolve_conflict_not_noop: "md_action (resolve_conflict pol newer first) \<noteq> Noop"
  by (cases "(pol, newer, first)" rule: resolve_conflict.cases) simp_all

lemma resolve_conflict_choice:
  "settled_value (md_action (resolve_conflict pol newer first)) l r = policy_choice pol newer l r"
  by (cases "(pol, newer, first)" rule: resolve_conflict.cases)
    (simp_all add: settled_value_def policy_choice_def split: side.split)

lemma resolve_conflict_asks:
  "md_action (resolve_conflict pol newer first) = Conflict \<longleftrightarrow> pol = AskMe"
  by (cases "(pol, newer, first)" rule: resolve_conflict.cases) simp_all

text \<open>C7: on a common ancestor both sides agree on, the three-way merge settles exactly on the
  value the abstract merge gives: equal values stand, a side that has not moved takes the other
  side's value, and a real divergence (or a first sync) is decided by the policy, which for
  ask-me leaves it unsettled.\<close>

theorem three_way_settles:
  "settled_value (md_action (three_way l r anc anc pol newer)) l r = merge_spec anc l r pol newer"
  by (auto simp: three_way_def merge_spec_def Let_def resolve_conflict_choice)
    (auto simp: settled_value_def)

lemma three_way_equal: "md_action (three_way v v anc anc pol newer) = Noop"
  by (cases anc) (auto simp: three_way_def Let_def)

lemma three_way_noop_agrees: "md_action (three_way l r anc anc pol newer) = Noop \<Longrightarrow> l = r"
  by (auto simp: three_way_def Let_def resolve_conflict_not_noop split: if_splits)

lemma three_way_conflict_asks:
  "md_action (three_way l r a b pol newer) = Conflict \<Longrightarrow> pol = AskMe \<and> l \<noteq> r"
  by (auto simp: three_way_def Let_def resolve_conflict_asks split: if_splits)

lemma three_way_no_conflict: "pol \<noteq> AskMe \<Longrightarrow> md_action (three_way l r a b pol newer) \<noteq> Conflict"
  by (auto dest: three_way_conflict_asks)

section \<open>The plan for one series\<close>

type_synonym progress = rat
type_synonym timestamp = int

text \<open>
  The remote list entry. Of \<open>RemoteMetadata\<close> it keeps what the reconciliation reads: the
  external id, and the titles and signals an entry is matched and recorded by.
\<close>

record remote_entry =
  re_external_id :: string
  re_status :: watch_status
  re_progress :: progress
  re_updated_at :: timestamp
  re_titles :: "string list"
  re_content_type :: content_type
  re_start_year :: "int option"
  re_tags :: "string list"
  re_authors :: "string list"

record local_side =
  ls_progress :: progress
  ls_updated_at :: timestamp
  ls_status :: "watch_status option"
  ls_excluded :: bool

record ancestor =
  an_local_progress :: "progress option"
  an_remote_progress :: "progress option"
  an_local_status :: "watch_status option"
  an_remote_status :: "watch_status option"

definition ancestor_default :: ancestor where
  "ancestor_default =
     \<lparr>an_local_progress = None, an_remote_progress = None,
      an_local_status = None, an_remote_status = None\<rparr>"

record 'a field_plan =
  fp_action :: merge_action
  fp_local :: 'a
  fp_remote :: 'a
  fp_reason :: string
  fp_ancestor :: "'a option \<times> 'a option"

datatype series_plan = Skip | CreateRemote watch_status progress | Merge

record merge_plan =
  mp_import_status :: "watch_status option"
  mp_progress :: "progress field_plan"
  mp_status :: "watch_status field_plan"
  mp_remote_write :: "(watch_status \<times> progress) option"
  mp_snapshot :: "(progress \<times> watch_status) option"

definition unwrap_or :: "'a \<Rightarrow> 'a option \<Rightarrow> 'a" where
  "unwrap_or d x = (case x of None \<Rightarrow> d | Some v \<Rightarrow> v)"

lemma unwrap_or_simps [simp]: "unwrap_or d None = d" "unwrap_or d (Some v) = v"
  by (simp_all add: unwrap_or_def)

definition plan_series :: "local_side \<Rightarrow> remote_entry option \<Rightarrow> series_plan" where
  "plan_series loc rem =
     (if ls_excluded loc then Skip
      else (case rem of
              Some _ \<Rightarrow> Merge
            | None \<Rightarrow> CreateRemote (unwrap_or Reading (ls_status loc)) (ls_progress loc)))"

definition plan_merge ::
  "local_side \<Rightarrow> remote_entry \<Rightarrow> ancestor \<Rightarrow> conflict_policy \<Rightarrow> merge_plan" where
  "plan_merge loc rem anc policy =
     (let newer = (if re_updated_at rem \<le> ls_updated_at loc then Local else Remote);
          import_status = (if ls_status loc = None then Some (re_status rem) else None);
          local_status = unwrap_or (re_status rem) (ls_status loc);
          progress_decision = three_way (ls_progress loc) (re_progress rem)
            (an_local_progress anc) (an_remote_progress anc) policy newer;
          status_decision = three_way local_status (re_status rem)
            (an_local_status anc) (an_remote_status anc) policy newer;
          progress = md_action progress_decision;
          status = md_action status_decision;
          remote_write =
            (if progress = PushLocal \<or> status = PushLocal
             then Some (if status \<in> {PushLocal, Noop} then local_status else re_status rem,
                        if progress \<in> {PushLocal, Noop} then ls_progress loc else re_progress rem)
             else None);
          conflict = (progress = Conflict \<or> status = Conflict);
          snapshot =
            (if \<not> conflict
             then Some (if progress = PullRemote then re_progress rem else ls_progress loc,
                        if status = PullRemote then re_status rem else local_status)
             else None)
      in \<lparr>mp_import_status = import_status,
          mp_progress = \<lparr>fp_action = progress, fp_local = ls_progress loc,
             fp_remote = re_progress rem, fp_reason = md_reason progress_decision,
             fp_ancestor = (an_local_progress anc, an_remote_progress anc)\<rparr>,
          mp_status = \<lparr>fp_action = status, fp_local = local_status,
             fp_remote = re_status rem, fp_reason = md_reason status_decision,
             fp_ancestor = (an_local_status anc, an_remote_status anc)\<rparr>,
          mp_remote_write = remote_write,
          mp_snapshot = snapshot\<rparr>)"

definition ancestor_agrees :: "ancestor \<Rightarrow> bool" where
  "ancestor_agrees anc \<longleftrightarrow>
     an_local_progress anc = an_remote_progress anc \<and> an_local_status anc = an_remote_status anc"

text \<open>What each store holds for the field once the plan has been carried out.\<close>

definition local_after :: "'a field_plan \<Rightarrow> 'a" where
  "local_after f = (if fp_action f = PullRemote then fp_remote f else fp_local f)"

definition remote_after :: "remote_entry \<Rightarrow> merge_plan \<Rightarrow> watch_status \<times> progress" where
  "remote_after rem plan = unwrap_or (re_status rem, re_progress rem) (mp_remote_write plan)"

lemma plan_merge_fields:
  fixes loc rem anc pol
  defines "newer \<equiv> (if re_updated_at rem \<le> ls_updated_at loc then Local else Remote)"
    and "lst \<equiv> unwrap_or (re_status rem) (ls_status loc)"
  shows "fp_local (mp_progress (plan_merge loc rem anc pol)) = ls_progress loc"
    and "fp_remote (mp_progress (plan_merge loc rem anc pol)) = re_progress rem"
    and "fp_action (mp_progress (plan_merge loc rem anc pol)) =
      md_action (three_way (ls_progress loc) (re_progress rem)
        (an_local_progress anc) (an_remote_progress anc) pol newer)"
    and "fp_local (mp_status (plan_merge loc rem anc pol)) = lst"
    and "fp_remote (mp_status (plan_merge loc rem anc pol)) = re_status rem"
    and "fp_action (mp_status (plan_merge loc rem anc pol)) =
      md_action (three_way lst (re_status rem)
        (an_local_status anc) (an_remote_status anc) pol newer)"
    and "mp_import_status (plan_merge loc rem anc pol) =
      (if ls_status loc = None then Some (re_status rem) else None)"
  by (simp_all add: plan_merge_def Let_def newer_def lst_def)

lemma plan_merge_snapshot:
  "mp_snapshot (plan_merge loc rem anc pol) =
     (if fp_action (mp_progress (plan_merge loc rem anc pol)) = Conflict \<or>
         fp_action (mp_status (plan_merge loc rem anc pol)) = Conflict then None
      else Some (local_after (mp_progress (plan_merge loc rem anc pol)),
                 local_after (mp_status (plan_merge loc rem anc pol))))"
  by (auto simp: plan_merge_def Let_def local_after_def)

lemma plan_merge_remote_write:
  "mp_remote_write (plan_merge loc rem anc pol) =
     (let p = mp_progress (plan_merge loc rem anc pol); s = mp_status (plan_merge loc rem anc pol)
      in if fp_action p = PushLocal \<or> fp_action s = PushLocal
         then Some (if fp_action s \<in> {PushLocal, Noop} then fp_local s else fp_remote s,
                    if fp_action p \<in> {PushLocal, Noop} then fp_local p else fp_remote p)
         else None)"
  by (auto simp: plan_merge_def Let_def)

lemma plan_merge_noop_agrees:
  assumes "ancestor_agrees anc"
  shows "fp_action (mp_progress (plan_merge loc rem anc pol)) = Noop \<Longrightarrow>
           ls_progress loc = re_progress rem"
    and "fp_action (mp_status (plan_merge loc rem anc pol)) = Noop \<Longrightarrow>
           unwrap_or (re_status rem) (ls_status loc) = re_status rem"
  using assms unfolding plan_merge_fields ancestor_agrees_def
  by (auto dest: three_way_noop_agrees)

lemma plan_merge_import:
  assumes "ancestor_agrees anc" "ls_status loc = None"
  shows "fp_action (mp_status (plan_merge loc rem anc pol)) = Noop"
  using assms by (simp add: plan_merge_fields ancestor_agrees_def three_way_equal)

lemma merge_action_other:
  "a \<noteq> Conflict \<Longrightarrow> a \<noteq> PushLocal \<Longrightarrow> a \<noteq> Noop \<Longrightarrow> a = PullRemote"
  by (cases a) simp_all

text \<open>The three stores meet: the settled pair is what the local side and the remote both hold.\<close>

lemma plan_merge_converges:
  assumes agree: "ancestor_agrees anc"
    and snap: "mp_snapshot (plan_merge loc rem anc pol) = Some (p, w)"
  shows "local_after (mp_progress (plan_merge loc rem anc pol)) = p"
    and "local_after (mp_status (plan_merge loc rem anc pol)) = w"
    and "remote_after rem (plan_merge loc rem anc pol) = (w, p)"
proof -
  let ?plan = "plan_merge loc rem anc pol"
  have quiet: "fp_action (mp_progress ?plan) \<noteq> Conflict" "fp_action (mp_status ?plan) \<noteq> Conflict"
    and p: "p = local_after (mp_progress ?plan)" and w: "w = local_after (mp_status ?plan)"
    using snap by (auto simp: plan_merge_snapshot split: if_splits)
  show "local_after (mp_progress ?plan) = p" "local_after (mp_status ?plan) = w"
    by (simp_all add: p w)
  note np = plan_merge_noop_agrees(1) [OF agree, of loc rem pol]
    and ns = plan_merge_noop_agrees(2) [OF agree, of loc rem pol]
  have vals: "fp_local (mp_progress ?plan) = ls_progress loc"
    "fp_remote (mp_progress ?plan) = re_progress rem"
    "fp_local (mp_status ?plan) = unwrap_or (re_status rem) (ls_status loc)"
    "fp_remote (mp_status ?plan) = re_status rem"
    by (simp_all add: plan_merge_fields)
  show "remote_after rem ?plan = (w, p)"
    unfolding remote_after_def plan_merge_remote_write p w local_after_def Let_def vals
    using quiet np ns
    by (cases "fp_action (mp_progress ?plan)"; cases "fp_action (mp_status ?plan)") auto
qed

text \<open>A run over what the previous run settled changes nothing.\<close>

lemma plan_merge_settled:
  assumes "ls_progress loc = p" "ls_status loc = Some w" "re_progress rem = p" "re_status rem = w"
    and "an_local_progress anc = Some p" "an_remote_progress anc = Some p"
    and "an_local_status anc = Some w" "an_remote_status anc = Some w"
  shows "mp_remote_write (plan_merge loc rem anc pol) = None"
    and "mp_import_status (plan_merge loc rem anc pol) = None"
    and "mp_snapshot (plan_merge loc rem anc pol) = Some (p, w)"
    and "fp_action (mp_progress (plan_merge loc rem anc pol)) = Noop"
    and "fp_action (mp_status (plan_merge loc rem anc pol)) = Noop"
  using assms by (simp_all add: plan_merge_def three_way_def Let_def)

end
