(* ===== verification/Sync_Store.thy ===== *)
theory Sync_Store
  imports Sync_Merge Reading_Progress
begin

text \<open>
  The tables of external sync and the statements on them: the mappings and their common-ancestor
  snapshots, the conflict queue, the match blocks and the linked accounts of
  \<open>src/crates/db/src/repo/sync/\<close>, the watchlist statements of
  \<open>src/crates/db/src/repo/tracking/watchlist/entries.rs\<close> and the exclusion statements of
  \<open>tracking/progress.rs\<close>. A statement is one function on the database; \<open>now()\<close> is the
  clock of the state. Where the code renders a number as text (\<open>to_string\<close>) the model keeps
  the number, which is what parsing that text returns.
\<close>

section \<open>Rows\<close>

datatype text_value = NumText progress | Token string

fun parse_number :: "text_value \<Rightarrow> progress option" where
  "parse_number (NumText x) = Some x"
| "parse_number (Token _) = None"

fun parse_status :: "text_value \<Rightarrow> watch_status option" where
  "parse_status (NumText _) = None"
| "parse_status (Token s) = (case watch_status_from_str s of Inl _ \<Rightarrow> None | Inr w \<Rightarrow> Some w)"

record watch_row =
  wr_status :: watch_status
  wr_notify :: bool
  wr_sync_excluded :: bool
  wr_added_at :: timestamp
  wr_updated_at :: timestamp

record mapping_row =
  mr_external_id :: string
  mr_local_progress :: "progress option"
  mr_remote_progress :: "progress option"
  mr_local_status :: "string option"
  mr_remote_status :: "string option"
  mr_last_synced_at :: "timestamp option"
  mr_updated_at :: timestamp

record sync_snapshot =
  last_synced_local_progress :: "progress option"
  last_synced_remote_progress :: "progress option"
  last_synced_local_status :: "string option"
  last_synced_remote_status :: "string option"
  last_synced_at :: "timestamp option"

record conflict_row =
  cf_id :: nat
  cf_user :: user_id
  cf_series :: series_id
  cf_provider :: string
  cf_field :: string
  cf_local_value :: text_value
  cf_remote_value :: text_value
  cf_detected_at :: timestamp
  cf_resolved_at :: "timestamp option"
  cf_resolution :: "string option"

record account_row =
  ac_username :: "string option"
  ac_last_synced_at :: "timestamp option"
  ac_last_error :: "string option"
  ac_auto_sync_enabled :: bool
  ac_conflict_policy :: string

record fetched_row =
  fr_title :: string
  fr_status :: string
  fr_progress :: progress
  fr_content_type :: string
  fr_start_year :: "int option"
  fr_updated_at :: timestamp
  fr_series :: "series_id option"
  fr_fetched_at :: timestamp

record sync_db =
  db_progress :: progress_table
  db_watch :: "(user_id \<times> series_id, watch_row) tbl"
  db_overrides :: "(user_id \<times> series_id \<times> string, bool) tbl"
  db_mappings :: "(series_id \<times> string, mapping_row) tbl"
  db_conflicts :: "conflict_row list"
  db_blocks :: "(string \<times> string \<times> series_id, string) tbl"
  db_accounts :: "(user_id \<times> string, account_row) tbl"
  db_remote :: "(user_id \<times> string \<times> string, fetched_row) tbl"
  db_now :: timestamp

section \<open>Mappings\<close>

definition fresh_mapping :: "string \<Rightarrow> timestamp \<Rightarrow> mapping_row" where
  "fresh_mapping ext now =
     \<lparr>mr_external_id = ext, mr_local_progress = None, mr_remote_progress = None,
      mr_local_status = None, mr_remote_status = None, mr_last_synced_at = None,
      mr_updated_at = now\<rparr>"

definition repoint :: "string \<Rightarrow> timestamp \<Rightarrow> mapping_row option \<Rightarrow> mapping_row" where
  "repoint ext now old =
     (case old of
        None \<Rightarrow> fresh_mapping ext now
      | Some r \<Rightarrow> r\<lparr>mr_external_id := ext, mr_updated_at := now\<rparr>)"

definition upsert_mapping :: "series_id \<Rightarrow> string \<Rightarrow> string \<Rightarrow> sync_db \<Rightarrow> sync_db" where
  "upsert_mapping s provider ext db =
     db\<lparr>db_mappings := AList.update (s, provider)
          (repoint ext (db_now db) (map_of (db_mappings db) (s, provider))) (db_mappings db)\<rparr>"

text \<open>
  The batch keeps one row per series, the last pair of the batch for it, and inserts them in the
  order of the series ids.
\<close>

definition distinct_last :: "(series_id \<times> string) list \<Rightarrow> (series_id \<times> string) list" where
  "distinct_last pairs = map (\<lambda>s. (s, the (map_of (rev pairs) s))) (sort (remdups (map fst pairs)))"

definition upsert_mappings :: "string \<Rightarrow> (series_id \<times> string) list \<Rightarrow> sync_db \<Rightarrow> sync_db" where
  "upsert_mappings provider pairs db =
     (if pairs = [] then db
      else fold (\<lambda>(s, ext). upsert_mapping s provider ext) (distinct_last pairs) db)"

definition mapping_linked_series :: "sync_db \<Rightarrow> string \<Rightarrow> string \<Rightarrow> series_id list" where
  "mapping_linked_series db provider ext =
     map (\<lambda>((s, _), _). s)
       (sort_key (\<lambda>((s, _), r). (- mr_updated_at r, s))
         [((s, p), r) \<leftarrow> db_mappings db. p = provider \<and> mr_external_id r = ext])"

definition mapping_series_for_external :: "sync_db \<Rightarrow> string \<Rightarrow> string \<Rightarrow> series_id option" where
  "mapping_series_for_external db provider ext =
     (case mapping_linked_series db provider ext of [] \<Rightarrow> None | s # _ \<Rightarrow> Some s)"

definition mapping_external_for_series :: "sync_db \<Rightarrow> series_id \<Rightarrow> string \<Rightarrow> string option" where
  "mapping_external_for_series db s provider =
     map_option mr_external_id (map_of (db_mappings db) (s, provider))"

definition delete_mapping :: "series_id \<Rightarrow> string \<Rightarrow> sync_db \<Rightarrow> bool \<times> sync_db" where
  "delete_mapping s provider db =
     (map_of (db_mappings db) (s, provider) \<noteq> None,
      db\<lparr>db_mappings := AList.delete (s, provider) (db_mappings db)\<rparr>)"

section \<open>Snapshots\<close>

definition snapshot_of :: "mapping_row \<Rightarrow> sync_snapshot" where
  "snapshot_of r =
     \<lparr>last_synced_local_progress = mr_local_progress r,
      last_synced_remote_progress = mr_remote_progress r,
      last_synced_local_status = mr_local_status r,
      last_synced_remote_status = mr_remote_status r,
      last_synced_at = mr_last_synced_at r\<rparr>"

definition get_snapshot :: "sync_db \<Rightarrow> series_id \<Rightarrow> string \<Rightarrow> sync_snapshot option" where
  "get_snapshot db s provider = map_option snapshot_of (map_of (db_mappings db) (s, provider))"

text \<open>
  \<open>ORDER BY last_synced_at DESC NULLS LAST LIMIT 1\<close>; among equal times the database may return
  any row, the model the first of the table.
\<close>

definition synced_key :: "mapping_row \<Rightarrow> nat \<times> timestamp" where
  "synced_key r = (case mr_last_synced_at r of None \<Rightarrow> (1, 0) | Some t \<Rightarrow> (0, - t))"

definition get_group_snapshot :: "sync_db \<Rightarrow> string \<Rightarrow> string \<Rightarrow> sync_snapshot option" where
  "get_group_snapshot db provider ext =
     (case sort_key synced_key
         (map snd [((s, p), r) \<leftarrow> db_mappings db. p = provider \<and> mr_external_id r = ext]) of
        [] \<Rightarrow> None
      | r # _ \<Rightarrow> Some (snapshot_of r))"

record agreed_snapshot =
  ag_local_progress :: progress
  ag_remote_progress :: progress
  ag_local_status :: string
  ag_remote_status :: string

definition agree_row :: "agreed_snapshot \<Rightarrow> timestamp \<Rightarrow> mapping_row \<Rightarrow> mapping_row" where
  "agree_row a now r =
     r\<lparr>mr_local_progress := Some (ag_local_progress a),
       mr_remote_progress := Some (ag_remote_progress a),
       mr_local_status := Some (ag_local_status a),
       mr_remote_status := Some (ag_remote_status a),
       mr_last_synced_at := Some now\<rparr>"

definition record_snapshot :: "series_id \<Rightarrow> string \<Rightarrow> agreed_snapshot \<Rightarrow> sync_db \<Rightarrow> sync_db" where
  "record_snapshot s provider a db =
     db\<lparr>db_mappings := row_update (s, provider) (agree_row a (db_now db)) (db_mappings db)\<rparr>"

section \<open>Conflicts\<close>

definition conflict_pending ::
  "user_id \<Rightarrow> series_id \<Rightarrow> string \<Rightarrow> string \<Rightarrow> conflict_row \<Rightarrow> bool" where
  "conflict_pending u s provider field c \<longleftrightarrow>
     cf_user c = u \<and> cf_series c = s \<and> cf_provider c = provider \<and> cf_field c = field \<and>
     cf_resolved_at c = None"

definition insert_conflict ::
  "user_id \<Rightarrow> series_id \<Rightarrow> string \<Rightarrow> string \<Rightarrow> text_value \<Rightarrow> text_value \<Rightarrow> sync_db \<Rightarrow> sync_db" where
  "insert_conflict u s provider field local_value remote_value db =
     (if list_ex (conflict_pending u s provider field) (db_conflicts db) then db
      else db\<lparr>db_conflicts := db_conflicts db @
        [\<lparr>cf_id = length (db_conflicts db), cf_user = u, cf_series = s, cf_provider = provider,
          cf_field = field, cf_local_value = local_value, cf_remote_value = remote_value,
          cf_detected_at = db_now db, cf_resolved_at = None, cf_resolution = None\<rparr>]\<rparr>)"

definition get_pending_conflict :: "sync_db \<Rightarrow> user_id \<Rightarrow> nat \<Rightarrow> conflict_row option" where
  "get_pending_conflict db u i =
     find (\<lambda>c. cf_id c = i \<and> cf_user c = u \<and> cf_resolved_at c = None) (db_conflicts db)"

definition resolve_conflict_row :: "user_id \<Rightarrow> nat \<Rightarrow> string \<Rightarrow> sync_db \<Rightarrow> bool \<times> sync_db" where
  "resolve_conflict_row u i resolution db =
     (let hit = (\<lambda>c. cf_id c = i \<and> cf_user c = u \<and> cf_resolved_at c = None)
      in (list_ex hit (db_conflicts db),
          db\<lparr>db_conflicts := map (\<lambda>c. if hit c
               then c\<lparr>cf_resolved_at := Some (db_now db), cf_resolution := Some resolution\<rparr> else c)
             (db_conflicts db)\<rparr>))"

definition count_pending_conflicts :: "sync_db \<Rightarrow> user_id \<Rightarrow> nat" where
  "count_pending_conflicts db u =
     length [c \<leftarrow> db_conflicts db. cf_user c = u \<and> cf_resolved_at c = None]"

section \<open>The watchlist\<close>

definition fresh_watch :: "watch_status \<Rightarrow> bool \<Rightarrow> timestamp \<Rightarrow> watch_row" where
  "fresh_watch w notify now =
     \<lparr>wr_status = w, wr_notify = notify, wr_sync_excluded = False, wr_added_at = now,
      wr_updated_at = now\<rparr>"

definition status_row :: "timestamp \<Rightarrow> watch_status \<Rightarrow> watch_row option \<Rightarrow> watch_row" where
  "status_row now w old =
     (case old of
        None \<Rightarrow> fresh_watch w True now
      | Some r \<Rightarrow> r\<lparr>wr_status := w, wr_updated_at := now\<rparr>)"

definition watchlist_set_status :: "user_id \<Rightarrow> series_id \<Rightarrow> watch_status \<Rightarrow> sync_db \<Rightarrow> sync_db" where
  "watchlist_set_status u s w db =
     db\<lparr>db_watch := AList.update (u, s) (status_row (db_now db) w (map_of (db_watch db) (u, s)))
          (db_watch db)\<rparr>"

definition watchlist_upsert ::
  "user_id \<Rightarrow> series_id \<Rightarrow> watch_status \<Rightarrow> bool \<Rightarrow> sync_db \<Rightarrow> sync_db" where
  "watchlist_upsert u s w notify db =
     db\<lparr>db_watch := AList.update (u, s)
          (case map_of (db_watch db) (u, s) of
             None \<Rightarrow> fresh_watch w notify (db_now db)
           | Some r \<Rightarrow> r\<lparr>wr_status := w, wr_notify := notify, wr_updated_at := db_now db\<rparr>)
          (db_watch db)\<rparr>"

definition watchlist_track_if_absent :: "user_id \<Rightarrow> series_id \<Rightarrow> sync_db \<Rightarrow> sync_db" where
  "watchlist_track_if_absent u s db =
     (if map_of (db_watch db) (u, s) = None
      then db\<lparr>db_watch := AList.update (u, s) (fresh_watch Reading True (db_now db)) (db_watch db)\<rparr>
      else db)"

definition watchlist_remove :: "user_id \<Rightarrow> series_id \<Rightarrow> sync_db \<Rightarrow> sync_db" where
  "watchlist_remove u s db = db\<lparr>db_watch := AList.delete (u, s) (db_watch db)\<rparr>"

definition watchlist_status_get :: "sync_db \<Rightarrow> user_id \<Rightarrow> series_id \<Rightarrow> watch_status option" where
  "watchlist_status_get db u s = map_option wr_status (map_of (db_watch db) (u, s))"

text \<open>\<open>ORDER BY added_at DESC\<close>, the order the reconciliation walks the watchlist in.\<close>

definition watchlist_list :: "sync_db \<Rightarrow> user_id \<Rightarrow> series_id list" where
  "watchlist_list db u =
     map (\<lambda>((_, s), _). s)
       (sort_key (\<lambda>(_, r). - wr_added_at r) [((v, s), r) \<leftarrow> db_watch db. v = u])"

definition set_sync_excluded :: "user_id \<Rightarrow> series_id \<Rightarrow> bool \<Rightarrow> sync_db \<Rightarrow> bool \<times> sync_db" where
  "set_sync_excluded u s excluded db =
     (map_of (db_watch db) (u, s) \<noteq> None,
      db\<lparr>db_watch := row_update (u, s)
           (\<lambda>r. r\<lparr>wr_sync_excluded := excluded, wr_updated_at := db_now db\<rparr>) (db_watch db)\<rparr>)"

definition set_sync_override :: "user_id \<Rightarrow> series_id \<Rightarrow> string \<Rightarrow> bool \<Rightarrow> sync_db \<Rightarrow> sync_db" where
  "set_sync_override u s provider excluded db =
     db\<lparr>db_overrides := AList.update (u, s, provider) excluded (db_overrides db)\<rparr>"

definition is_sync_excluded :: "sync_db \<Rightarrow> user_id \<Rightarrow> series_id \<Rightarrow> string \<Rightarrow> bool" where
  "is_sync_excluded db u s provider =
     (case map_of (db_overrides db) (u, s, provider) of
        Some e \<Rightarrow> e
      | None \<Rightarrow> (case map_of (db_watch db) (u, s) of Some r \<Rightarrow> wr_sync_excluded r | None \<Rightarrow> False))"

text \<open>
  The batched form, a union of two queries: the watchlist entries with their overrides, and the
  overrides of series that are not on the watchlist.
\<close>

definition sync_excluded_series :: "sync_db \<Rightarrow> user_id \<Rightarrow> string \<Rightarrow> series_id list" where
  "sync_excluded_series db u provider =
     [s. ((v, s), r) \<leftarrow> db_watch db, v = u,
         (case map_of (db_overrides db) (u, s, provider) of
            Some e \<Rightarrow> e | None \<Rightarrow> wr_sync_excluded r)] @
     [s. ((v, s, p), e) \<leftarrow> db_overrides db, v = u \<and> p = provider,
         map_of (db_watch db) (u, s) = None \<and> e]"

section \<open>Fetched remote entries\<close>

text \<open>
  One statement for the whole list, with one row per external id (the code's caller passes at most
  one; of several the model keeps the last).
\<close>

definition upsert_remote_entries ::
  "user_id \<Rightarrow> string \<Rightarrow> (string \<times> fetched_row) list \<Rightarrow> sync_db \<Rightarrow> sync_db" where
  "upsert_remote_entries u provider entries db =
     db\<lparr>db_remote := fold (\<lambda>(ext, row). AList.update (u, provider, ext)
          (row\<lparr>fr_fetched_at := db_now db\<rparr>)) entries (db_remote db)\<rparr>"

section \<open>Blocks and accounts\<close>

definition block_sync_match ::
  "string \<Rightarrow> string \<Rightarrow> series_id \<Rightarrow> string \<Rightarrow> sync_db \<Rightarrow> sync_db" where
  "block_sync_match provider ext s reason db =
     db\<lparr>db_blocks := AList.update (provider, ext, s) reason (db_blocks db),
        db_mappings := [((s', p), r) \<leftarrow> db_mappings db.
          \<not> (s' = s \<and> p = provider \<and> mr_external_id r = ext)],
        db_remote := map (\<lambda>((u, p, e), r).
            ((u, p, e), if p = provider \<and> e = ext \<and> fr_series r = Some s
                        then r\<lparr>fr_series := None\<rparr> else r)) (db_remote db)\<rparr>"

definition blocked_sync_matches :: "sync_db \<Rightarrow> string \<Rightarrow> (string \<times> series_id) list" where
  "blocked_sync_matches db provider = [(ext, s). ((p, ext, s), _) \<leftarrow> db_blocks db, p = provider]"

definition get_account :: "sync_db \<Rightarrow> user_id \<Rightarrow> string \<Rightarrow> account_row option" where
  "get_account db u provider = map_of (db_accounts db) (u, provider)"

definition mark_synced ::
  "user_id \<Rightarrow> string \<Rightarrow> string option \<Rightarrow> timestamp \<Rightarrow> sync_db \<Rightarrow> sync_db" where
  "mark_synced u provider username synced_at db =
     db\<lparr>db_accounts := row_update (u, provider)
          (\<lambda>r. r\<lparr>ac_username := (case username of None \<Rightarrow> ac_username r | Some n \<Rightarrow> Some n),
                ac_last_synced_at := Some synced_at, ac_last_error := None\<rparr>) (db_accounts db)\<rparr>"

definition record_sync_error :: "user_id \<Rightarrow> string \<Rightarrow> string \<Rightarrow> sync_db \<Rightarrow> sync_db" where
  "record_sync_error u provider error db =
     db\<lparr>db_accounts := row_update (u, provider) (\<lambda>r. r\<lparr>ac_last_error := Some error\<rparr>)
          (db_accounts db)\<rparr>"

section \<open>Laws of the rows\<close>

interpretation watch_status_store:
  row_store "\<lambda>db (u, s). watchlist_status_get db u s" "\<lambda>(u, s) w db. watchlist_set_status u s w db"
  by unfold_locales
    (auto simp: watchlist_status_get_def watchlist_set_status_def update_conv' status_row_def
      fresh_watch_def split: option.split)

interpretation mapping_store:
  row_store "\<lambda>db (s, p). mapping_external_for_series db s p" "\<lambda>(s, p) ext db. upsert_mapping s p ext db"
  by unfold_locales
    (auto simp: mapping_external_for_series_def upsert_mapping_def update_conv' repoint_def
      fresh_mapping_def split: option.split)

interpretation override_store:
  row_store "\<lambda>db k. map_of (db_overrides db) k" "\<lambda>(u, s, p) e db. set_sync_override u s p e db"
  by unfold_locales (auto simp: set_sync_override_def update_conv')

text \<open>Which tables a statement leaves alone.\<close>

lemma watch_frame [store_simps]:
  "db_progress (watchlist_set_status u s w db) = db_progress db"
  "db_mappings (watchlist_set_status u s w db) = db_mappings db"
  "db_conflicts (watchlist_set_status u s w db) = db_conflicts db"
  "db_overrides (watchlist_set_status u s w db) = db_overrides db"
  "db_now (watchlist_set_status u s w db) = db_now db"
  by (simp_all add: watchlist_set_status_def)

lemma snapshot_frame [store_simps]:
  "db_progress (record_snapshot s p a db) = db_progress db"
  "db_watch (record_snapshot s p a db) = db_watch db"
  "db_conflicts (record_snapshot s p a db) = db_conflicts db"
  "db_overrides (record_snapshot s p a db) = db_overrides db"
  "db_now (record_snapshot s p a db) = db_now db"
  by (simp_all add: record_snapshot_def)

lemma conflict_frame [store_simps]:
  "db_progress (insert_conflict u s p f l r db) = db_progress db"
  "db_watch (insert_conflict u s p f l r db) = db_watch db"
  "db_mappings (insert_conflict u s p f l r db) = db_mappings db"
  "db_overrides (insert_conflict u s p f l r db) = db_overrides db"
  "db_now (insert_conflict u s p f l r db) = db_now db"
  by (simp_all add: insert_conflict_def)

lemma status_get_set:
  "watchlist_status_get (watchlist_set_status u s w db) v t =
     (if (v, t) = (u, s) then Some w else watchlist_status_get db v t)"
  using watch_status_store.get_put [of "(u, s)" w db "(v, t)"] by simp

text \<open>The two readings of the exclusion settings agree, on every series.\<close>

lemma sync_excluded_series_iff:
  assumes "distinct (map fst (db_watch db))" "distinct (map fst (db_overrides db))"
  shows "s \<in> set (sync_excluded_series db u provider) \<longleftrightarrow> is_sync_excluded db u s provider"
proof -
  have w: "((u, s), r) \<in> set (db_watch db) \<longleftrightarrow> map_of (db_watch db) (u, s) = Some r" for r
    using assms(1) map_of_eq_Some_iff by metis
  have o: "((u, s, provider), e) \<in> set (db_overrides db) \<longleftrightarrow>
      map_of (db_overrides db) (u, s, provider) = Some e" for e
    using assms(2) map_of_eq_Some_iff by metis
  show ?thesis
    unfolding sync_excluded_series_def is_sync_excluded_def
    by (cases "map_of (db_watch db) (u, s)"; cases "map_of (db_overrides db) (u, s, provider)")
      (force simp: w o split: option.splits if_splits)+
qed

text \<open>A conflict is queued at most once while it is pending, with the values first seen.\<close>

lemma insert_conflict_once:
  "length [c \<leftarrow> db_conflicts db. conflict_pending u s p f c] \<le> 1 \<Longrightarrow>
   length [c \<leftarrow> db_conflicts (insert_conflict u' s' p' f' l r db). conflict_pending u s p f c] \<le> 1"
  by (auto simp: insert_conflict_def conflict_pending_def list_ex_iff filter_empty_conv)

end
