(* ===== verification/Sync_Linked.thy ===== *)
theory Sync_Linked
  imports Sync_Store
begin

text \<open>
  The linked group, \<open>src/services/sync/src/engine/linked.rs\<close>: every local series mapped to one
  external id, folded into one side for the merge (\<open>plan_group\<close>), and brought into step with
  what the merge settled on (\<open>plan_mirror\<close>, \<open>apply\<close>).
\<close>

section \<open>The group as values\<close>

record linked_member =
  lm_series_id :: series_id
  lm_progress :: "(progress \<times> timestamp) option"
  lm_status :: "watch_status option"
  lm_excluded :: bool

definition tracked :: "linked_member \<Rightarrow> bool" where
  "tracked m \<longleftrightarrow> lm_progress m \<noteq> None \<or> lm_status m \<noteq> None"

record group_side =
  gs_primary :: series_id
  gs_side :: local_side

definition filter_map :: "('a \<Rightarrow> 'b option) \<Rightarrow> 'a list \<Rightarrow> 'b list" where
  "filter_map f xs = [y. Some y \<leftarrow> map f xs]"

definition find_map :: "('a \<Rightarrow> 'b option) \<Rightarrow> 'a list \<Rightarrow> 'b option" where
  "find_map f xs = (case filter_map f xs of [] \<Rightarrow> None | y # _ \<Rightarrow> Some y)"

text \<open>
  \<open>max_by(total_cmp then time)\<close> over the pairs is the last maximum of the lexicographic order.
\<close>

definition plan_group :: "linked_member list \<Rightarrow> series_id \<Rightarrow> group_side" where
  "plan_group members preferred =
     (case [m \<leftarrow> members. \<not> lm_excluded m] of
        [] \<Rightarrow> \<lparr>gs_primary = preferred,
                gs_side = \<lparr>ls_progress = 0, ls_updated_at = 0, ls_status = None, ls_excluded = True\<rparr>\<rparr>
      | first # rest \<Rightarrow>
          (let included = first # rest;
               primary = (if list_ex (\<lambda>m. lm_series_id m = preferred) included
                          then preferred else lm_series_id first);
               frontier = max_by_key_last (\<lambda>pu. pu) (filter_map lm_progress included);
               own = (case find (\<lambda>m. lm_series_id m = primary) included of
                        None \<Rightarrow> None | Some m \<Rightarrow> lm_status m);
               status = (case own of Some w \<Rightarrow> Some w | None \<Rightarrow> find_map lm_status included)
           in \<lparr>gs_primary = primary,
               gs_side = \<lparr>ls_progress = (case frontier of None \<Rightarrow> 0 | Some (p, _) \<Rightarrow> p),
                 ls_updated_at = (case frontier of None \<Rightarrow> 0 | Some (_, u) \<Rightarrow> u),
                 ls_status = status, ls_excluded = False\<rparr>\<rparr>))"

record mirror_write =
  mw_series_id :: series_id
  mw_progress :: "progress option"
  mw_status :: "watch_status option"

definition mirror_of :: "progress \<Rightarrow> watch_status \<Rightarrow> linked_member \<Rightarrow> mirror_write" where
  "mirror_of p w m =
     \<lparr>mw_series_id = lm_series_id m,
      mw_progress = (case lm_progress m of
          Some (held, _) \<Rightarrow> if held \<noteq> p then Some p else None
        | None \<Rightarrow> if 0 < p then Some p else None),
      mw_status = (case lm_status m of
          Some s \<Rightarrow> if s \<noteq> w then Some w else None
        | None \<Rightarrow> None)\<rparr>"

definition plan_mirror :: "linked_member list \<Rightarrow> progress \<Rightarrow> watch_status \<Rightarrow> mirror_write list" where
  "plan_mirror members p w = map (mirror_of p w) [m \<leftarrow> members. \<not> lm_excluded m \<and> tracked m]"

section \<open>Reading and writing the group\<close>

definition linked_members :: "sync_db \<Rightarrow> user_id \<Rightarrow> string \<Rightarrow> string \<Rightarrow> linked_member list" where
  "linked_members db u provider ext =
     map (\<lambda>s. \<lparr>lm_series_id = s,
               lm_progress = progress_state (db_progress db) u s,
               lm_status = watchlist_status_get db u s,
               lm_excluded = is_sync_excluded db u s provider\<rparr>)
       (mapping_linked_series db provider ext)"

definition agreed :: "progress \<Rightarrow> watch_status \<Rightarrow> agreed_snapshot" where
  "agreed p w = \<lparr>ag_local_progress = p, ag_remote_progress = p,
     ag_local_status = watch_status_as_str w, ag_remote_status = watch_status_as_str w\<rparr>"

definition db_progress_set :: "user_id \<Rightarrow> series_id \<Rightarrow> progress \<Rightarrow> (sync_db, db_error, unit) act" where
  "db_progress_set u s x db =
     (case progress_set (db_now db) u s x (db_progress db) of
        Inl e \<Rightarrow> (Err e, db)
      | Inr t \<Rightarrow> (Ok (), db\<lparr>db_progress := t\<rparr>))"

definition apply_write ::
  "user_id \<Rightarrow> string \<Rightarrow> progress \<times> watch_status \<Rightarrow> mirror_write \<Rightarrow> (sync_db, db_error, unit) act" where
  "apply_write u provider pw w =
     act_then (case mw_progress w of None \<Rightarrow> act_return () | Some x \<Rightarrow> db_progress_set u (mw_series_id w) x)
    (act_then (case mw_status w of None \<Rightarrow> act_return ()
               | Some st \<Rightarrow> act_modify (watchlist_set_status u (mw_series_id w) st))
    (act_modify (record_snapshot (mw_series_id w) provider (agreed (fst pw) (snd pw)))))"

definition apply_mirror ::
  "user_id \<Rightarrow> string \<Rightarrow> mirror_write list \<Rightarrow> progress \<times> watch_status \<Rightarrow> (sync_db, db_error, unit) act"
  where "apply_mirror u provider writes pw = act_for (apply_write u provider pw) writes"

section \<open>What the fold promises\<close>

lemma filter_map_set: "y \<in> set (filter_map f xs) \<longleftrightarrow> (\<exists>x \<in> set xs. f x = Some y)"
  by (auto simp: filter_map_def split: option.splits) force+

lemma filter_map_Nil: "filter_map f xs = [] \<longleftrightarrow> (\<forall>x \<in> set xs. f x = None)"
  by (induction xs) (auto simp: filter_map_def split: option.splits)

lemma find_map_Some: "find_map f xs = Some y \<Longrightarrow> \<exists>x \<in> set xs. f x = Some y"
  using filter_map_set [of y f xs] by (auto simp: find_map_def split: list.splits)

lemma find_map_None: "find_map f xs = None \<longleftrightarrow> (\<forall>x \<in> set xs. f x = None)"
proof -
  have "find_map f xs = None \<longleftrightarrow> filter_map f xs = []"
    by (simp add: find_map_def split: list.split)
  then show ?thesis by (simp only: filter_map_Nil)
qed

lemma included_cases:
  obtains (none) "[m \<leftarrow> members. \<not> lm_excluded m] = []" "\<forall>m \<in> set members. lm_excluded m"
  | (some) f r where "[m \<leftarrow> members. \<not> lm_excluded m] = f # r"
      "set (f # r) = {m \<in> set members. \<not> lm_excluded m}"
proof (cases "[m \<leftarrow> members. \<not> lm_excluded m]")
  case Nil
  then show ?thesis using none by (auto simp: filter_empty_conv)
next
  case (Cons f r)
  then show ?thesis using some by (metis set_filter)
qed

lemma plan_group_excluded:
  "ls_excluded (gs_side (plan_group members preferred)) \<longleftrightarrow> (\<forall>m \<in> set members. lm_excluded m)"
proof (cases rule: included_cases [of members])
  case none
  then show ?thesis by (simp add: plan_group_def)
next
  case (some f r)
  then have "f \<in> set members" "\<not> lm_excluded f" by auto
  then show ?thesis by (auto simp: plan_group_def some(1) Let_def)
qed

lemma plan_group_primary:
  assumes "\<not> ls_excluded (gs_side (plan_group members preferred))"
  shows "\<exists>m \<in> set members. lm_series_id m = gs_primary (plan_group members preferred) \<and> \<not> lm_excluded m"
proof -
  have "\<exists>m \<in> set members. \<not> lm_excluded m" using assms unfolding plan_group_excluded by blast
  then obtain f r where l: "[m \<leftarrow> members. \<not> lm_excluded m] = f # r"
    and set_l: "set (f # r) = {m \<in> set members. \<not> lm_excluded m}"
    by (cases rule: included_cases [of members]) auto
  have "\<exists>m \<in> set (f # r). lm_series_id m = gs_primary (plan_group members preferred)"
    by (auto simp: plan_group_def l Let_def list_ex_iff)
  then show ?thesis unfolding set_l by blast
qed

lemma plan_group_progress_max:
  assumes "m \<in> set members" "\<not> lm_excluded m" "lm_progress m = Some (p, u)"
  shows "p \<le> ls_progress (gs_side (plan_group members preferred))"
proof -
  obtain f r where l: "[m \<leftarrow> members. \<not> lm_excluded m] = f # r"
    using assms by (metis filter_empty_conv list.exhaust)
  have "(p, u) \<in> set (filter_map lm_progress (f # r))"
    unfolding filter_map_set l [symmetric] using assms by auto
  moreover obtain q v where q: "max_by_key_last (\<lambda>pu. pu) (filter_map lm_progress (f # r)) = Some (q, v)"
    using calculation max_by_key_last_Some by (metis empty_iff empty_set surj_pair)
  ultimately have "(p, u) \<le> (q, v)" by (intro max_by_key_last_ge [OF q, of "(p, u)"])
  then show ?thesis by (auto simp: plan_group_def l Let_def q)
qed

lemma plan_group_progress_held:
  assumes "ls_progress (gs_side (plan_group members preferred)) \<noteq> 0"
  shows "\<exists>m \<in> set members. \<not> lm_excluded m \<and>
     (\<exists>u. lm_progress m = Some (ls_progress (gs_side (plan_group members preferred)), u))"
proof (cases "[m \<leftarrow> members. \<not> lm_excluded m]")
  case Nil
  then show ?thesis using assms by (simp add: plan_group_def)
next
  case (Cons f r)
  have eq: "ls_progress (gs_side (plan_group members preferred)) =
      (case max_by_key_last (\<lambda>pu. pu) (filter_map lm_progress (f # r)) of None \<Rightarrow> 0 | Some (p, _) \<Rightarrow> p)"
    by (simp add: plan_group_def Cons Let_def)
  then obtain q v where q: "max_by_key_last (\<lambda>pu. pu) (filter_map lm_progress (f # r)) = Some (q, v)"
    using assms by (auto split: option.splits)
  have "(q, v) \<in> set (filter_map lm_progress (f # r))" by (rule max_by_key_last_mem [OF q])
  then obtain m where "m \<in> set (f # r)" "lm_progress m = Some (q, v)"
    unfolding filter_map_set by blast
  moreover have "set (f # r) = {m \<in> set members. \<not> lm_excluded m}" using Cons by (metis set_filter)
  ultimately show ?thesis by (auto simp: eq q)
qed

lemma plan_group_status:
  assumes "ls_status (gs_side (plan_group members preferred)) = Some w"
  shows "\<exists>m \<in> set members. \<not> lm_excluded m \<and> lm_status m = Some w"
proof (cases rule: included_cases [of members])
  case none
  then show ?thesis using assms by (simp add: plan_group_def)
next
  case (some f r)
  define own where "own = find (\<lambda>m. lm_series_id m = gs_primary (plan_group members preferred)) (f # r)"
  have st: "ls_status (gs_side (plan_group members preferred)) =
      (case (case own of None \<Rightarrow> None | Some m \<Rightarrow> lm_status m) of
         Some w \<Rightarrow> Some w | None \<Rightarrow> find_map lm_status (f # r))"
    by (simp add: plan_group_def some(1) Let_def own_def del: find.simps)
  have "\<exists>m \<in> set (f # r). lm_status m = Some w"
  proof (cases "case own of None \<Rightarrow> None | Some m \<Rightarrow> lm_status m")
    case None
    then have "find_map lm_status (f # r) = Some w" using assms by (simp only: st option.case)
    then show ?thesis by (rule find_map_Some)
  next
    case (Some v)
    then obtain m where m: "own = Some m" "lm_status m = Some v" by (cases own) simp_all
    then show ?thesis using find_Some_mem [OF m(1) [unfolded own_def]] assms Some
      by (auto simp: st)
  qed
  then show ?thesis using some(2) by auto
qed

lemma plan_group_status_None:
  assumes "ls_status (gs_side (plan_group members preferred)) = None"
    "m \<in> set members" "\<not> lm_excluded m"
  shows "lm_status m = None"
proof (cases "[m \<leftarrow> members. \<not> lm_excluded m]")
  case Nil
  then show ?thesis using assms by (simp add: filter_empty_conv)
next
  case (Cons f r)
  have s: "set (f # r) = {m \<in> set members. \<not> lm_excluded m}" using Cons by (metis set_filter)
  have "find_map lm_status (f # r) = None"
    using assms(1) by (auto simp: plan_group_def Cons Let_def split: option.splits if_splits)
  then show ?thesis using s assms(2,3) by (auto simp: find_map_None)
qed

section \<open>What the mirror promises\<close>

definition storable_progress :: "progress \<Rightarrow> bool" where
  "storable_progress x \<longleftrightarrow> (\<exists>w. x = of_int w \<and> 0 \<le> w \<and> w \<le> 200000)"

lemma storable_nonneg: "storable_progress x \<Longrightarrow> 0 \<le> x"
  by (auto simp: storable_progress_def)

definition put_progress :: "user_id \<Rightarrow> series_id \<Rightarrow> progress \<Rightarrow> sync_db \<Rightarrow> sync_db" where
  "put_progress u s x db = snd (db_progress_set u s x db)"

lemma db_progress_set_ok:
  assumes "storable_progress x"
  shows "db_progress_set u s x db = (Ok (), put_progress u s x db)"
proof -
  obtain w where w: "x = of_int w" "0 \<le> w" "w \<le> 200000" using assms by (auto simp: storable_progress_def)
  then have "to_numeric x = Ok (milli_of_whole w)" by (simp add: to_numeric_whole)
  then show ?thesis by (simp add: put_progress_def db_progress_set_def progress_set_def)
qed

lemma put_progress_state:
  assumes "storable_progress x"
  shows "progress_state (db_progress (put_progress u s x db)) v t =
     (if (v, t) = (u, s) then Some (x, db_now db) else progress_state (db_progress db) v t)"
proof -
  obtain w where w: "x = of_int w" "0 \<le> w" "w \<le> 200000" using assms by (auto simp: storable_progress_def)
  then have n: "to_numeric x = Ok (milli_of_whole w)" by (simp add: to_numeric_whole)
  have "db_progress (put_progress u s x db) = progress_put (db_now db) (u, s) (milli_of_whole w) (db_progress db)"
    by (simp add: put_progress_def db_progress_set_def progress_set_def n)
  then show ?thesis
    using w by (auto simp: progress_put_def progress_state_def update_conv' set_row_def from_milli_whole
        split: option.split)
qed

lemma put_progress_frame [store_simps]:
  "db_watch (put_progress u s x db) = db_watch db"
  "db_mappings (put_progress u s x db) = db_mappings db"
  "db_conflicts (put_progress u s x db) = db_conflicts db"
  "db_overrides (put_progress u s x db) = db_overrides db"
  "db_now (put_progress u s x db) = db_now db"
  by (simp_all add: put_progress_def db_progress_set_def split: sum.split)

lemma get_snapshot_record:
  "get_snapshot (record_snapshot s p a db) t q =
     (if (t, q) = (s, p) then map_option (\<lambda>r. snapshot_of (agree_row a (db_now db) r))
        (map_of (db_mappings db) (s, p)) else get_snapshot db t q)"
  by (auto simp: get_snapshot_def record_snapshot_def option.map_comp comp_def)

lemma external_record [store_simps]:
  "mapping_external_for_series (record_snapshot s p a db) t q = mapping_external_for_series db t q"
  by (auto simp: mapping_external_for_series_def record_snapshot_def agree_row_def option.map_comp
      comp_def)

text \<open>The state of one member once it has been brought into step, as a function of the old one.\<close>

definition settled_snapshot :: "progress \<Rightarrow> watch_status \<Rightarrow> timestamp \<Rightarrow> sync_snapshot" where
  "settled_snapshot p w now =
     \<lparr>last_synced_local_progress = Some p, last_synced_remote_progress = Some p,
      last_synced_local_status = Some (watch_status_as_str w),
      last_synced_remote_status = Some (watch_status_as_str w), last_synced_at = Some now\<rparr>"

lemma snapshot_of_agree [simp]:
  "snapshot_of (agree_row (agreed p w) now r) = settled_snapshot p w now"
  by (simp add: snapshot_of_def agree_row_def agreed_def settled_snapshot_def)

definition write_state :: "user_id \<Rightarrow> string \<Rightarrow> progress \<times> watch_status \<Rightarrow> mirror_write \<Rightarrow> sync_db \<Rightarrow> sync_db"
  where
  "write_state u provider pw wr db =
     record_snapshot (mw_series_id wr) provider (agreed (fst pw) (snd pw))
       ((case mw_status wr of None \<Rightarrow> id | Some st \<Rightarrow> watchlist_set_status u (mw_series_id wr) st)
         ((case mw_progress wr of None \<Rightarrow> id | Some x \<Rightarrow> put_progress u (mw_series_id wr) x) db))"

definition write_ok :: "mirror_write \<Rightarrow> bool" where
  "write_ok wr \<longleftrightarrow> (case mw_progress wr of None \<Rightarrow> True | Some x \<Rightarrow> storable_progress x)"

lemma apply_write_ok:
  assumes "write_ok wr"
  shows "apply_write u provider pw wr db = (Ok (), write_state u provider pw wr db)"
  using assms
  by (cases "mw_progress wr"; cases "mw_status wr")
    (simp_all add: write_ok_def apply_write_def write_state_def act_then_def act_bind_def
      db_progress_set_ok)

lemma apply_mirror_ok:
  assumes "list_all write_ok writes"
  shows "apply_mirror u provider writes pw db = (Ok (), fold (write_state u provider pw) writes db)"
  using assms unfolding apply_mirror_def
  by (induction writes arbitrary: db) (simp_all add: act_then_def act_bind_def apply_write_ok)

lemma external_frame [store_simps]:
  "mapping_external_for_series (put_progress u s x db) t q = mapping_external_for_series db t q"
  "mapping_external_for_series (watchlist_set_status u s w db) t q = mapping_external_for_series db t q"
  by (simp_all add: mapping_external_for_series_def store_simps)

lemma write_state_frame [store_simps]:
  "db_conflicts (write_state u pv pw wr db) = db_conflicts db"
  "db_overrides (write_state u pv pw wr db) = db_overrides db"
  "db_now (write_state u pv pw wr db) = db_now db"
  "mapping_external_for_series (write_state u pv pw wr db) t q = mapping_external_for_series db t q"
  by (simp_all add: write_state_def store_simps split: option.split)

lemma write_state_progress:
  assumes "write_ok wr"
  shows "progress_state (db_progress (write_state u pv pw wr db)) v t =
     (case mw_progress wr of
        None \<Rightarrow> progress_state (db_progress db) v t
      | Some x \<Rightarrow> if (v, t) = (u, mw_series_id wr) then Some (x, db_now db)
                  else progress_state (db_progress db) v t)"
  using assms by (cases "mw_progress wr"; cases "mw_status wr")
    (simp_all add: write_ok_def write_state_def store_simps put_progress_state)

lemma status_frame [store_simps]:
  "watchlist_status_get (record_snapshot s p a db) v t = watchlist_status_get db v t"
  "watchlist_status_get (put_progress u s x db) v t = watchlist_status_get db v t"
  by (simp_all add: watchlist_status_get_def store_simps)

lemma write_state_status:
  "watchlist_status_get (write_state u pv pw wr db) v t =
     (case mw_status wr of
        None \<Rightarrow> watchlist_status_get db v t
      | Some st \<Rightarrow> if (v, t) = (u, mw_series_id wr) then Some st else watchlist_status_get db v t)"
  by (cases "mw_progress wr"; cases "mw_status wr")
    (simp_all add: write_state_def store_simps status_get_set)

lemma write_state_mappings:
  "db_mappings (write_state u pv pw wr db) =
     row_update (mw_series_id wr, pv) (agree_row (agreed (fst pw) (snd pw)) (db_now db)) (db_mappings db)"
  by (cases "mw_progress wr"; cases "mw_status wr")
    (simp_all add: write_state_def record_snapshot_def store_simps)

lemma write_state_snapshot:
  "get_snapshot (write_state u pv (p, w) wr db) t q =
     (if (t, q) = (mw_series_id wr, pv)
      then map_option (\<lambda>_. settled_snapshot p w (db_now db)) (get_snapshot db t q)
      else get_snapshot db t q)"
  by (auto simp: get_snapshot_def write_state_mappings option.map_comp comp_def)

text \<open>
  The fold over a group with distinct series: every member ends where its own write puts it, and
  nothing outside the group moves.
\<close>

lemma fold_writes_frame [store_simps]:
  "db_conflicts (fold (write_state u pv pw) writes db) = db_conflicts db"
  "db_overrides (fold (write_state u pv pw) writes db) = db_overrides db"
  "db_now (fold (write_state u pv pw) writes db) = db_now db"
  "mapping_external_for_series (fold (write_state u pv pw) writes db) t q =
     mapping_external_for_series db t q"
  by (induction writes arbitrary: db) (simp_all add: store_simps)

lemma fold_writes_other:
  assumes "list_all write_ok writes" "v \<noteq> u \<or> t \<notin> mw_series_id ` set writes"
  shows "progress_state (db_progress (fold (write_state u pv pw) writes db)) v t =
           progress_state (db_progress db) v t"
    and "watchlist_status_get (fold (write_state u pv pw) writes db) v t = watchlist_status_get db v t"
proof -
  show "progress_state (db_progress (fold (write_state u pv pw) writes db)) v t =
      progress_state (db_progress db) v t"
    using assms by (induction writes arbitrary: db) (auto simp: write_state_progress split: option.split)
  show "watchlist_status_get (fold (write_state u pv pw) writes db) v t = watchlist_status_get db v t"
    using assms(2) by (induction writes arbitrary: db) (auto simp: write_state_status split: option.split)
qed

lemma fold_writes_progress:
  assumes "list_all write_ok writes" "distinct (map mw_series_id writes)" "wr \<in> set writes"
  shows "progress_state (db_progress (fold (write_state u pv pw) writes db)) u (mw_series_id wr) =
           (case mw_progress wr of None \<Rightarrow> progress_state (db_progress db) u (mw_series_id wr)
            | Some x \<Rightarrow> Some (x, db_now db))"
  using assms
proof (induction writes arbitrary: db)
  case (Cons a as)
  show ?case
  proof (cases "wr = a")
    case True
    then have "mw_series_id wr \<notin> mw_series_id ` set as" using Cons.prems by auto
    then show ?thesis using True Cons.prems
      by (simp add: fold_writes_other(1) write_state_progress split: option.split)
  next
    case False
    then have "wr \<in> set as" "mw_series_id wr \<noteq> mw_series_id a"
      using Cons.prems by (force simp: image_iff)+
    then show ?thesis using Cons.IH [of "write_state u pv pw a db"] Cons.prems
      by (simp add: write_state_progress store_simps split: option.split)
  qed
qed simp

lemma fold_writes_status:
  assumes "distinct (map mw_series_id writes)" "wr \<in> set writes"
  shows "watchlist_status_get (fold (write_state u pv pw) writes db) u (mw_series_id wr) =
           (case mw_status wr of None \<Rightarrow> watchlist_status_get db u (mw_series_id wr) | Some s \<Rightarrow> Some s)"
  using assms
proof (induction writes arbitrary: db)
  case (Cons a as)
  have skip: "watchlist_status_get (fold (write_state u pv pw) as d) u t = watchlist_status_get d u t"
    if "t \<notin> mw_series_id ` set as" for t d
    using that by (induction as arbitrary: d) (auto simp: write_state_status split: option.split)
  show ?case
  proof (cases "wr = a")
    case True
    then have "mw_series_id wr \<notin> mw_series_id ` set as" using Cons.prems by auto
    then show ?thesis using True by (simp add: skip write_state_status split: option.split)
  next
    case False
    then have "wr \<in> set as" "mw_series_id wr \<noteq> mw_series_id a"
      using Cons.prems by (force simp: image_iff)+
    then show ?thesis using Cons.IH [of "write_state u pv pw a db"] Cons.prems
      by (simp add: write_state_status split: option.split)
  qed
qed simp

lemma fold_writes_snapshot:
  "get_snapshot (fold (write_state u pv (p, w)) writes db) t q =
     (if q = pv \<and> t \<in> mw_series_id ` set writes
      then map_option (\<lambda>_. settled_snapshot p w (db_now db)) (get_snapshot db t q)
      else get_snapshot db t q)"
  by (induction writes arbitrary: db)
    (auto simp: write_state_snapshot store_simps option.map_comp comp_def)

end
