(* ===== verification/Sync_Reconcile.thy ===== *)
theory Sync_Reconcile
  imports Sync_Linked
begin

text \<open>
  The reconciliation of one linked group, \<open>src/services/sync/src/engine/reconcile.rs\<close>: the local
  state a run reads once, the decision journal, and the steps that carry a plan out. The remote
  provider is an external service: \<open>rc_save_entry\<close> says how it answers a write, given the
  writes it has accepted so far, and the accepted writes are kept in order. Of a decision's
  evidence the model keeps what a later revert reads, and of a history row its key and action.
\<close>

section \<open>Counters, journal and context\<close>

datatype sync_error = Db db_error | Provider string | Refused string

record reconcile_counts =
  rn_fetched :: nat
  rn_matched :: nat
  rn_unmatched :: nat
  rn_considered :: nat
  rn_pulled :: nat
  rn_pushed :: nat
  rn_unmapped :: nat
  rn_conflicts :: nat
  rn_skipped :: nat
  rn_enriched :: nat

definition counts_default :: reconcile_counts where
  "counts_default =
     \<lparr>rn_fetched = 0, rn_matched = 0, rn_unmatched = 0, rn_considered = 0, rn_pulled = 0,
      rn_pushed = 0, rn_unmapped = 0, rn_conflicts = 0, rn_skipped = 0, rn_enriched = 0\<rparr>"

datatype evidence =
    NoEvidence
  | Created watch_status
  | Written watch_status progress watch_status progress string

record sync_decision =
  sd_user :: user_id
  sd_series :: "series_id option"
  sd_provider :: string
  sd_external :: "string option"
  sd_scope :: string
  sd_action :: string
  sd_reason :: string
  sd_policy :: "string option"
  sd_applied :: bool
  sd_local_before :: "text_value option"
  sd_local_after :: "text_value option"
  sd_remote_before :: "text_value option"
  sd_remote_after :: "text_value option"
  sd_ancestor_local :: "text_value option"
  sd_ancestor_remote :: "text_value option"
  sd_evidence :: evidence

definition new_decision :: "user_id \<Rightarrow> string \<Rightarrow> string \<Rightarrow> string \<Rightarrow> string \<Rightarrow> sync_decision" where
  "new_decision u provider scope action reason =
     \<lparr>sd_user = u, sd_series = None, sd_provider = provider, sd_external = None, sd_scope = scope,
      sd_action = action, sd_reason = reason, sd_policy = None, sd_applied = False,
      sd_local_before = None, sd_local_after = None, sd_remote_before = None,
      sd_remote_after = None, sd_ancestor_local = None, sd_ancestor_remote = None,
      sd_evidence = NoEvidence\<rparr>"

type_synonym remote_save = "string \<times> string \<times> watch_status \<times> progress"

record engine =
  en_db :: sync_db
  en_saves :: "remote_save list"
  en_history :: "(user_id \<times> series_id \<times> string \<times> string) list"
  en_journal :: "sync_decision list"
  en_counts :: reconcile_counts
  en_decisions :: "sync_decision list"

record run_context =
  rc_slug :: string
  rc_user :: user_id
  rc_policy :: conflict_policy
  rc_save_entry :: "remote_save list \<Rightarrow> string \<Rightarrow> watch_status \<Rightarrow> progress \<Rightarrow> (string, unit) result"
  rc_blocked :: "(string \<times> series_id) list"

type_synonym 'a sync = "(engine, sync_error, 'a) act"

definition note_decision ::
  "run_context \<Rightarrow> string \<Rightarrow> string \<Rightarrow> string \<Rightarrow> (sync_decision \<Rightarrow> sync_decision) \<Rightarrow> engine \<Rightarrow> engine" where
  "note_decision run scope action reason fill en =
     en\<lparr>en_decisions := en_decisions en @
          [fill (new_decision (rc_user run) (rc_slug run) scope action reason)]\<rparr>"

definition count :: "(reconcile_counts \<Rightarrow> reconcile_counts) \<Rightarrow> engine \<Rightarrow> engine" where
  "count f en = en\<lparr>en_counts := f (en_counts en)\<rparr>"

definition append_history :: "run_context \<Rightarrow> series_id \<Rightarrow> string \<Rightarrow> engine \<Rightarrow> engine" where
  "append_history run s action en =
     en\<lparr>en_history := en_history en @ [(rc_user run, s, rc_slug run, action)]\<rparr>"

definition modify_db :: "(sync_db \<Rightarrow> sync_db) \<Rightarrow> engine \<Rightarrow> engine" where
  "modify_db f en = en\<lparr>en_db := f (en_db en)\<rparr>"

definition lift_db :: "(sync_db, db_error, 'a) act \<Rightarrow> 'a sync" where
  "lift_db m en =
     (case m (en_db en) of
        (Inl e, db) \<Rightarrow> (Err (Db e), en\<lparr>en_db := db\<rparr>)
      | (Inr x, db) \<Rightarrow> (Ok x, en\<lparr>en_db := db\<rparr>))"

definition save_entry :: "run_context \<Rightarrow> string \<Rightarrow> watch_status \<Rightarrow> progress \<Rightarrow> unit sync" where
  "save_entry run ext w p en =
     (case rc_save_entry run (en_saves en) ext w p of
        Inl e \<Rightarrow> (Err (Provider e), en)
      | Inr _ \<Rightarrow> (Ok (), en\<lparr>en_saves := en_saves en @ [(rc_slug run, ext, w, p)]\<rparr>))"

text \<open>The journal is written best-effort and cleared whether or not the write succeeds.\<close>

definition flush :: "bool \<Rightarrow> engine \<Rightarrow> engine" where
  "flush written en =
     (if en_decisions en = [] then en
      else en\<lparr>en_decisions := [],
              en_journal := (if written then en_journal en @ en_decisions en else en_journal en)\<rparr>)"

section \<open>The local state of a run\<close>

record local_state =
  lo_excluded :: "series_id set"
  lo_progress :: "series_id \<Rightarrow> (progress \<times> timestamp) option"
  lo_status :: "series_id \<Rightarrow> watch_status option"

definition local_load :: "sync_db \<Rightarrow> user_id \<Rightarrow> string \<Rightarrow> local_state" where
  "local_load db u slug =
     \<lparr>lo_excluded = set (sync_excluded_series db u slug),
      lo_progress = progress_state (db_progress db) u,
      lo_status = watchlist_status_get db u\<rparr>"

definition local_members :: "local_state \<Rightarrow> series_id list \<Rightarrow> linked_member list" where
  "local_members loc ids =
     map (\<lambda>s. \<lparr>lm_series_id = s, lm_progress = lo_progress loc s, lm_status = lo_status loc s,
               lm_excluded = s \<in> lo_excluded loc\<rparr>) ids"

text \<open>
  One entry per external id: an entry replaces an earlier one unless the earlier one is at least as
  recent. The map's own order is not specified in the code; here it is that of first insertion.
\<close>

definition dedupe_step :: "remote_entry \<Rightarrow> (string, remote_entry) tbl \<Rightarrow> (string, remote_entry) tbl" where
  "dedupe_step entry by_id =
     (case map_of by_id (re_external_id entry) of
        Some existing \<Rightarrow>
          if re_updated_at entry \<le> re_updated_at existing then by_id
          else AList.update (re_external_id entry) entry by_id
      | None \<Rightarrow> AList.update (re_external_id entry) entry by_id)"

definition dedupe_latest_by_external_id :: "remote_entry list \<Rightarrow> remote_entry list" where
  "dedupe_latest_by_external_id entries = map snd (fold dedupe_step entries [])"

section \<open>Carrying a plan out\<close>

definition status_text :: "watch_status \<Rightarrow> text_value" where
  "status_text w = Token (watch_status_as_str w)"

definition note_field ::
  "run_context \<Rightarrow> series_id \<Rightarrow> string \<Rightarrow> string \<Rightarrow> string \<Rightarrow> string \<Rightarrow>
     text_value option \<times> text_value option \<Rightarrow> text_value option \<times> text_value option \<Rightarrow> bool \<Rightarrow>
     engine \<Rightarrow> engine" where
  "note_field run s ext scope action reason values ancestor applied =
     note_decision run scope action reason (\<lambda>d. d
       \<lparr>sd_series := Some s, sd_external := Some ext,
        sd_policy := Some (conflict_policy_as_str (rc_policy run)), sd_applied := applied,
        sd_local_after := (if action = ''pull'' then snd values else sd_local_after d),
        sd_remote_after := (if action = ''push'' then fst values else sd_remote_after d),
        sd_local_before := fst values, sd_remote_before := snd values,
        sd_ancestor_local := fst ancestor, sd_ancestor_remote := snd ancestor\<rparr>)"

definition progress_pair :: "'a \<times> 'a \<Rightarrow> ('a \<Rightarrow> text_value) \<Rightarrow> text_value option \<times> text_value option" where
  "progress_pair lr f = (Some (f (fst lr)), Some (f (snd lr)))"

definition ancestor_pair ::
  "'a option \<times> 'a option \<Rightarrow> ('a \<Rightarrow> text_value) \<Rightarrow> text_value option \<times> text_value option" where
  "ancestor_pair a f = (map_option f (fst a), map_option f (snd a))"

definition import_status :: "run_context \<Rightarrow> series_id \<Rightarrow> string \<Rightarrow> merge_plan \<Rightarrow> unit sync" where
  "import_status run s ext plan =
     (case mp_import_status plan of
        None \<Rightarrow> act_return ()
      | Some w \<Rightarrow>
          act_then (act_modify (modify_db (watchlist_set_status (rc_user run) s w)))
            (act_modify (note_decision run ''status'' ''import_status'' ''absent_from_the_watchlist''
              (\<lambda>d. d\<lparr>sd_series := Some s, sd_external := Some ext, sd_applied := True,
                     sd_remote_after := Some (status_text w), sd_local_after := Some (status_text w)\<rparr>))))"

definition merge_progress :: "run_context \<Rightarrow> series_id \<Rightarrow> string \<Rightarrow> merge_plan \<Rightarrow> unit sync" where
  "merge_progress run s ext plan =
     (let f = mp_progress plan;
          values = progress_pair (fp_local f, fp_remote f) NumText;
          anc = ancestor_pair (fp_ancestor f) NumText
      in case fp_action f of
           PullRemote \<Rightarrow>
             act_then (lift_db (db_progress_set (rc_user run) s (fp_remote f)))
            (act_then (act_modify (count (\<lambda>c. c\<lparr>rn_pulled := rn_pulled c + 1\<rparr>)))
            (act_then (act_modify (note_field run s ext ''progress'' ''pull'' (fp_reason f) values anc True))
            (act_modify (append_history run s ''pull''))))
         | Conflict \<Rightarrow>
             act_then (act_modify (modify_db (insert_conflict (rc_user run) s (rc_slug run) ''progress''
               (NumText (fp_local f)) (NumText (fp_remote f)))))
            (act_then (act_modify (count (\<lambda>c. c\<lparr>rn_conflicts := rn_conflicts c + 1\<rparr>)))
            (act_then (act_modify (note_field run s ext ''progress'' ''conflict'' (fp_reason f) values anc False))
            (act_modify (append_history run s ''conflict_auto''))))
         | PushLocal \<Rightarrow> act_return ()
         | Noop \<Rightarrow> act_modify (note_field run s ext ''progress'' ''noop'' (fp_reason f) values anc False))"

definition merge_status :: "run_context \<Rightarrow> series_id \<Rightarrow> string \<Rightarrow> merge_plan \<Rightarrow> unit sync" where
  "merge_status run s ext plan =
     (let f = mp_status plan;
          values = progress_pair (fp_local f, fp_remote f) status_text;
          anc = ancestor_pair (fp_ancestor f) status_text
      in if fp_action f = PullRemote \<and> mp_import_status plan = None then
           act_then (act_modify (modify_db (watchlist_set_status (rc_user run) s (fp_remote f))))
          (act_then (act_modify (count (\<lambda>c. c\<lparr>rn_pulled := rn_pulled c + 1\<rparr>)))
          (act_modify (note_field run s ext ''status'' ''pull'' (fp_reason f) values anc True)))
         else if fp_action f = Conflict then
           act_then (act_modify (modify_db (insert_conflict (rc_user run) s (rc_slug run) ''status''
             (status_text (fp_local f)) (status_text (fp_remote f)))))
          (act_then (act_modify (count (\<lambda>c. c\<lparr>rn_conflicts := rn_conflicts c + 1\<rparr>)))
          (act_modify (note_field run s ext ''status'' ''conflict'' (fp_reason f) values anc False)))
         else act_return ())"

definition amend_last :: "(sync_decision \<Rightarrow> sync_decision) \<Rightarrow> engine \<Rightarrow> engine" where
  "amend_last f en =
     en\<lparr>en_decisions := (case rev (en_decisions en) of [] \<Rightarrow> [] | d # ds \<Rightarrow> rev (f d # ds))\<rparr>"

definition write_remote :: "run_context \<Rightarrow> series_id \<Rightarrow> string \<Rightarrow> merge_plan \<Rightarrow> unit sync" where
  "write_remote run s ext plan =
     (case mp_remote_write plan of
        None \<Rightarrow> act_return ()
      | Some (w, p) \<Rightarrow>
          (let by_progress = (fp_action (mp_progress plan) = PushLocal);
               reason = (if by_progress then fp_reason (mp_progress plan) else fp_reason (mp_status plan))
           in act_then (save_entry run ext w p)
             (act_then (act_modify (count (\<lambda>c. c\<lparr>rn_pushed := rn_pushed c + 1\<rparr>)))
             (act_then (act_modify (note_field run s ext ''progress'' ''push'' reason
                 (Some (NumText p), Some (NumText (fp_remote (mp_progress plan))))
                 (ancestor_pair (fp_ancestor (mp_progress plan)) NumText) True))
             (act_then (act_modify (amend_last (\<lambda>d. d\<lparr>sd_remote_after := Some (NumText p),
                 sd_evidence := Written w p (fp_remote (mp_status plan)) (fp_remote (mp_progress plan))
                   (if by_progress then ''progress'' else ''status'')\<rparr>)))
             (act_modify (append_history run s ''push'')))))))"

definition linked_reason :: string where
  "linked_reason = ''linked_to_the_same_remote_entry''"

definition journal_write ::
  "run_context \<Rightarrow> series_id \<Rightarrow> string \<Rightarrow> linked_member list \<Rightarrow> progress \<Rightarrow> watch_status \<Rightarrow>
     mirror_write \<Rightarrow> engine \<Rightarrow> engine" where
  "journal_write run s ext members p w wr en =
     (if mw_series_id wr = s then en
      else
        let before = find (\<lambda>m. lm_series_id m = mw_series_id wr) members;
            held = (case before of None \<Rightarrow> None | Some m \<Rightarrow> map_option (NumText \<circ> fst) (lm_progress m));
            shelf = (case before of None \<Rightarrow> None | Some m \<Rightarrow> map_option status_text (lm_status m));
            en1 = (if mw_progress wr = None then en
                   else append_history run (mw_series_id wr) ''pull''
                     (note_field run (mw_series_id wr) ext ''progress'' ''pull'' linked_reason
                       (held, Some (NumText p)) (None, None) True
                       (count (\<lambda>c. c\<lparr>rn_pulled := rn_pulled c + 1\<rparr>) en)))
        in if mw_status wr = None then en1
           else note_field run (mw_series_id wr) ext ''status'' ''pull'' linked_reason
                  (shelf, Some (status_text w)) (None, None) True
                  (count (\<lambda>c. c\<lparr>rn_pulled := rn_pulled c + 1\<rparr>) en1))"

definition settle ::
  "run_context \<Rightarrow> series_id \<Rightarrow> string \<Rightarrow> linked_member list \<Rightarrow> progress \<Rightarrow> watch_status \<Rightarrow> unit sync" where
  "settle run s ext members p w =
     (let writes = plan_mirror members p w
      in act_then
           (if list_ex (\<lambda>wr. mw_series_id wr = s) writes then act_return ()
            else act_modify (modify_db (record_snapshot s (rc_slug run) (agreed p w))))
         (if writes = [] then act_return ()
          else act_then (lift_db (apply_mirror (rc_user run) (rc_slug run) writes (p, w)))
                 (act_modify (fold (journal_write run s ext members p w) writes))))"

definition apply_merge ::
  "run_context \<Rightarrow> series_id \<Rightarrow> string \<Rightarrow> merge_plan \<Rightarrow> linked_member list \<Rightarrow> unit sync" where
  "apply_merge run s ext plan members =
     act_then (import_status run s ext plan)
    (act_then (merge_progress run s ext plan)
    (act_then (merge_status run s ext plan)
    (act_then (write_remote run s ext plan)
    (case mp_snapshot plan of
       None \<Rightarrow> act_return ()
     | Some (p, w) \<Rightarrow> settle run s ext members p w))))"

definition apply_create_remote ::
  "run_context \<Rightarrow> series_id \<Rightarrow> string \<Rightarrow> watch_status \<Rightarrow> progress \<Rightarrow> linked_member list \<Rightarrow> unit sync" where
  "apply_create_remote run s ext w p members =
     act_then (save_entry run ext w p)
    (act_then (settle run s ext members p w)
    (act_then (act_modify (count (\<lambda>c. c\<lparr>rn_pushed := rn_pushed c + 1\<rparr>)))
    (act_then (act_modify (note_decision run ''series'' ''create_remote'' ''absent_from_the_remote_library''
       (\<lambda>d. d\<lparr>sd_series := Some s, sd_external := Some ext, sd_applied := True,
              sd_policy := Some (conflict_policy_as_str (rc_policy run)),
              sd_local_after := Some (NumText p), sd_remote_after := Some (NumText p),
              sd_evidence := Created w\<rparr>)))
    (act_modify (append_history run s ''push'')))))"

definition stored_status :: "string option \<Rightarrow> watch_status option" where
  "stored_status t = (case t of None \<Rightarrow> None
     | Some s \<Rightarrow> (case watch_status_from_str s of Inl _ \<Rightarrow> None | Inr w \<Rightarrow> Some w))"

definition load_ancestor :: "sync_db \<Rightarrow> string \<Rightarrow> string \<Rightarrow> ancestor" where
  "load_ancestor db ext slug =
     (case get_group_snapshot db slug ext of
        None \<Rightarrow> ancestor_default
      | Some s \<Rightarrow>
          \<lparr>an_local_progress = last_synced_local_progress s,
           an_remote_progress = last_synced_remote_progress s,
           an_local_status = stored_status (last_synced_local_status s),
           an_remote_status = stored_status (last_synced_remote_status s)\<rparr>)"

definition group_of :: "sync_db \<Rightarrow> string \<Rightarrow> string \<Rightarrow> series_id \<Rightarrow> series_id list" where
  "group_of db slug ext s =
     (case mapping_linked_series db slug ext of [] \<Rightarrow> [s] | g # gs \<Rightarrow> g # gs)"

definition reconcile_series ::
  "run_context \<Rightarrow> series_id \<Rightarrow> string \<Rightarrow> remote_entry option \<Rightarrow> local_state \<Rightarrow> series_id list sync" where
  "reconcile_series run series_id ext rem loc en =
     (let group = group_of (en_db en) (rc_slug run) ext series_id;
          members = local_members loc group;
          gs = plan_group members series_id;
          primary = gs_primary gs
      in act_then
           (case plan_series (gs_side gs) rem of
              Skip \<Rightarrow>
                act_then (act_modify (count (\<lambda>c. c\<lparr>rn_skipped := rn_skipped c + 1\<rparr>)))
                  (act_modify (note_decision run ''series'' ''skipped'' ''excluded_from_sync''
                    (\<lambda>d. d\<lparr>sd_series := Some primary, sd_external := Some ext\<rparr>)))
            | CreateRemote w p \<Rightarrow> apply_create_remote run primary ext w p members
            | Merge \<Rightarrow>
                apply_merge run primary ext
                  (plan_merge (gs_side gs) (the rem)
                    (load_ancestor (en_db en) ext (rc_slug run)) (rc_policy run)) members)
           (act_return group) en)"

section \<open>What the steps leave in the stores\<close>

lemma journal_frame [step_simps]:
  "en_db (note_decision run sc a r f en) = en_db en" "en_saves (note_decision run sc a r f en) = en_saves en"
  "en_db (count g en) = en_db en" "en_saves (count g en) = en_saves en"
  "en_db (append_history run s a en) = en_db en" "en_saves (append_history run s a en) = en_saves en"
  "en_db (amend_last f en) = en_db en" "en_saves (amend_last f en) = en_saves en"
  "en_db (modify_db h en) = h (en_db en)" "en_saves (modify_db h en) = en_saves en"
  by (simp_all add: note_decision_def count_def append_history_def amend_last_def modify_db_def)

lemma note_field_frame [step_simps]:
  "en_db (note_field run s e sc a r v an ap en) = en_db en"
  "en_saves (note_field run s e sc a r v an ap en) = en_saves en"
  by (simp_all add: note_field_def step_simps)

lemma journal_write_frame [step_simps]:
  "en_db (journal_write run s e ms p w wr en) = en_db en"
  "en_saves (journal_write run s e ms p w wr en) = en_saves en"
  by (simp_all add: journal_write_def Let_def step_simps)

lemma fold_journal_frame [step_simps]:
  "en_db (fold (journal_write run s e ms p w) wrs en) = en_db en"
  "en_saves (fold (journal_write run s e ms p w) wrs en) = en_saves en"
  by (induction wrs arbitrary: en) (simp_all add: step_simps)

text \<open>The database after each step of a merge, for the values the merge handles.\<close>

definition import_db :: "user_id \<Rightarrow> series_id \<Rightarrow> merge_plan \<Rightarrow> sync_db \<Rightarrow> sync_db" where
  "import_db u s plan = (case mp_import_status plan of None \<Rightarrow> id | Some w \<Rightarrow> watchlist_set_status u s w)"

definition progress_db :: "user_id \<Rightarrow> string \<Rightarrow> series_id \<Rightarrow> merge_plan \<Rightarrow> sync_db \<Rightarrow> sync_db" where
  "progress_db u slug s plan =
     (let f = mp_progress plan in
      case fp_action f of
        PullRemote \<Rightarrow> put_progress u s (fp_remote f)
      | Conflict \<Rightarrow> insert_conflict u s slug ''progress'' (NumText (fp_local f)) (NumText (fp_remote f))
      | _ \<Rightarrow> id)"

definition status_db :: "user_id \<Rightarrow> string \<Rightarrow> series_id \<Rightarrow> merge_plan \<Rightarrow> sync_db \<Rightarrow> sync_db" where
  "status_db u slug s plan =
     (let f = mp_status plan in
      if fp_action f = PullRemote \<and> mp_import_status plan = None then watchlist_set_status u s (fp_remote f)
      else if fp_action f = Conflict
        then insert_conflict u s slug ''status'' (status_text (fp_local f)) (status_text (fp_remote f))
      else id)"

definition settle_db ::
  "user_id \<Rightarrow> string \<Rightarrow> series_id \<Rightarrow> linked_member list \<Rightarrow> progress \<Rightarrow> watch_status \<Rightarrow> sync_db \<Rightarrow> sync_db" where
  "settle_db u slug s members p w db =
     (let writes = plan_mirror members p w in
      fold (write_state u slug (p, w)) writes
        (if list_ex (\<lambda>wr. mw_series_id wr = s) writes then db else record_snapshot s slug (agreed p w) db))"

lemma import_status_eff:
  "import_status run s ext plan en = (r, en') \<Longrightarrow>
   r = Ok () \<and> en_db en' = import_db (rc_user run) s plan (en_db en) \<and> en_saves en' = en_saves en"
  by (auto simp: import_status_def import_db_def step_simps split: option.splits)

lemma merge_progress_eff:
  assumes "storable_progress (fp_remote (mp_progress plan))"
    and "merge_progress run s ext plan en = (r, en')"
  shows "r = Ok () \<and> en_db en' = progress_db (rc_user run) (rc_slug run) s plan (en_db en) \<and>
    en_saves en' = en_saves en"
proof (cases "fp_action (mp_progress plan)")
  case PullRemote
  have "lift_db (db_progress_set (rc_user run) s (fp_remote (mp_progress plan))) en =
      (Ok (), modify_db (put_progress (rc_user run) s (fp_remote (mp_progress plan))) en)"
    by (simp add: lift_db_def db_progress_set_ok [OF assms(1)] modify_db_def)
  then show ?thesis
    using assms(2) PullRemote
    by (auto simp: merge_progress_def progress_db_def Let_def act_then_def act_bind_def step_simps)
qed (use assms(2) in \<open>auto simp: merge_progress_def progress_db_def Let_def step_simps\<close>)

lemma merge_status_eff:
  "merge_status run s ext plan en = (r, en') \<Longrightarrow>
   r = Ok () \<and> en_db en' = status_db (rc_user run) (rc_slug run) s plan (en_db en) \<and>
   en_saves en' = en_saves en"
  by (auto simp: merge_status_def status_db_def Let_def step_simps split: if_splits)

definition save_of :: "run_context \<Rightarrow> string \<Rightarrow> merge_plan \<Rightarrow> remote_save list" where
  "save_of run ext plan =
     (case mp_remote_write plan of None \<Rightarrow> [] | Some (w, p) \<Rightarrow> [(rc_slug run, ext, w, p)])"

lemma write_remote_eff:
  "write_remote run s ext plan en = (Ok (), en') \<Longrightarrow>
   en_db en' = en_db en \<and> en_saves en' = en_saves en @ save_of run ext plan"
  by (auto simp: write_remote_def save_of_def save_entry_def act_then_def act_bind_def Let_def step_simps
      split: option.splits sum.splits prod.splits)

lemma mirror_write_ok:
  "storable_progress p \<Longrightarrow> list_all write_ok (plan_mirror members p w)"
  by (auto simp: plan_mirror_def list_all_iff write_ok_def mirror_of_def split: option.splits if_splits)

lemma settle_eff:
  assumes "storable_progress p"
  shows "\<exists>en'. settle run s ext members p w en = (Ok (), en') \<and>
     en_db en' = settle_db (rc_user run) (rc_slug run) s members p w (en_db en) \<and>
     en_saves en' = en_saves en"
proof -
  have "lift_db (apply_mirror (rc_user run) (rc_slug run) (plan_mirror members p w) (p, w)) e =
      (Ok (), modify_db (fold (write_state (rc_user run) (rc_slug run) (p, w)) (plan_mirror members p w)) e)"
    for e
    by (simp add: lift_db_def apply_mirror_ok mirror_write_ok [OF assms] modify_db_def)
  then show ?thesis
    by (auto simp: settle_def settle_db_def Let_def act_then_def act_bind_def step_simps)
qed

lemma apply_merge_eff:
  assumes st: "storable_progress (fp_remote (mp_progress plan))"
    and snap: "mp_snapshot plan = Some (p, w)" "storable_progress p"
    and run: "apply_merge run s ext plan members en = (Ok (), en')"
  shows "en_db en' = settle_db (rc_user run) (rc_slug run) s members p w
      (status_db (rc_user run) (rc_slug run) s plan
        (progress_db (rc_user run) (rc_slug run) s plan
          (import_db (rc_user run) s plan (en_db en)))) \<and>
    en_saves en' = en_saves en @ save_of run ext plan"
proof -
  obtain e1 e2 e3 e4 where
    s1: "import_status run s ext plan en = (Ok (), e1)" and
    s2: "merge_progress run s ext plan e1 = (Ok (), e2)" and
    s3: "merge_status run s ext plan e2 = (Ok (), e3)" and
    s4: "write_remote run s ext plan e3 = (Ok (), e4)" and
    s5: "settle run s ext members p w e4 = (Ok (), en')"
    using run by (auto simp: apply_merge_def act_then_ok snap(1))
  show ?thesis
    using import_status_eff [OF s1] merge_progress_eff [OF st s2] merge_status_eff [OF s3]
      write_remote_eff [OF s4] settle_eff [OF snap(2), of run s ext members w e4] s5
    by auto
qed

section \<open>A merged group is in step\<close>

definition member_of :: "local_state \<Rightarrow> series_id \<Rightarrow> linked_member" where
  "member_of loc t = \<lparr>lm_series_id = t, lm_progress = lo_progress loc t, lm_status = lo_status loc t,
     lm_excluded = t \<in> lo_excluded loc\<rparr>"

lemma local_members_map: "local_members loc ids = map (member_of loc) ids"
  by (simp add: local_members_def member_of_def)

lemma member_of_sel [simp]:
  "lm_series_id (member_of loc t) = t" "lm_progress (member_of loc t) = lo_progress loc t"
  "lm_status (member_of loc t) = lo_status loc t" "lm_excluded (member_of loc t) \<longleftrightarrow> t \<in> lo_excluded loc"
  by (simp_all add: member_of_def)

lemma mirror_of_series [simp]: "mw_series_id (mirror_of p w m) = lm_series_id m"
  by (simp add: mirror_of_def)

definition mirrored :: "local_state \<Rightarrow> series_id list \<Rightarrow> series_id set" where
  "mirrored loc ids = {t \<in> set ids. t \<notin> lo_excluded loc \<and> tracked (member_of loc t)}"

lemma plan_mirror_ids:
  "mw_series_id ` set (plan_mirror (local_members loc ids) p w) = mirrored loc ids"
  by (force simp: plan_mirror_def local_members_map mirrored_def)

lemma plan_mirror_distinct:
  "distinct ids \<Longrightarrow> distinct (map mw_series_id (plan_mirror (local_members loc ids) p w))"
  by (simp add: plan_mirror_def local_members_map filter_map distinct_map inj_on_def comp_def)

lemma plan_mirror_mem:
  "t \<in> mirrored loc ids \<Longrightarrow> mirror_of p w (member_of loc t) \<in> set (plan_mirror (local_members loc ids) p w)"
  by (auto simp: plan_mirror_def local_members_map mirrored_def)

definition held :: "sync_db \<Rightarrow> user_id \<Rightarrow> series_id \<Rightarrow> progress" where
  "held db u t = (case progress_state (db_progress db) u t of None \<Rightarrow> 0 | Some (x, _) \<Rightarrow> x)"

lemma settle_other:
  assumes "storable_progress p" "v \<noteq> u \<or> t \<notin> mirrored loc ids"
  shows "progress_state (db_progress (settle_db u slug s (local_members loc ids) p w db)) v t =
           progress_state (db_progress db) v t"
    and "watchlist_status_get (settle_db u slug s (local_members loc ids) p w db) v t =
           watchlist_status_get db v t"
proof -
  note out = fold_writes_other [OF mirror_write_ok [OF assms(1)], of v u t "local_members loc ids" w]
  show "progress_state (db_progress (settle_db u slug s (local_members loc ids) p w db)) v t =
      progress_state (db_progress db) v t"
    using assms(2) by (simp add: settle_db_def Let_def out(1) plan_mirror_ids store_simps)
  show "watchlist_status_get (settle_db u slug s (local_members loc ids) p w db) v t =
      watchlist_status_get db v t"
    using assms(2) by (simp add: settle_db_def Let_def out(2) plan_mirror_ids store_simps)
qed

lemma settle_member:
  assumes p: "storable_progress p" and d: "distinct ids" and t: "t \<in> mirrored loc ids"
  shows "progress_state (db_progress (settle_db u slug s (local_members loc ids) p w db)) u t =
           (case mw_progress (mirror_of p w (member_of loc t)) of
              None \<Rightarrow> progress_state (db_progress db) u t | Some x \<Rightarrow> Some (x, db_now db))"
    and "watchlist_status_get (settle_db u slug s (local_members loc ids) p w db) u t =
           (case mw_status (mirror_of p w (member_of loc t)) of
              None \<Rightarrow> watchlist_status_get db u t | Some x \<Rightarrow> Some x)"
proof -
  note m = plan_mirror_mem [OF t, of p w] and dd = plan_mirror_distinct [OF d, of loc p w]
  have now: "db_now (if b then db else record_snapshot s slug (agreed p w) db) = db_now db"
    "db_progress (if b then db else record_snapshot s slug (agreed p w) db) = db_progress db"
    "watchlist_status_get (if b then db else record_snapshot s slug (agreed p w) db) u t =
       watchlist_status_get db u t" for b
    by (simp_all add: store_simps)
  show "progress_state (db_progress (settle_db u slug s (local_members loc ids) p w db)) u t =
           (case mw_progress (mirror_of p w (member_of loc t)) of
              None \<Rightarrow> progress_state (db_progress db) u t | Some x \<Rightarrow> Some (x, db_now db))"
    using fold_writes_progress [OF mirror_write_ok [OF p] dd m, of u slug "(p, w)"]
    by (simp only: settle_db_def Let_def mirror_of_series member_of_sel now)
  show "watchlist_status_get (settle_db u slug s (local_members loc ids) p w db) u t =
           (case mw_status (mirror_of p w (member_of loc t)) of
              None \<Rightarrow> watchlist_status_get db u t | Some x \<Rightarrow> Some x)"
    using fold_writes_status [OF dd m, of u slug "(p, w)"]
    by (simp only: settle_db_def Let_def mirror_of_series member_of_sel now)
qed

lemma settle_snapshot:
  "get_snapshot (settle_db u slug s (local_members loc ids) p w db) t q =
     (if q = slug \<and> (t = s \<or> t \<in> mirrored loc ids)
      then map_option (\<lambda>_. settled_snapshot p w (db_now db)) (get_snapshot db t q)
      else get_snapshot db t q)"
proof -
  have ex: "list_ex (\<lambda>wr. mw_series_id wr = s) (plan_mirror (local_members loc ids) p w) \<longleftrightarrow>
      s \<in> mirrored loc ids"
    unfolding plan_mirror_ids [of loc ids p w, symmetric] by (auto simp: list_ex_iff)
  show ?thesis
    unfolding settle_db_def Let_def fold_writes_snapshot plan_mirror_ids ex
    by (auto simp: record_snapshot_def get_snapshot_def option.map_comp comp_def)
qed

text \<open>The writes of the merge itself touch the driving series only.\<close>

definition merged_db :: "user_id \<Rightarrow> string \<Rightarrow> series_id \<Rightarrow> merge_plan \<Rightarrow> sync_db \<Rightarrow> sync_db" where
  "merged_db u slug s plan db =
     status_db u slug s plan (progress_db u slug s plan (import_db u s plan db))"

lemma merged_frame [store_simps]:
  "db_now (merged_db u slug s plan db) = db_now db"
  "db_mappings (merged_db u slug s plan db) = db_mappings db"
  "db_overrides (merged_db u slug s plan db) = db_overrides db"
  by (simp_all add: merged_db_def status_db_def progress_db_def import_db_def Let_def store_simps
      split: option.split merge_action.split)

lemma conflict_status [store_simps]:
  "watchlist_status_get (insert_conflict u s p f l r db) v t = watchlist_status_get db v t"
  by (simp add: watchlist_status_get_def store_simps)

lemma merged_progress:
  assumes "storable_progress (fp_remote (mp_progress plan))"
  shows "progress_state (db_progress (merged_db u slug s plan db)) v t =
     (if fp_action (mp_progress plan) = PullRemote \<and> (v, t) = (u, s)
      then Some (fp_remote (mp_progress plan), db_now db) else progress_state (db_progress db) v t)"
  using assms
  by (cases "fp_action (mp_progress plan)")
    (simp_all add: merged_db_def status_db_def progress_db_def import_db_def Let_def store_simps
      put_progress_state split: option.split)

lemma merged_status:
  "watchlist_status_get (merged_db u slug s plan db) v t =
     (if (v, t) \<noteq> (u, s) then watchlist_status_get db v t
      else case mp_import_status plan of
        Some w \<Rightarrow> Some w
      | None \<Rightarrow> if fp_action (mp_status plan) = PullRemote then Some (fp_remote (mp_status plan))
                else watchlist_status_get db v t)"
  by (cases "fp_action (mp_progress plan)"; cases "mp_import_status plan")
    (simp_all add: merged_db_def status_db_def progress_db_def import_db_def Let_def store_simps
      status_get_set)

text \<open>
  The state after a merge that settled: what every mirrored member holds, and what the driving
  series and the rest hold.
\<close>

lemma settled_progress:
  assumes plan: "plan = plan_merge side rem anc pol"
    and snap: "mp_snapshot plan = Some (p, w)"
    and st: "storable_progress (re_progress rem)" "storable_progress p"
    and d: "distinct ids" and t: "t \<in> mirrored (local_load db u slug) ids"
  shows "held (settle_db u slug s (local_members (local_load db u slug) ids) p w
           (merged_db u slug s plan db)) u t = p"
proof -
  let ?loc = "local_load db u slug"
  have pl: "p = local_after (mp_progress plan)"
    using snap by (auto simp: plan plan_merge_snapshot split: if_splits)
  have remote: "fp_remote (mp_progress plan) = re_progress rem" by (simp add: plan plan_merge_fields)
  have base: "progress_state (db_progress (merged_db u slug s plan db)) u t =
      (if fp_action (mp_progress plan) = PullRemote \<and> t = s then Some (p, db_now db)
       else progress_state (db_progress db) u t)"
    using st(1) by (simp add: merged_progress remote pl local_after_def)
  have lo: "lo_progress ?loc t = progress_state (db_progress db) u t" by (simp add: local_load_def)
  have "mw_progress (mirror_of p w (member_of ?loc t)) =
      (case progress_state (db_progress db) u t of
         Some (h, _) \<Rightarrow> if h \<noteq> p then Some p else None | None \<Rightarrow> if 0 < p then Some p else None)"
    by (simp add: mirror_of_def lo)
  then show ?thesis
    unfolding held_def settle_member(1) [OF st(2) d t] base
    using storable_nonneg [OF st(2)]
    by (cases "progress_state (db_progress db) u t") auto
qed

lemma settled_status:
  assumes plan: "plan = plan_merge side rem anc pol" and agree: "ancestor_agrees anc"
    and snap: "mp_snapshot plan = Some (p, w)" "storable_progress p"
    and d: "distinct ids" and t: "t \<in> mirrored (local_load db u slug) ids"
    and side: "side = gs_side (plan_group (local_members (local_load db u slug) ids) x)"
    and old: "watchlist_status_get db u t = Some v"
  shows "watchlist_status_get (settle_db u slug s (local_members (local_load db u slug) ids) p w
           (merged_db u slug s plan db)) u t = Some w"
proof -
  let ?loc = "local_load db u slug"
  have lo: "lo_status ?loc t = Some v" using old by (simp add: local_load_def)
  have "ls_status side \<noteq> None"
    using plan_group_status_None [of "local_members ?loc ids" x "member_of ?loc t"] t lo
    by (auto simp: side local_members_map mirrored_def)
  then have noimp: "mp_import_status plan = None" by (auto simp: plan plan_merge_fields)
  have wl: "w = local_after (mp_status plan)"
    using snap(1) by (auto simp: plan plan_merge_snapshot split: if_splits)
  have "watchlist_status_get (merged_db u slug s plan db) u t = Some w" if "v = w"
    using that old by (auto simp: merged_status noimp wl local_after_def)
  then show ?thesis
    by (simp add: settle_member(2) [OF snap(2) d t] mirror_of_def lo)
qed

lemma untouched:
  assumes "storable_progress p" "storable_progress (fp_remote (mp_progress plan))"
    and "v \<noteq> u \<or> (t \<noteq> s \<and> t \<notin> mirrored loc ids)"
  shows "progress_state (db_progress (settle_db u slug s (local_members loc ids) p w
           (merged_db u slug s plan db))) v t = progress_state (db_progress db) v t"
    and "watchlist_status_get (settle_db u slug s (local_members loc ids) p w
           (merged_db u slug s plan db)) v t = watchlist_status_get db v t"
  using assms by (auto simp: settle_other merged_progress merged_status)

text \<open>The group, as the mappings define it.\<close>

definition keys_ok :: "sync_db \<Rightarrow> bool" where
  "keys_ok db \<longleftrightarrow> distinct (map fst (db_mappings db)) \<and> distinct (map fst (db_watch db)) \<and>
     distinct (map fst (db_overrides db))"

lemma linked_series_set:
  assumes "distinct (map fst (db_mappings db))"
  shows "set (mapping_linked_series db slug ext) = {s. mapping_external_for_series db s slug = Some ext}"
    and "distinct (mapping_linked_series db slug ext)"
proof -
  let ?rows = "[((s, p), r) \<leftarrow> db_mappings db. p = slug \<and> mr_external_id r = ext]"
  have mem: "((s, q), r) \<in> set (db_mappings db) \<longleftrightarrow> map_of (db_mappings db) (s, q) = Some r" for s q r
    using assms map_of_eq_Some_iff by metis
  show "set (mapping_linked_series db slug ext) = {s. mapping_external_for_series db s slug = Some ext}"
    by (force simp: mapping_linked_series_def mapping_external_for_series_def mem)
  have "distinct ?rows" using assms by (simp add: distinct_map)
  moreover have "inj_on (\<lambda>((s, _), _). s) (set ?rows)"
    using mem by (fastforce simp: inj_on_def)
  ultimately have "distinct (map (\<lambda>((s, _), _). s) ?rows)" by (simp only: distinct_map)
  then show "distinct (mapping_linked_series db slug ext)"
    unfolding mapping_linked_series_def by (simp add: distinct_map)
qed

definition snapshots_agree :: "sync_db \<Rightarrow> bool" where
  "snapshots_agree db \<longleftrightarrow> (\<forall>(k, r) \<in> set (db_mappings db).
     mr_local_progress r = mr_remote_progress r \<and> mr_local_status r = mr_remote_status r)"

lemma load_ancestor_agrees: "snapshots_agree db \<Longrightarrow> ancestor_agrees (load_ancestor db ext slug)"
proof (cases "sort_key synced_key
    (map snd [((s, p), r) \<leftarrow> db_mappings db. p = slug \<and> mr_external_id r = ext])")
  case Nil
  then show ?thesis
    by (simp add: load_ancestor_def get_group_snapshot_def ancestor_agrees_def ancestor_default_def)
next
  case (Cons r rs)
  assume agree: "snapshots_agree db"
  have "r \<in> set (sort_key synced_key
      (map snd [((s, p), r) \<leftarrow> db_mappings db. p = slug \<and> mr_external_id r = ext]))"
    unfolding Cons by simp
  then obtain k where "(k, r) \<in> set (db_mappings db)" by fastforce
  then show ?thesis
    using agree Cons
    by (auto simp: load_ancestor_def get_group_snapshot_def ancestor_agrees_def snapshots_agree_def
        snapshot_of_def)
qed

lemma progress_state_storable:
  assumes "progress_ok t" "progress_state t u s = Some (x, n)"
  shows "storable_progress x"
proof -
  obtain r where r: "map_of t (u, s) = Some r" "x = from_milli (pr_whole r)"
    using assms(2) by (auto simp: progress_state_def)
  obtain w where "pr_whole r = milli_of_whole w" "0 \<le> w" "w \<le> 200000"
    using progress_ok_row [OF assms(1) r(1)] by (auto simp: row_ok_def)
  then show ?thesis by (auto simp: r(2) storable_progress_def from_milli_whole)
qed

lemma group_progress_storable:
  assumes "progress_ok (db_progress db)"
  shows "storable_progress (ls_progress (gs_side (plan_group (local_members (local_load db u slug) ids) x)))"
proof (cases "ls_progress (gs_side (plan_group (local_members (local_load db u slug) ids) x)) = 0")
  case True
  then show ?thesis by (auto simp: storable_progress_def intro: exI [of _ 0])
next
  case False
  then obtain m n where "m \<in> set (local_members (local_load db u slug) ids)"
    "lm_progress m = Some (ls_progress (gs_side (plan_group (local_members (local_load db u slug) ids) x)), n)"
    using plan_group_progress_held [OF False] by auto
  then show ?thesis
    using progress_state_storable [OF assms] by (auto simp: local_members_def local_load_def)
qed

lemma plan_merge_settles:
  assumes "pol \<noteq> AskMe"
  shows "\<exists>p w. mp_snapshot (plan_merge loc rem anc pol) = Some (p, w)"
proof -
  have "fp_action (mp_progress (plan_merge loc rem anc pol)) \<noteq> Conflict"
    "fp_action (mp_status (plan_merge loc rem anc pol)) \<noteq> Conflict"
    using assms by (simp_all add: plan_merge_fields three_way_no_conflict)
  then show ?thesis by (simp add: plan_merge_snapshot)
qed

lemma excluded_load:
  "keys_ok db \<Longrightarrow> t \<in> lo_excluded (local_load db u slug) \<longleftrightarrow> is_sync_excluded db u t slug"
  by (simp add: local_load_def sync_excluded_series_iff keys_ok_def)

definition user_tracks :: "sync_db \<Rightarrow> user_id \<Rightarrow> series_id \<Rightarrow> bool" where
  "user_tracks db u t \<longleftrightarrow> progress_state (db_progress db) u t \<noteq> None \<or> watchlist_status_get db u t \<noteq> None"

lemma mirrored_load:
  "keys_ok db \<Longrightarrow> t \<in> mirrored (local_load db u slug) ids \<longleftrightarrow>
     t \<in> set ids \<and> \<not> is_sync_excluded db u t slug \<and> user_tracks db u t"
  unfolding mirrored_def mem_Collect_eq excluded_load tracked_def user_tracks_def member_of_sel
  by (simp add: local_load_def)

text \<open>The run of a merge, unfolded once for the theorems below.\<close>

lemma reconcile_merge_run:
  assumes run: "reconcile_series run s ext (Some rem) loc en = (Ok linked, en')"
    and inc: "\<exists>t \<in> set (group_of (en_db en) (rc_slug run) ext s). t \<notin> lo_excluded loc"
  defines "ids \<equiv> group_of (en_db en) (rc_slug run) ext s"
  defines "gs \<equiv> plan_group (local_members loc ids) s"
  shows "linked = ids"
    and "apply_merge run (gs_primary gs) ext
      (plan_merge (gs_side gs) rem (load_ancestor (en_db en) ext (rc_slug run)) (rc_policy run))
      (local_members loc ids) en = (Ok (), en')"
    and "gs_primary gs \<in> set ids" "gs_primary gs \<notin> lo_excluded loc"
proof -
  have ne: "\<not> ls_excluded (gs_side gs)"
    using inc unfolding gs_def plan_group_excluded by (auto simp: local_members_map ids_def)
  then have "plan_series (gs_side gs) (Some rem) = Merge" by (simp add: plan_series_def)
  then show "linked = ids"
    "apply_merge run (gs_primary gs) ext
      (plan_merge (gs_side gs) rem (load_ancestor (en_db en) ext (rc_slug run)) (rc_policy run))
      (local_members loc ids) en = (Ok (), en')"
    using run by (auto simp: reconcile_series_def Let_def act_then_ok gs_def ids_def)
  show "gs_primary gs \<in> set ids" "gs_primary gs \<notin> lo_excluded loc"
    using plan_group_primary [OF ne [unfolded gs_def]] by (auto simp: gs_def local_members_map)
qed

text \<open>A merge whose remote accepts the write always runs to its end.\<close>

lemma write_remote_total:
  assumes "\<And>saves w p. rc_save_entry run saves ext w p = Ok ()"
  shows "\<exists>en'. write_remote run s ext plan en = (Ok (), en')"
  using assms
  by (auto simp: write_remote_def save_entry_def act_then_def act_bind_def Let_def
      split: option.split prod.split)

lemma apply_merge_total:
  assumes "\<And>saves w p. rc_save_entry run saves ext w p = Ok ()"
    and st: "storable_progress (fp_remote (mp_progress plan))"
    and sp: "\<And>p w. mp_snapshot plan = Some (p, w) \<Longrightarrow> storable_progress p"
  shows "\<exists>en'. apply_merge run s ext plan members en = (Ok (), en')"
proof -
  obtain e1 where s1: "import_status run s ext plan en = (Ok (), e1)"
    using import_status_eff by (metis surj_pair)
  obtain e2 where s2: "merge_progress run s ext plan e1 = (Ok (), e2)"
    using merge_progress_eff [OF st] by (metis surj_pair)
  obtain e3 where s3: "merge_status run s ext plan e2 = (Ok (), e3)"
    using merge_status_eff by (metis surj_pair)
  obtain e4 where s4: "write_remote run s ext plan e3 = (Ok (), e4)"
    using write_remote_total [OF assms(1)] by blast
  have "\<exists>e5. (case mp_snapshot plan of None \<Rightarrow> act_return ()
      | Some (p, w) \<Rightarrow> settle run s ext members p w) e4 = (Ok (), e5)"
    using sp settle_eff by (cases "mp_snapshot plan") fastforce+
  then show ?thesis by (auto simp: apply_merge_def act_then_ok s1 s2 s3 s4)
qed

lemma reconcile_merge_total:
  assumes acc: "\<And>saves w p. rc_save_entry run saves ext w p = Ok ()"
    and ok: "progress_ok (db_progress (en_db en))" and rem: "storable_progress (re_progress rem)"
  shows "\<exists>linked en'. reconcile_series run s ext (Some rem)
     (local_load (en_db en) (rc_user run) (rc_slug run)) en = (Ok linked, en')"
proof -
  let ?loc = "local_load (en_db en) (rc_user run) (rc_slug run)"
  let ?ids = "group_of (en_db en) (rc_slug run) ext s"
  let ?gs = "plan_group (local_members ?loc ?ids) s"
  let ?plan = "plan_merge (gs_side ?gs) rem (load_ancestor (en_db en) ext (rc_slug run)) (rc_policy run)"
  have "storable_progress p" if "mp_snapshot ?plan = Some (p, w)" for p w
    using that rem group_progress_storable [OF ok]
    by (auto simp: plan_merge_snapshot plan_merge_fields local_after_def split: if_splits)
  then obtain e where "apply_merge run (gs_primary ?gs) ext ?plan (local_members ?loc ?ids) en = (Ok (), e)"
    using apply_merge_total [OF acc, where plan = ?plan] rem by (metis plan_merge_fields(2))
  then show ?thesis
    by (auto simp: reconcile_series_def Let_def act_then_ok plan_series_def split: if_splits)
qed

text \<open>C1: a reconciliation of a linked group that is present on both sides and whose policy is not
  to ask settles one value for the whole group. Every series of the group that the reader tracks
  and has not excluded ends up holding the settled progress, its watchlist entry (if it had one)
  the settled status, and its common ancestor both; the remote holds the same pair, written by at
  most one call; and no other reader, no series outside the group and no excluded series is
  touched.\<close>

theorem reconcile_group_in_step:
  fixes run en
  defines "u \<equiv> rc_user run" and "slug \<equiv> rc_slug run" and "db \<equiv> en_db en"
  assumes run: "reconcile_series run s ext (Some rem) (local_load db u slug) en = (Ok linked, en')"
    and wf: "keys_ok db" "snapshots_agree db" "progress_ok (db_progress db)"
    and rem: "storable_progress (re_progress rem)" and pol: "rc_policy run \<noteq> AskMe"
    and mapped: "mapping_external_for_series db s slug = Some ext" "\<not> is_sync_excluded db u s slug"
  shows "\<exists>p w.
    (\<forall>t. mapping_external_for_series db t slug = Some ext \<and> \<not> is_sync_excluded db u t slug \<and>
         user_tracks db u t \<longrightarrow>
       held (en_db en') u t = p \<and>
       (watchlist_status_get db u t \<noteq> None \<longrightarrow> watchlist_status_get (en_db en') u t = Some w) \<and>
       get_snapshot (en_db en') t slug = Some (settled_snapshot p w (db_now db))) \<and>
    (\<forall>v t. v \<noteq> u \<or> mapping_external_for_series db t slug \<noteq> Some ext \<or> is_sync_excluded db u t slug \<longrightarrow>
       progress_state (db_progress (en_db en')) v t = progress_state (db_progress db) v t \<and>
       watchlist_status_get (en_db en') v t = watchlist_status_get db v t) \<and>
    (en_saves en' = en_saves en \<and> (re_status rem, re_progress rem) = (w, p) \<or>
     en_saves en' = en_saves en @ [(slug, ext, w, p)])"
proof -
  let ?loc = "local_load db u slug" and ?ids = "mapping_linked_series db slug ext"
  have ids: "set ?ids = {t. mapping_external_for_series db t slug = Some ext}" "distinct ?ids"
    using linked_series_set wf(1) by (simp_all add: keys_ok_def)
  have grp: "group_of db slug ext s = ?ids"
    using ids(1) mapped(1) by (auto simp: group_of_def split: list.split)
  define gs where "gs = plan_group (local_members ?loc ?ids) s"
  define anc where "anc = load_ancestor db ext slug"
  define plan where "plan = plan_merge (gs_side gs) rem anc (rc_policy run)"
  have inc: "\<exists>t \<in> set (group_of (en_db en) (rc_slug run) ext s). t \<notin> lo_excluded ?loc"
    using ids(1) mapped grp excluded_load [OF wf(1)] by (auto simp: db_def slug_def)
  note r = reconcile_merge_run [OF run inc, folded db_def slug_def, unfolded grp, folded gs_def anc_def]
  obtain p w where snap: "mp_snapshot plan = Some (p, w)"
    using plan_merge_settles [OF pol, of "gs_side gs" rem anc] unfolding plan_def by blast
  have agree: "ancestor_agrees anc" using wf(2) by (simp add: anc_def load_ancestor_agrees)
  have st: "storable_progress p" "storable_progress (fp_remote (mp_progress plan))"
    using snap rem group_progress_storable [OF wf(3), of u slug ?ids s]
    by (auto simp: plan_def plan_merge_snapshot plan_merge_fields local_after_def gs_def split: if_splits)
  let ?s = "gs_primary gs"
  have eff: "en_db en' = settle_db u slug ?s (local_members ?loc ?ids) p w (merged_db u slug ?s plan db)"
    "en_saves en' = en_saves en @ save_of run ext plan"
    using apply_merge_eff [OF st(2) snap st(1) r(2) [folded plan_def]]
    by (simp_all add: merged_db_def u_def slug_def db_def)
  have members: "held (en_db en') u t = p \<and>
      (watchlist_status_get db u t \<noteq> None \<longrightarrow> watchlist_status_get (en_db en') u t = Some w) \<and>
      get_snapshot (en_db en') t slug = Some (settled_snapshot p w (db_now db))"
    if t: "mapping_external_for_series db t slug = Some ext" "\<not> is_sync_excluded db u t slug" "user_tracks db u t"
    for t
  proof -
    have m: "t \<in> mirrored ?loc ?ids" using t ids(1) by (simp add: mirrored_load [OF wf(1)])
    have "get_snapshot (merged_db u slug ?s plan db) t slug \<noteq> None"
      using t(1) by (auto simp: get_snapshot_def store_simps mapping_external_for_series_def)
    then show ?thesis
      using settled_progress [OF plan_def snap rem st(1) ids(2) m]
        settled_status [OF plan_def agree snap st(1) ids(2) m] m
      by (auto simp: eff(1) settle_snapshot store_simps gs_def)
  qed
  have rest: "progress_state (db_progress (en_db en')) v t = progress_state (db_progress db) v t \<and>
      watchlist_status_get (en_db en') v t = watchlist_status_get db v t"
    if "v \<noteq> u \<or> mapping_external_for_series db t slug \<noteq> Some ext \<or> is_sync_excluded db u t slug" for v t
  proof -
    have "v \<noteq> u \<or> (t \<noteq> ?s \<and> t \<notin> mirrored ?loc ?ids)"
      using that r(3,4) ids(1) by (auto simp: mirrored_load [OF wf(1)] excluded_load [OF wf(1)])
    then show ?thesis using untouched [OF st, of v u t ?s] by (simp add: eff(1))
  qed
  have "remote_after rem plan = (w, p)"
    using plan_merge_converges(3) [OF agree] snap by (simp add: plan_def)
  then have "en_saves en' = en_saves en \<and> (re_status rem, re_progress rem) = (w, p) \<or>
     en_saves en' = en_saves en @ [(slug, ext, w, p)]"
    by (auto simp: eff(2) save_of_def remote_after_def slug_def split: option.splits)
  then show ?thesis using members rest by blast
qed

section \<open>A run that can be evaluated\<close>

text \<open>
  Two series of the catalogue are mapped to the remote work 77: one read to chapter 10 and on the
  watchlist, a duplicate read to chapter 4. The remote is at chapter 12.
\<close>

definition sample_db :: sync_db where
  "sample_db =
     \<lparr>db_progress = [((7, 1), \<lparr>pr_whole = 100000, pr_part = None, pr_updated_at = 3\<rparr>),
                     ((7, 2), \<lparr>pr_whole = 40000, pr_part = None, pr_updated_at = 2\<rparr>)],
      db_watch = [((7, 1), fresh_watch Reading True 1)],
      db_overrides = [],
      db_mappings = [((1, ''anilist''), fresh_mapping ''77'' 1), ((2, ''anilist''), fresh_mapping ''77'' 2)],
      db_conflicts = [], db_blocks = [], db_accounts = [], db_remote = [], db_now = 9\<rparr>"

definition sample_engine :: engine where
  "sample_engine = \<lparr>en_db = sample_db, en_saves = [], en_history = [], en_journal = [],
     en_counts = counts_default, en_decisions = []\<rparr>"

definition sample_run :: run_context where
  "sample_run = \<lparr>rc_slug = ''anilist'', rc_user = 7, rc_policy = NewestWins,
     rc_save_entry = (\<lambda>_ _ _ _. Ok ()), rc_blocked = []\<rparr>"

definition sample_entry :: remote_entry where
  "sample_entry = \<lparr>re_external_id = ''77'', re_status = Reading, re_progress = 12, re_updated_at = 8,
     re_titles = [''Work''], re_content_type = Manga, re_start_year = None, re_tags = [], re_authors = []\<rparr>"

lemma sample_rows:
  "row_ok \<lparr>pr_whole = 100000, pr_part = None, pr_updated_at = n\<rparr>"
  "row_ok \<lparr>pr_whole = 40000, pr_part = None, pr_updated_at = n\<rparr>"
  unfolding row_ok_def
  by (rule exI [of _ 10], simp add: milli_of_whole_def milli_scale_int_def part_ahead_simps)
    (rule exI [of _ 4], simp add: milli_of_whole_def milli_scale_int_def part_ahead_simps)

lemma sample_wf:
  "keys_ok sample_db" "snapshots_agree sample_db" "progress_ok (db_progress sample_db)"
  "storable_progress (re_progress sample_entry)"
  "mapping_external_for_series sample_db t ''anilist'' = Some ''77'' \<longleftrightarrow> t \<in> {1, 2}"
  "\<not> is_sync_excluded sample_db 7 t ''anilist''"
  "user_tracks sample_db 7 1" "user_tracks sample_db 7 2"
proof -
  show "progress_ok (db_progress sample_db)"
    using sample_rows by (auto simp: sample_db_def progress_ok_def)
  show "storable_progress (re_progress sample_entry)"
    by (auto simp: sample_entry_def storable_progress_def intro: exI [of _ 12])
qed (auto simp: sample_db_def keys_ok_def snapshots_agree_def fresh_mapping_def fresh_watch_def
    mapping_external_for_series_def is_sync_excluded_def user_tracks_def progress_state_def)

theorem reconcile_group_in_step_witness:
  "\<exists>linked en' p w.
     reconcile_series sample_run 1 ''77'' (Some sample_entry) (local_load sample_db 7 ''anilist'')
       sample_engine = (Ok linked, en') \<and>
     held (en_db en') 7 1 = p \<and> held (en_db en') 7 2 = p \<and>
     get_snapshot (en_db en') 2 ''anilist'' = Some (settled_snapshot p w 9)"
proof -
  have ctx: "rc_user sample_run = 7" "rc_slug sample_run = ''anilist''" "rc_policy sample_run \<noteq> AskMe"
    "en_db sample_engine = sample_db" "db_now sample_db = 9"
    by (simp_all add: sample_run_def sample_engine_def sample_db_def)
  obtain linked en' where run: "reconcile_series sample_run 1 ''77'' (Some sample_entry)
      (local_load sample_db 7 ''anilist'') sample_engine = (Ok linked, en')"
  proof -
    have "rc_save_entry sample_run saves e w p = Ok ()" for saves e w p by (simp add: sample_run_def)
    then show thesis
      using reconcile_merge_total [of sample_run "''77''" sample_engine sample_entry 1] sample_wf that
      unfolding ctx by blast
  qed
  have m: "mapping_external_for_series sample_db 1 ''anilist'' = Some ''77''"
    "mapping_external_for_series sample_db 2 ''anilist'' = Some ''77''"
    using sample_wf(5) by blast+
  show ?thesis
    using reconcile_group_in_step [where run = sample_run and en = sample_engine and s = 1
        and ext = "''77''" and rem = sample_entry and linked = linked and en' = en',
        unfolded ctx(1,2,4,5), OF run sample_wf(1-4) ctx(3) m(1) sample_wf(6)]
      run m sample_wf(6-8) by metis
qed

end
