(* ===== verification/Sync_Actions.thy ===== *)
theory Sync_Actions
  imports Sync_Reconcile "HOL-Library.List_Lexorder" "HOL-Library.Char_ord"
begin

text \<open>
  The requests a reader or an operator makes of the sync engine, beside the scheduled run:
  resolving a conflict (\<open>src/services/sync/src/engine/conflicts.rs\<close>), undoing a journalled decision
  or flagging it (\<open>revert.rs\<close>) and the targeted push of one series (\<open>push.rs\<close>). The provider, the
  sealed token vault and the series titles are parameters, the fields of \<open>services\<close>; a journal
  row is named by its position, and the marks an operator leaves on it are kept beside it. Lemmas
  about \<open>next_plan\<close> say what the next reconciliation will plan for a series that is alone in its
  group, so that a request can be judged by what the following run makes of it.
\<close>

section \<open>The services a request works with\<close>

record services =
  sv_registry :: "string list"
  sv_access :: "string \<Rightarrow> user_id \<Rightarrow> (string, unit) result"
  sv_save_entry :: "string \<Rightarrow> remote_save list \<Rightarrow> string \<Rightarrow> watch_status \<Rightarrow> progress \<Rightarrow> (string, unit) result"
  sv_search :: "string \<Rightarrow> string \<Rightarrow> (string, string option) result"
  sv_title :: "series_id \<Rightarrow> string option"

definition service_run :: "services \<Rightarrow> string \<Rightarrow> user_id \<Rightarrow> run_context" where
  "service_run sv slug u =
     \<lparr>rc_slug = slug, rc_user = u, rc_policy = NewestWins,
      rc_save_entry = sv_save_entry sv slug, rc_blocked = []\<rparr>"

definition registry_get :: "services \<Rightarrow> string \<Rightarrow> unit sync" where
  "registry_get sv slug =
     (if slug \<in> set (sv_registry sv) then act_return () else act_fail (Refused ''unknown provider''))"

definition token_access :: "services \<Rightarrow> string \<Rightarrow> user_id \<Rightarrow> unit sync" where
  "token_access sv slug u =
     (case sv_access sv slug u of Inl e \<Rightarrow> act_fail (Provider e) | Inr _ \<Rightarrow> act_return ())"

section \<open>Resolving a conflict\<close>

definition resolve_write :: "services \<Rightarrow> user_id \<Rightarrow> conflict_row \<Rightarrow> string \<Rightarrow> string \<Rightarrow> unit sync" where
  "resolve_write sv u c ext resolution en =
     (let s = cf_series c; run = service_run sv (cf_provider c) u
      in if cf_field c = ''progress'' \<and> resolution = ''remote'' then
           lift_db (db_progress_set u s (unwrap_or 0 (parse_number (cf_remote_value c)))) en
         else if cf_field c = ''progress'' then
           save_entry run ext (unwrap_or Reading (watchlist_status_get (en_db en) u s))
             (unwrap_or 0 (parse_number (cf_local_value c))) en
         else if cf_field c = ''status'' \<and> resolution = ''remote'' then
           act_modify (modify_db (watchlist_set_status u s
             (unwrap_or Reading (parse_status (cf_remote_value c))))) en
         else if cf_field c = ''status'' then
           save_entry run ext (unwrap_or Reading (parse_status (cf_local_value c)))
             (held (en_db en) u s) en
         else (Ok (), en))"

definition close_conflict :: "services \<Rightarrow> user_id \<Rightarrow> conflict_row \<Rightarrow> nat \<Rightarrow> string \<Rightarrow> bool sync" where
  "close_conflict sv u c i resolution en =
     (let (ok, db) = resolve_conflict_row u i resolution (en_db en)
      in (Ok ok, append_history (service_run sv (cf_provider c) u) (cf_series c) ''conflict_manual''
                   (en\<lparr>en_db := db\<rparr>)))"

definition resolve :: "services \<Rightarrow> user_id \<Rightarrow> nat \<Rightarrow> string \<Rightarrow> bool sync" where
  "resolve sv u i resolution en =
     (if resolution \<noteq> ''local'' \<and> resolution \<noteq> ''remote''
      then (Err (Refused ''resolution must be local or remote''), en)
      else case get_pending_conflict (en_db en) u i of
        None \<Rightarrow> (Ok False, en)
      | Some c \<Rightarrow>
          act_then (registry_get sv (cf_provider c))
            (case mapping_external_for_series (en_db en) (cf_series c) (cf_provider c) of
               None \<Rightarrow> act_fail (Refused ''series is no longer mapped'')
             | Some ext \<Rightarrow>
                 act_then (token_access sv (cf_provider c) u)
                (act_then (resolve_write sv u c ext resolution)
                (close_conflict sv u c i resolution))) en)"

section \<open>Undoing a decision\<close>

record decision_mark =
  dm_reverted_at :: "timestamp option"
  dm_flagged_at :: "timestamp option"

record console =
  co_engine :: engine
  co_marks :: "(nat, decision_mark) tbl"

definition mark_of :: "console \<Rightarrow> nat \<Rightarrow> decision_mark" where
  "mark_of co i = unwrap_or \<lparr>dm_reverted_at = None, dm_flagged_at = None\<rparr> (map_of (co_marks co) i)"

definition get_sync_decision :: "nat \<Rightarrow> (console, sync_error, sync_decision) act" where
  "get_sync_decision i co =
     (if i < length (en_journal (co_engine co)) then (Ok (en_journal (co_engine co) ! i), co)
      else (Err (Db RowNotFound), co))"

definition mark_sync_decision_reverted :: "nat \<Rightarrow> console \<Rightarrow> console" where
  "mark_sync_decision_reverted i co =
     (if dm_reverted_at (mark_of co i) \<noteq> None then co
      else co\<lparr>co_marks := AList.update i
             ((mark_of co i)\<lparr>dm_reverted_at := Some (db_now (en_db (co_engine co)))\<rparr>) (co_marks co)\<rparr>)"

definition flag_sync_decision :: "nat \<Rightarrow> (console, sync_error, bool) act" where
  "flag_sync_decision i co =
     (if length (en_journal (co_engine co)) \<le> i \<or> dm_flagged_at (mark_of co i) \<noteq> None then (Ok False, co)
      else (Ok True, co\<lparr>co_marks := AList.update i
             ((mark_of co i)\<lparr>dm_flagged_at := Some (db_now (en_db (co_engine co)))\<rparr>) (co_marks co)\<rparr>))"

definition on_engine :: "'a sync \<Rightarrow> (console, sync_error, 'a) act" where
  "on_engine m co = (case m (co_engine co) of (r, en) \<Rightarrow> (r, co\<lparr>co_engine := en\<rparr>))"

datatype restored_side = LocalProgress | LocalStatus | WatchlistEntry | RemoteEntry | Match

record revert_report =
  rr_restored :: restored_side
  rr_value :: "text_value option"
  rr_blocked_match :: bool

definition named :: "string \<Rightarrow> 'a option \<Rightarrow> 'a sync" where
  "named msg x = (case x of None \<Rightarrow> act_fail (Refused msg) | Some v \<Rightarrow> act_return v)"

definition match_target :: "sync_decision \<Rightarrow> (string \<times> series_id) sync" where
  "match_target d =
     act_bind (named ''this decision names no remote entry to block'' (sd_external d)) (\<lambda>ext.
     act_bind (named ''this decision matched no series, so nothing to block'' (sd_series d)) (\<lambda>s.
       act_return (ext, s)))"

definition restored :: "restored_side \<Rightarrow> text_value option \<Rightarrow> revert_report" where
  "restored side v = \<lparr>rr_restored = side, rr_value = v, rr_blocked_match = False\<rparr>"

definition revert_pull :: "sync_decision \<Rightarrow> revert_report sync" where
  "revert_pull d =
     act_bind (named ''this decision names no series'' (sd_series d)) (\<lambda>s.
     act_bind (named ''this decision recorded no previous local value'' (sd_local_before d)) (\<lambda>before.
       if sd_scope d = ''progress'' then
         act_bind (named ''invalid float literal'' (parse_number before)) (\<lambda>v.
         act_then (lift_db (db_progress_set (sd_user d) s v))
           (act_return (restored LocalProgress (Some (NumText v)))))
       else if sd_scope d = ''status'' then
         act_bind (named ''unknown status'' (parse_status before)) (\<lambda>v.
         act_then (act_modify (modify_db (watchlist_set_status (sd_user d) s v)))
           (act_return (restored LocalStatus (Some (status_text v)))))
       else act_fail (Refused ''a pull of this scope has no inverse'')))"

definition revert_import :: "sync_decision \<Rightarrow> revert_report sync" where
  "revert_import d =
     act_bind (named ''this decision names no series'' (sd_series d)) (\<lambda>s.
     act_then (act_modify (modify_db (watchlist_remove (sd_user d) s)))
       (act_return (restored WatchlistEntry None)))"

fun remote_before :: "evidence \<Rightarrow> (watch_status \<times> progress) option" where
  "remote_before (Written _ _ w p _) = Some (w, p)"
| "remote_before _ = None"

definition revert_push :: "services \<Rightarrow> sync_decision \<Rightarrow> revert_report sync" where
  "revert_push sv d =
     act_bind (named ''this decision names no remote entry'' (sd_external d)) (\<lambda>ext.
     act_bind (named ''this decision recorded no previous remote state to restore''
       (remote_before (sd_evidence d))) (\<lambda>(w, p).
     act_then (registry_get sv (sd_provider d))
    (act_then (token_access sv (sd_provider d) (sd_user d))
    (act_then (save_entry (service_run sv (sd_provider d) (sd_user d)) ext w p)
    (act_then (case sd_series d of
         None \<Rightarrow> act_return ()
       | Some s \<Rightarrow> act_modify (modify_db (record_snapshot s (sd_provider d) (agreed p w))))
       (act_return (restored RemoteEntry (Some (NumText p)))))))))"

definition revert_matched :: "sync_decision \<Rightarrow> string \<Rightarrow> revert_report sync" where
  "revert_matched d reason =
     act_bind (match_target d) (\<lambda>(ext, s).
     act_then (act_modify (modify_db (block_sync_match (sd_provider d) ext s reason)))
       (act_return \<lparr>rr_restored = Match, rr_value = None, rr_blocked_match = True\<rparr>))"

definition revert_action :: "services \<Rightarrow> sync_decision \<Rightarrow> string \<Rightarrow> revert_report sync" where
  "revert_action sv d reason =
     (if sd_action d = ''pull'' then revert_pull d
      else if sd_action d = ''import_status'' then revert_import d
      else if sd_action d = ''push'' then revert_push sv d
      else if sd_action d = ''matched'' then revert_matched d reason
      else if sd_action d = ''create_remote''
        then act_fail (Refused ''a series created on the remote cannot be removed from here'')
      else act_fail (Refused ''this decision has no inverse''))"

definition revert :: "services \<Rightarrow> nat \<Rightarrow> string \<Rightarrow> (console, sync_error, revert_report) act" where
  "revert sv i reason =
     act_bind (get_sync_decision i) (\<lambda>d co.
       if dm_reverted_at (mark_of co i) \<noteq> None
         then (Err (Refused ''this decision has already been reverted''), co)
       else if \<not> sd_applied d
         then (Err (Refused ''this decision changed nothing, so there is nothing to undo''), co)
       else act_bind (on_engine (revert_action sv d reason)) (\<lambda>rep.
              act_then (act_modify (mark_sync_decision_reverted i)) (act_return rep)) co)"

definition flag :: "nat \<Rightarrow> string \<Rightarrow> bool \<Rightarrow> (console, sync_error, bool) act" where
  "flag i reason block =
     act_bind (get_sync_decision i) (\<lambda>d.
     act_bind (flag_sync_decision i) (\<lambda>flagged.
       if block
       then act_bind (on_engine (match_target d)) (\<lambda>(ext, s).
            act_then (act_modify (\<lambda>co. co\<lparr>co_engine :=
                modify_db (block_sync_match (sd_provider d) ext s reason) (co_engine co)\<rparr>))
              (act_return flagged))
       else act_return flagged))"

section \<open>The targeted push\<close>

definition list_linked_providers :: "sync_db \<Rightarrow> user_id \<Rightarrow> string list" where
  "list_linked_providers db u = sort [p. ((v, p), _) \<leftarrow> db_accounts db, v = u]"

definition media_id_for_series ::
  "services \<Rightarrow> string \<Rightarrow> series_id \<Rightarrow> (string \<times> series_id) list \<Rightarrow> string option sync" where
  "media_id_for_series sv slug s blocked en =
     (case mapping_external_for_series (en_db en) s slug of
        Some ext \<Rightarrow> (Ok (Some ext), en)
      | None \<Rightarrow>
          (case sv_title sv s of
             None \<Rightarrow> (Err (Db RowNotFound), en)
           | Some title \<Rightarrow>
               (case sv_search sv slug title of
                  Inl e \<Rightarrow> (Err (Provider e), en)
                | Inr None \<Rightarrow> (Ok None, en)
                | Inr (Some ext) \<Rightarrow>
                    if (ext, s) \<in> set blocked then (Ok None, en)
                    else (Ok (Some ext), modify_db (upsert_mapping s slug ext) en))))"

definition push_settle ::
  "user_id \<Rightarrow> string \<Rightarrow> series_id \<Rightarrow> string \<Rightarrow> progress \<Rightarrow> watch_status \<Rightarrow> unit sync" where
  "push_settle u slug s ext p w en =
     (let writes = plan_mirror (linked_members (en_db en) u slug ext) p w;
          logged = [wr \<leftarrow> writes. \<not> (mw_series_id wr = s \<or> mw_progress wr = None \<and> mw_status wr = None)]
      in act_then
           (if list_ex (\<lambda>wr. mw_series_id wr = s) writes then act_return ()
            else act_modify (modify_db (record_snapshot s slug (agreed p w))))
        (act_then (lift_db (apply_mirror u slug writes (p, w)))
        (act_modify (\<lambda>e. e\<lparr>en_history := en_history e @
           map (\<lambda>wr. (u, mw_series_id wr, slug, ''pull'')) logged\<rparr>))) en)"

definition push_inner :: "services \<Rightarrow> string \<Rightarrow> user_id \<Rightarrow> series_id \<Rightarrow> unit sync" where
  "push_inner sv slug u s en =
     (if (case get_account (en_db en) u slug of None \<Rightarrow> False | Some a \<Rightarrow> ac_auto_sync_enabled a) \<and>
         \<not> is_sync_excluded (en_db en) u s slug
      then act_then (token_access sv slug u)
          (act_bind (media_id_for_series sv slug s (blocked_sync_matches (en_db en) slug)) (\<lambda>found.
             case found of
               None \<Rightarrow> act_fail (Refused ''no resolvable entry for this series'')
             | Some ext \<Rightarrow> (\<lambda>e.
                 let w = unwrap_or Reading (watchlist_status_get (en_db e) u s); p = held (en_db e) u s
                 in act_then (save_entry (service_run sv slug u) ext w p)
                   (act_then (act_modify (modify_db (upsert_mapping s slug ext)))
                   (push_settle u slug s ext p w)) e))) en
      else (Ok (), en))"

record push_outcome =
  po_provider :: string
  po_ok :: bool
  po_error :: "sync_error option"

definition error_text :: "sync_error \<Rightarrow> string" where
  "error_text e = (case e of Db _ \<Rightarrow> ''database error'' | Provider m \<Rightarrow> m | Refused m \<Rightarrow> m)"

definition push_one :: "services \<Rightarrow> string \<Rightarrow> user_id \<Rightarrow> series_id \<Rightarrow> engine \<Rightarrow> push_outcome \<times> engine" where
  "push_one sv slug u s en =
     (case push_inner sv slug u s en of
        (Inr _, en') \<Rightarrow>
          (\<lparr>po_provider = slug, po_ok = True, po_error = None\<rparr>,
           modify_db (\<lambda>db. mark_synced u slug None (db_now db) db) en')
      | (Inl e, en') \<Rightarrow>
          (\<lparr>po_provider = slug, po_ok = False, po_error = Some e\<rparr>,
           modify_db (record_sync_error u slug (error_text e)) en'))"

fun push_each :: "services \<Rightarrow> user_id \<Rightarrow> series_id \<Rightarrow> string list \<Rightarrow> engine \<Rightarrow> push_outcome list \<times> engine" where
  "push_each sv u s [] en = ([], en)"
| "push_each sv u s (slug # slugs) en =
     (if slug \<in> set (sv_registry sv) then
        (let (o1, e1) = push_one sv slug u s en; (os, e2) = push_each sv u s slugs e1
         in (o1 # os, e2))
      else push_each sv u s slugs en)"

definition push_series :: "services \<Rightarrow> user_id \<Rightarrow> series_id \<Rightarrow> engine \<Rightarrow> push_outcome list \<times> engine" where
  "push_series sv u s en = push_each sv u s (list_linked_providers (en_db en) u) en"

section \<open>What the next run will plan\<close>

definition next_plan ::
  "sync_db \<Rightarrow> user_id \<Rightarrow> string \<Rightarrow> series_id \<Rightarrow> string \<Rightarrow> remote_entry \<Rightarrow> conflict_policy \<Rightarrow> merge_plan" where
  "next_plan db u slug s ext rem pol =
     plan_merge (gs_side (plan_group (local_members (local_load db u slug) (group_of db slug ext s)) s))
       rem (load_ancestor db ext slug) pol"

definition sole_mapping :: "sync_db \<Rightarrow> string \<Rightarrow> series_id \<Rightarrow> string \<Rightarrow> bool" where
  "sole_mapping db slug s ext \<longleftrightarrow>
     (\<forall>t. mapping_external_for_series db t slug = Some ext \<longleftrightarrow> t = s)"

lemma sole_group:
  assumes "keys_ok db" "sole_mapping db slug s ext"
  shows "group_of db slug ext s = [s]"
proof -
  have "set (mapping_linked_series db slug ext) = {s}" "distinct (mapping_linked_series db slug ext)"
    using linked_series_set assms by (simp_all add: keys_ok_def sole_mapping_def)
  then have "mapping_linked_series db slug ext = [s]" by (simp add: distinct_singleton)
  then show ?thesis by (simp add: group_of_def)
qed

lemma sole_ancestor:
  assumes "keys_ok db" "sole_mapping db slug s ext"
  shows "get_group_snapshot db slug ext = get_snapshot db s slug"
proof -
  let ?rows = "[((t, p), r) \<leftarrow> db_mappings db. p = slug \<and> mr_external_id r = ext]"
  have d: "distinct (map fst (db_mappings db))" using assms(1) by (simp add: keys_ok_def)
  obtain r where r: "map_of (db_mappings db) (s, slug) = Some r" "mr_external_id r = ext"
    using assms(2) by (auto simp: sole_mapping_def mapping_external_for_series_def)
  have mem: "((t, q), x) \<in> set (db_mappings db) \<longleftrightarrow> map_of (db_mappings db) (t, q) = Some x" for t q x
    using d map_of_eq_Some_iff by metis
  have only: "t = s \<and> x = r" if "map_of (db_mappings db) (t, slug) = Some x" "mr_external_id x = ext" for t x
  proof -
    have "t = s" using that assms(2) by (auto simp: sole_mapping_def mapping_external_for_series_def)
    then show ?thesis using that(1) r(1) by simp
  qed
  have "set ?rows = {((s, slug), r)}" by (auto simp: mem r dest: only)
  moreover have "distinct ?rows" using d by (simp add: distinct_map)
  ultimately have "?rows = [((s, slug), r)]" by (rule distinct_singleton [rotated])
  then show ?thesis
    using r by (simp add: get_group_snapshot_def get_snapshot_def case_prod_beta')
qed

lemma sole_side:
  assumes "keys_ok db" "\<not> is_sync_excluded db u s slug"
  shows "gs_side (plan_group (local_members (local_load db u slug) [s]) s) =
    \<lparr>ls_progress = held db u s,
     ls_updated_at = (case progress_state (db_progress db) u s of None \<Rightarrow> 0 | Some (_, t) \<Rightarrow> t),
     ls_status = watchlist_status_get db u s, ls_excluded = False\<rparr>"
  using assms excluded_load [OF assms(1), of s u slug]
  by (auto simp: plan_group_def local_members_map held_def local_load_def member_of_def filter_map_def
      find_map_def split: option.splits)

lemma next_plan_sole:
  assumes "keys_ok db" "sole_mapping db slug s ext" "\<not> is_sync_excluded db u s slug"
  shows "next_plan db u slug s ext rem pol = plan_merge
    \<lparr>ls_progress = held db u s,
     ls_updated_at = (case progress_state (db_progress db) u s of None \<Rightarrow> 0 | Some (_, t) \<Rightarrow> t),
     ls_status = watchlist_status_get db u s, ls_excluded = False\<rparr> rem (load_ancestor db ext slug) pol"
  by (simp add: next_plan_def sole_group [OF assms(1,2)] sole_side [OF assms(1,3)])

lemma sole_ancestor_settled:
  assumes "keys_ok db" "sole_mapping db slug s ext" "get_snapshot db s slug = Some (settled_snapshot p w t)"
  shows "load_ancestor db ext slug =
    \<lparr>an_local_progress = Some p, an_remote_progress = Some p, an_local_status = Some w,
     an_remote_status = Some w\<rparr>"
  using assms(3)
  by (simp add: load_ancestor_def sole_ancestor [OF assms(1,2)] settled_snapshot_def stored_status_def
      watch_status_codec.dec_enc)

text \<open>The statements of this theory leave the keys of every table distinct.\<close>

lemma keys_ok_frame [store_simps]:
  "keys_ok (record_snapshot s p a db) = keys_ok db"
  "keys_ok (put_progress u s x db) = keys_ok db"
  "keys_ok db \<Longrightarrow> keys_ok (watchlist_set_status u s w db)"
  "keys_ok db \<Longrightarrow> keys_ok (upsert_mapping s p ext db)"
  "keys_ok (snd (resolve_conflict_row u i r db)) = keys_ok db"
  by (simp_all add: keys_ok_def record_snapshot_def put_progress_frame watchlist_set_status_def
      upsert_mapping_def resolve_conflict_row_def distinct_update Let_def)

section \<open>Resolutions\<close>

lemma access_eff:
  "registry_get sv slug en = (Ok (), en') \<Longrightarrow> en' = en"
  "token_access sv slug u en = (Ok (), en') \<Longrightarrow> en' = en"
  by (auto simp: registry_get_def token_access_def act_return_def act_fail_def split: if_splits sum.splits)

lemma save_entry_eff:
  "save_entry run ext w p en = (Ok (), en') \<Longrightarrow>
     en_db en' = en_db en \<and> en_saves en' = en_saves en @ [(rc_slug run, ext, w, p)]"
  by (auto simp: save_entry_def split: sum.splits)

lemma service_run_sel [simp]:
  "rc_slug (service_run sv slug u) = slug" "rc_user (service_run sv slug u) = u"
  by (simp_all add: service_run_def)

lemma resolved_frame [store_simps]:
  "db_progress (snd (resolve_conflict_row u i r db)) = db_progress db"
  "db_mappings (snd (resolve_conflict_row u i r db)) = db_mappings db"
  "db_watch (snd (resolve_conflict_row u i r db)) = db_watch db"
  "db_overrides (snd (resolve_conflict_row u i r db)) = db_overrides db"
  by (simp_all add: resolve_conflict_row_def Let_def)

lemma resolved_row:
  "get_pending_conflict (snd (resolve_conflict_row u i r db)) u i = None"
  "fst (resolve_conflict_row u i r db) \<longleftrightarrow> get_pending_conflict db u i \<noteq> None"
proof -
  show "get_pending_conflict (snd (resolve_conflict_row u i r db)) u i = None"
    by (auto simp: get_pending_conflict_def resolve_conflict_row_def Let_def intro!: find_map_none split: if_splits)
  show "fst (resolve_conflict_row u i r db) \<longleftrightarrow> get_pending_conflict db u i \<noteq> None"
    unfolding get_pending_conflict_def find_not_None by (simp add: resolve_conflict_row_def)
qed

lemma resolve_eff:
  assumes run: "resolve sv u i resolution en = (Ok b, en')"
    and c: "get_pending_conflict (en_db en) u i = Some c"
    and ext: "mapping_external_for_series (en_db en) (cf_series c) (cf_provider c) = Some ext"
  obtains e where "resolve_write sv u c ext resolution en = (Ok (), e)"
    "en_db en' = snd (resolve_conflict_row u i resolution (en_db e))" "en_saves en' = en_saves e"
    "b \<longleftrightarrow> get_pending_conflict (en_db e) u i \<noteq> None" "resolution = ''local'' \<or> resolution = ''remote''"
proof -
  have res: "resolution = ''local'' \<or> resolution = ''remote''"
    using run by (auto simp: resolve_def split: if_splits)
  obtain e where e: "resolve_write sv u c ext resolution en = (Ok (), e)"
    "close_conflict sv u c i resolution e = (Ok b, en')"
    using run res by (auto simp: resolve_def c ext act_then_ok dest!: access_eff split: if_splits)
  have "b = fst (resolve_conflict_row u i resolution (en_db e))"
    "en_db en' = snd (resolve_conflict_row u i resolution (en_db e))" "en_saves en' = en_saves e"
    using e(2) by (auto simp: close_conflict_def Let_def case_prod_beta step_simps)
  then show thesis using that e(1) res resolved_row(2) by metis
qed

lemma snapshots_frame:
  "db_mappings db' = db_mappings db \<Longrightarrow> snapshots_agree db' = snapshots_agree db"
  "db_mappings db' = db_mappings db \<Longrightarrow> sole_mapping db' slug s ext = sole_mapping db slug s ext"
  "db_watch db' = db_watch db \<Longrightarrow> db_overrides db' = db_overrides db \<Longrightarrow>
     is_sync_excluded db' u s slug = is_sync_excluded db u s slug"
  by (simp_all add: snapshots_agree_def sole_mapping_def mapping_external_for_series_def is_sync_excluded_def
      split: option.split)

lemma resolve_write_progress:
  assumes "resolve_write sv u c ext resolution en = (Ok (), e)"
    and "cf_field c = ''progress''" "cf_local_value c = NumText l" "cf_remote_value c = NumText r"
    and "storable_progress r" "resolution = ''local'' \<or> resolution = ''remote''"
  shows "en_db e = (if resolution = ''remote'' then put_progress u (cf_series c) r (en_db en) else en_db en)"
    and "en_saves e = (if resolution = ''remote'' then en_saves en else en_saves en @
      [(cf_provider c, ext, unwrap_or Reading (watchlist_status_get (en_db en) u (cf_series c)), l)])"
  using assms
  by (auto simp: resolve_write_def Let_def lift_db_def db_progress_set_ok
      dest!: save_entry_eff split: if_splits)

text \<open>C18: a reader who resolves a progress conflict settles it, provided the library still holds the
  local value the conflict recorded, the provider's entry is mapped to that series alone and is not
  excluded from sync. The conflict is closed; the chosen value is what the library holds afterwards, and
  choosing the local one makes exactly one provider write, of that value, while choosing the remote one
  moves the local frontier and writes nothing to the provider. A next reconciliation that reads exactly
  the chosen value back from the provider finds, under any policy, nothing left to do for the field, so
  the conflict does not come back. When the library has moved on since the conflict was recorded, the
  first condition fails and nothing is claimed.\<close>

theorem resolve_settles_progress:
  assumes run: "resolve sv u i resolution en = (Ok b, en')"
    and c: "get_pending_conflict (en_db en) u i = Some c" "cf_field c = ''progress''"
      "cf_local_value c = NumText l" "cf_remote_value c = NumText r"
    and st: "storable_progress r" "held (en_db en) u (cf_series c) = l"
    and wf: "keys_ok (en_db en)" "snapshots_agree (en_db en)"
    and sole: "sole_mapping (en_db en) (cf_provider c) (cf_series c) ext"
      "\<not> is_sync_excluded (en_db en) u (cf_series c) (cf_provider c)"
  shows "b \<and> get_pending_conflict (en_db en') u i = None \<and>
    (\<exists>v. (resolution = ''remote'' \<and> v = r \<and> en_saves en' = en_saves en \<or>
          resolution = ''local'' \<and> v = l \<and> en_saves en' = en_saves en @
            [(cf_provider c, ext, unwrap_or Reading (watchlist_status_get (en_db en) u (cf_series c)), l)]) \<and>
       held (en_db en') u (cf_series c) = v \<and>
       (\<forall>rem pol. re_progress rem = v \<longrightarrow> fp_action (mp_progress
          (next_plan (en_db en') u (cf_provider c) (cf_series c) ext rem pol)) = Noop))"
proof -
  have ext: "mapping_external_for_series (en_db en) (cf_series c) (cf_provider c) = Some ext"
    using sole(1) by (simp add: sole_mapping_def)
  obtain e where e: "resolve_write sv u c ext resolution en = (Ok (), e)"
    "en_db en' = snd (resolve_conflict_row u i resolution (en_db e))" "en_saves en' = en_saves e"
    "b \<longleftrightarrow> get_pending_conflict (en_db e) u i \<noteq> None" "resolution = ''local'' \<or> resolution = ''remote''"
    using resolve_eff [OF run c(1) ext] by blast
  note w = resolve_write_progress [OF e(1) c(2-4) st(1) e(5)]
  define v where "v = (if resolution = ''remote'' then r else l)"
  have frame: "db_mappings (en_db en') = db_mappings (en_db en)" "db_watch (en_db en') = db_watch (en_db en)"
    "db_overrides (en_db en') = db_overrides (en_db en)" "keys_ok (en_db en')"
    "db_conflicts (en_db e) = db_conflicts (en_db en)"
    using wf(1) by (simp_all add: e(2) w(1) store_simps)
  have hv: "held (en_db en') u (cf_series c) = v"
    using st by (auto simp: held_def e(2) w(1) store_simps put_progress_state v_def split: if_splits)
  have "fp_action (mp_progress (next_plan (en_db en') u (cf_provider c) (cf_series c) ext rem pol)) = Noop"
    if "re_progress rem = v" for rem pol
  proof -
    have "ancestor_agrees (load_ancestor (en_db en') ext (cf_provider c))"
      using load_ancestor_agrees wf(2) snapshots_frame(1) [OF frame(1)] by simp
    moreover have "sole_mapping (en_db en') (cf_provider c) (cf_series c) ext"
      "\<not> is_sync_excluded (en_db en') u (cf_series c) (cf_provider c)"
      using sole snapshots_frame(2) [OF frame(1)] snapshots_frame(3) [OF frame(2,3)] by simp_all
    ultimately show ?thesis
      using that hv
      by (simp add: next_plan_sole [OF frame(4)] plan_merge_fields ancestor_agrees_def three_way_equal)
  qed
  moreover have "b" using e(4) c(1) frame(5) by (simp add: get_pending_conflict_def)
  moreover have "get_pending_conflict (en_db en') u i = None" by (simp add: e(2) resolved_row)
  moreover have "resolution = ''remote'' \<and> v = r \<and> en_saves en' = en_saves en \<or>
      resolution = ''local'' \<and> v = l \<and> en_saves en' = en_saves en @
        [(cf_provider c, ext, unwrap_or Reading (watchlist_status_get (en_db en) u (cf_series c)), l)]"
    using e(5) by (elim disjE) (simp_all add: v_def e(3) w(2))
  ultimately show ?thesis using hv by blast
qed

section \<open>The targeted push settles the group\<close>

definition user_state :: "sync_db \<Rightarrow> user_id \<Rightarrow> string \<Rightarrow> local_state" where
  "user_state db u slug =
     \<lparr>lo_excluded = {t. is_sync_excluded db u t slug}, lo_progress = progress_state (db_progress db) u,
      lo_status = watchlist_status_get db u\<rparr>"

lemma linked_members_local:
  "linked_members db u slug ext = local_members (user_state db u slug) (mapping_linked_series db slug ext)"
  by (simp add: linked_members_def local_members_def user_state_def)

lemma push_settle_eff:
  assumes "storable_progress p"
  shows "\<exists>en'. push_settle u slug s ext p w en = (Ok (), en') \<and>
     en_db en' = settle_db u slug s (linked_members (en_db en) u slug ext) p w (en_db en) \<and>
     en_saves en' = en_saves en"
proof -
  let ?ms = "linked_members (en_db en) u slug ext"
  have "lift_db (apply_mirror u slug (plan_mirror ?ms p w) (p, w)) e =
      (Ok (), modify_db (fold (write_state u slug (p, w)) (plan_mirror ?ms p w)) e)" for e
    by (simp add: lift_db_def apply_mirror_ok mirror_write_ok [OF assms] modify_db_def)
  then show ?thesis
    by (auto simp: push_settle_def settle_db_def Let_def act_then_def act_bind_def step_simps)
qed

lemma upsert_same:
  assumes "mapping_external_for_series db s slug = Some ext"
  shows "mapping_external_for_series (upsert_mapping s slug ext db) t q = mapping_external_for_series db t q"
    and "get_snapshot (upsert_mapping s slug ext db) t q = get_snapshot db t q"
    and "db_progress (upsert_mapping s slug ext db) = db_progress db"
    and "watchlist_status_get (upsert_mapping s slug ext db) = watchlist_status_get db"
    and "is_sync_excluded (upsert_mapping s slug ext db) = is_sync_excluded db"
    and "db_now (upsert_mapping s slug ext db) = db_now db"
  using assms
  by (auto simp: upsert_mapping_def mapping_external_for_series_def get_snapshot_def update_conv'
      repoint_def snapshot_of_def watchlist_status_get_def is_sync_excluded_def fun_eq_iff split: option.splits)

lemma progress_held_storable:
  assumes "progress_ok (db_progress db)"
  shows "storable_progress (held db u s)"
proof (cases "progress_state (db_progress db) u s")
  case None
  then show ?thesis by (auto simp: held_def storable_progress_def intro: exI [of _ 0])
next
  case (Some xt)
  then show ?thesis using progress_state_storable [OF assms] by (cases xt) (auto simp: held_def)
qed

lemma push_inner_eff:
  assumes run: "push_inner sv slug u s en = (Ok (), en')"
    and gate: "get_account (en_db en) u slug = Some a" "ac_auto_sync_enabled a"
      "\<not> is_sync_excluded (en_db en) u s slug"
    and m: "mapping_external_for_series (en_db en) s slug = Some ext"
    and ok: "progress_ok (db_progress (en_db en))"
  defines "db \<equiv> upsert_mapping s slug ext (en_db en)"
    and "w \<equiv> unwrap_or Reading (watchlist_status_get (en_db en) u s)" and "p \<equiv> held (en_db en) u s"
  shows "en_db en' = settle_db u slug s
      (local_members (user_state (en_db en) u slug) (mapping_linked_series db slug ext)) p w db"
    and "en_saves en' = en_saves en @ [(slug, ext, w, p)]"
proof -
  have us: "user_state db u slug = user_state (en_db en) u slug"
    by (simp add: user_state_def db_def upsert_same [OF m])
  obtain e1 where e1: "save_entry (service_run sv slug u) ext w p en = (Ok (), e1)"
    "push_settle u slug s ext p w (modify_db (upsert_mapping s slug ext) e1) = (Ok (), en')"
    using run gate
    by (auto simp: push_inner_def media_id_for_series_def m act_then_ok act_bind_ok Let_def w_def p_def
        dest!: access_eff)
  have d1: "en_db (modify_db (upsert_mapping s slug ext) e1) = db"
    "en_saves (modify_db (upsert_mapping s slug ext) e1) = en_saves en @ [(slug, ext, w, p)]"
    using save_entry_eff [OF e1(1)] by (simp_all add: step_simps db_def)
  show "en_db en' = settle_db u slug s
      (local_members (user_state (en_db en) u slug) (mapping_linked_series db slug ext)) p w db"
    "en_saves en' = en_saves en @ [(slug, ext, w, p)]"
    using push_settle_eff [OF progress_held_storable [OF ok], of u slug s ext u s w
        "modify_db (upsert_mapping s slug ext) e1"] e1(2)
    by (auto simp: d1 linked_members_local us p_def)
qed

text \<open>C19: a targeted push asserts the reader's own state for the whole work. When automatic sync is
  on and the series is not excluded, a push that succeeds writes the local pair to the provider in
  exactly one call, leaves the pushed series as it was, brings every other tracked and included
  series mapped to the same entry to the pushed pair, and records that pair as the common ancestor
  of each; other readers, other series and excluded series keep what they had.\<close>

theorem push_settles_group:
  assumes run: "push_inner sv slug u s en = (Ok (), en')"
    and gate: "get_account (en_db en) u slug = Some a" "ac_auto_sync_enabled a"
      "\<not> is_sync_excluded (en_db en) u s slug"
    and m: "mapping_external_for_series (en_db en) s slug = Some ext"
    and wf: "keys_ok (en_db en)" "progress_ok (db_progress (en_db en))"
  defines "db \<equiv> en_db en"
    and "w \<equiv> unwrap_or Reading (watchlist_status_get (en_db en) u s)" and "p \<equiv> held (en_db en) u s"
  shows "en_saves en' = en_saves en @ [(slug, ext, w, p)] \<and>
    (\<forall>t. mapping_external_for_series db t slug = Some ext \<and> \<not> is_sync_excluded db u t slug \<and>
         (t = s \<or> user_tracks db u t) \<longrightarrow>
       held (en_db en') u t = p \<and>
       (watchlist_status_get db u t \<noteq> None \<longrightarrow> watchlist_status_get (en_db en') u t = Some w) \<and>
       get_snapshot (en_db en') t slug = Some (settled_snapshot p w (db_now db))) \<and>
    (\<forall>v t. v \<noteq> u \<or> t = s \<or> mapping_external_for_series db t slug \<noteq> Some ext \<or> is_sync_excluded db u t slug \<longrightarrow>
       held (en_db en') v t = held db v t \<and>
       watchlist_status_get (en_db en') v t = watchlist_status_get db v t)"
proof -
  let ?db = "upsert_mapping s slug ext db" and ?loc = "user_state db u slug"
  let ?ids = "mapping_linked_series ?db slug ext"
  note up = upsert_same [OF m, folded db_def]
  have k: "keys_ok ?db" using wf(1) by (simp add: store_simps db_def)
  have ids: "set ?ids = {t. mapping_external_for_series db t slug = Some ext}" "distinct ?ids"
    using linked_series_set [of ?db] k by (simp_all add: keys_ok_def up)
  note eff = push_inner_eff [OF run gate m wf(2), folded db_def w_def p_def]
  have st: "storable_progress p" using wf(2) by (simp add: p_def progress_held_storable)
  have mir: "t \<in> mirrored ?loc ?ids \<longleftrightarrow> mapping_external_for_series db t slug = Some ext \<and>
      \<not> is_sync_excluded db u t slug \<and> user_tracks db u t" for t
    by (auto simp: mirrored_def ids user_state_def tracked_def user_tracks_def)
  have held_up: "held ?db = held db" by (simp add: held_def fun_eq_iff up)
  have out: "held (en_db en') v t = held db v t \<and> watchlist_status_get (en_db en') v t = watchlist_status_get db v t"
    if "v \<noteq> u \<or> t \<notin> mirrored ?loc ?ids" for v t
    using settle_other [OF st, of v u t ?loc ?ids] that by (simp add: eff(1) held_def up)
  have mem: "held (en_db en') u t = p \<and>
      (watchlist_status_get db u t \<noteq> None \<longrightarrow> watchlist_status_get (en_db en') u t = Some w)"
    if "t \<in> mirrored ?loc ?ids" for t
    using settle_member [OF st ids(2) that, of u slug s w ?db] storable_nonneg [OF st]
    by (auto simp: eff(1) held_def mirror_of_def user_state_def up split: option.splits if_splits)
  have snap: "get_snapshot (en_db en') t slug = Some (settled_snapshot p w (db_now db))"
    if "mapping_external_for_series db t slug = Some ext" "t = s \<or> t \<in> mirrored ?loc ?ids" for t
  proof -
    have "get_snapshot db t slug \<noteq> None"
      using that(1) by (auto simp: get_snapshot_def mapping_external_for_series_def)
    then show ?thesis using that(2) by (auto simp: eff(1) settle_snapshot up)
  qed
  have own: "held (en_db en') u s = p \<and> watchlist_status_get (en_db en') u s = watchlist_status_get db u s"
  proof (cases "s \<in> mirrored ?loc ?ids")
    case True
    have "w = unwrap_or Reading (watchlist_status_get db u s)" by (simp add: w_def db_def)
    then show ?thesis
      using mem [OF True] settle_member(2) [OF st ids(2) True, of u slug s w ?db]
      by (auto simp: eff(1) mirror_of_def user_state_def up split: option.splits if_splits)
  next
    case False
    then show ?thesis using out [of u s] by (simp add: p_def db_def)
  qed
  show ?thesis
  proof (intro conjI allI impI)
    fix t assume t: "mapping_external_for_series db t slug = Some ext \<and> \<not> is_sync_excluded db u t slug \<and>
      (t = s \<or> user_tracks db u t)"
    show "held (en_db en') u t = p" using t own mem mir by metis
    show "watchlist_status_get (en_db en') u t = Some w" if "watchlist_status_get db u t \<noteq> None"
      using t own mem mir that by (metis (no_types, lifting) w_def db_def option.collapse unwrap_or_simps(2))
    show "get_snapshot (en_db en') t slug = Some (settled_snapshot p w (db_now db))"
      using t snap mir by metis
  next
    fix v t assume vt: "v \<noteq> u \<or> t = s \<or> mapping_external_for_series db t slug \<noteq> Some ext \<or>
      is_sync_excluded db u t slug"
    show "held (en_db en') v t = held db v t" using vt out mir own by (metis p_def db_def)
    show "watchlist_status_get (en_db en') v t = watchlist_status_get db v t"
      using vt out mir own by metis
  qed (rule eff(2))
qed

section \<open>What a revert leaves for the next run\<close>

lemma excluded_frame [store_simps]:
  "is_sync_excluded (put_progress v t x db) u s slug = is_sync_excluded db u s slug"
  "is_sync_excluded (record_snapshot t q a db) u s slug = is_sync_excluded db u s slug"
  "is_sync_excluded (upsert_mapping t q e db) u s slug = is_sync_excluded db u s slug"
  by (rule snapshots_frame(3); simp add: store_simps upsert_mapping_def)+

lemma held_frame [store_simps]:
  "held (record_snapshot t q a db) u s = held db u s" "held (upsert_mapping t q e db) u s = held db u s"
  by (simp_all add: held_def store_simps upsert_mapping_def)

lemma held_put: "storable_progress x \<Longrightarrow>
  held (put_progress u s x db) v t = (if (v, t) = (u, s) then x else held db v t)"
  by (simp add: held_def put_progress_state)

lemma named_ok [simp]: "named msg x en = (Ok v, en') \<longleftrightarrow> x = Some v \<and> en' = en"
  by (auto simp: named_def act_return_def act_fail_def split: option.split)

lemma revert_pull_eff:
  assumes "revert_pull d en = (Ok rep, en')" "sd_scope d = ''progress''" "sd_series d = Some s"
    and "sd_local_before d = Some (NumText v)" "storable_progress v"
  shows "en_db en' = put_progress (sd_user d) s v (en_db en)" "en_saves en' = en_saves en"
  using assms
  by (auto simp: revert_pull_def act_bind_ok act_then_ok lift_db_def db_progress_set_ok act_return_def)

lemma revert_push_eff:
  assumes "revert_push sv d en = (Ok rep, en')" "sd_external d = Some ext" "sd_series d = Some s"
    and "sd_evidence d = Written w p w0 p0 f"
  shows "en_db en' = record_snapshot s (sd_provider d) (agreed p0 w0) (en_db en)"
    and "en_saves en' = en_saves en @ [(sd_provider d, ext, w0, p0)]"
  using assms
  by (auto simp: revert_push_def act_bind_ok act_then_ok act_modify_def act_return_def step_simps
      dest!: access_eff save_entry_eff)

text \<open>Undoing a pull sticks. Where the last run pulled a progress from the provider and both
  sides agreed on it, reverting that decision restores the reader's previous progress without a
  provider write and without moving the common ancestor, and the next reconciliation, under any
  policy, writes the restored progress to the provider.\<close>

theorem revert_pull_is_pushed:
  assumes run: "revert_pull d en = (Ok rep, en')" "sd_scope d = ''progress''" "sd_series d = Some s"
      "sd_local_before d = Some (NumText v)" "storable_progress v"
    and wf: "keys_ok (en_db en)" "sole_mapping (en_db en) (sd_provider d) s ext"
      "\<not> is_sync_excluded (en_db en) (sd_user d) s (sd_provider d)"
    and agreed: "get_snapshot (en_db en) s (sd_provider d) = Some (settled_snapshot p w t)"
      "watchlist_status_get (en_db en) (sd_user d) s = Some w" "v \<noteq> p"
    and rem: "re_progress rem = p" "re_status rem = w"
  shows "held (en_db en') (sd_user d) s = v \<and> en_saves en' = en_saves en \<and>
    get_snapshot (en_db en') s (sd_provider d) = get_snapshot (en_db en) s (sd_provider d) \<and>
    mp_remote_write (next_plan (en_db en') (sd_user d) (sd_provider d) s ext rem pol) = Some (w, v)"
proof -
  note e = revert_pull_eff [OF run]
  have frame: "keys_ok (en_db en')" "sole_mapping (en_db en') (sd_provider d) s ext"
    "\<not> is_sync_excluded (en_db en') (sd_user d) s (sd_provider d)"
    "get_snapshot (en_db en') s (sd_provider d) = get_snapshot (en_db en) s (sd_provider d)"
    "watchlist_status_get (en_db en') (sd_user d) s = Some w"
    using wf agreed(2)
    by (simp_all add: e(1) store_simps sole_mapping_def mapping_external_for_series_def
        get_snapshot_def watchlist_status_get_def)
  have "held (en_db en') (sd_user d) s = v" by (simp add: e(1) held_put [OF run(5)])
  then show ?thesis
    using agreed(3) rem
    by (simp add: next_plan_sole [OF frame(1-3)] sole_ancestor_settled [OF frame(1,2), of p w t] frame(4,5)
        agreed(1) e(2) plan_merge_def Let_def three_way_def)
qed

text \<open>Undoing a push does not stick. After a run wrote the reader's pair to the provider, the
  revert writes the previous remote pair back and records it as the value both sides agree on; the
  library still holds the pushed pair, so the next reconciliation reads it as a local change and,
  under every policy, writes the same pair to the provider again.\<close>

theorem revert_push_is_pushed_again:
  assumes run: "revert_push sv d en = (Ok rep, en')" "sd_external d = Some ext" "sd_series d = Some s"
      "sd_evidence d = Written w p w0 p0 f"
    and wf: "keys_ok (en_db en)" "sole_mapping (en_db en) (sd_provider d) s ext"
      "\<not> is_sync_excluded (en_db en) (sd_user d) s (sd_provider d)"
    and loc: "held (en_db en) (sd_user d) s = p" "watchlist_status_get (en_db en) (sd_user d) s = Some w"
      "(w, p) \<noteq> (w0, p0)"
    and rem: "re_progress rem = p0" "re_status rem = w0"
  shows "en_saves en' = en_saves en @ [(sd_provider d, ext, w0, p0)] \<and>
    mp_remote_write (next_plan (en_db en') (sd_user d) (sd_provider d) s ext rem pol) = Some (w, p)"
proof -
  note e = revert_push_eff [OF run]
  have frame: "keys_ok (en_db en')" "sole_mapping (en_db en') (sd_provider d) s ext"
    "\<not> is_sync_excluded (en_db en') (sd_user d) s (sd_provider d)"
    "watchlist_status_get (en_db en') (sd_user d) s = Some w" "held (en_db en') (sd_user d) s = p"
    using wf loc
    by (simp_all add: e(1) store_simps sole_mapping_def watchlist_status_get_def)
  have "mapping_external_for_series (en_db en) s (sd_provider d) = Some ext"
    using wf(2) by (simp add: sole_mapping_def)
  then have snap: "get_snapshot (en_db en') s (sd_provider d) = Some (settled_snapshot p0 w0 (db_now (en_db en)))"
    by (auto simp: e(1) get_snapshot_record mapping_external_for_series_def)
  show ?thesis
    using loc(3) rem
    by (auto simp: next_plan_sole [OF frame(1-3)] sole_ancestor_settled [OF frame(1,2) snap] frame(4,5)
        e(2) plan_merge_def Let_def three_way_def)
qed

text \<open>A series that is re-pointed to another remote entry keeps the common ancestor of the old
  one. When the reader has not moved since the last agreement, the next reconciliation takes the
  new entry's progress for a remote change and pulls it, even when it is lower and even when the
  local side is to win every conflict.\<close>

theorem repointed_mapping_pulls_lower:
  assumes wf: "keys_ok db" "\<not> is_sync_excluded db u s slug" "sole_mapping (upsert_mapping s slug ext' db) slug s ext'"
    and old: "mapping_external_for_series db s slug = Some ext"
      "get_snapshot db s slug = Some (settled_snapshot p w t)" "held db u s = p"
    and rem: "re_progress rem < p"
  shows "get_snapshot (upsert_mapping s slug ext' db) s slug = Some (settled_snapshot p w t) \<and>
    fp_action (mp_progress (next_plan (upsert_mapping s slug ext' db) u slug s ext' rem LocalWins)) = PullRemote \<and>
    local_after (mp_progress (next_plan (upsert_mapping s slug ext' db) u slug s ext' rem LocalWins)) < held db u s"
proof -
  let ?db = "upsert_mapping s slug ext' db"
  have frame: "keys_ok ?db" "\<not> is_sync_excluded ?db u s slug" "held ?db u s = p"
    using wf old(3)
    by (simp_all add: store_simps)
  have snap: "get_snapshot ?db s slug = Some (settled_snapshot p w t)"
    using old(1,2) by (auto simp: get_snapshot_def upsert_mapping_def update_conv' repoint_def
        snapshot_of_def mapping_external_for_series_def)
  have "fp_action (mp_progress (next_plan ?db u slug s ext' rem LocalWins)) = PullRemote"
    using rem by (simp add: next_plan_sole [OF frame(1) wf(3) frame(2)] frame(3)
        sole_ancestor_settled [OF frame(1) wf(3) snap] plan_merge_fields three_way_def Let_def)
  then show ?thesis
    using snap rem by (simp add: local_after_def next_plan_sole [OF frame(1) wf(3) frame(2)]
        plan_merge_fields old(3))
qed

section \<open>A decision is undone at most once\<close>

lemma mark_reverted: "dm_reverted_at (mark_of (mark_sync_decision_reverted i co) i) \<noteq> None"
  by (auto simp: mark_sync_decision_reverted_def mark_of_def update_conv')

text \<open>A decision is reverted at most once. After a revert that succeeded, every further request
  to revert the same decision is refused and changes nothing: no store, no provider, no mark.\<close>

theorem revert_once:
  assumes "revert sv i reason co = (Ok rep, co')"
  shows "\<exists>e. revert sv' i reason' co' = (Err e, co')"
proof -
  obtain co1 where "co' = mark_sync_decision_reverted i co1"
    using assms
    by (auto simp: revert_def act_bind_ok act_then_ok act_modify_def act_return_def split: if_splits)
  then have "dm_reverted_at (mark_of co' i) \<noteq> None" using mark_reverted by simp
  then show ?thesis by (simp add: revert_def act_bind_def get_sync_decision_def)
qed

section \<open>Requests that can be evaluated\<close>

text \<open>
  One series read to chapter 10, agreed with the provider, and a conflict with a remote that says
  chapter 12; the provider accepts every write.
\<close>

definition action_row :: mapping_row where
  "action_row = agree_row (agreed 10 Reading) 4 (fresh_mapping ''55'' 1)"

definition action_db :: sync_db where
  "action_db =
     \<lparr>db_progress = [((7, 3), \<lparr>pr_whole = 100000, pr_part = None, pr_updated_at = 3\<rparr>)],
      db_watch = [((7, 3), fresh_watch Reading True 2)], db_overrides = [],
      db_mappings = [((3, ''anilist''), action_row)],
      db_conflicts = [\<lparr>cf_id = 0, cf_user = 7, cf_series = 3, cf_provider = ''anilist'',
         cf_field = ''progress'', cf_local_value = NumText 10, cf_remote_value = NumText 12,
         cf_detected_at = 5, cf_resolved_at = None, cf_resolution = None\<rparr>],
      db_blocks = [], db_accounts = [((7, ''anilist''), \<lparr>ac_username = None, ac_last_synced_at = None,
         ac_last_error = None, ac_auto_sync_enabled = True, ac_conflict_policy = ''ask_me''\<rparr>)],
      db_remote = [], db_now = 9\<rparr>"

definition action_engine :: engine where
  "action_engine = \<lparr>en_db = action_db, en_saves = [], en_history = [], en_journal = [],
     en_counts = counts_default, en_decisions = []\<rparr>"

definition action_services :: services where
  "action_services = \<lparr>sv_registry = [''anilist''], sv_access = (\<lambda>_ _. Ok ()),
     sv_save_entry = (\<lambda>_ _ _ _ _. Ok ()), sv_search = (\<lambda>_ _. Ok None), sv_title = (\<lambda>_. None)\<rparr>"

definition action_decision :: "string \<Rightarrow> evidence \<Rightarrow> sync_decision" where
  "action_decision act ev = (new_decision 7 ''anilist'' ''progress'' act ''only_local_changed'')
     \<lparr>sd_series := Some 3, sd_external := Some ''55'', sd_applied := True,
      sd_local_before := Some (NumText 8), sd_evidence := ev\<rparr>"

lemma action_progress:
  "progress_state (db_progress action_db) u s = (if (u, s) = (7, 3) then Some (10, 3) else None)"
proof -
  have "from_milli 100000 = 10"
    using from_milli_whole [of 10] by (simp add: milli_of_whole_def milli_scale_int_def)
  then show ?thesis by (simp add: action_db_def progress_state_def)
qed

lemma action_facts:
  "keys_ok action_db" "snapshots_agree action_db" "sole_mapping action_db ''anilist'' 3 ''55''"
  "\<not> is_sync_excluded action_db u s ''anilist''" "held action_db 7 3 = 10"
  "watchlist_status_get action_db 7 3 = Some Reading"
  "get_snapshot action_db 3 ''anilist'' = Some (settled_snapshot 10 Reading 4)"
  "mapping_external_for_series action_db 3 ''anilist'' = Some ''55''"
  by (simp_all add: held_def action_progress)
    (simp_all add: action_db_def action_row_def keys_ok_def snapshots_agree_def sole_mapping_def agree_row_def
      agreed_def mapping_external_for_series_def is_sync_excluded_def fresh_watch_def fresh_mapping_def
      watchlist_status_get_def get_snapshot_def snapshot_of_def settled_snapshot_def)

lemma storable_whole: "0 \<le> n \<Longrightarrow> n \<le> 200000 \<Longrightarrow> storable_progress (of_int n)"
  by (auto simp: storable_progress_def)

lemmas storable_samples = storable_whole [of 12, simplified] storable_whole [of 10, simplified]
  storable_whole [of 8, simplified]

lemma action_access:
  "registry_get action_services ''anilist'' en = (Ok (), en)"
  "token_access action_services ''anilist'' u en = (Ok (), en)"
  "save_entry (service_run action_services slug u) ext w p en =
     (Ok (), en\<lparr>en_saves := en_saves en @ [(slug, ext, w, p)]\<rparr>)"
  by (simp_all add: registry_get_def token_access_def save_entry_def action_services_def service_run_def)

lemma action_sel [simp]: "en_db action_engine = action_db" "en_saves action_engine = []"
  by (simp_all add: action_engine_def)

definition action_conflict :: conflict_row where
  "action_conflict = hd (db_conflicts action_db)"

lemma action_conflict_facts:
  "get_pending_conflict action_db 7 0 = Some action_conflict" "cf_field action_conflict = ''progress''"
  "cf_local_value action_conflict = NumText 10" "cf_remote_value action_conflict = NumText 12"
  "cf_series action_conflict = 3" "cf_provider action_conflict = ''anilist''"
  by (simp_all add: action_conflict_def get_pending_conflict_def action_db_def)

lemma action_resolve_runs: "\<exists>b en'. resolve action_services 7 0 ''remote'' action_engine = (Ok b, en')"
proof -
  have "resolve_write action_services 7 action_conflict ''55'' ''remote'' action_engine =
      (Ok (), modify_db (put_progress 7 3 12) action_engine)"
    by (simp add: resolve_write_def action_conflict_facts lift_db_def db_progress_set_ok storable_samples
        modify_db_def)
  then show ?thesis
    by (simp add: resolve_def action_conflict_facts action_facts(8) act_then_def act_bind_def action_access
        close_conflict_def Let_def case_prod_beta)
qed

theorem resolve_settles_progress_witness:
  "\<exists>b en'. resolve action_services 7 0 ''remote'' action_engine = (Ok b, en') \<and> b \<and>
     held (en_db en') 7 3 = 12 \<and> en_saves en' = []"
proof -
  obtain b en' where run: "resolve action_services 7 0 ''remote'' action_engine = (Ok b, en')"
    using action_resolve_runs by blast
  show ?thesis
    using resolve_settles_progress [where sv = action_services and u = 7 and i = 0 and resolution = "''remote''"
        and en = action_engine and b = b and en' = en' and c = action_conflict and l = 10 and r = 12
        and ext = "''55''", OF run] run
    by (simp add: action_conflict_facts action_facts storable_samples) blast
qed

lemma action_push_runs: "\<exists>en'. push_inner action_services ''anilist'' 7 3 action_engine = (Ok (), en')"
proof -
  have g: "get_account action_db 7 ''anilist'' = Some \<lparr>ac_username = None, ac_last_synced_at = None,
         ac_last_error = None, ac_auto_sync_enabled = True, ac_conflict_policy = ''ask_me''\<rparr>"
    by (simp add: get_account_def action_db_def)
  have "\<exists>en'. push_settle 7 ''anilist'' 3 ''55'' 10 Reading en = (Ok (), en')" for en
    using push_settle_eff [OF storable_samples(2)] by blast
  then show ?thesis
    by (simp add: push_inner_def g action_facts media_id_for_series_def act_then_def act_bind_def
        action_access Let_def)
qed

lemma action_account: "\<exists>a. get_account action_db 7 ''anilist'' = Some a \<and> ac_auto_sync_enabled a"
  by (simp add: get_account_def action_db_def)

lemma action_progress_ok: "progress_ok (db_progress action_db)"
  using sample_rows by (auto simp: progress_ok_def action_db_def)

theorem push_settles_group_witness:
  "\<exists>en'. push_inner action_services ''anilist'' 7 3 action_engine = (Ok (), en') \<and>
     en_saves en' = [(''anilist'', ''55'', Reading, 10)] \<and>
     get_snapshot (en_db en') 3 ''anilist'' = Some (settled_snapshot 10 Reading 9)"
proof -
  obtain en' where run: "push_inner action_services ''anilist'' 7 3 action_engine = (Ok (), en')"
    using action_push_runs by blast
  obtain a where a: "get_account action_db 7 ''anilist'' = Some a" "ac_auto_sync_enabled a"
    using action_account by blast
  have now: "db_now action_db = 9" by (simp add: action_db_def)
  show ?thesis
    using push_settles_group [where sv = action_services and slug = "''anilist''" and u = 7 and s = 3
        and en = action_engine and en' = en' and a = a and ext = "''55''", OF run] a run
    by (simp add: action_facts action_progress_ok now)
qed

theorem revert_pull_is_pushed_witness:
  "\<exists>rep en'. revert_pull (action_decision ''pull'' NoEvidence) action_engine = (Ok rep, en') \<and>
     held (en_db en') 7 3 = 8 \<and>
     mp_remote_write (next_plan (en_db en') 7 ''anilist'' 3 ''55'' (sample_entry\<lparr>re_progress := 10\<rparr>) RemoteWins) =
       Some (Reading, 8)"
proof -
  let ?d = "action_decision ''pull'' NoEvidence"
  obtain rep en' where run: "revert_pull ?d action_engine = (Ok rep, en')"
    by (auto simp: revert_pull_def action_decision_def new_decision_def named_def act_then_def act_bind_def lift_db_def
        db_progress_set_ok storable_samples)
  show ?thesis
    using revert_pull_is_pushed [where d = ?d and en = action_engine and rep = rep and en' = en' and s = 3
        and v = 8 and ext = "''55''" and p = 10 and w = Reading and t = 4
        and rem = "sample_entry\<lparr>re_progress := 10\<rparr>" and pol = RemoteWins, OF run] run
    by (simp add: action_decision_def new_decision_def action_facts storable_samples sample_entry_def)
qed

theorem revert_push_is_pushed_again_witness:
  "\<exists>rep en'. revert_push action_services (action_decision ''push'' (Written Reading 10 Reading 6 ''progress''))
       action_engine = (Ok rep, en') \<and>
     mp_remote_write (next_plan (en_db en') 7 ''anilist'' 3 ''55'' (sample_entry\<lparr>re_progress := 6\<rparr>) RemoteWins) =
       Some (Reading, 10)"
proof -
  let ?d = "action_decision ''push'' (Written Reading 10 Reading 6 ''progress'')"
  obtain rep en' where run: "revert_push action_services ?d action_engine = (Ok rep, en')"
    by (auto simp: revert_push_def action_decision_def new_decision_def named_def act_then_def act_bind_def
        action_access)
  show ?thesis
    using revert_push_is_pushed_again [where sv = action_services and d = ?d and en = action_engine and rep = rep
        and en' = en' and s = 3 and ext = "''55''" and p = 10 and w = Reading and w0 = Reading and p0 = 6
        and f = "''progress''" and rem = "sample_entry\<lparr>re_progress := 6\<rparr>" and pol = RemoteWins, OF run] run
    by (simp add: action_decision_def new_decision_def action_facts sample_entry_def)
qed

theorem repointed_mapping_pulls_lower_witness:
  "local_after (mp_progress (next_plan (upsert_mapping 3 ''anilist'' ''56'' action_db) 7 ''anilist'' 3 ''56''
     (sample_entry\<lparr>re_progress := 2\<rparr>) LocalWins)) < held action_db 7 3"
proof -
  have "sole_mapping (upsert_mapping 3 ''anilist'' ''56'' action_db) ''anilist'' 3 ''56''"
    by (simp add: sole_mapping_def mapping_external_for_series_def upsert_mapping_def action_db_def repoint_def
        update_conv')
  then show ?thesis
    using repointed_mapping_pulls_lower [where db = action_db and u = 7 and s = 3 and slug = "''anilist''"
        and ext' = "''56''" and ext = "''55''" and p = 10 and w = Reading and t = 4
        and rem = "sample_entry\<lparr>re_progress := 2\<rparr>"]
    by (simp add: action_facts sample_entry_def)
qed

definition action_console :: console where
  "action_console = \<lparr>co_engine = action_engine\<lparr>en_journal := [action_decision ''pull'' NoEvidence]\<rparr>, co_marks = []\<rparr>"

theorem revert_once_witness:
  "\<exists>rep co' e. revert action_services 0 ''wrong'' action_console = (Ok rep, co') \<and>
     revert action_services 0 ''again'' co' = (Err e, co')"
proof -
  obtain rep co' where run: "revert action_services 0 ''wrong'' action_console = (Ok rep, co')"
    by (auto simp: revert_def act_bind_def act_then_def get_sync_decision_def mark_of_def action_console_def
        on_engine_def revert_action_def revert_pull_def action_decision_def new_decision_def named_def lift_db_def
        db_progress_set_ok storable_samples)
  show ?thesis using revert_once [OF run] run by blast
qed

end
