(* ===== verification/Scan_Store.thy ===== *)
theory Scan_Store
  imports Domain_Enums Reading_Progress
begin

text \<open>
  Scan runs and their tasks: the rows and statements of
  \<open>src/crates/db/src/repo/scans/tasks.rs\<close>, \<open>runs.rs\<close>, \<open>cancel.rs\<close> and
  \<open>reconcile.rs\<close>. One statement is one function on the database, fallible where the database
  can refuse it (a foreign key, an \<open>int4\<close> or \<open>int2\<close> overflow). The identifier a row is
  inserted under is drawn by the caller and is an argument here. A \<open>jsonb\<close> target is kept as
  its text, which is what the uniqueness index of the table compares. Times and durations are in
  microseconds.
\<close>

section \<open>Rows\<close>

type_synonym run_id = nat
type_synonym task_id = nat
type_synonym provider_id = nat
type_synonym json = string

record scan_run =
  sr_provider :: "provider_id option"
  sr_mode :: scan_mode
  sr_state :: run_state
  sr_total :: int
  sr_done :: int
  sr_failed :: int
  sr_started_at :: "int option"
  sr_finished_at :: "int option"
  sr_created_at :: int

record scan_task =
  st_run :: run_id
  st_kind :: string
  st_target :: json
  st_state :: task_state
  st_attempts :: int
  st_worker :: "string option"
  st_error :: "string option"
  st_claimed_at :: "int option"
  st_finished_at :: "int option"
  st_created_at :: "int option"
  st_acknowledged_at :: "int option"
  st_stage :: "string option"
  st_stage_at :: "int option"
  st_stage_progress :: "(int \<times> int) option"
  st_stage_detail :: "string option"
  st_wait_ms :: "int option"
  st_duration_ms :: "int option"
  st_telemetry :: "stage_timings option"

record scan_db =
  sc_runs :: "(run_id, scan_run) tbl"
  sc_tasks :: "(task_id, scan_task) tbl"
  sc_providers :: "(provider_id, string) tbl"
  sc_now :: int

type_synonym 'a scan_act = "(scan_db, db_error, 'a) act"

definition int4 :: "int \<Rightarrow> (db_error, int) result" where
  "int4 x = (if - 2147483648 \<le> x \<and> x \<le> 2147483647 then Ok x else Err NumericOverflow)"

definition int2 :: "int \<Rightarrow> (db_error, int) result" where
  "int2 x = (if - 32768 \<le> x \<and> x \<le> 32767 then Ok x else Err NumericOverflow)"

fun task_settled :: "task_state \<Rightarrow> bool" where
  "task_settled task_state.Done = True"
| "task_settled task_state.Failed = True"
| "task_settled task_state.Skipped = True"
| "task_settled _ = False"

fun task_open :: "task_state \<Rightarrow> bool" where
  "task_open task_state.Queued = True"
| "task_open task_state.Claimed = True"
| "task_open task_state.Running = True"
| "task_open _ = False"

definition run_active :: "scan_run \<Rightarrow> bool" where
  "run_active r \<longleftrightarrow> sr_state r = run_state.Queued \<or> sr_state r = run_state.Running"

definition run_tasks :: "scan_db \<Rightarrow> run_id \<Rightarrow> scan_task list" where
  "run_tasks db r = map snd [(t, k) \<leftarrow> sc_tasks db. st_run k = r]"

definition has_open_task :: "scan_db \<Rightarrow> run_id \<Rightarrow> bool" where
  "has_open_task db r \<longleftrightarrow> list_ex (\<lambda>k. task_open (st_state k)) (run_tasks db r)"

section \<open>Tasks\<close>

definition fresh_task :: "run_id \<Rightarrow> string \<Rightarrow> json \<Rightarrow> int \<Rightarrow> scan_task" where
  "fresh_task r kind target now =
     \<lparr>st_run = r, st_kind = kind, st_target = target, st_state = task_state.Queued, st_attempts = 0,
      st_worker = None, st_error = None, st_claimed_at = None, st_finished_at = None,
      st_created_at = Some now, st_acknowledged_at = None, st_stage = None, st_stage_at = None,
      st_stage_progress = None, st_stage_detail = None, st_wait_ms = None, st_duration_ms = None,
      st_telemetry = None\<rparr>"

definition task_exists :: "scan_db \<Rightarrow> run_id \<Rightarrow> string \<Rightarrow> json \<Rightarrow> bool" where
  "task_exists db r kind target \<longleftrightarrow>
     list_ex (\<lambda>k. st_kind k = kind \<and> st_target k = target) (run_tasks db r)"

definition create_task :: "task_id \<Rightarrow> run_id \<Rightarrow> string \<Rightarrow> json \<Rightarrow> task_id option scan_act" where
  "create_task t r kind target db =
     (if map_of (sc_tasks db) t \<noteq> None then (Err UniqueViolation, db)
      else if task_exists db r kind target then (Ok None, db)
      else if map_of (sc_runs db) r = None then (Err ForeignKeyViolation, db)
      else (Ok (Some t),
            db\<lparr>sc_tasks := sc_tasks db @ [(t, fresh_task r kind target (sc_now db))]\<rparr>))"

text \<open>The batch is one statement: a row that is refused refuses them all.\<close>

fun insert_tasks ::
  "run_id \<Rightarrow> string \<Rightarrow> (task_id \<times> json) list \<Rightarrow> scan_db \<Rightarrow>
     (db_error, (task_id \<times> json) list \<times> scan_db) result" where
  "insert_tasks r kind [] db = Ok ([], db)"
| "insert_tasks r kind ((t, target) # rows) db =
     (case create_task t r kind target db of
        (Inl e, _) \<Rightarrow> Err e
      | (Inr created, db') \<Rightarrow>
          bind_result (insert_tasks r kind rows db') (\<lambda>(out, db'').
            Ok ((case created of None \<Rightarrow> out | Some i \<Rightarrow> (i, target) # out), db'')))"

definition create_tasks ::
  "run_id \<Rightarrow> string \<Rightarrow> (task_id \<times> json) list \<Rightarrow> (task_id \<times> json) list scan_act" where
  "create_tasks r kind rows db =
     (case insert_tasks r kind rows db of
        Inl e \<Rightarrow> (Err e, db)
      | Inr (out, db') \<Rightarrow> (Ok out, db'))"

definition claimed_row :: "string \<Rightarrow> int \<Rightarrow> int \<Rightarrow> scan_task \<Rightarrow> scan_task" where
  "claimed_row worker now attempts k =
     k\<lparr>st_state := task_state.Claimed, st_worker := Some worker, st_claimed_at := Some now,
       st_attempts := attempts\<rparr>"

definition claim_task :: "task_id \<Rightarrow> string \<Rightarrow> bool scan_act" where
  "claim_task t worker db =
     (case map_of (sc_tasks db) t of
        None \<Rightarrow> (Ok False, db)
      | Some k \<Rightarrow>
          (case map_of (sc_runs db) (st_run k) of
             None \<Rightarrow> (Ok False, db)
           | Some r \<Rightarrow>
               if task_settled (st_state k) \<or> sr_state r = run_state.Cancelled then (Ok False, db)
               else (case int2 (st_attempts k + 1) of
                       Inl e \<Rightarrow> (Err e, db)
                     | Inr n \<Rightarrow>
                         (Ok True, db\<lparr>sc_tasks := row_update t (\<lambda>k. (claimed_row worker (sc_now db) n k)
                            \<lparr>st_stage := Some (scan_stage_as_str Starting), st_stage_at := Some (sc_now db),
                             st_stage_progress := None, st_stage_detail := None\<rparr>) (sc_tasks db)\<rparr>))))"

text \<open>The durable fallback; \<open>locked\<close> says which rows another worker holds.\<close>

definition claim_next_queued ::
  "(task_id \<Rightarrow> bool) \<Rightarrow> run_id \<Rightarrow> string \<Rightarrow> (task_id \<times> scan_task) option scan_act" where
  "claim_next_queued locked r worker db =
     (case sort_key fst [(t, k) \<leftarrow> sc_tasks db.
             st_run k = r \<and> st_state k = task_state.Queued \<and> \<not> locked t] of
        [] \<Rightarrow> (Ok None, db)
      | (t, k) # _ \<Rightarrow>
          (case int2 (st_attempts k + 1) of
             Inl e \<Rightarrow> (Err e, db)
           | Inr n \<Rightarrow> (Ok (Some (t, claimed_row worker (sc_now db) n k)),
                        db\<lparr>sc_tasks := row_update t (claimed_row worker (sc_now db) n) (sc_tasks db)\<rparr>)))"

definition set_task_stage ::
  "task_id \<Rightarrow> scan_stage \<Rightarrow> (int \<times> int) option \<Rightarrow> string option \<Rightarrow> scan_db \<Rightarrow> scan_db" where
  "set_task_stage t stage progress detail db =
     db\<lparr>sc_tasks := row_update t (\<lambda>k.
          if st_state k = task_state.Claimed
          then k\<lparr>st_stage := Some (scan_stage_as_str stage),
                 st_stage_at := (if st_stage k = Some (scan_stage_as_str stage) then st_stage_at k
                                 else Some (sc_now db)),
                 st_stage_progress := progress, st_stage_detail := detail\<rparr>
          else k) (sc_tasks db)\<rparr>"

section \<open>Settling a task\<close>

record task_outcome =
  oc_duration_ms :: int
  oc_timings :: stage_timings

text \<open>
  \<open>COALESCE(wait_ms, LEAST(EXTRACT(EPOCH FROM ...) * 1000, 2147483647)::int)\<close>. \<open>LEAST\<close>
  ignores a null argument, so a row with no creation time gets the ceiling. The cast rounds half
  away from zero and refuses what does not fit.
\<close>

definition millis_of :: "int \<Rightarrow> int" where
  "millis_of us = (if 0 \<le> us then (us + 500) div 1000 else - ((- us + 500) div 1000))"

definition waited_ms :: "int \<Rightarrow> scan_task \<Rightarrow> (db_error, int) result" where
  "waited_ms now k =
     (case st_wait_ms k of
        Some w \<Rightarrow> Ok w
      | None \<Rightarrow>
          (case st_created_at k of
             None \<Rightarrow> Ok 2147483647
           | Some c \<Rightarrow> int4 (min (millis_of ((case st_claimed_at k of None \<Rightarrow> now | Some t \<Rightarrow> t) - c))
                                2147483647)))"

definition costed_row :: "task_outcome option \<Rightarrow> int \<Rightarrow> scan_task \<Rightarrow> scan_task" where
  "costed_row outcome w k =
     k\<lparr>st_duration_ms := (case outcome of None \<Rightarrow> st_duration_ms k | Some oc \<Rightarrow> Some (oc_duration_ms oc)),
       st_telemetry := (case outcome of None \<Rightarrow> st_telemetry k | Some oc \<Rightarrow> Some (oc_timings oc)),
       st_wait_ms := Some w\<rparr>"

definition completed_row :: "task_outcome option \<Rightarrow> int \<Rightarrow> scan_task \<Rightarrow> (db_error, scan_task) result" where
  "completed_row outcome now k =
     bind_result (waited_ms now k) (\<lambda>w.
       Ok ((costed_row outcome w k)\<lparr>st_state := task_state.Done, st_finished_at := Some now\<rparr>))"

definition failed_row ::
  "string \<Rightarrow> task_outcome option \<Rightarrow> int \<Rightarrow> scan_task \<Rightarrow> (db_error, scan_task) result" where
  "failed_row err outcome now k =
     bind_result (waited_ms now k) (\<lambda>w.
       Ok ((costed_row outcome w k)
         \<lparr>st_state := task_state.Failed, st_error := Some err, st_finished_at := Some now\<rparr>))"

definition skipped_row :: "int \<Rightarrow> scan_task \<Rightarrow> (db_error, scan_task) result" where
  "skipped_row now k = Ok (k\<lparr>st_state := task_state.Skipped, st_finished_at := Some now\<rparr>)"

definition bump_done :: "scan_run \<Rightarrow> (db_error, scan_run) result" where
  "bump_done r = bind_result (int4 (sr_done r + 1)) (\<lambda>n. Ok (r\<lparr>sr_done := n\<rparr>))"

definition bump_failed :: "scan_run \<Rightarrow> (db_error, scan_run) result" where
  "bump_failed r = bind_result (int4 (sr_failed r + 1)) (\<lambda>n. Ok (r\<lparr>sr_failed := n\<rparr>))"

text \<open>
  The common shape of the three settling statements: the task row moves if it is open, and the
  counter of its run moves with it, in one statement.
\<close>

definition settle_task ::
  "(int \<Rightarrow> scan_task \<Rightarrow> (db_error, scan_task) result) \<Rightarrow> (scan_run \<Rightarrow> (db_error, scan_run) result) \<Rightarrow>
     task_id \<Rightarrow> unit scan_act" where
  "settle_task row bump t db =
     (case map_of (sc_tasks db) t of
        None \<Rightarrow> (Ok (), db)
      | Some k \<Rightarrow>
          if task_settled (st_state k) then (Ok (), db)
          else (case row (sc_now db) k of
                  Inl e \<Rightarrow> (Err e, db)
                | Inr k' \<Rightarrow>
                    (case map_of (sc_runs db) (st_run k) of
                       None \<Rightarrow> (Ok (), db\<lparr>sc_tasks := AList.update t k' (sc_tasks db)\<rparr>)
                     | Some r \<Rightarrow>
                         (case bump r of
                            Inl e \<Rightarrow> (Err e, db)
                          | Inr r' \<Rightarrow>
                              (Ok (), db\<lparr>sc_tasks := AList.update t k' (sc_tasks db),
                                         sc_runs := AList.update (st_run k) r' (sc_runs db)\<rparr>)))))"

definition complete_task :: "task_id \<Rightarrow> task_outcome option \<Rightarrow> unit scan_act" where
  "complete_task t outcome = settle_task (completed_row outcome) bump_done t"

definition fail_task :: "task_id \<Rightarrow> string \<Rightarrow> task_outcome option \<Rightarrow> unit scan_act" where
  "fail_task t err outcome = settle_task (failed_row err outcome) bump_failed t"

definition skip_task :: "task_id \<Rightarrow> unit scan_act" where
  "skip_task t = settle_task skipped_row bump_done t"

section \<open>The failure feed\<close>

datatype error_selector = AnyError | AbsentError | ExactlyError string

fun is_narrowing :: "error_selector \<Rightarrow> bool" where
  "is_narrowing AnyError = False"
| "is_narrowing _ = True"

fun selector_text :: "error_selector \<Rightarrow> string option" where
  "selector_text (ExactlyError e) = Some e"
| "selector_text _ = None"

record failure_selector =
  fs_provider :: "string option"
  fs_since :: "int option"
  fs_run :: "run_id option"
  fs_error :: error_selector

definition run_slug :: "scan_db \<Rightarrow> run_id \<Rightarrow> string option" where
  "run_slug db r =
     (case map_of (sc_runs db) r of
        None \<Rightarrow> None
      | Some row \<Rightarrow> (case sr_provider row of None \<Rightarrow> None | Some p \<Rightarrow> map_of (sc_providers db) p))"

text \<open>Comparisons with a null column are not true: \<open>finished_at >= since\<close> needs a time.\<close>

definition at_least :: "int option \<Rightarrow> int option \<Rightarrow> bool" where
  "at_least finished since =
     (case since of None \<Rightarrow> True | Some s \<Rightarrow> (case finished of None \<Rightarrow> False | Some f \<Rightarrow> s \<le> f))"

definition provider_matches :: "scan_db \<Rightarrow> run_id \<Rightarrow> string option \<Rightarrow> bool" where
  "provider_matches db r provider =
     (case provider of None \<Rightarrow> True | Some slug \<Rightarrow> run_slug db r = Some slug)"

definition clears :: "scan_db \<Rightarrow> failure_selector \<Rightarrow> scan_task \<Rightarrow> bool" where
  "clears db sel k \<longleftrightarrow>
     map_of (sc_runs db) (st_run k) \<noteq> None \<and> st_state k = task_state.Failed \<and>
     st_acknowledged_at k = None \<and> provider_matches db (st_run k) (fs_provider sel) \<and>
     at_least (st_finished_at k) (fs_since sel) \<and>
     (case fs_run sel of None \<Rightarrow> True | Some r \<Rightarrow> st_run k = r) \<and>
     (is_narrowing (fs_error sel) \<longrightarrow> st_error k = selector_text (fs_error sel))"

definition clear_failures :: "failure_selector \<Rightarrow> scan_db \<Rightarrow> nat \<times> scan_db" where
  "clear_failures sel db =
     (length [(t, k) \<leftarrow> sc_tasks db. clears db sel k],
      db\<lparr>sc_tasks := map (\<lambda>(t, k). (t, if clears db sel k
           then k\<lparr>st_acknowledged_at := Some (sc_now db)\<rparr> else k)) (sc_tasks db)\<rparr>)"

text \<open>Newest failure first, rows with no finish time last; a cleared failure only on request.\<close>

definition desc_nulls_last :: "int option \<Rightarrow> nat \<times> int" where
  "desc_nulls_last x = (case x of None \<Rightarrow> (1, 0) | Some t \<Rightarrow> (0, - t))"

definition failed_tasks_filtered ::
  "scan_db \<Rightarrow> string option \<Rightarrow> int option \<Rightarrow> bool \<Rightarrow> nat \<Rightarrow> (task_id \<times> scan_task) list" where
  "failed_tasks_filtered db provider since include_cleared limit =
     take limit (sort_key (\<lambda>(t, k). desc_nulls_last (st_finished_at k))
       [(t, k) \<leftarrow> sc_tasks db. map_of (sc_runs db) (st_run k) \<noteq> None \<and>
          st_state k = task_state.Failed \<and> provider_matches db (st_run k) provider \<and>
          at_least (st_finished_at k) since \<and> (include_cleared \<or> st_acknowledged_at k = None)])"

section \<open>Runs\<close>

definition fresh_run :: "provider_id option \<Rightarrow> scan_mode \<Rightarrow> int \<Rightarrow> scan_run" where
  "fresh_run p mode now =
     \<lparr>sr_provider = p, sr_mode = mode, sr_state = run_state.Queued, sr_total = 0, sr_done = 0,
      sr_failed = 0, sr_started_at = None, sr_finished_at = None, sr_created_at = now\<rparr>"

definition create_run :: "run_id \<Rightarrow> provider_id option \<Rightarrow> scan_mode \<Rightarrow> run_id scan_act" where
  "create_run r p mode db =
     (if map_of (sc_runs db) r \<noteq> None then (Err UniqueViolation, db)
      else if (case p of None \<Rightarrow> False | Some i \<Rightarrow> map_of (sc_providers db) i = None)
        then (Err ForeignKeyViolation, db)
      else (Ok r, db\<lparr>sc_runs := sc_runs db @ [(r, fresh_run p mode (sc_now db))]\<rparr>))"

definition get_run :: "scan_db \<Rightarrow> run_id \<Rightarrow> (db_error, scan_run) result" where
  "get_run db r = (case map_of (sc_runs db) r of None \<Rightarrow> Err RowNotFound | Some row \<Rightarrow> Ok row)"

record fail_streak =
  fk_failures :: nat
  fk_last_failed_at :: "int option"

definition failure_streak_window :: nat where
  "failure_streak_window = 32"

definition run_finished :: "scan_run \<Rightarrow> bool" where
  "run_finished r \<longleftrightarrow> sr_state r = run_state.Completed \<or> sr_state r = run_state.Failed"

definition recent_finished :: "scan_db \<Rightarrow> provider_id \<Rightarrow> scan_mode \<Rightarrow> scan_run list" where
  "recent_finished db p mode =
     take failure_streak_window (sort_key (\<lambda>r. - sr_created_at r)
       [r \<leftarrow> map snd (sc_runs db). sr_provider r = Some p \<and> sr_mode r = mode \<and> run_finished r])"

definition max_time :: "int option list \<Rightarrow> int option" where
  "max_time ts = (case [t. Some t \<leftarrow> ts] of [] \<Rightarrow> None | x # xs \<Rightarrow> Some (foldl max x xs))"

definition failure_streak :: "scan_db \<Rightarrow> provider_id \<Rightarrow> scan_mode \<Rightarrow> fail_streak" where
  "failure_streak db p mode =
     (let streak = takeWhile (\<lambda>r. sr_state r = run_state.Failed) (recent_finished db p mode)
      in \<lparr>fk_failures = length streak, fk_last_failed_at = max_time (map sr_finished_at streak)\<rparr>)"

definition in_flight :: "scan_db \<Rightarrow> provider_id \<Rightarrow> scan_mode \<Rightarrow> int \<Rightarrow> run_id \<times> scan_run \<Rightarrow> bool" where
  "in_flight db p mode stale_after = (\<lambda>(i, r).
     sr_provider r = Some p \<and> sr_mode r = mode \<and> run_active r \<and>
     sc_now db - stale_after < sr_created_at r \<and> (sr_total r = 0 \<or> has_open_task db i))"

definition in_flight_run :: "scan_db \<Rightarrow> provider_id \<Rightarrow> scan_mode \<Rightarrow> int \<Rightarrow> run_id option" where
  "in_flight_run db p mode stale_after =
     (case sort_key (\<lambda>(_, r). - sr_created_at r) (filter (in_flight db p mode stale_after) (sc_runs db)) of
        [] \<Rightarrow> None
      | (i, _) # _ \<Rightarrow> Some i)"

definition start_run :: "run_id \<Rightarrow> scan_db \<Rightarrow> scan_db" where
  "start_run i db =
     db\<lparr>sc_runs := row_update i (\<lambda>r. r\<lparr>sr_state := run_state.Running,
          sr_started_at := (case sr_started_at r of None \<Rightarrow> Some (sc_now db) | Some t \<Rightarrow> Some t)\<rparr>)
        (sc_runs db)\<rparr>"

definition finish_run :: "run_id \<Rightarrow> run_state \<Rightarrow> scan_db \<Rightarrow> scan_db" where
  "finish_run i st db =
     db\<lparr>sc_runs := row_update i (\<lambda>r. r\<lparr>sr_state := st, sr_finished_at := Some (sc_now db)\<rparr>) (sc_runs db)\<rparr>"

text \<open>The sum of the guard is taken at \<open>int4\<close>, so it can be refused too.\<close>

definition finalize_if_complete :: "run_id \<Rightarrow> scan_run option scan_act" where
  "finalize_if_complete i db =
     (case map_of (sc_runs db) i of
        None \<Rightarrow> (Ok None, db)
      | Some r \<Rightarrow>
          if sr_state r \<noteq> run_state.Running \<or> sr_total r \<le> 0 then (Ok None, db)
          else (case int4 (sr_done r + sr_failed r) of
                  Inl e \<Rightarrow> (Err e, db)
                | Inr n \<Rightarrow>
                    if n < sr_total r then (Ok None, db)
                    else (let r' = r\<lparr>sr_state := (if sr_done r = 0 \<and> 0 < sr_failed r then run_state.Failed
                                                 else run_state.Completed),
                                     sr_finished_at := Some (sc_now db)\<rparr>
                          in (Ok (Some r'), db\<lparr>sc_runs := AList.update i r' (sc_runs db)\<rparr>))))"

definition add_total_tasks :: "run_id \<Rightarrow> int \<Rightarrow> unit scan_act" where
  "add_total_tasks i delta db =
     (case map_of (sc_runs db) i of
        None \<Rightarrow> (Ok (), db)
      | Some r \<Rightarrow>
          (case int4 (sr_total r + delta) of
             Inl e \<Rightarrow> (Err e, db)
           | Inr n \<Rightarrow> (Ok (), db\<lparr>sc_runs := AList.update i (r\<lparr>sr_total := n\<rparr>) (sc_runs db)\<rparr>)))"

section \<open>Cancelling\<close>

definition stop_runs :: "(run_id \<times> scan_run \<Rightarrow> bool) \<Rightarrow> scan_db \<Rightarrow> (nat \<times> nat) \<times> scan_db" where
  "stop_runs pick db =
     (let stopped = [(i, r) \<leftarrow> sc_runs db. run_active r \<and> pick (i, r)];
          hit = (\<lambda>k. (case map_of (sc_runs db) (st_run k) of
                          None \<Rightarrow> False | Some r \<Rightarrow> run_active r \<and> pick (st_run k, r)) \<and>
                       \<not> task_settled (st_state k))
      in ((length stopped, length [(t, k) \<leftarrow> sc_tasks db. hit k]),
          db\<lparr>sc_runs := map (\<lambda>(i, r). (i, if run_active r \<and> pick (i, r)
                then r\<lparr>sr_state := run_state.Cancelled, sr_finished_at := Some (sc_now db)\<rparr> else r)) (sc_runs db),
             sc_tasks := map (\<lambda>(t, k). (t, if hit k
                then k\<lparr>st_state := task_state.Skipped, st_finished_at := Some (sc_now db)\<rparr> else k)) (sc_tasks db)\<rparr>))"

record cancelled =
  cn_runs :: nat
  cn_tasks :: nat

definition cancel_run :: "run_id \<Rightarrow> scan_db \<Rightarrow> cancelled option \<times> scan_db" where
  "cancel_run i db =
     (case stop_runs (\<lambda>(j, _). j = i) db of
        ((runs, tasks), db') \<Rightarrow>
          (if 0 < runs then Some \<lparr>cn_runs = runs, cn_tasks = tasks\<rparr> else None, db'))"

definition cancel_active_runs ::
  "string option \<Rightarrow> scan_mode option \<Rightarrow> scan_db \<Rightarrow> cancelled \<times> scan_db" where
  "cancel_active_runs provider mode db =
     (case stop_runs (\<lambda>(i, r). (case mode of None \<Rightarrow> True | Some m \<Rightarrow> sr_mode r = m) \<and>
             (case provider of None \<Rightarrow> True | Some slug \<Rightarrow>
                (case sr_provider r of None \<Rightarrow> False | Some p \<Rightarrow> map_of (sc_providers db) p = Some slug))) db of
        ((runs, tasks), db') \<Rightarrow> (\<lparr>cn_runs = runs, cn_tasks = tasks\<rparr>, db'))"

section \<open>Repair queries\<close>

definition aged :: "int \<Rightarrow> int \<Rightarrow> scan_task \<Rightarrow> bool" where
  "aged now after k \<longleftrightarrow> (case st_created_at k of None \<Rightarrow> True | Some c \<Rightarrow> c < now - after)"

definition lane_tasks :: "scan_db \<Rightarrow> provider_id \<Rightarrow> scan_mode \<Rightarrow> (task_id \<times> scan_task) list" where
  "lane_tasks db p mode =
     [(t, k) \<leftarrow> sc_tasks db. task_open (st_state k) \<and>
        (case map_of (sc_runs db) (st_run k) of
           None \<Rightarrow> False
         | Some r \<Rightarrow> sr_provider r = Some p \<and> sr_mode r = mode \<and> run_active r)]"

record open_lane =
  ol_provider :: provider_id
  ol_slug :: string
  ol_mode :: scan_mode
  ol_open :: nat
  ol_aged :: nat

definition open_task_lanes :: "scan_db \<Rightarrow> int \<Rightarrow> open_lane list" where
  "open_task_lanes db aged_after =
     [lane. (p, slug) \<leftarrow> sc_providers db, mode \<leftarrow> scan_mode_all,
        lane \<leftarrow> [\<lparr>ol_provider = p, ol_slug = slug, ol_mode = mode, ol_open = length (lane_tasks db p mode),
                  ol_aged = length [(t, k) \<leftarrow> lane_tasks db p mode. aged (sc_now db) aged_after k]\<rparr>],
        0 < ol_open lane]"

definition asc_nulls_first :: "int option \<Rightarrow> nat \<times> int" where
  "asc_nulls_first x = (case x of None \<Rightarrow> (0, 0) | Some t \<Rightarrow> (1, t))"

definition stranded_tasks ::
  "scan_db \<Rightarrow> provider_id \<Rightarrow> scan_mode \<Rightarrow> int \<Rightarrow> nat \<Rightarrow> (task_id \<times> scan_task) list" where
  "stranded_tasks db p mode aged_after limit =
     take limit (sort_key (\<lambda>(t, k). asc_nulls_first (st_created_at k))
       [(t, k) \<leftarrow> lane_tasks db p mode. aged (sc_now db) aged_after k])"

definition runs_awaiting_finalisation :: "scan_db \<Rightarrow> nat \<Rightarrow> run_id list" where
  "runs_awaiting_finalisation db limit =
     take limit (map fst (sort_key (\<lambda>(_, r). sr_created_at r)
       [(i, r) \<leftarrow> sc_runs db. sr_state r = run_state.Running \<and> 0 < sr_total r \<and>
          sr_total r \<le> sr_done r + sr_failed r]))"

definition unplanned :: "scan_db \<Rightarrow> int \<Rightarrow> run_id \<times> scan_run \<Rightarrow> bool" where
  "unplanned db older_than = (\<lambda>(i, r). run_active r \<and> sr_total r = 0 \<and>
     sr_created_at r < sc_now db - older_than \<and> run_tasks db i = [])"

definition fail_unplanned_runs :: "int \<Rightarrow> nat \<Rightarrow> scan_db \<Rightarrow> run_id list \<times> scan_db" where
  "fail_unplanned_runs older_than limit db =
     (let ids = take limit (map fst (sort_key (\<lambda>(_, r). sr_created_at r)
                  (filter (unplanned db older_than) (sc_runs db))))
      in (ids, fold (\<lambda>i. finish_run i run_state.Failed) ids db))"

record history_prune =
  hp_tasks :: nat
  hp_runs :: nat

definition run_terminal :: "scan_run \<Rightarrow> bool" where
  "run_terminal r \<longleftrightarrow> run_finished r \<or> sr_state r = run_state.Cancelled"

definition newer_finished :: "scan_db \<Rightarrow> scan_run \<Rightarrow> nat" where
  "newer_finished db r =
     length (take failure_streak_window [n \<leftarrow> map snd (sc_runs db).
       sr_provider n \<noteq> None \<and> sr_provider n = sr_provider r \<and> sr_mode n = sr_mode r \<and>
       run_finished n \<and> sr_created_at r < sr_created_at n])"

definition prunable :: "scan_db \<Rightarrow> int \<Rightarrow> scan_run \<Rightarrow> bool" where
  "prunable db retention r \<longleftrightarrow>
     run_terminal r \<and> sr_created_at r < sc_now db - retention \<and>
     (sr_provider r = None \<or> failure_streak_window \<le> newer_finished db r)"

text \<open>
  The retention is an \<open>int4\<close> number of days. Which tasks of the chosen runs a bounded
  \<open>DELETE\<close> takes first is not specified; here they are taken in the order of the table.
\<close>

definition day :: int where
  "day = 86400000000"

definition prune_scan_history :: "nat \<Rightarrow> nat \<Rightarrow> nat \<Rightarrow> scan_db \<Rightarrow> history_prune \<times> scan_db" where
  "prune_scan_history retention_days run_batch task_batch db =
     (let runs = take run_batch (map fst (sort_key (\<lambda>(_, r). sr_created_at r)
                   [(i, r) \<leftarrow> sc_runs db. prunable db (min (int retention_days) 2147483647 * day) r]))
      in if runs = [] then (\<lparr>hp_tasks = 0, hp_runs = 0\<rparr>, db)
         else
           let doomed = take task_batch (map fst [(t, k) \<leftarrow> sc_tasks db. st_run k \<in> set runs]);
               db1 = db\<lparr>sc_tasks := [(t, k) \<leftarrow> sc_tasks db. t \<notin> set doomed]\<rparr>;
               gone = [i \<leftarrow> runs. run_tasks db1 i = []]
           in (\<lparr>hp_tasks = length doomed, hp_runs = length gone\<rparr>,
               db1\<lparr>sc_runs := [(i, r) \<leftarrow> sc_runs db1. i \<notin> set gone]\<rparr>))"

section \<open>The tables as maps\<close>

abbreviation task_of :: "scan_db \<Rightarrow> task_id \<rightharpoonup> scan_task" where
  "task_of db \<equiv> map_of (sc_tasks db)"

abbreviation run_of :: "scan_db \<Rightarrow> run_id \<rightharpoonup> scan_run" where
  "run_of db \<equiv> map_of (sc_runs db)"

lemma map_of_map_rows: "map_of (map (\<lambda>(k, r). (k, f k r)) t) k = map_option (f k) (map_of t k)"
  by (induction t) auto

lemma map_of_map_rows': "map_of (map (\<lambda>(k, r). (k, f r)) t) k = map_option f (map_of t k)"
  by (induction t) auto

lemma map_add_fresh: "m k = None \<Longrightarrow> [k \<mapsto> r] ++ m = m(k \<mapsto> r)"
  by (rule ext) (auto simp: map_add_def split: option.split)

lemma task_settled_open: "task_settled st \<longleftrightarrow> \<not> task_open st"
  by (cases st) simp_all

lemma int4_ok: "int4 x = Ok y \<longleftrightarrow> y = x \<and> - 2147483648 \<le> x \<and> x \<le> 2147483647"
  by (auto simp: int4_def)

lemma bump_ok:
  "bump_done r = Ok r' \<longleftrightarrow> r' = r\<lparr>sr_done := sr_done r + 1\<rparr> \<and> int4 (sr_done r + 1) = Ok (sr_done r + 1)"
  "bump_failed r = Ok r' \<longleftrightarrow> r' = r\<lparr>sr_failed := sr_failed r + 1\<rparr> \<and> int4 (sr_failed r + 1) = Ok (sr_failed r + 1)"
  by (auto simp: bump_done_def bump_failed_def bind_result_ok_iff int4_ok)

lemma settled_rows:
  "completed_row oc now k = Ok k' \<Longrightarrow> st_run k' = st_run k \<and> st_state k' = task_state.Done"
  "failed_row e oc now k = Ok k' \<Longrightarrow> st_run k' = st_run k \<and> st_state k' = task_state.Failed"
  "skipped_row now k = Ok k' \<Longrightarrow> st_run k' = st_run k \<and> st_state k' = task_state.Skipped"
  by (auto simp: completed_row_def failed_row_def skipped_row_def costed_row_def bind_result_ok_iff)

text \<open>What a settling statement that succeeds on an open task of a known run leaves.\<close>

lemma settle_task_ok:
  assumes "settle_task row bump t db = (Ok (), db')"
    and "task_of db t = Some k" "\<not> task_settled (st_state k)" "run_of db (st_run k) = Some r"
  obtains k' r' where "row (sc_now db) k = Ok k'" "bump r = Ok r'"
    "task_of db' = (task_of db)(t \<mapsto> k')" "run_of db' = (run_of db)(st_run k \<mapsto> r')"
    "sc_now db' = sc_now db" "sc_providers db' = sc_providers db"
  using assms by (auto simp: settle_task_def update_conv' split: sum.splits)

lemma settle_task_noop:
  assumes "case task_of db t of None \<Rightarrow> True | Some k \<Rightarrow> task_settled (st_state k)"
  shows "settle_task row bump t db = (Ok (), db)"
  using assms by (simp add: settle_task_def split: option.splits)

lemma settle_task_err: "settle_task row bump t db = (Err e, db') \<Longrightarrow> db' = db"
  by (auto simp: settle_task_def split: option.splits if_splits sum.splits)

section \<open>The settling contract\<close>

text \<open>
  What a statement that settles a task promises, whichever of the three it is: it never touches a
  task that has settled, and on an open one it settles that task and moves exactly one counter of
  the task's run by one.
\<close>

locale settling =
  fixes op :: "task_id \<Rightarrow> unit scan_act"
    and outcome :: task_state
    and as_failed :: bool
  assumes settles: "task_settled outcome"
    and counted: "as_failed \<longleftrightarrow> outcome = task_state.Failed"
    and op_noop: "(case task_of db t of None \<Rightarrow> True | Some k \<Rightarrow> task_settled (st_state k)) \<Longrightarrow>
      op t db = (Ok (), db)"
    and op_err: "op t db = (Err e, db') \<Longrightarrow> db' = db"
    and op_ok: "op t db = (Ok (), db') \<Longrightarrow> task_of db t = Some k \<Longrightarrow> \<not> task_settled (st_state k) \<Longrightarrow>
      run_of db (st_run k) = Some r \<Longrightarrow>
      \<exists>k'. st_run k' = st_run k \<and> st_state k' = outcome \<and> task_of db' = (task_of db)(t \<mapsto> k') \<and>
        run_of db' = (run_of db)(st_run k \<mapsto>
          (if as_failed then r\<lparr>sr_failed := sr_failed r + 1\<rparr> else r\<lparr>sr_done := sr_done r + 1\<rparr>))"
begin

lemma settled_after:
  assumes "op t db = (Ok (), db')" "task_of db t = Some k" "run_of db (st_run k) = Some r"
  shows "\<exists>k'. task_of db' t = Some k' \<and> task_settled (st_state k')"
proof (cases "task_settled (st_state k)")
  case True
  then have "op t db = (Ok (), db)" using assms(2) by (intro op_noop) simp
  then show ?thesis using assms(1,2) True by simp
next
  case False
  then show ?thesis using op_ok [OF assms(1,2) False assms(3)] settles by auto
qed

text \<open>A second delivery, and any later settle of the same task, changes nothing.\<close>

lemma then_noop:
  assumes "op t db = (Ok (), db')" "task_of db t = Some k" "run_of db (st_run k) = Some r"
  shows "op t db' = (Ok (), db')"
  using settled_after [OF assms] op_noop by (auto split: option.splits)

lemma other_task: "op t db = (res, db') \<Longrightarrow> run_of db (st_run k) \<noteq> None \<Longrightarrow> task_of db t = Some k \<Longrightarrow>
    t' \<noteq> t \<Longrightarrow> task_of db' t' = task_of db t'"
  using op_ok [of t db db' k] op_noop [of db t] op_err [of t db _ db']
  by (cases res; cases "task_settled (st_state k)") (auto simp: op_noop)

end

lemma settling_settle_task:
  assumes "task_settled st" "af \<longleftrightarrow> st = task_state.Failed"
    and row: "\<And>now k k'. row now k = Ok k' \<Longrightarrow> st_run k' = st_run k \<and> st_state k' = st"
    and bump: "\<And>r r'. bump r = Ok r' \<Longrightarrow>
      r' = (if af then r\<lparr>sr_failed := sr_failed r + 1\<rparr> else r\<lparr>sr_done := sr_done r + 1\<rparr>)"
  shows "settling (settle_task row bump) st af"
proof
  fix t db db' k r
  assume a: "settle_task row bump t db = (Ok (), db')" and k: "task_of db t = Some k"
    "\<not> task_settled (st_state k)" "run_of db (st_run k) = Some r"
  show "\<exists>k'. st_run k' = st_run k \<and> st_state k' = st \<and> task_of db' = (task_of db)(t \<mapsto> k') \<and>
        run_of db' = (run_of db)(st_run k \<mapsto>
          (if af then r\<lparr>sr_failed := sr_failed r + 1\<rparr> else r\<lparr>sr_done := sr_done r + 1\<rparr>))"
    by (rule settle_task_ok [OF a k]) (use row bump in blast)
qed (use assms(1,2) settle_task_noop settle_task_err in auto)

interpretation complete: settling "\<lambda>t. complete_task t oc" task_state.Done False
  unfolding complete_task_def by (rule settling_settle_task) (auto dest: settled_rows simp: bump_ok)

interpretation failing: settling "\<lambda>t. fail_task t e oc" task_state.Failed True
  unfolding fail_task_def by (rule settling_settle_task) (auto dest: settled_rows simp: bump_ok)

interpretation skipping: settling skip_task task_state.Skipped False
  unfolding skip_task_def by (rule settling_settle_task) (auto dest: settled_rows simp: bump_ok)

section \<open>Pruning keeps the failure window\<close>

lemma prune_scan_history_runs:
  obtains gone where "sc_runs (snd (prune_scan_history d rb tb db)) = [(i, r) \<leftarrow> sc_runs db. i \<notin> set gone]"
    "\<And>i. i \<in> set gone \<Longrightarrow> \<exists>r. (i, r) \<in> set (sc_runs db) \<and>
       prunable db (min (int d) 2147483647 * day) r"
proof -
  define runs where "runs = take rb (map fst (sort_key (\<lambda>(_, r). sr_created_at r)
                   [(i, r) \<leftarrow> sc_runs db. prunable db (min (int d) 2147483647 * day) r]))"
  have mem: "\<exists>r. (i, r) \<in> set (sc_runs db) \<and> prunable db (min (int d) 2147483647 * day) r"
    if "i \<in> set runs" for i
    using that unfolding runs_def by (fastforce dest: in_set_takeD)
  define db1 where "db1 = db\<lparr>sc_tasks := [(t, k) \<leftarrow> sc_tasks db. t \<notin>
      set (take tb (map fst [(t, k) \<leftarrow> sc_tasks db. st_run k \<in> set runs]))]\<rparr>"
  show thesis
  proof (rule that)
    show "sc_runs (snd (prune_scan_history d rb tb db)) =
        [(i, r) \<leftarrow> sc_runs db. i \<notin> set [i \<leftarrow> runs. run_tasks db1 i = []]]"
      unfolding prune_scan_history_def Let_def runs_def [symmetric] db1_def [symmetric]
      by (simp add: db1_def)
  qed (use mem in auto)
qed

lemma prune_keeps_window:
  assumes "distinct (map fst (sc_runs db))"
  shows "recent_finished (snd (prune_scan_history d rb tb db)) p mode = recent_finished db p mode"
proof -
  define Q where "Q = (\<lambda>r :: scan_run. sr_provider r = Some p \<and> sr_mode r = mode \<and> run_finished r)"
  define key where "key = (\<lambda>r :: scan_run. - sr_created_at r)"
  have recent: "recent_finished d p mode =
      map snd (take failure_streak_window (sort_key (\<lambda>x. key (snd x)) (filter (\<lambda>x. Q (snd x)) (sc_runs d))))" for d
    unfolding recent_finished_def Q_def key_def
    by (simp add: take_map [symmetric] map_sort_key [of snd, symmetric] filter_map o_def)
  obtain gone where gone: "sc_runs (snd (prune_scan_history d rb tb db)) = [(i, r) \<leftarrow> sc_runs db. i \<notin> set gone]"
    "\<And>i. i \<in> set gone \<Longrightarrow> \<exists>r. (i, r) \<in> set (sc_runs db) \<and> prunable db (min (int d) 2147483647 * day) r"
    using prune_scan_history_runs [of d rb tb db] by blast
  have "failure_streak_window \<le> length [y \<leftarrow> filter (\<lambda>x. Q (snd x)) (sc_runs db). key (snd y) < key (snd x)]"
    if x: "x \<in> set (filter (\<lambda>x. Q (snd x)) (sc_runs db))" "\<not> (\<lambda>(i, r). i \<notin> set gone) x" for x
  proof -
    obtain i r where e: "x = (i, r)" by fastforce
    have ir: "x = (i, r)" "(i, r) \<in> set (sc_runs db)" "i \<in> set gone" "Q r"
      using x by (simp_all add: e)
    then obtain r' where r': "(i, r') \<in> set (sc_runs db)" "prunable db (min (int d) 2147483647 * day) r'"
      using gone(2) by blast
    have "r' = r" using assms ir(2) r'(1) by (metis eq_key_imp_eq_value)
    then have "failure_streak_window \<le> newer_finished db r"
      using r'(2) ir(4) by (simp add: prunable_def Q_def)
    also have "\<dots> \<le> length [n \<leftarrow> map snd (sc_runs db). Q n \<and> key n < key r]"
      using ir(4) by (simp add: newer_finished_def Q_def key_def conj_ac cong: conj_cong)
    finally show ?thesis by (simp add: ir(1) filter_map o_def conj_commute)
  qed
  from take_sort_filter [OF this]
  have "take failure_streak_window (sort_key (\<lambda>x. key (snd x)) (filter (\<lambda>(i, r). i \<notin> set gone) (filter (\<lambda>x. Q (snd x)) (sc_runs db)))) =
        take failure_streak_window (sort_key (\<lambda>x. key (snd x)) (filter (\<lambda>x. Q (snd x)) (sc_runs db)))" .
  moreover have "filter (\<lambda>(i, r). i \<notin> set gone) (filter (\<lambda>x. Q (snd x)) (sc_runs db)) =
        filter (\<lambda>x. Q (snd x)) [(i, r) \<leftarrow> sc_runs db. i \<notin> set gone]"
    by (auto intro: filter_cong)
  ultimately show ?thesis by (simp add: recent gone(1))
qed

text \<open>C3: pruning the scan history never changes a provider's failure streak, and it only ever deletes
  runs that had ended before the retention cutoff.
\<close>
theorem prune_keeps_failure_streak:
  assumes "distinct (map fst (sc_runs db))"
  shows "failure_streak (snd (prune_scan_history d rb tb db)) p mode = failure_streak db p mode \<and>
    (\<forall>i r. run_of db i = Some r \<and> run_of (snd (prune_scan_history d rb tb db)) i = None \<longrightarrow>
       run_terminal r \<and> sr_created_at r < sc_now db - min (int d) 2147483647 * day)"
proof (intro conjI allI impI)
  show "failure_streak (snd (prune_scan_history d rb tb db)) p mode = failure_streak db p mode"
    by (simp add: failure_streak_def prune_keeps_window [OF assms])
next
  fix i r
  assume r: "run_of db i = Some r \<and> run_of (snd (prune_scan_history d rb tb db)) i = None"
  obtain gone where gone: "sc_runs (snd (prune_scan_history d rb tb db)) = [(i, r) \<leftarrow> sc_runs db. i \<notin> set gone]"
    "\<And>i. i \<in> set gone \<Longrightarrow> \<exists>r. (i, r) \<in> set (sc_runs db) \<and> prunable db (min (int d) 2147483647 * day) r"
    using prune_scan_history_runs [of d rb tb db] by blast
  have mem: "(i, r) \<in> set (sc_runs db)" using r map_of_SomeD by fastforce
  have "i \<in> set gone"
  proof (rule ccontr)
    assume "i \<notin> set gone"
    then have "(i, r) \<in> set [(i, r) \<leftarrow> sc_runs db. i \<notin> set gone]" using mem by simp
    then show False using r unfolding gone(1) [symmetric] by (metis map_of_eq_None_iff fst_conv imageI)
  qed
  then obtain r' where "(i, r') \<in> set (sc_runs db)" "prunable db (min (int d) 2147483647 * day) r'"
    using gone(2) by blast
  moreover have "r' = r" using assms mem calculation(1) by (metis eq_key_imp_eq_value)
  ultimately show "run_terminal r" "sr_created_at r < sc_now db - min (int d) 2147483647 * day"
    by (simp_all add: prunable_def)
qed

text \<open>A provider that failed thirty-four times, once a day: the two oldest runs go, the streak stays.\<close>

definition failing_provider :: scan_db where
  "failing_provider =
     \<lparr>sc_runs = map (\<lambda>i. (i, (fresh_run (Some 1) Fast (int i * day))\<lparr>sr_state := run_state.Failed,
        sr_finished_at := Some (int i * day + 5)\<rparr>)) [0..<34],
      sc_tasks = [], sc_providers = [(1, ''one'')], sc_now = 40 * day\<rparr>"

theorem prune_keeps_failure_streak_witness:
  "failure_streak (snd (prune_scan_history 1 500 500 failing_provider)) 1 Fast = failure_streak failing_provider 1 Fast \<and>
   fk_failures (failure_streak failing_provider 1 Fast) = 32 \<and>
   hp_runs (fst (prune_scan_history 1 500 500 failing_provider)) = 2"
proof (intro conjI)
  have "distinct (map fst (sc_runs failing_provider))" by code_simp
  from prune_keeps_failure_streak [OF this, of 1 500 500 1 Fast]
  show "failure_streak (snd (prune_scan_history 1 500 500 failing_provider)) 1 Fast = failure_streak failing_provider 1 Fast"
    by blast
  show "fk_failures (failure_streak failing_provider 1 Fast) = 32" by code_simp
  show "hp_runs (fst (prune_scan_history 1 500 500 failing_provider)) = 2" by code_simp
qed

section \<open>Cancelling stops a run, and starting it undoes that\<close>

lemma cancel_run_stops:
  assumes "distinct (map fst (sc_runs db))" "cancel_run r db = (Some c, db')" "task_of db' t = Some k" "st_run k = r"
  shows "task_settled (st_state k)"
proof -
  have db': "db' = snd (stop_runs (\<lambda>(j, _). j = r) db)" and hit: "[(i, row) \<leftarrow> sc_runs db. run_active row \<and> i = r] \<noteq> []"
    using assms(2) by (auto simp: cancel_run_def stop_runs_def Let_def split: prod.splits if_splits)
  then obtain row where "(r, row) \<in> set (sc_runs db)" "run_active row" by (auto simp: filter_empty_conv)
  then have run: "run_of db r = Some row" "run_active row" using assms(1) by simp_all
  obtain k0 where k0: "task_of db t = Some k0" "st_run k0 = r"
    using assms(3,4) by (auto simp: db' stop_runs_def Let_def map_of_map_rows' split: if_splits)
  then show ?thesis using assms(3) run by (auto simp: db' stop_runs_def Let_def map_of_map_rows')
qed

section \<open>A cancelled run stays stopped\<close>

text \<open>
  The statements that the planner, the workers, the repairs and the operators run while a run exists. Of the
  run \<open>r\<close> the planner's two unguarded ones are left out (\<open>start_run\<close> and \<open>finish_run\<close>, which
  overwrite its state: \<open>start_undoes_cancel\<close>) and the durable fallback \<open>claim_next_queued\<close>, which no
  service calls; the pruning of the history deletes rows only days later.
\<close>

inductive scan_stmt :: "run_id \<Rightarrow> scan_db \<Rightarrow> scan_db \<Rightarrow> bool" for r where
  clock: "scan_stmt r db (db\<lparr>sc_now := now\<rparr>)"
| new_task: "create_task t r' kind target db = (res, db') \<Longrightarrow> scan_stmt r db db'"
| fan_out: "create_tasks r' kind rows db = (res', db') \<Longrightarrow> scan_stmt r db db'"
| claim: "claim_task t worker db = (res'', db') \<Longrightarrow> scan_stmt r db db'"
| stage: "scan_stmt r db (set_task_stage t st progress detail db)"
| completes: "complete_task t outcome db = (u, db') \<Longrightarrow> scan_stmt r db db'"
| fails: "fail_task t err outcome db = (u, db') \<Longrightarrow> scan_stmt r db db'"
| skips: "skip_task t db = (u, db') \<Longrightarrow> scan_stmt r db db'"
| count: "add_total_tasks r' n db = (u, db') \<Longrightarrow> scan_stmt r db db'"
| finalizes: "finalize_if_complete r' db = (f, db') \<Longrightarrow> scan_stmt r db db'"
| clear: "clear_failures sel db = (n', db') \<Longrightarrow> scan_stmt r db db'"
| new_run: "r' \<noteq> r \<Longrightarrow> create_run r' p mode db = (i, db') \<Longrightarrow> scan_stmt r db db'"
| start: "r' \<noteq> r \<Longrightarrow> scan_stmt r db (start_run r' db)"
| finish: "r' \<noteq> r \<Longrightarrow> scan_stmt r db (finish_run r' rs db)"
| cancel: "cancel_run r' db = (c, db') \<Longrightarrow> scan_stmt r db db'"
| cancel_all: "cancel_active_runs slug mode' db = (c', db') \<Longrightarrow> scan_stmt r db db'"
| fail_unplanned: "fail_unplanned_runs age limit db = (ids, db') \<Longrightarrow> scan_stmt r db db'"

definition stopped :: "run_id \<Rightarrow> task_id set \<Rightarrow> scan_db \<Rightarrow> bool" where
  "stopped r T db \<longleftrightarrow> distinct (map fst (sc_runs db)) \<and> (\<exists>row. run_of db r = Some row \<and> sr_state row = run_state.Cancelled) \<and>
     (\<forall>t k. task_of db t = Some k \<and> st_run k = r \<longrightarrow>
        st_state k \<noteq> task_state.Claimed \<and> st_state k \<noteq> task_state.Running) \<and>
     (\<forall>t\<in>T. \<exists>k. task_of db t = Some k \<and> task_settled (st_state k))"

lemma stopped_by:
  assumes "stopped r T db"
    and keys: "distinct (map fst (sc_runs db)) \<Longrightarrow> distinct (map fst (sc_runs db'))"
    and runs: "\<And>row. run_of db r = Some row \<Longrightarrow> sr_state row = run_state.Cancelled \<Longrightarrow>
      \<exists>row'. run_of db' r = Some row' \<and> sr_state row' = run_state.Cancelled"
    and keep: "\<And>t k. task_of db t = Some k \<Longrightarrow> task_settled (st_state k) \<Longrightarrow>
      \<exists>k'. task_of db' t = Some k' \<and> task_settled (st_state k')"
    and came: "\<And>t k'. task_of db' t = Some k' \<Longrightarrow> st_run k' = r \<Longrightarrow>
      st_state k' \<noteq> task_state.Claimed \<and> st_state k' \<noteq> task_state.Running \<or>
      (\<exists>k. task_of db t = Some k \<and> st_run k = r \<and> st_state k' = st_state k)"
  shows "stopped r T db'"
  unfolding stopped_def
proof (intro conjI allI impI ballI)
  show "distinct (map fst (sc_runs db'))" using assms(1) keys unfolding stopped_def by blast
  show "\<exists>row. run_of db' r = Some row \<and> sr_state row = run_state.Cancelled"
    using assms(1) runs unfolding stopped_def by blast
  show "\<exists>k. task_of db' t = Some k \<and> task_settled (st_state k)" if "t \<in> T" for t
    using that assms(1) keep unfolding stopped_def by blast
  fix t k assume "task_of db' t = Some k \<and> st_run k = r"
  then show "st_state k \<noteq> task_state.Claimed" "st_state k \<noteq> task_state.Running"
    using assms(1) came [of t k] unfolding stopped_def by metis+
qed

lemma stopped_run:
  "stopped r T db \<Longrightarrow> (distinct (map fst (sc_runs db)) \<Longrightarrow> distinct (map fst (sc_runs db'))) \<Longrightarrow> run_of db' r = run_of db r \<Longrightarrow> task_of db' = task_of db \<Longrightarrow> stopped r T db'"
  by (rule stopped_by [of r T db]) auto

lemma stopped_create:
  assumes "create_task t r' kind target db = (res, db')" "stopped r T db"
  shows "stopped r T db'"
proof (cases "db' = db")
  case False
  then have new: "task_of db t = None" "task_of db' = (task_of db)(t \<mapsto> fresh_task r' kind target (sc_now db))" "sc_runs db' = sc_runs db"
    using assms(1) by (auto simp: create_task_def map_of_append map_add_fresh split: if_splits)
  show ?thesis by (rule stopped_by [OF assms(2)]) (use new in \<open>auto simp: fresh_task_def split: if_splits\<close>)
qed (use assms(2) in simp)

lemma stopped_insert:
  "insert_tasks r' kind rows db = Ok (out, db') \<Longrightarrow> stopped r T db \<Longrightarrow> stopped r T db'"
proof (induction r' kind rows db arbitrary: out db' rule: insert_tasks.induct)
  case (2 r' kind t target rows db)
  then obtain created db1 where c: "create_task t r' kind target db = (Ok created, db1)"
    by (auto split: prod.splits sum.splits)
  have s: "stopped r T db1" by (rule stopped_create [OF c "2.prems"(2)])
  obtain out' where i: "insert_tasks r' kind rows db1 = Ok (out', db')"
    using "2.prems"(1) c by (auto simp: bind_result_ok_iff)
  show ?case by (rule "2.IH" [OF c [symmetric] _ i s]) simp
qed simp

lemma stopped_settle:
  assumes "settle_task row bump t db = (u, db')" "stopped r T db"
    and row: "\<And>now k k'. row now k = Ok k' \<Longrightarrow> st_run k' = st_run k \<and> task_settled (st_state k')"
    and bump: "\<And>q q'. bump q = Ok q' \<Longrightarrow> sr_state q' = sr_state q"
  shows "stopped r T db'"
proof (cases "db' = db")
  case False
  then obtain k k' where k: "task_of db t = Some k" "row (sc_now db) k = Ok k'" "task_of db' = (task_of db)(t \<mapsto> k')"
      and ks: "distinct (map fst (sc_runs db)) \<Longrightarrow> distinct (map fst (sc_runs db'))"
      and runs: "run_of db' = run_of db \<or> (\<exists>q q'. run_of db (st_run k) = Some q \<and> bump q = Ok q' \<and>
        run_of db' = (run_of db)(st_run k \<mapsto> q'))"
    using assms(1) by (auto simp: settle_task_def update_conv' distinct_update split: option.splits if_splits sum.splits)
  have settled: "task_settled (st_state k')" using row [OF k(2)] by simp
  show ?thesis
  proof (rule stopped_by [OF assms(2) ks])
    show "\<exists>row'. run_of db' r = Some row' \<and> sr_state row' = run_state.Cancelled"
      if "run_of db r = Some row" "sr_state row = run_state.Cancelled" for row
      using runs that bump by (cases "st_run k = r") auto
  next
    fix t' q assume "task_of db' t' = Some q"
    then show "st_state q \<noteq> task_state.Claimed \<and> st_state q \<noteq> task_state.Running \<or>
        (\<exists>p. task_of db t' = Some p \<and> st_run p = r \<and> st_state q = st_state p)" if "st_run q = r"
      using that settled by (auto simp: k(3) split: if_splits)
  qed (auto simp: k(3) settled)
qed (use assms(2) in simp)

lemma stopped_stop_runs:
  assumes "stopped r T db"
  shows "stopped r T (snd (stop_runs pick db))"
proof (rule stopped_by [OF assms])
  show "distinct (map fst (sc_runs (snd (stop_runs pick db))))" if "distinct (map fst (sc_runs db))"
    using that by (simp add: stop_runs_def Let_def comp_def split_def)
next
  fix row assume "run_of db r = Some row" "sr_state row = run_state.Cancelled"
  then show "\<exists>row'. run_of (snd (stop_runs pick db)) r = Some row' \<and> sr_state row' = run_state.Cancelled"
    by (simp add: stop_runs_def Let_def map_of_map_rows run_active_def)
next
  fix t k assume "task_of db t = Some k" "task_settled (st_state k)"
  then show "\<exists>k'. task_of (snd (stop_runs pick db)) t = Some k' \<and> task_settled (st_state k')"
    by (simp add: stop_runs_def Let_def map_of_map_rows')
next
  fix t k' assume "task_of (snd (stop_runs pick db)) t = Some k'" "st_run k' = r"
  then show "st_state k' \<noteq> task_state.Claimed \<and> st_state k' \<noteq> task_state.Running \<or>
      (\<exists>k. task_of db t = Some k \<and> st_run k = r \<and> st_state k' = st_state k)"
    by (auto simp: stop_runs_def Let_def map_of_map_rows' split: if_splits)
qed

lemma stopped_finish: "r' \<noteq> r \<Longrightarrow> stopped r T db \<Longrightarrow> stopped r T (finish_run r' rs db)"
  by (rule stopped_run) (simp_all add: finish_run_def)

lemma stopped_finish_fold: "r \<notin> set ids \<Longrightarrow> stopped r T db \<Longrightarrow> stopped r T (fold (\<lambda>i. finish_run i rs) ids db)"
  by (induction ids arbitrary: db) (simp_all add: stopped_finish)

lemma stopped_claim:
  assumes "claim_task t worker db = (res, db')" "stopped r T db"
  shows "stopped r T db'"
proof (cases "db' = db")
  case False
  then obtain k q n where k: "task_of db t = Some k" "run_of db (st_run k) = Some q" "sr_state q \<noteq> run_state.Cancelled"
      "\<not> task_settled (st_state k)" "sc_runs db' = sc_runs db"
      "task_of db' = (\<lambda>t'. if t' = t then map_option (\<lambda>k. (claimed_row worker (sc_now db) n k)
         \<lparr>st_stage := Some (scan_stage_as_str Starting), st_stage_at := Some (sc_now db),
          st_stage_progress := None, st_stage_detail := None\<rparr>) (task_of db t') else task_of db t')"
    using assms(1) by (auto simp: claim_task_def fun_eq_iff split: option.splits if_splits sum.splits)
  have "st_run k \<noteq> r" using k(2,3) assms(2) by (auto simp: stopped_def)
  show ?thesis by (rule stopped_by [OF assms(2)])
    (use k \<open>st_run k \<noteq> r\<close> in \<open>auto simp: claimed_row_def split: if_splits\<close>)
qed (use assms(2) in simp)

lemma stopped_map:
  assumes "stopped r T db" "sc_runs db' = sc_runs db" "task_of db' = (\<lambda>t. map_option (f t) (task_of db t))"
    and "\<And>t k. st_run (f t k) = st_run k \<and> st_state (f t k) = st_state k"
  shows "stopped r T db'"
  by (rule stopped_by [OF assms(1)]) (use assms(2-4) in auto)

lemma stopped_stage: "stopped r T db \<Longrightarrow> stopped r T (set_task_stage t st progress detail db)"
  by (rule stopped_map [where f = "\<lambda>t' k. if t' = t \<and> st_state k = task_state.Claimed
      then k\<lparr>st_stage := Some (scan_stage_as_str st),
             st_stage_at := (if st_stage k = Some (scan_stage_as_str st) then st_stage_at k else Some (sc_now db)),
             st_stage_progress := progress, st_stage_detail := detail\<rparr> else k"])
    (auto simp: set_task_stage_def fun_eq_iff option.map_ident_strong intro!: map_option_cong)

lemma stopped_clear: "stopped r T db \<Longrightarrow> stopped r T (snd (clear_failures sel db))"
  by (rule stopped_map [where f = "\<lambda>_ k. if clears db sel k then k\<lparr>st_acknowledged_at := Some (sc_now db)\<rparr> else k"])
    (auto simp: clear_failures_def map_of_map_rows')

lemma stopped_finalize:
  assumes "finalize_if_complete r' db = (f, db')" "stopped r T db"
  shows "stopped r T db'"
proof (cases "db' = db")
  case False
  then obtain q q' where "run_of db r' = Some q" "sr_state q = run_state.Running" "run_of db' = (run_of db)(r' \<mapsto> q')"
      "sc_tasks db' = sc_tasks db" "distinct (map fst (sc_runs db)) \<Longrightarrow> distinct (map fst (sc_runs db'))"
    using assms(1) by (auto simp: distinct_update finalize_if_complete_def Let_def update_conv' split: option.splits if_splits sum.splits)
  then show ?thesis by (intro stopped_by [OF assms(2)]) auto
qed (use assms(2) in simp)

lemma stopped_count:
  assumes "add_total_tasks r' n db = (u, db')" "stopped r T db"
  shows "stopped r T db'"
proof (cases "db' = db")
  case False
  then obtain q m where "run_of db r' = Some q" "run_of db' = (run_of db)(r' \<mapsto> q\<lparr>sr_total := m\<rparr>)" "sc_tasks db' = sc_tasks db"
      "distinct (map fst (sc_runs db)) \<Longrightarrow> distinct (map fst (sc_runs db'))"
    using assms(1) by (auto simp: distinct_update add_total_tasks_def update_conv' split: option.splits sum.splits)
  then show ?thesis by (intro stopped_by [OF assms(2)]) (auto split: if_splits)
qed (use assms(2) in simp)


lemma stopped_fail_unplanned:
  assumes "stopped r T db"
  shows "stopped r T (snd (fail_unplanned_runs age limit db))"
proof -
  have "r \<notin> set (fst (fail_unplanned_runs age limit db))"
  proof
    assume "r \<in> set (fst (fail_unplanned_runs age limit db))"
    then have "r \<in> fst ` set (filter (unplanned db age) (sc_runs db))"
      by (auto simp: fail_unplanned_runs_def Let_def dest!: in_set_takeD)
    then obtain row where "(r, row) \<in> set (sc_runs db)" "run_active row" by (auto simp: unplanned_def)
    then show False using assms by (auto simp: stopped_def run_active_def)
  qed
  then show ?thesis
    using assms by (simp add: fail_unplanned_runs_def Let_def stopped_finish_fold)
qed

lemma scan_stmt_stopped:
  assumes "scan_stmt r db db'" "stopped r T db"
  shows "stopped r T db'"
  using assms(1)
proof cases
  case (fan_out r' kind rows res)
  then show ?thesis using assms(2) stopped_insert by (auto simp: create_tasks_def split: sum.splits)
next
  case (completes t outcome u)
  show ?thesis
    by (rule stopped_settle [OF completes(1) [unfolded complete_task_def] assms(2)]) (auto dest: settled_rows simp: bump_ok)
next
  case (fails t err outcome u)
  show ?thesis
    by (rule stopped_settle [OF fails(1) [unfolded fail_task_def] assms(2)]) (auto dest: settled_rows simp: bump_ok)
next
  case (skips t u)
  show ?thesis
    by (rule stopped_settle [OF skips(1) [unfolded skip_task_def] assms(2)]) (auto dest: settled_rows simp: bump_ok)
next
  case (cancel r' c)
  then have "db' = snd (stop_runs (\<lambda>(j, _). j = r') db)" by (auto simp: cancel_run_def split: prod.splits if_splits)
  then show ?thesis using stopped_stop_runs [OF assms(2)] by simp
next
  case (cancel_all slug mode c)
  then have "\<exists>pick. db' = snd (stop_runs pick db)"
    unfolding cancel_active_runs_def by (metis (no_types, lifting) case_prod_conv prod.collapse snd_conv)
  then show ?thesis using stopped_stop_runs [OF assms(2)] by auto
next
  case (fail_unplanned age limit ids)
  then show ?thesis using stopped_fail_unplanned [OF assms(2), of age limit] by simp
next
  case (new_run r' p mode i)
  have "run_of db' r = run_of db r"
    using new_run by (cases "run_of db r") (auto simp: create_run_def map_of_append map_add_def split: if_splits)
  moreover have "distinct (map fst (sc_runs db')) \<and> task_of db' = task_of db"
    using new_run assms(2) by (auto simp: create_run_def stopped_def map_of_eq_None_iff split: if_splits)
  ultimately show ?thesis by (intro stopped_run [OF assms(2)]) simp_all
next
  case (start r')
  then show ?thesis by (auto simp: start_run_def intro!: stopped_run [OF assms(2)])
next
  case (clock now)
  then show ?thesis by (auto intro!: stopped_run [OF assms(2)])
qed (use assms(2) stopped_create stopped_claim stopped_stage stopped_count stopped_finalize stopped_finish
      stopped_clear [OF assms(2)] in \<open>blast | metis snd_conv\<close>)+


lemma scan_stmts_stopped: "(scan_stmt r)\<^sup>*\<^sup>* db db' \<Longrightarrow> stopped r T db \<Longrightarrow> stopped r T db'"
  by (induction rule: rtranclp_induct) (auto intro: scan_stmt_stopped)

text \<open>C16: cancelling a run takes effect at once and lasts until the run is restarted. Whatever statements
  of planners, workers, repairs and operators follow, but for \<open>start_run\<close> and \<open>finish_run\<close> of
  that run, no task of the run can be claimed, one inserted afterwards included, and none is being
  worked on; a worker that still held a task when the run was cancelled settles it without moving a
  counter.
\<close>
theorem cancelled_run_stops:
  assumes "distinct (map fst (sc_runs db))" "cancel_run r db = (Some c, db')" "(scan_stmt r)\<^sup>*\<^sup>* db' db''"
  shows "(\<forall>t k worker. task_of db'' t = Some k \<and> st_run k = r \<longrightarrow>
      claim_task t worker db'' = (Ok False, db'') \<and> st_state k \<noteq> task_state.Claimed \<and> st_state k \<noteq> task_state.Running) \<and>
    (\<forall>t k. task_of db' t = Some k \<and> st_run k = r \<longrightarrow>
      complete_task t outcome db'' = (Ok (), db'') \<and> fail_task t err outcome db'' = (Ok (), db''))"
proof -
  let ?T = "{t. \<exists>k. task_of db' t = Some k \<and> st_run k = r}"
  have db': "db' = snd (stop_runs (\<lambda>(j, _). j = r) db)" and hit: "[(i, row) \<leftarrow> sc_runs db. run_active row \<and> i = r] \<noteq> []"
    using assms(2) by (auto simp: cancel_run_def stop_runs_def Let_def split: prod.splits if_splits)
  then obtain row where "(r, row) \<in> set (sc_runs db)" "run_active row" by (auto simp: filter_empty_conv)
  then have "\<exists>row'. run_of db' r = Some row' \<and> sr_state row' = run_state.Cancelled"
    using assms(1) by (simp add: db' stop_runs_def Let_def map_of_map_rows)
  moreover have "task_settled (st_state k)" if "task_of db' t = Some k" "st_run k = r" for t k
    by (rule cancel_run_stops [OF assms(1,2) that])
  moreover have "distinct (map fst (sc_runs db'))"
    using assms(1) by (simp add: db' stop_runs_def Let_def comp_def split_def)
  ultimately have "stopped r ?T db'" unfolding stopped_def by fastforce
  then have s: "stopped r ?T db''" by (rule scan_stmts_stopped [OF assms(3)])
  have "claim_task t worker db'' = (Ok False, db'')" if "task_of db'' t = Some k" "st_run k = r" for t k worker
    using s that by (auto simp: stopped_def claim_task_def)
  moreover have "case task_of db'' t of None \<Rightarrow> True | Some k \<Rightarrow> task_settled (st_state k)" if "t \<in> ?T" for t
    using s that unfolding stopped_def by (auto split: option.splits)
  ultimately show ?thesis
    using s complete.op_noop failing.op_noop unfolding stopped_def by blast
qed

definition claimed_scan :: scan_db where
  "claimed_scan =
     \<lparr>sc_runs = [(7, (fresh_run (Some 2) Fast 0)\<lparr>sr_state := run_state.Running, sr_total := 1\<rparr>)],
      sc_tasks = [(5, (fresh_task 7 ''latest_feed'' ''{}'' 0)\<lparr>st_state := task_state.Claimed\<rparr>)],
      sc_providers = [(2, ''one'')], sc_now = 10\<rparr>"

text \<open>The worker of a cancelled run inserts the children of its task before it settles it.\<close>

definition late_child :: scan_db where
  "late_child = snd (create_task 6 7 ''series'' ''{}'' (snd (cancel_run 7 claimed_scan)))"

theorem cancelled_run_stops_witness:
  "claim_task 6 ''w'' late_child = (Ok False, late_child) \<and> fail_task 5 ''gone'' None late_child = (Ok (), late_child) \<and>
   map_option st_state (task_of late_child 6) = Some task_state.Queued"
proof -
  let ?db = "snd (cancel_run 7 claimed_scan)"
  have d: "distinct (map fst (sc_runs claimed_scan))" by code_simp
  have c: "cancel_run 7 claimed_scan = (Some \<lparr>cn_runs = 1, cn_tasks = 1\<rparr>, ?db)" by code_simp
  have "scan_stmt 7 ?db late_child"
    unfolding late_child_def by (rule scan_stmt.new_task [of 6 7 "''series''" "''{}''" _ "fst (create_task 6 7 ''series'' ''{}'' ?db)"]) simp
  then have steps: "(scan_stmt 7)\<^sup>*\<^sup>* ?db late_child" by (rule r_into_rtranclp)
  have six: "map_option (\<lambda>k. (st_run k, st_state k)) (task_of late_child 6) = Some (7, task_state.Queued)" by code_simp
  then obtain k where k: "task_of late_child 6 = Some k" "st_run k = 7" by auto
  have "map_option st_run (task_of ?db 5) = Some 7" by code_simp
  then obtain k5 where k5: "task_of ?db 5 = Some k5" "st_run k5 = 7" by auto
  show ?thesis
    using cancelled_run_stops [OF d c steps, of None "''gone''"] k k5 six by auto
qed

text \<open>Starting a run carries no guard, so a cancellation that arrives between the creation of a run
  and the planner's start of it is undone: the run is running again.
\<close>
theorem start_undoes_cancel:
  assumes "run_of db r = Some row" "run_active row"
  shows "\<exists>row' row''. run_of (snd (cancel_run r db)) r = Some row' \<and> sr_state row' = run_state.Cancelled \<and>
    run_of (start_run r (snd (cancel_run r db))) r = Some row'' \<and> sr_state row'' = run_state.Running"
  using assms by (simp add: cancel_run_def stop_runs_def Let_def start_run_def map_of_map_rows)

theorem start_undoes_cancel_witness:
  "\<exists>row' row''. run_of (snd (cancel_run 7 claimed_scan)) 7 = Some row' \<and> sr_state row' = run_state.Cancelled \<and>
    run_of (start_run 7 (snd (cancel_run 7 claimed_scan))) 7 = Some row'' \<and> sr_state row'' = run_state.Running"
  by (rule start_undoes_cancel [where row = "(fresh_run (Some 2) Fast 0)\<lparr>sr_state := run_state.Running, sr_total := 1\<rparr>"])
    (simp_all add: claimed_scan_def run_active_def)

text \<open>A task row without a creation time is recorded as having waited for the longest time the
  column can hold, not as having no known wait.
\<close>
theorem unknown_wait_is_maximal:
  assumes "complete_task t outcome db = (Ok (), db')" "task_of db t = Some k" "\<not> task_settled (st_state k)"
    and "run_of db (st_run k) = Some r" "st_created_at k = None" "st_wait_ms k = None"
  shows "\<exists>k'. task_of db' t = Some k' \<and> st_wait_ms k' = Some 2147483647"
  by (rule settle_task_ok [OF assms(1) [unfolded complete_task_def] assms(2-4)])
    (use assms(5,6) in \<open>auto simp: completed_row_def waited_ms_def costed_row_def\<close>)

definition legacy_scan :: scan_db where
  "legacy_scan = claimed_scan\<lparr>sc_tasks := [(5, (fresh_task 7 ''latest_feed'' ''{}'' 0)
     \<lparr>st_state := task_state.Claimed, st_created_at := None\<rparr>)]\<rparr>"

theorem unknown_wait_is_maximal_witness:
  "\<exists>k'. task_of (snd (complete_task 5 None legacy_scan)) 5 = Some k' \<and> st_wait_ms k' = Some 2147483647"
proof -
  have "complete_task 5 None legacy_scan = (Ok (), snd (complete_task 5 None legacy_scan))" by code_simp
  then show ?thesis
    by (rule unknown_wait_is_maximal [where k = "(fresh_task 7 ''latest_feed'' ''{}'' 0)
          \<lparr>st_state := task_state.Claimed, st_created_at := None\<rparr>"
          and r = "(fresh_run (Some 2) Fast 0)\<lparr>sr_state := run_state.Running, sr_total := 1\<rparr>"])
      (simp_all add: legacy_scan_def claimed_scan_def fresh_task_def)
qed

end
