(* ===== verification/Scan_Planning.thy ===== *)
theory Scan_Planning
  imports Scan_Store
begin

text \<open>
  The control plane's part of a scan: planning a run
  (\<open>src/services/control-plane/src/planning.rs\<close>), finalising it (\<open>aggregator.rs\<close>),
  repairing what the broker lost (\<open>reconcile.rs\<close>) and backing off from a failing provider
  (\<open>cooldown.rs\<close>), with the worker's fan-out of a task
  (\<open>src/services/worker/src/engine/tasks.rs\<close>). The broker is an external service: a parameter
  says how it answers a publish, and the messages it accepted are kept in order.
\<close>

section \<open>Messages and effects\<close>

datatype task_kind = CatalogPage | Series | LatestFeed

fun task_kind_as_str :: "task_kind \<Rightarrow> string" where
  "task_kind_as_str CatalogPage = ''catalog_page''"
| "task_kind_as_str Series = ''series''"
| "task_kind_as_str LatestFeed = ''latest_feed''"

record task_message =
  tm_task :: task_id
  tm_run :: run_id
  tm_provider :: provider_id
  tm_slug :: string
  tm_mode :: scan_mode
  tm_kind :: task_kind
  tm_target :: json

record progress_event =
  pe_run :: run_id
  pe_provider :: "provider_id option"
  pe_mode :: scan_mode
  pe_state :: run_state
  pe_total :: int
  pe_done :: int
  pe_failed :: int

datatype scan_error = ScanDb db_error | Broker string

record pipeline =
  pl_db :: scan_db
  pl_published :: "task_message list"
  pl_events :: "progress_event list"

record broker =
  bk_publish :: "task_message list \<Rightarrow> task_message \<Rightarrow> (string, unit) result"
  bk_progress :: "progress_event list \<Rightarrow> progress_event \<Rightarrow> (string, unit) result"
  bk_backlog :: "task_message list \<Rightarrow> string \<Rightarrow> scan_mode \<Rightarrow> (string, nat option) result"

type_synonym 'a scan = "(pipeline, scan_error, 'a) act"

definition on_db :: "'a scan_act \<Rightarrow> 'a scan" where
  "on_db m pl =
     (case m (pl_db pl) of
        (Inl e, db) \<Rightarrow> (Err (ScanDb e), pl\<lparr>pl_db := db\<rparr>)
      | (Inr x, db) \<Rightarrow> (Ok x, pl\<lparr>pl_db := db\<rparr>))"

definition do_db :: "(scan_db \<Rightarrow> scan_db) \<Rightarrow> unit scan" where
  "do_db f = act_modify (\<lambda>pl. pl\<lparr>pl_db := f (pl_db pl)\<rparr>)"

definition publish_task :: "broker \<Rightarrow> task_message \<Rightarrow> unit scan" where
  "publish_task bk msg pl =
     (case bk_publish bk (pl_published pl) msg of
        Inl e \<Rightarrow> (Err (Broker e), pl)
      | Inr _ \<Rightarrow> (Ok (), pl\<lparr>pl_published := pl_published pl @ [msg]\<rparr>))"

definition publish_progress :: "broker \<Rightarrow> progress_event \<Rightarrow> unit scan" where
  "publish_progress bk ev pl =
     (case bk_progress bk (pl_events pl) ev of
        Inl e \<Rightarrow> (Err (Broker e), pl)
      | Inr _ \<Rightarrow> (Ok (), pl\<lparr>pl_events := pl_events pl @ [ev]\<rparr>))"

section \<open>Planning\<close>

fun first_task :: "scan_mode \<Rightarrow> task_kind \<times> json" where
  "first_task Full = (CatalogPage, ''{\"page\":1}'')"
| "first_task Fast = (LatestFeed, ''{}'')"

text \<open>
  The statements of a plan each go to the database on their own, outside a transaction, and any of
  them may get no answer: \<open>down\<close> says which. A statement that gets none has no effect and
  ends what it is part of with an error.
\<close>

datatype plan_stmt = Find_Run | Open_Run | Start_Run | Insert_Task | Add_Total | Fail_Run

definition sent :: "plan_stmt set \<Rightarrow> plan_stmt \<Rightarrow> 'a scan \<Rightarrow> 'a scan" where
  "sent down q m = (if q \<in> down then act_fail (ScanDb NoAnswer) else m)"

definition dispatch_run ::
  "broker \<Rightarrow> plan_stmt set \<Rightarrow> task_id \<Rightarrow> provider_id \<Rightarrow> string \<Rightarrow> scan_mode \<Rightarrow> run_id \<Rightarrow> string scan" where
  "dispatch_run bk down t p slug mode r =
     act_then (sent down Start_Run (do_db (start_run r)))
       (let (kind, target) = first_task mode in
        act_bind (sent down Insert_Task (on_db (create_task t r (task_kind_as_str kind) target))) (\<lambda>created.
          case created of
            None \<Rightarrow> act_return ''duplicate''
          | Some i \<Rightarrow>
              act_then (sent down Add_Total (on_db (add_total_tasks r 1)))
             (act_then (publish_task bk \<lparr>tm_task = i, tm_run = r, tm_provider = p, tm_slug = slug,
                 tm_mode = mode, tm_kind = kind, tm_target = target\<rparr>)
             (act_return ''planned''))))"

text \<open>A run whose dispatch failed is failed too; when that statement gets no answer either, the run stays as it is.\<close>

definition fail_run :: "plan_stmt set \<Rightarrow> run_id \<Rightarrow> pipeline \<Rightarrow> pipeline" where
  "fail_run down r pl =
     (case sent down Fail_Run (do_db (finish_run r run_state.Failed)) pl of (Inl _, pl') \<Rightarrow> pl' | (Inr _, pl') \<Rightarrow> pl')"

definition plan_run ::
  "broker \<Rightarrow> plan_stmt set \<Rightarrow> int \<Rightarrow> run_id \<Rightarrow> task_id \<Rightarrow> provider_id \<Rightarrow> string \<Rightarrow> scan_mode \<Rightarrow> run_id scan" where
  "plan_run bk down stale_after r t p slug mode =
     act_bind (sent down Find_Run (\<lambda>pl. (Ok (in_flight_run (pl_db pl) p mode stale_after), pl))) (\<lambda>running.
       case running of
         Some i \<Rightarrow> act_return i
       | None \<Rightarrow>
           act_bind (sent down Open_Run (on_db (create_run r (Some p) mode))) (\<lambda>i pl.
             case dispatch_run bk down t p slug mode i pl of
               (Inr _, pl') \<Rightarrow> (Ok i, pl')
             | (Inl e, pl') \<Rightarrow> (Err e, fail_run down i pl')))"

section \<open>Finalising\<close>

definition i32_saturating :: "int \<Rightarrow> int" where
  "i32_saturating x = clamp_to (- 2147483648) 2147483647 x"

definition should_finalize :: "int \<Rightarrow> int \<Rightarrow> int \<Rightarrow> bool" where
  "should_finalize total_tasks done_tasks failed_tasks \<longleftrightarrow>
     0 < total_tasks \<and> total_tasks \<le> i32_saturating (done_tasks + failed_tasks)"

definition event_of :: "run_id \<Rightarrow> scan_run \<Rightarrow> progress_event" where
  "event_of i r =
     \<lparr>pe_run = i, pe_provider = sr_provider r, pe_mode = sr_mode r, pe_state = sr_state r,
      pe_total = sr_total r, pe_done = sr_done r, pe_failed = sr_failed r\<rparr>"

definition handle_progress :: "broker \<Rightarrow> progress_event \<Rightarrow> unit scan" where
  "handle_progress bk ev =
     (if \<not> should_finalize (pe_total ev) (pe_done ev) (pe_failed ev) then act_return ()
      else act_bind (on_db (finalize_if_complete (pe_run ev))) (\<lambda>run.
             case run of
               None \<Rightarrow> act_return ()
             | Some r \<Rightarrow> publish_progress bk (event_of (pe_run ev) r)))"

section \<open>Repairing\<close>

definition aged_after :: int where
  "aged_after = 300000000"

definition max_republish_per_lane :: int where
  "max_republish_per_lane = 500"

definition max_runs_per_pass :: nat where
  "max_runs_per_pass = 500"

definition i64_max :: int where
  "i64_max = 9223372036854775807"

definition deficit :: "open_lane \<Rightarrow> nat \<Rightarrow> int" where
  "deficit lane backlog = max 0 (int (ol_aged lane) - min (int backlog) i64_max)"

definition task_kind_from_token :: "string \<Rightarrow> task_kind option" where
  "task_kind_from_token s = find (\<lambda>kind. task_kind_as_str kind = s) [CatalogPage, Series, LatestFeed]"

definition republish :: "broker \<Rightarrow> open_lane \<Rightarrow> task_id \<times> scan_task \<Rightarrow> bool scan" where
  "republish bk lane = (\<lambda>(t, k).
     case task_kind_from_token (st_kind k) of
       None \<Rightarrow> act_return False
     | Some kind \<Rightarrow>
         act_then (publish_task bk \<lparr>tm_task = t, tm_run = st_run k, tm_provider = ol_provider lane,
             tm_slug = ol_slug lane, tm_mode = ol_mode lane, tm_kind = kind, tm_target = st_target k\<rparr>)
           (act_return True))"

fun republish_all :: "broker \<Rightarrow> open_lane \<Rightarrow> (task_id \<times> scan_task) list \<Rightarrow> nat \<Rightarrow> nat scan" where
  "republish_all bk lane [] n = act_return n"
| "republish_all bk lane (task # tasks) n =
     act_bind (republish bk lane task) (\<lambda>sent.
       republish_all bk lane tasks (if sent then Suc n else n))"

definition repair_lane :: "broker \<Rightarrow> open_lane \<Rightarrow> nat scan" where
  "repair_lane bk lane pl =
     (case bk_backlog bk (pl_published pl) (ol_slug lane) (ol_mode lane) of
        Inl e \<Rightarrow> (Err (Broker e), pl)
      | Inr None \<Rightarrow> (Ok 0, pl)
      | Inr (Some backlog) \<Rightarrow>
          (let missing = min (deficit lane backlog) max_republish_per_lane
           in if missing \<le> 0 then (Ok 0, pl)
              else republish_all bk lane
                     (stranded_tasks (pl_db pl) (ol_provider lane) (ol_mode lane) aged_after (nat missing)) 0 pl))"

record repairs =
  rp_republished :: nat
  rp_finalised :: nat
  rp_abandoned :: nat
  rp_unreadable_lanes :: nat

fun repair_lanes :: "broker \<Rightarrow> open_lane list \<Rightarrow> repairs \<Rightarrow> pipeline \<Rightarrow> repairs \<times> pipeline" where
  "repair_lanes bk [] rp pl = (rp, pl)"
| "repair_lanes bk (lane # lanes) rp pl =
     (case repair_lane bk lane pl of
        (Inr n, pl') \<Rightarrow> repair_lanes bk lanes (rp\<lparr>rp_republished := rp_republished rp + n\<rparr>) pl'
      | (Inl _, pl') \<Rightarrow> repair_lanes bk lanes (rp\<lparr>rp_unreadable_lanes := rp_unreadable_lanes rp + 1\<rparr>) pl')"

fun finalise_runs :: "broker \<Rightarrow> run_id list \<Rightarrow> nat \<Rightarrow> nat scan" where
  "finalise_runs bk [] n = act_return n"
| "finalise_runs bk (i # is) n =
     act_bind (on_db (finalize_if_complete i)) (\<lambda>run.
       case run of
         None \<Rightarrow> finalise_runs bk is n
       | Some r \<Rightarrow> act_then (publish_progress bk (event_of i r)) (finalise_runs bk is (Suc n)))"

definition finalise_settled_runs :: "broker \<Rightarrow> nat scan" where
  "finalise_settled_runs bk pl =
     finalise_runs bk (runs_awaiting_finalisation (pl_db pl) max_runs_per_pass) 0 pl"

definition fail_abandoned_runs :: "nat scan" where
  "fail_abandoned_runs pl =
     (case fail_unplanned_runs aged_after max_runs_per_pass (pl_db pl) of
        (ids, db) \<Rightarrow> (Ok (length ids), pl\<lparr>pl_db := db\<rparr>))"

definition reconcile_pass :: "broker \<Rightarrow> repairs scan" where
  "reconcile_pass bk pl =
     (case repair_lanes bk (open_task_lanes (pl_db pl) aged_after)
             \<lparr>rp_republished = 0, rp_finalised = 0, rp_abandoned = 0, rp_unreadable_lanes = 0\<rparr> pl of
        (rp, pl1) \<Rightarrow>
          act_bind (finalise_settled_runs bk) (\<lambda>n.
            act_bind fail_abandoned_runs (\<lambda>m.
              act_return (rp\<lparr>rp_finalised := n, rp_abandoned := m\<rparr>))) pl1)"

section \<open>Backing off\<close>

text \<open>Durations are in nanoseconds; the largest is \<open>u64::MAX\<close> seconds and 999999999 ns.\<close>

definition duration_max :: nat where
  "duration_max = 18446744073709551615 * 1000000000 + 999999999"

definition failures_before_backoff :: int where
  "failures_before_backoff = 2"

record scan_backoff =
  sb_interval :: nat
  sb_max :: nat

definition backoff_factor :: "int \<Rightarrow> nat" where
  "backoff_factor over =
     (let steps = (if over \<le> 4294967295 then nat over else 4294967295)
      in min 4294967295 (2 ^ min steps 31))"

definition cooldown :: "scan_backoff \<Rightarrow> int \<Rightarrow> nat" where
  "cooldown sb failures =
     (let over = max (- 9223372036854775808) (failures - failures_before_backoff)
      in if over < 0 then 0
         else min (min duration_max (sb_interval sb * backoff_factor over)) (sb_max sb))"

lemma backoff_factor_mono: "a \<le> b \<Longrightarrow> backoff_factor a \<le> backoff_factor b"
  unfolding backoff_factor_def Let_def by (intro min.mono power_increasing) auto

lemma cooldown_grows:
  assumes "m \<le> n"
  shows "cooldown sb m \<le> cooldown sb n"
proof (cases "2 \<le> m")
  case True
  have "sb_interval sb * backoff_factor (m - 2) \<le> sb_interval sb * backoff_factor (n - 2)"
    using assms by (intro mult_le_mono2 backoff_factor_mono) simp
  then show ?thesis
    using True assms
    by (simp add: cooldown_def failures_before_backoff_def Let_def min.coboundedI1 min_le_iff_disj)
next
  case False
  then show ?thesis by (simp add: cooldown_def failures_before_backoff_def Let_def)
qed

definition remaining :: "scan_backoff \<Rightarrow> fail_streak \<Rightarrow> int \<Rightarrow> nat option" where
  "remaining sb streak now =
     (if sb_max sb = 0 then None
      else case fk_last_failed_at streak of
             None \<Rightarrow> None
           | Some last_failed_at \<Rightarrow>
               (let cd = cooldown sb (int (fk_failures streak))
                in if cd = 0 then None
                   else let elapsed = nat ((now - last_failed_at) * 1000)
                        in if elapsed < cd then Some (cd - elapsed) else None))"

section \<open>A plan holds its place\<close>

definition scan_wf :: "scan_db \<Rightarrow> bool" where
  "scan_wf db \<longleftrightarrow> distinct (map fst (sc_runs db)) \<and> distinct (map fst (sc_tasks db)) \<and>
     list_all (\<lambda>(t, k). map_of (sc_runs db) (st_run k) \<noteq> None) (sc_tasks db)"

lemma in_flight_run_None:
  "in_flight_run db p mode st = None \<longleftrightarrow> (\<forall>x \<in> set (sc_runs db). \<not> in_flight db p mode st x)"
proof -
  have "in_flight_run db p mode st = None \<longleftrightarrow>
      sort_key (\<lambda>(_, r). - sr_created_at r) (filter (in_flight db p mode st) (sc_runs db)) = []"
    by (auto simp: in_flight_run_def split: list.split)
  also have "\<dots> \<longleftrightarrow> filter (in_flight db p mode st) (sc_runs db) = []"
    by (metis length_0_conv length_sort)
  finally show ?thesis by (simp add: filter_empty_conv)
qed

lemma in_flight_run_unique:
  assumes "(i, r) \<in> set (sc_runs db)" "in_flight db p mode st (i, r)"
    and "\<And>x. x \<in> set (sc_runs db) \<Longrightarrow> in_flight db p mode st x \<Longrightarrow> fst x = i"
  shows "in_flight_run db p mode st = Some i"
proof -
  let ?ys = "sort_key (\<lambda>(_, r). - sr_created_at r) (filter (in_flight db p mode st) (sc_runs db))"
  have mem: "x \<in> set ?ys \<Longrightarrow> fst x = i" for x using assms(3) by auto
  moreover have "?ys \<noteq> []" 
    using assms(1,2) by (metis filter_empty_conv length_0_conv length_sort)
  ultimately obtain b ys where "?ys = (i, b) # ys" by (cases ?ys) force+
  then show ?thesis by (simp add: in_flight_run_def)
qed

lemma no_tasks_of_unknown_run:
  assumes "scan_wf db" "run_of db r = None"
  shows "run_tasks db r = []"
  using assms by (auto simp: scan_wf_def run_tasks_def list_all_iff filter_empty_conv)

lemma run_tasks_append:
  "run_tasks (db\<lparr>sc_tasks := sc_tasks db @ [(t, k)]\<rparr>) r =
     run_tasks db r @ (if st_run k = r then [k] else [])"
  by (simp add: run_tasks_def)

lemma update_last: "k \<notin> fst ` set t \<Longrightarrow> AList.update k v (t @ [(k, w)]) = t @ [(k, v)]"
  by (induction t) auto

lemma row_update_last: "k \<notin> fst ` set t \<Longrightarrow> row_update k f (t @ [(k, w)]) = t @ [(k, f w)]"
  unfolding row_update_def by (induction t) auto

definition planned_row :: "provider_id \<Rightarrow> scan_mode \<Rightarrow> int \<Rightarrow> scan_run" where
  "planned_row p mode now =
     (fresh_run (Some p) mode now)\<lparr>sr_state := run_state.Running, sr_started_at := Some now\<rparr>"

text \<open>Every way the dispatch of a run that was just created can end.\<close>

lemma dispatch_fresh:
  assumes runs: "sc_runs (pl_db pl) = old @ [(r, fresh_run (Some p) mode (sc_now (pl_db pl)))]"
    and fresh: "r \<notin> fst ` set old" and none: "run_tasks (pl_db pl) r = []"
    and res: "dispatch_run bk down t p slug mode r pl = (res, pl')"
  obtains row tasks where
    "sc_runs (pl_db pl') = old @ [(r, row)]"
    "sc_tasks (pl_db pl') = sc_tasks (pl_db pl) @ tasks" "list_all (\<lambda>(_, k). st_run k = r) tasks"
    "sc_now (pl_db pl') = sc_now (pl_db pl)"
    "sr_provider row = Some p" "sr_mode row = mode" "run_active row" "sr_created_at row = sc_now (pl_db pl)"
    "sr_total row = 0 \<or> list_ex (\<lambda>(_, k). task_open (st_state k)) tasks"
    "\<And>e. res = Err e \<Longrightarrow> pl_published pl' = pl_published pl"
    "\<And>x. res = Ok x \<Longrightarrow> \<exists>msg. tm_run msg = r \<and> pl_published pl' = pl_published pl @ [msg]"
proof -
  let ?now = "sc_now (pl_db pl)"
  obtain kind target where ft: "first_task mode = (kind, target)" by fastforce
  define db1 where "db1 = start_run r (pl_db pl)"
  have db1: "sc_runs db1 = old @ [(r, planned_row p mode ?now)]" "sc_tasks db1 = sc_tasks (pl_db pl)"
    "sc_now db1 = ?now"
    by (simp_all add: db1_def start_run_def runs row_update_last [OF fresh] planned_row_def fresh_run_def)
  have none1: "\<not> task_exists db1 r (task_kind_as_str kind) target"
    using none by (simp add: task_exists_def run_tasks_def db1(2))
  have look: "map_of (sc_runs db1) r = Some (planned_row p mode ?now)"
    using iffD2 [OF map_of_eq_None_iff fresh] by (simp add: db1(1) map_add_def)
  then have known: "map_of (sc_runs db1) r \<noteq> None" by simp
  have planned: "run_active (planned_row p mode ?now)" "sr_provider (planned_row p mode ?now) = Some p"
    "sr_mode (planned_row p mode ?now) = mode" "sr_created_at (planned_row p mode ?now) = ?now"
    "sr_total (planned_row p mode ?now) = 0"
    by (simp_all add: planned_row_def fresh_run_def run_active_def)
  note disp = res [unfolded dispatch_run_def ft Let_def prod.case]
  consider "Start_Run \<in> down" | "Start_Run \<notin> down" "Insert_Task \<in> down \<or> map_of (sc_tasks db1) t \<noteq> None"
    | "Start_Run \<notin> down" "Insert_Task \<notin> down" "map_of (sc_tasks db1) t = None" by blast
  then show thesis
  proof cases
    case 1
    then have "pl' = pl" "res = Err (ScanDb NoAnswer)" using disp by (simp_all add: sent_def act_then_def act_bind_def)
    then show thesis
      by (intro that [of "fresh_run (Some p) mode ?now" "[]"]) (simp_all add: runs fresh_run_def run_active_def)
  next
    case 2
    then have "pl' = pl\<lparr>pl_db := db1\<rparr>" "\<exists>e. res = Err e"
      using disp by (auto simp: sent_def do_db_def act_bind_def on_db_def create_task_def db1_def split: if_splits)
    then show thesis by (intro that [of "planned_row p mode ?now" "[]"]) (auto simp: db1 planned)
  next
    case 3
    define k where "k = fresh_task r (task_kind_as_str kind) target ?now"
    define db2 where "db2 = db1\<lparr>sc_tasks := sc_tasks db1 @ [(t, k)]\<rparr>"
    define db3 where "db3 = db2\<lparr>sc_runs := old @ [(r, (planned_row p mode ?now)\<lparr>sr_total := 1\<rparr>)]\<rparr>"
    have c: "create_task t r (task_kind_as_str kind) target db1 = (Ok (Some t), db2)"
      using 3 none1 known by (simp add: create_task_def db2_def k_def db1(3))
    have a: "add_total_tasks r 1 db2 = (Ok (), db3)"
      using look by (simp add: add_total_tasks_def db2_def db3_def int4_def planned_row_def fresh_run_def
          db1(1) update_last [OF fresh])
    have open_k: "task_open (st_state k)" "st_run k = r" by (simp_all add: k_def fresh_task_def)
    have db2: "sc_runs db2 = old @ [(r, planned_row p mode ?now)]" "sc_tasks db2 = sc_tasks (pl_db pl) @ [(t, k)]"
      "sc_now db2 = ?now" by (simp_all add: db2_def db1)
    have db3: "sc_runs db3 = old @ [(r, (planned_row p mode ?now)\<lparr>sr_total := 1\<rparr>)]"
      "sc_tasks db3 = sc_tasks (pl_db pl) @ [(t, k)]" "sc_now db3 = ?now" by (simp_all add: db3_def db2)
    have active: "run_active ((planned_row p mode ?now)\<lparr>sr_total := 1\<rparr>)"
      using planned(1) by (simp add: run_active_def)
    show thesis
    proof (cases "Add_Total \<in> down")
      case True
      then have "pl' = pl\<lparr>pl_db := db2\<rparr>" "res = Err (ScanDb NoAnswer)"
        using disp 3 by (simp_all add: sent_def do_db_def act_bind_def on_db_def c db1_def [symmetric])
      then show thesis
        by (intro that [of "planned_row p mode ?now" "[(t, k)]"]) (simp_all add: db2 planned open_k)
    next
      case False
      then show thesis
        using disp 3
        by (intro that [of "(planned_row p mode ?now)\<lparr>sr_total := 1\<rparr>" "[(t, k)]"])
          (auto simp: sent_def do_db_def act_then_def act_bind_def on_db_def c a db3 planned active open_k
            db1_def [symmetric] publish_task_def split: sum.splits)
    qed
  qed
qed


lemma in_flight_old:
  assumes "sc_tasks db' = sc_tasks db @ tasks" "list_all (\<lambda>(_, k). st_run k = r) tasks"
    "sc_now db' = sc_now db" "fst x \<noteq> r"
  shows "in_flight db' p mode st x \<longleftrightarrow> in_flight db p mode st x"
proof -
  have "run_tasks db' (fst x) = run_tasks db (fst x)"
    using assms(1,2,4) by (auto simp: run_tasks_def list_all_iff filter_empty_conv)
  then show ?thesis using assms(3) by (cases x) (simp add: in_flight_def has_open_task_def)
qed

lemma in_flight_run_mem:
  assumes "in_flight_run db p mode st = Some i"
  shows "\<exists>row. (i, row) \<in> set (sc_runs db) \<and> in_flight db p mode st (i, row)"
proof -
  let ?ys = "sort_key (\<lambda>(_, r). - sr_created_at r) (filter (in_flight db p mode st) (sc_runs db))"
  obtain row ys where ys: "?ys = (i, row) # ys"
    using assms by (auto simp: in_flight_run_def split: list.splits)
  have "(i, row) \<in> set ?ys" unfolding ys by simp
  then show ?thesis by auto
qed

text \<open>A run opened by a plan, whatever came of it, is in flight until it is failed or old.\<close>

lemma planned_in_flight:
  assumes runs: "sc_runs db' = sc_runs db @ [(r, row)]" "r \<notin> fst ` set (sc_runs db)"
    and tasks: "sc_tasks db' = sc_tasks db @ tasks" "list_all (\<lambda>(_, k). st_run k = r) tasks"
    and now: "sc_now db' = sc_now db" and quiet: "in_flight_run db p mode st = None"
    and row: "sr_provider row = Some p" "sr_mode row = mode" "sr_created_at row = sc_now db" "0 < st"
      "sr_total row = 0 \<or> list_ex (\<lambda>(_, k). task_open (st_state k)) tasks"
  shows "in_flight_run db' p mode st = (if run_active row then Some r else None)"
    and "sc_now db + st \<le> t \<Longrightarrow> in_flight_run (db'\<lparr>sc_now := t\<rparr>) p mode st \<noteq> Some r"
proof -
  have old: "\<not> in_flight db' p mode st x" if "x \<in> set (sc_runs db)" for x
  proof -
    have "fst x \<noteq> r" using that runs(2) by auto
    then have "in_flight db' p mode st x \<longleftrightarrow> in_flight db p mode st x"
      using tasks now by (intro in_flight_old) auto
    then show ?thesis using quiet that by (auto simp: in_flight_run_None)
  qed
  have open_task: "has_open_task db' r" if "list_ex (\<lambda>(_, k). task_open (st_state k)) tasks"
    using that tasks by (auto simp: has_open_task_def run_tasks_def list_ex_iff list_all_iff image_iff Bex_def)
  show "in_flight_run db' p mode st = (if run_active row then Some r else None)"
  proof (cases "run_active row")
    case True
    then have mine: "in_flight db' p mode st (r, row)"
      using row open_task now by (auto simp: in_flight_def)
    have "in_flight_run db' p mode st = Some r"
      by (rule in_flight_run_unique [OF _ mine]) (use old runs(1) in auto)
    then show ?thesis using True by simp
  next
    case False
    then show ?thesis using old by (auto simp: in_flight_run_None runs(1) in_flight_def)
  qed
  show "in_flight_run (db'\<lparr>sc_now := t\<rparr>) p mode st \<noteq> Some r" if "sc_now db + st \<le> t"
    using in_flight_run_mem [of "db'\<lparr>sc_now := t\<rparr>" p mode st r] that runs row(3)
    by (force simp: in_flight_def)
qed

text \<open>How planning ends when nothing was in flight.\<close>

lemma plan_run_fresh:
  assumes wf: "scan_wf (pl_db pl)" and none: "in_flight_run (pl_db pl) p mode st = None"
    and plan: "plan_run bk down st r t p slug mode pl = (res, pl')" and st: "0 < st" and found: "Find_Run \<notin> down"
  shows "(\<forall>e. res = Err e \<longrightarrow> pl_published pl' = pl_published pl \<and>
       (in_flight_run (pl_db pl') p mode st = None \<or>
        Fail_Run \<in> down \<and> in_flight_run (pl_db pl') p mode st = Some r \<and>
        (\<forall>later. sc_now (pl_db pl) + st \<le> later \<longrightarrow>
           in_flight_run ((pl_db pl')\<lparr>sc_now := later\<rparr>) p mode st \<noteq> Some r))) \<and>
    (\<forall>i. res = Ok i \<longrightarrow> i = r \<and> in_flight_run (pl_db pl') p mode st = Some r \<and>
       (\<exists>msg. tm_run msg = r \<and> pl_published pl' = pl_published pl @ [msg]))"
proof (cases "sent down Open_Run (on_db (create_run r (Some p) mode)) pl")
  case (Pair c pl1)
  have run: "(res, pl') = (case c of Inl e \<Rightarrow> (Err e, pl1) | Inr i \<Rightarrow>
      (case dispatch_run bk down t p slug mode i pl1 of
         (Inr _, pl2) \<Rightarrow> (Ok i, pl2) | (Inl e, pl2) \<Rightarrow> (Err e, fail_run down i pl2)))"
    using plan none found Pair by (simp add: plan_run_def sent_def act_bind_def split: sum.splits)
  show ?thesis
  proof (cases c)
    case (Inl e)
    then have "pl1 = pl"
      using Pair by (auto simp: sent_def on_db_def create_run_def split: if_splits)
    then show ?thesis using run none Inl by auto
  next
    case (Inr i)
    have i: "i = r" "r \<notin> fst ` set (sc_runs (pl_db pl))" and unknown: "run_of (pl_db pl) r = None"
      and pl1: "pl1 = pl\<lparr>pl_db := (pl_db pl)\<lparr>sc_runs := sc_runs (pl_db pl) @
          [(r, fresh_run (Some p) mode (sc_now (pl_db pl)))]\<rparr>\<rparr>"
      using Pair Inr by (auto simp: sent_def on_db_def create_run_def map_of_eq_None_iff split: if_splits)
    obtain dres pl2 where d: "dispatch_run bk down t p slug mode r pl1 = (dres, pl2)" by fastforce
    have runs1: "sc_runs (pl_db pl1) = sc_runs (pl_db pl) @ [(r, fresh_run (Some p) mode (sc_now (pl_db pl1)))]"
      by (simp add: pl1)
    have none1: "run_tasks (pl_db pl1) r = []"
      using no_tasks_of_unknown_run [OF wf unknown] by (simp add: run_tasks_def pl1)
    obtain row tasks where out:
      "sc_runs (pl_db pl2) = sc_runs (pl_db pl) @ [(r, row)]"
      "sc_tasks (pl_db pl2) = sc_tasks (pl_db pl) @ tasks" "list_all (\<lambda>(_, k). st_run k = r) tasks"
      "sc_now (pl_db pl2) = sc_now (pl_db pl)"
      "sr_provider row = Some p" "sr_mode row = mode" "run_active row" "sr_created_at row = sc_now (pl_db pl)"
      "sr_total row = 0 \<or> list_ex (\<lambda>(_, k). task_open (st_state k)) tasks"
      "\<And>e. dres = Err e \<Longrightarrow> pl_published pl2 = pl_published pl"
      "\<And>x. dres = Ok x \<Longrightarrow> \<exists>msg. tm_run msg = r \<and> pl_published pl2 = pl_published pl @ [msg]"
      by (rule dispatch_fresh [OF runs1 i(2) none1 d]) (simp_all add: pl1)
    note flight = planned_in_flight [OF out(1) i(2) out(2,3,4) none out(5,6,8) st out(9)]
    show ?thesis
    proof (cases dres)
      case (Inl e)
      have res: "res = Err e" "pl' = fail_run down r pl2" using run Inl d i(1) \<open>c = Inr i\<close> by simp_all
      show ?thesis
      proof (cases "Fail_Run \<in> down")
        case True
        then have "pl' = pl2" using res by (simp add: fail_run_def sent_def)
        then show ?thesis using flight out(7) out(10) [OF Inl] True res by simp
      next
        case False
        let ?row = "row\<lparr>sr_state := run_state.Failed, sr_finished_at := Some (sc_now (pl_db pl2))\<rparr>"
        have db': "pl' = pl2\<lparr>pl_db := (pl_db pl2)\<lparr>sc_runs := sc_runs (pl_db pl) @ [(r, ?row)]\<rparr>\<rparr>"
          using False res by (simp add: fail_run_def sent_def do_db_def finish_run_def out(1) row_update_last [OF i(2)])
        have "\<not> run_active ?row" by (simp add: run_active_def)
        then have "in_flight_run (pl_db pl') p mode st = None"
          using planned_in_flight(1) [of "pl_db pl'" "pl_db pl" r ?row tasks p mode st] i(2) out none st
          by (simp add: db')
        moreover have "pl_published pl' = pl_published pl" using out(10) [OF Inl] by (simp add: db')
        ultimately show ?thesis using res(1) by auto
      qed
    next
      case (Inr x)
      then have "res = Ok r" "pl' = pl2" using run d i(1) \<open>c = Inr i\<close> by simp_all
      then show ?thesis using flight(1) out(7) out(11) [OF Inr] by simp
    qed
  qed
qed

text \<open>C8: planning is idempotent. Once a provider's run of a mode is planned, planning it again while
  it is in flight, whatever else fails then, changes nothing, and returns the same run when the
  database answers; a plan publishes at most one message. A plan that fails publishes nothing and
  leaves what is in flight as it was, with one exception: when the statement that fails the new run
  gets no answer, that run itself is left in flight, and suppresses the next plans until it is
  \<open>stale_after\<close> old.
\<close>
theorem plan_run_coalesces:
  assumes "scan_wf (pl_db pl)" "0 < stale_after"
    and "plan_run bk down stale_after r t p slug mode pl = (res, pl')"
  shows "case res of
      Inr i \<Rightarrow> plan_run bk' down' stale_after r' t' p slug' mode pl' =
          (if Find_Run \<in> down' then Err (ScanDb NoAnswer) else Ok i, pl') \<and>
        length (pl_published pl') \<le> Suc (length (pl_published pl))
    | Inl e \<Rightarrow> pl_published pl' = pl_published pl \<and>
        (in_flight_run (pl_db pl') p mode stale_after = in_flight_run (pl_db pl) p mode stale_after \<or>
         Fail_Run \<in> down \<and> in_flight_run (pl_db pl) p mode stale_after = None \<and>
         in_flight_run (pl_db pl') p mode stale_after = Some r \<and>
         (\<forall>later. sc_now (pl_db pl) + stale_after \<le> later \<longrightarrow>
            in_flight_run ((pl_db pl')\<lparr>sc_now := later\<rparr>) p mode stale_after \<noteq> Some r))"
proof -
  consider "Find_Run \<in> down" | i where "Find_Run \<notin> down" "in_flight_run (pl_db pl) p mode stale_after = Some i"
    | "Find_Run \<notin> down" "in_flight_run (pl_db pl) p mode stale_after = None" by blast
  then show ?thesis
  proof cases
    case 1
    then show ?thesis using assms(3) by (auto simp: plan_run_def sent_def act_bind_def)
  next
    case 2
    then show ?thesis using assms(3) by (auto simp: plan_run_def sent_def act_bind_def)
  next
    case 3
    then show ?thesis
      using plan_run_fresh [OF assms(1) 3(2) assms(3,2) 3(1)]
      by (cases res) (auto simp: plan_run_def sent_def act_bind_def)
  qed
qed

definition accepting_broker :: broker where
  "accepting_broker =
     \<lparr>bk_publish = \<lambda>_ _. Ok (), bk_progress = \<lambda>_ _. Ok (), bk_backlog = \<lambda>_ _ _. Ok (Some 0)\<rparr>"

definition quiet_pipeline :: pipeline where
  "quiet_pipeline =
     \<lparr>pl_db = \<lparr>sc_runs = [], sc_tasks = [], sc_providers = [(2, ''one'')], sc_now = 1000\<rparr>,
      pl_published = [], pl_events = []\<rparr>"

theorem plan_run_coalesces_witness:
  "plan_run accepting_broker {} 60 8 6 2 ''one'' Fast
     (snd (plan_run accepting_broker {} 60 7 5 2 ''one'' Fast quiet_pipeline)) =
   (Ok 7, snd (plan_run accepting_broker {} 60 7 5 2 ''one'' Fast quiet_pipeline))"
proof -
  have wf: "scan_wf (pl_db quiet_pipeline)" by code_simp
  have ok: "fst (plan_run accepting_broker {} 60 7 5 2 ''one'' Fast quiet_pipeline) = Ok 7" by code_simp
  show ?thesis
    using plan_run_coalesces [OF wf _ surjective_pairing, of 60 accepting_broker "{}" 7 5 2 "''one''" Fast
        accepting_broker "{}" 8 6 "''one''"]
    by (simp add: ok)
qed

text \<open>The exception does happen: the insert of the task and the failing of the run both get no answer.\<close>

lemma unanswered_plan_stays_in_flight:
  "case plan_run accepting_broker {Insert_Task, Fail_Run} 60 7 5 2 ''one'' Fast quiet_pipeline of
     (res, pl) \<Rightarrow> res = Err (ScanDb NoAnswer) \<and> in_flight_run (pl_db pl) 2 Fast 60 = Some 7 \<and>
       plan_run accepting_broker {} 60 8 6 2 ''one'' Fast pl = (Ok 7, pl)"
  by code_simp

section \<open>Backing off\<close>

text \<open>The cooldown of a provider grows with its failures, never past the configured ceiling, is
  zero below two consecutive failures and one sweep interval (or the ceiling) at exactly two, and
  what is left of it is never more than the ceiling.
\<close>
theorem cooldown_policy:
  assumes "m \<le> n"
  shows "cooldown sb m \<le> cooldown sb n \<and> cooldown sb n \<le> sb_max sb \<and>
    (n < 2 \<longrightarrow> cooldown sb n = 0) \<and>
    cooldown sb 2 = min (min duration_max (sb_interval sb)) (sb_max sb) \<and>
    (remaining sb streak now = Some left \<longrightarrow> 0 < left \<and> left \<le> sb_max sb)"
proof (intro conjI impI)
  show "cooldown sb m \<le> cooldown sb n" by (rule cooldown_grows [OF assms])
  have bound: "cooldown sb k \<le> sb_max sb" for k by (simp add: cooldown_def Let_def)
  then show "cooldown sb n \<le> sb_max sb" .
  show "cooldown sb n = 0" if "n < 2" using that by (simp add: cooldown_def failures_before_backoff_def)
  show "cooldown sb 2 = min (min duration_max (sb_interval sb)) (sb_max sb)"
    by (simp add: cooldown_def failures_before_backoff_def backoff_factor_def)
  show "0 < left" "left \<le> sb_max sb" if "remaining sb streak now = Some left"
    using that bound [of "int (fk_failures streak)"]
    by (auto simp: remaining_def Let_def split: if_splits option.splits)
qed

theorem cooldown_policy_witness:
  "cooldown \<lparr>sb_interval = 300, sb_max = 5000\<rparr> 3 \<le> cooldown \<lparr>sb_interval = 300, sb_max = 5000\<rparr> 9 \<and>
   cooldown \<lparr>sb_interval = 300, sb_max = 5000\<rparr> 9 \<le> 5000 \<and>
   remaining \<lparr>sb_interval = 300, sb_max = 5000\<rparr> \<lparr>fk_failures = 9, fk_last_failed_at = Some 10\<rparr> 12 = Some 3000"
proof -
  have "remaining \<lparr>sb_interval = 300, sb_max = 5000\<rparr> \<lparr>fk_failures = 9, fk_last_failed_at = Some 10\<rparr> 12 = Some 3000"
    by (simp add: remaining_def cooldown_def backoff_factor_def failures_before_backoff_def duration_max_def)
  then show ?thesis
    using cooldown_policy [of 3 9 "\<lparr>sb_interval = 300, sb_max = 5000\<rparr>"
        "\<lparr>fk_failures = 9, fk_last_failed_at = Some 10\<rparr>" 12 3000] by simp
qed

section \<open>Repair is conservative\<close>

lemma republish_all_sends:
  "republish_all bk lane tasks n pl = (res, pl') \<Longrightarrow>
   pl_db pl' = pl_db pl \<and> pl_events pl' = pl_events pl \<and>
   (\<exists>msgs. pl_published pl' = pl_published pl @ msgs \<and> length msgs \<le> length tasks \<and>
      (\<forall>m \<in> set msgs. \<exists>k. (tm_task m, k) \<in> set tasks \<and> tm_run m = st_run k \<and> tm_target m = st_target k))"
proof (induction tasks arbitrary: n pl)
  case (Cons task tasks)
  obtain t k where task: "task = (t, k)" by fastforce
  obtain sent pl1 where one: "republish bk lane (t, k) pl = (sent, pl1)" by fastforce
  have step: "pl_db pl1 = pl_db pl \<and> pl_events pl1 = pl_events pl \<and>
      (pl_published pl1 = pl_published pl \<or>
       (\<exists>m. pl_published pl1 = pl_published pl @ [m] \<and> tm_task m = t \<and> tm_run m = st_run k \<and> tm_target m = st_target k))"
    using one by (auto simp: republish_def publish_task_def act_then_def act_bind_def
        split: option.splits sum.splits prod.splits)
  show ?case
  proof (cases sent)
    case (Inl e)
    then have "pl' = pl1" using Cons.prems one task by (simp add: act_bind_def)
    from step consider "pl_published pl1 = pl_published pl"
      | m where "pl_published pl1 = pl_published pl @ [m]" "tm_task m = t" "tm_run m = st_run k" "tm_target m = st_target k"
      by blast
    then show ?thesis
    proof cases
      case 1
      then show ?thesis using \<open>pl' = pl1\<close> step by simp
    next
      case 2
      then show ?thesis using \<open>pl' = pl1\<close> step by (intro conjI exI [of _ "[m]"]) (auto simp: task)
    qed
  next
    case (Inr b)
    then have "republish_all bk lane tasks (if b then Suc n else n) pl1 = (res, pl')"
      using Cons.prems one task by (simp add: act_bind_def)
    from Cons.IH [OF this] obtain msgs where
      ih: "pl_db pl' = pl_db pl1" "pl_events pl' = pl_events pl1" "pl_published pl' = pl_published pl1 @ msgs"
      "length msgs \<le> length tasks"
      "\<forall>m \<in> set msgs. \<exists>k. (tm_task m, k) \<in> set tasks \<and> tm_run m = st_run k \<and> tm_target m = st_target k" by blast
    from step consider "pl_published pl1 = pl_published pl"
      | m where "pl_published pl1 = pl_published pl @ [m]" "tm_task m = t" "tm_run m = st_run k" "tm_target m = st_target k"
      by blast
    then show ?thesis
    proof cases
      case 1
      then show ?thesis using ih step by (intro conjI exI [of _ msgs]) (auto simp: task)
    next
      case 2
      then show ?thesis using ih step by (intro conjI exI [of _ "m # msgs"]) (auto simp: task)
    qed
  qed
qed simp

lemma stranded_tasks_mem:
  "(t, k) \<in> set (stranded_tasks db p mode after limit) \<Longrightarrow>
   (t, k) \<in> set (lane_tasks db p mode) \<and> aged (sc_now db) after k"
  by (auto simp: stranded_tasks_def dest!: in_set_takeD)

text \<open>C14: repairing a lane never touches the database and republishes only tasks that are open in an
  active run of that lane and old enough, no more of them than the lane's old tasks exceed what the
  broker still holds, and never more than five hundred.
\<close>
theorem repair_lane_conservative:
  assumes "repair_lane bk lane pl = (res, pl')"
    and "bk_backlog bk (pl_published pl) (ol_slug lane) (ol_mode lane) = Ok (Some backlog)"
  shows "pl_db pl' = pl_db pl \<and> (\<exists>msgs. pl_published pl' = pl_published pl @ msgs \<and>
     int (length msgs) \<le> max 0 (int (ol_aged lane) - min (int backlog) i64_max) \<and> length msgs \<le> 500 \<and>
     (\<forall>m \<in> set msgs. \<exists>k. (tm_task m, k) \<in> set (lane_tasks (pl_db pl) (ol_provider lane) (ol_mode lane)) \<and>
        aged (sc_now (pl_db pl)) aged_after k \<and> tm_run m = st_run k))"
proof (cases "min (deficit lane backlog) max_republish_per_lane \<le> 0")
  case True
  then have "pl' = pl" using assms by (simp add: repair_lane_def Let_def)
  then show ?thesis by simp
next
  case False
  let ?n = "nat (min (deficit lane backlog) max_republish_per_lane)"
  let ?tasks = "stranded_tasks (pl_db pl) (ol_provider lane) (ol_mode lane) aged_after ?n"
  have "republish_all bk lane ?tasks 0 pl = (res, pl')"
    using assms False by (simp add: repair_lane_def Let_def)
  then obtain msgs where msgs: "pl_db pl' = pl_db pl" "pl_published pl' = pl_published pl @ msgs"
    "length msgs \<le> length ?tasks"
    "\<And>m. m \<in> set msgs \<Longrightarrow> \<exists>k. (tm_task m, k) \<in> set ?tasks \<and> tm_run m = st_run k"
    using republish_all_sends [of bk lane ?tasks 0 pl res pl'] by blast
  have "length ?tasks \<le> ?n" by (simp add: stranded_tasks_def)
  then have len: "length msgs \<le> ?n" using msgs(3) by simp
  have n: "int ?n \<le> deficit lane backlog" "?n \<le> 500"
    using False by (simp_all add: max_republish_per_lane_def)
  have "int (length msgs) \<le> deficit lane backlog" using len n(1) by linarith
  moreover have "length msgs \<le> 500" using len n(2) by linarith
  ultimately have "int (length msgs) \<le> max 0 (int (ol_aged lane) - min (int backlog) i64_max)" "length msgs \<le> 500"
    unfolding deficit_def by simp_all
  then show ?thesis using msgs(1,2) msgs(4) stranded_tasks_mem by blast
qed

definition stranded_pipeline :: pipeline where
  "stranded_pipeline =
     quiet_pipeline\<lparr>pl_db := \<lparr>sc_runs = [(7, (planned_row 2 Fast 0)\<lparr>sr_total := 1\<rparr>)],
       sc_tasks = [(5, fresh_task 7 ''latest_feed'' ''{}'' 0)], sc_providers = [(2, ''one'')],
       sc_now = 400000000\<rparr>\<rparr>"

definition stranded_lane :: open_lane where
  "stranded_lane = \<lparr>ol_provider = 2, ol_slug = ''one'', ol_mode = Fast, ol_open = 1, ol_aged = 1\<rparr>"

theorem repair_lane_conservative_witness:
  "pl_db (snd (repair_lane accepting_broker stranded_lane stranded_pipeline)) = pl_db stranded_pipeline \<and>
   map tm_task (pl_published (snd (repair_lane accepting_broker stranded_lane stranded_pipeline))) = [5]"
proof -
  have "bk_backlog accepting_broker (pl_published stranded_pipeline) (ol_slug stranded_lane) (ol_mode stranded_lane) = Ok (Some 0)"
    by code_simp
  from repair_lane_conservative [OF surjective_pairing this]
  have "pl_db (snd (repair_lane accepting_broker stranded_lane stranded_pipeline)) = pl_db stranded_pipeline" by blast
  moreover have "map tm_task (pl_published (snd (repair_lane accepting_broker stranded_lane stranded_pipeline))) = [5]"
    by code_simp
  ultimately show ?thesis by blast
qed

lemma finalize_once:
  assumes "finalize_if_complete i db = (Ok (Some r), db')"
  shows "run_of db' i = Some r \<and> run_terminal r \<and> finalize_if_complete i db' = (Ok None, db')"
proof -
  obtain q where q: "run_of db i = Some q" "sr_state q = run_state.Running" "\<not> sr_total q \<le> 0"
    "int4 (sr_done q + sr_failed q) = Ok (sr_done q + sr_failed q)"
    "\<not> sr_done q + sr_failed q < sr_total q"
    using assms by (auto simp: finalize_if_complete_def int4_ok split: option.splits if_splits sum.splits)
  define st where "st = (if sr_done q = 0 \<and> 0 < sr_failed q then run_state.Failed else run_state.Completed)"
  have r: "r = q\<lparr>sr_state := st, sr_finished_at := Some (sc_now db)\<rparr>" "run_of db' i = Some r"
    using assms q by (auto simp: finalize_if_complete_def Let_def update_conv' st_def)
  have "st = run_state.Failed \<or> st = run_state.Completed" by (simp add: st_def)
  then have "run_terminal r" "sr_state r \<noteq> run_state.Running"
    by (auto simp: r(1) run_terminal_def run_finished_def)
  then show ?thesis using r(2) by (simp add: finalize_if_complete_def)
qed


end
