(* ===== verification/Scan_Worker.thy ===== *)
theory Scan_Worker
  imports Scan_Planning
begin

text \<open>
  The worker's side of a scan task: the fan-out of children
  (\<open>src/services/worker/src/engine/tasks.rs\<close>), the stage reports it writes on the task row
  (\<open>engine/stage.rs\<close>) and the life of one delivered message, claim, work, settle and
  acknowledgement (\<open>src/services/worker/src/main.rs\<close>). The provider's site and its adapter are
  external: what they answered is an argument. Whether a throttled progress report is due, and
  whether the database accepted the settling statement, are arguments too.
\<close>

section \<open>Stage reports\<close>

definition stage_enter :: "task_id \<Rightarrow> scan_stage \<Rightarrow> string option \<Rightarrow> unit scan" where
  "stage_enter t stage detail = do_db (set_task_stage t stage None detail)"

definition clamp_i32 :: "nat \<Rightarrow> int" where
  "clamp_i32 n = min (int n) 2147483647"

definition stage_progress :: "bool \<Rightarrow> task_id \<Rightarrow> scan_stage \<Rightarrow> nat \<Rightarrow> nat \<Rightarrow> unit scan" where
  "stage_progress due t stage done_n total_n =
     (if due then do_db (set_task_stage t stage (Some (clamp_i32 done_n, clamp_i32 total_n)) None)
      else act_return ())"

section \<open>Fan-out\<close>

definition fanout_chunk :: nat where
  "fanout_chunk = 1000"

definition child_message :: "task_message \<Rightarrow> task_kind \<Rightarrow> task_id \<times> json \<Rightarrow> task_message" where
  "child_message parent kind = (\<lambda>(t, target).
     \<lparr>tm_task = t, tm_run = tm_run parent, tm_provider = tm_provider parent, tm_slug = tm_slug parent,
      tm_mode = tm_mode parent, tm_kind = kind, tm_target = target\<rparr>)"

definition enqueue_child :: "broker \<Rightarrow> task_message \<Rightarrow> task_kind \<Rightarrow> task_id \<times> json \<Rightarrow> unit scan" where
  "enqueue_child bk parent kind = (\<lambda>(t, target).
     act_bind (on_db (create_task t (tm_run parent) (task_kind_as_str kind) target)) (\<lambda>created.
       case created of
         None \<Rightarrow> act_return ()
       | Some i \<Rightarrow>
           act_then (on_db (add_total_tasks (tm_run parent) 1))
             (publish_task bk (child_message parent kind (i, target)))))"

function chunks :: "nat \<Rightarrow> 'a list \<Rightarrow> 'a list list" where
  "chunks n xs = (if xs = [] \<or> n = 0 then [] else take n xs # chunks n (drop n xs))"
  by pat_completeness auto
termination by (relation "measure (length \<circ> snd)") auto

declare chunks.simps [simp del]

text \<open>\<open>targets\<close> pairs every target with the identifier its row would be inserted under.\<close>

fun enqueue_chunks ::
  "broker \<Rightarrow> (nat \<Rightarrow> bool) \<Rightarrow> task_message \<Rightarrow> task_kind \<Rightarrow> scan_stage \<Rightarrow> nat \<Rightarrow> nat \<Rightarrow>
     (task_id \<times> json) list list \<Rightarrow> unit scan" where
  "enqueue_chunks bk due parent kind stage total_n published [] = act_return ()"
| "enqueue_chunks bk due parent kind stage total_n published (chunk # rest) =
     act_bind (on_db (create_tasks (tm_run parent) (task_kind_as_str kind) chunk)) (\<lambda>created.
       let published' = published + length chunk in
       act_then (stage_progress (due published') (tm_task parent) stage published' total_n)
         (if created = [] then enqueue_chunks bk due parent kind stage total_n published' rest
          else
            act_then (on_db (add_total_tasks (tm_run parent) (clamp_i32 (length created))))
           (act_then (act_for (\<lambda>c. publish_task bk (child_message parent kind c)) created)
           (enqueue_chunks bk due parent kind stage total_n published' rest))))"

definition enqueue_children ::
  "broker \<Rightarrow> (nat \<Rightarrow> bool) \<Rightarrow> task_message \<Rightarrow> task_kind \<Rightarrow> scan_stage \<Rightarrow> (task_id \<times> json) list \<Rightarrow> unit scan" where
  "enqueue_children bk due parent kind stage targets =
     enqueue_chunks bk due parent kind stage (length targets) 0 (chunks fanout_chunk targets)"

text \<open>
  One page of a catalogue, and the latest-updates feed. The items the adapter listed arrive with
  the identifiers their rows would take; registering the series is another component, and its
  failure does not stop the walk.
\<close>

definition walk_catalog_page ::
  "broker \<Rightarrow> (nat \<Rightarrow> bool) \<Rightarrow> nat \<Rightarrow> task_message \<Rightarrow> string \<Rightarrow> nat \<Rightarrow>
     (task_id \<times> json) list \<Rightarrow> bool \<Rightarrow> task_id \<times> json \<Rightarrow> unit scan" where
  "walk_catalog_page bk due max_catalog_pages task label page items has_next next_page =
     act_then (stage_enter (tm_task task) CatalogFetch (Some label))
    (act_then (stage_enter (tm_task task) CatalogRegister (Some label))
    (act_then (stage_enter (tm_task task) CatalogFanout (Some label))
    (act_then (enqueue_children bk due task Series CatalogFanout items)
    (if has_next \<and> page < max_catalog_pages then enqueue_child bk task CatalogPage next_page
     else act_return ()))))"

definition walk_latest_feed ::
  "broker \<Rightarrow> (nat \<Rightarrow> bool) \<Rightarrow> task_message \<Rightarrow> (task_id \<times> json) list \<Rightarrow> unit scan" where
  "walk_latest_feed bk due task updates =
     act_then (stage_enter (tm_task task) FeedFetch None)
    (act_then (stage_enter (tm_task task) FeedFanout None)
    (enqueue_children bk due task Series FeedFanout updates))"

section \<open>The life of a message\<close>

definition report_progress :: "broker \<Rightarrow> run_id \<Rightarrow> pipeline \<Rightarrow> pipeline" where
  "report_progress bk r pl =
     (case get_run (pl_db pl) r of
        Inl _ \<Rightarrow> pl
      | Inr run \<Rightarrow> snd (publish_progress bk (event_of r run) pl))"

datatype message_fate = Acked | RetryLater nat

datatype 'e handled = Declined | Executed | Errored 'e

definition max_task_deliveries :: nat where
  "max_task_deliveries = 3"

fun retry_delay :: "nat \<Rightarrow> nat" where
  "retry_delay deliveries = (if deliveries \<le> 1 then 60 else if deliveries = 2 then 300 else 900)"

text \<open>
  \<open>work\<close> is the dispatch of the task. Its error carries the text and whether the adapter calls
  it transient; a database error of the claim is not transient.
\<close>

definition handle_task ::
  "(pipeline \<Rightarrow> ((bool \<times> string), unit) result \<times> pipeline) \<Rightarrow> task_message \<Rightarrow> string \<Rightarrow> pipeline \<Rightarrow>
     (bool \<times> string) handled \<times> pipeline" where
  "handle_task work task worker pl =
     (case on_db (claim_task (tm_task task) worker) pl of
        (Inl _, pl1) \<Rightarrow> (Errored (False, ''claim''), pl1)
      | (Inr claimed, pl1) \<Rightarrow>
          if \<not> claimed then (Declined, pl1)
          else (case work pl1 of
                  (Inl e, pl2) \<Rightarrow> (Errored e, pl2)
                | (Inr _, pl2) \<Rightarrow> (Executed, pl2)))"

text \<open>\<open>reached\<close> says whether the settling statement reached the database at all.\<close>

definition try_settle :: "bool \<Rightarrow> unit scan_act \<Rightarrow> pipeline \<Rightarrow> pipeline" where
  "try_settle reached m pl = (if reached then snd (on_db m pl) else pl)"

definition run_task ::
  "broker \<Rightarrow> (pipeline \<Rightarrow> ((bool \<times> string), unit) result \<times> pipeline) \<Rightarrow> bool \<Rightarrow> task_outcome \<Rightarrow>
     nat \<Rightarrow> task_message \<Rightarrow> string \<Rightarrow> pipeline \<Rightarrow> message_fate \<times> pipeline" where
  "run_task bk work reached oc deliveries task worker pl =
     (case handle_task work task worker pl of
        (Declined, pl1) \<Rightarrow> (Acked, pl1)
      | (Executed, pl1) \<Rightarrow>
          (Acked, report_progress bk (tm_run task)
                    (try_settle reached (complete_task (tm_task task) (Some oc)) pl1))
      | (Errored (transient, err), pl1) \<Rightarrow>
          if transient \<and> deliveries < max_task_deliveries then (RetryLater (retry_delay deliveries), pl1)
          else (Acked, report_progress bk (tm_run task)
                         (try_settle reached (fail_task (tm_task task) err (Some oc)) pl1)))"

section \<open>What a delivery leaves\<close>

text \<open>A settling statement that does not reach the database is not retried: the message of the task
  is acknowledged all the same, and the task stays open with nothing left to settle it.
\<close>
theorem unsettled_task_is_acked:
  assumes "claim_task (tm_task task) worker (pl_db pl) = (Ok True, db1)"
    and "work (pl\<lparr>pl_db := db1\<rparr>) = (Ok (), pl2)"
    and "task_of (pl_db pl2) (tm_task task) = Some k" "\<not> task_settled (st_state k)"
  shows "\<exists>pl'. run_task bk work False oc deliveries task worker pl = (Acked, pl') \<and>
    task_of (pl_db pl') (tm_task task) = Some k \<and> pl_published pl' = pl_published pl2"
  using assms
  by (auto simp: run_task_def handle_task_def on_db_def try_settle_def report_progress_def publish_progress_def
      get_run_def split: option.split sum.split)

definition feed_message :: task_message where
  "feed_message = \<lparr>tm_task = 5, tm_run = 7, tm_provider = 2, tm_slug = ''one'', tm_mode = Fast,
     tm_kind = LatestFeed, tm_target = ''{}''\<rparr>"

theorem unsettled_task_is_acked_witness:
  "\<exists>pl'. run_task accepting_broker (\<lambda>pl. (Ok (), pl)) False
      \<lparr>oc_duration_ms = 1, oc_timings = stage_timings_default\<rparr> 1 feed_message ''w'' stranded_pipeline = (Acked, pl') \<and>
    map_option st_state (task_of (pl_db pl') 5) = Some task_state.Claimed"
proof -
  let ?db = "snd (claim_task 5 ''w'' (pl_db stranded_pipeline))"
  have c: "claim_task (tm_task feed_message) ''w'' (pl_db stranded_pipeline) = (Ok True, ?db)" by code_simp
  have "map_option st_state (task_of ?db 5) = Some task_state.Claimed" by code_simp
  then obtain k where k: "task_of ?db 5 = Some k" "st_state k = task_state.Claimed" by auto
  show ?thesis
    using unsettled_task_is_acked [OF c, of "\<lambda>pl. (Ok (), pl)" "stranded_pipeline\<lparr>pl_db := ?db\<rparr>" k accepting_broker
        "\<lparr>oc_duration_ms = 1, oc_timings = stage_timings_default\<rparr>" 1] k
    by (auto simp: feed_message_def)
qed

section \<open>A redelivered parent fans out nothing\<close>

lemma concat_chunks: "0 < n \<Longrightarrow> concat (chunks n xs) = xs"
proof (induction n xs rule: chunks.induct)
  case (1 n xs)
  then show ?case by (subst chunks.simps) auto
qed

lemma task_exists_rows:
  "task_exists db r kind tg \<longleftrightarrow> list_ex (\<lambda>(t, k). st_run k = r \<and> st_kind k = kind \<and> st_target k = tg) (sc_tasks db)"
  by (auto simp: task_exists_def run_tasks_def list_ex_iff)

lemma list_ex_row_update:
  "(\<And>k r. Q (k, f r) \<longleftrightarrow> Q (k, r)) \<Longrightarrow> list_ex Q (row_update k f xs) \<longleftrightarrow> list_ex Q xs"
  unfolding row_update_def by (induction xs) (auto split: if_splits)

lemma run_tasks_stage: "task_exists (set_task_stage t st pr de db) r kind target \<longleftrightarrow> task_exists db r kind target"
  unfolding task_exists_rows set_task_stage_def by (simp add: list_ex_row_update)

lemma insert_tasks_exist:
  "insert_tasks r kind rows db = Ok (out, db') \<Longrightarrow>
   (\<forall>tg \<in> snd ` set rows. task_exists db' r kind tg) \<and> (\<forall>tg. task_exists db r kind tg \<longrightarrow> task_exists db' r kind tg)"
proof (induction rows arbitrary: db out)
  case (Cons row rows)
  obtain t tg where row: "row = (t, tg)" by fastforce
  obtain c db1 where c: "create_task t r kind tg db = (Ok c, db1)"
    using Cons.prems row by (cases "create_task t r kind tg db") (auto split: sum.splits)
  obtain out' where rest: "insert_tasks r kind rows db1 = Ok (out', db')"
    using Cons.prems row c by (auto simp: bind_result_ok_iff)
  have one: "task_exists db1 r kind tg" "task_exists db r kind g \<Longrightarrow> task_exists db1 r kind g" for g
    using c by (auto simp: create_task_def task_exists_def run_tasks_def fresh_task_def split: if_splits)
  show ?case using Cons.IH [OF rest] one by (auto simp: row)
qed simp

lemma insert_tasks_known:
  "\<forall>x \<in> set rows. task_of db (fst x) = None \<and> task_exists db r kind (snd x) \<Longrightarrow>
   insert_tasks r kind rows db = Ok ([], db)"
  by (induction rows) (auto simp: create_task_def)

lemma publish_all_db: "act_for (\<lambda>c. publish_task bk (child_message parent kind c)) cs pl = (res, pl') \<Longrightarrow> pl_db pl' = pl_db pl"
  by (rule act_for_inv [where P = "\<lambda>q. pl_db q = pl_db pl" and s = pl])
    (auto simp: publish_task_def split: sum.splits)

lemma task_exists_runs [simp]: "task_exists (db\<lparr>sc_runs := rs\<rparr>) r kind tg = task_exists db r kind tg"
  by (simp add: task_exists_def run_tasks_def)

lemma add_total_exists: "add_total_tasks i d db = (res, db') \<Longrightarrow> task_exists db' r kind tg = task_exists db r kind tg"
  by (auto simp: add_total_tasks_def split: option.splits sum.splits)

lemma stage_progress_ok:
  "stage_progress due t st n m pl = (Ok (), pl\<lparr>pl_db := (if due then set_task_stage t st (Some (clamp_i32 n, clamp_i32 m)) None (pl_db pl) else pl_db pl)\<rparr>)"
  by (simp add: stage_progress_def do_db_def)

definition reported_db :: "(nat \<Rightarrow> bool) \<Rightarrow> task_message \<Rightarrow> scan_stage \<Rightarrow> nat \<Rightarrow> nat \<Rightarrow> scan_db \<Rightarrow> scan_db" where
  "reported_db due parent stage n m db =
     (if due m then set_task_stage (tm_task parent) stage (Some (clamp_i32 m, clamp_i32 n)) None db else db)"

lemma reported_db_same:
  "task_exists (reported_db due parent stage n m db) r kind tg \<longleftrightarrow> task_exists db r kind tg"
  "sc_runs (reported_db due parent stage n m db) = sc_runs db"
  "map fst (sc_tasks (reported_db due parent stage n m db)) = map fst (sc_tasks db)"
  by (simp_all add: reported_db_def run_tasks_stage, simp_all add: set_task_stage_def)

lemma enqueue_chunk_step:
  assumes "create_tasks (tm_run parent) (task_kind_as_str kind) chunk (pl_db pl) = (Ok created, db1)"
  shows "enqueue_chunks bk due parent kind stage n m (chunk # cs) pl =
     (if created = [] then enqueue_chunks bk due parent kind stage n (m + length chunk) cs
      else act_then (on_db (add_total_tasks (tm_run parent) (clamp_i32 (length created))))
        (act_then (act_for (\<lambda>c. publish_task bk (child_message parent kind c)) created)
        (enqueue_chunks bk due parent kind stage n (m + length chunk) cs)))
     (pl\<lparr>pl_db := reported_db due parent stage n (m + length chunk) db1\<rparr>)"
proof -
  have on: "on_db (create_tasks (tm_run parent) (task_kind_as_str kind) chunk) pl = (Ok created, pl\<lparr>pl_db := db1\<rparr>)"
    by (simp add: on_db_def assms)
  have sp: "stage_progress (due (m + length chunk)) (tm_task parent) stage (m + length chunk) n (pl\<lparr>pl_db := db1\<rparr>) =
      (Ok (), pl\<lparr>pl_db := reported_db due parent stage n (m + length chunk) db1\<rparr>)"
    by (simp add: stage_progress_ok reported_db_def)
  show ?thesis unfolding enqueue_chunks.simps Let_def
    by (subst act_bind_step [of "on_db (create_tasks (tm_run parent) (task_kind_as_str kind) chunk)", OF on])
      (rule act_then_step [of "stage_progress (due (m + length chunk)) (tm_task parent) stage (m + length chunk) n", OF sp])
qed

lemma enqueue_chunks_exist:
  "enqueue_chunks bk due parent kind stage n m cs pl = (Ok (), pl') \<Longrightarrow>
   (\<forall>tg \<in> snd ` set (concat cs). task_exists (pl_db pl') (tm_run parent) (task_kind_as_str kind) tg) \<and>
   (\<forall>tg. task_exists (pl_db pl) (tm_run parent) (task_kind_as_str kind) tg \<longrightarrow>
      task_exists (pl_db pl') (tm_run parent) (task_kind_as_str kind) tg)"
proof (induction cs arbitrary: m pl)
  case (Cons chunk cs)
  let ?E = "\<lambda>db. task_exists db (tm_run parent) (task_kind_as_str kind)"
  obtain created db1 where c: "create_tasks (tm_run parent) (task_kind_as_str kind) chunk (pl_db pl) = (Ok created, db1)"
    using Cons.prems by (cases "create_tasks (tm_run parent) (task_kind_as_str kind) chunk (pl_db pl)")
      (auto simp: act_bind_def on_db_def split: sum.splits)
  have ins: "\<And>tg. tg \<in> snd ` set chunk \<Longrightarrow> ?E db1 tg" "\<And>tg. ?E (pl_db pl) tg \<Longrightarrow> ?E db1 tg"
    using c insert_tasks_exist [of "tm_run parent" "task_kind_as_str kind" chunk "pl_db pl" created db1]
    by (auto simp: create_tasks_def split: sum.splits prod.splits)
  define m' where "m' = m + length chunk"
  define db2 where "db2 = reported_db due parent stage n m' db1"
  have db2: "?E db2 tg \<longleftrightarrow> ?E db1 tg" for tg by (simp add: db2_def reported_db_same)
  note step = Cons.prems [unfolded enqueue_chunk_step [OF c], folded m'_def, folded db2_def]
  obtain pl3 where pl3: "\<And>tg. ?E (pl_db pl3) tg = ?E db2 tg" and rest: "enqueue_chunks bk due parent kind stage n m' cs pl3 = (Ok (), pl')"
  proof (cases "created = []")
    case True
    then show thesis using step that [of "pl\<lparr>pl_db := db2\<rparr>"] by simp
  next
    case False
    then obtain pla plb where "on_db (add_total_tasks (tm_run parent) (clamp_i32 (length created))) (pl\<lparr>pl_db := db2\<rparr>) = (Ok (), pla)"
      "act_for (\<lambda>c. publish_task bk (child_message parent kind c)) created pla = (Ok (), plb)"
      "enqueue_chunks bk due parent kind stage n m' cs plb = (Ok (), pl')"
      using step by (auto simp: act_then_ok)
    then show thesis
      using that [of plb] publish_all_db add_total_exists by (auto simp: on_db_def split: prod.splits sum.splits)
  qed
  note ih = Cons.IH [OF rest]
  have "?E (pl_db pl') tg" if "tg \<in> snd ` set chunk \<or> ?E (pl_db pl) tg" for tg
    using ins that ih db2 pl3 by blast
  then show ?case using ih unfolding concat.simps set_append image_Un by blast
qed simp

lemma enqueue_chunks_known:
  assumes "\<forall>x \<in> set (concat cs). task_of (pl_db pl) (fst x) = None \<and>
      task_exists (pl_db pl) (tm_run parent) (task_kind_as_str kind) (snd x)"
  shows "\<exists>pl'. enqueue_chunks bk due parent kind stage n m cs pl = (Ok (), pl') \<and>
    pl_published pl' = pl_published pl \<and> sc_runs (pl_db pl') = sc_runs (pl_db pl) \<and>
    map fst (sc_tasks (pl_db pl')) = map fst (sc_tasks (pl_db pl))"
  using assms
proof (induction cs arbitrary: m pl)
  case (Cons chunk cs)
  have "insert_tasks (tm_run parent) (task_kind_as_str kind) chunk (pl_db pl) = Ok ([], pl_db pl)"
    using Cons.prems by (intro insert_tasks_known) fastforce
  then have c: "create_tasks (tm_run parent) (task_kind_as_str kind) chunk (pl_db pl) = (Ok [], pl_db pl)"
    by (simp add: create_tasks_def)
  define m' where "m' = m + length chunk"
  define db2 where "db2 = reported_db due parent stage n m' (pl_db pl)"
  have step: "enqueue_chunks bk due parent kind stage n m (chunk # cs) pl =
      enqueue_chunks bk due parent kind stage n m' cs (pl\<lparr>pl_db := db2\<rparr>)"
    by (simp add: enqueue_chunk_step [OF c] m'_def db2_def del: enqueue_chunks.simps)
  have same: "sc_runs db2 = sc_runs (pl_db pl)" "map fst (sc_tasks db2) = map fst (sc_tasks (pl_db pl))"
    by (simp_all add: db2_def reported_db_same)
  have "task_of db2 t = None" if "task_of (pl_db pl) t = None" for t
    using that same(2) by (metis map_of_eq_None_iff list.set_map)
  moreover have "task_exists db2 r kd tg = task_exists (pl_db pl) r kd tg" for r kd tg
    by (simp add: db2_def reported_db_same)
  ultimately have "\<exists>pl'. enqueue_chunks bk due parent kind stage n m' cs (pl\<lparr>pl_db := db2\<rparr>) = (Ok (), pl') \<and>
      pl_published pl' = pl_published (pl\<lparr>pl_db := db2\<rparr>) \<and> sc_runs (pl_db pl') = sc_runs (pl_db (pl\<lparr>pl_db := db2\<rparr>)) \<and>
      map fst (sc_tasks (pl_db pl')) = map fst (sc_tasks (pl_db (pl\<lparr>pl_db := db2\<rparr>)))"
    using Cons.prems by (intro Cons.IH) auto
  then show ?case unfolding step using same by simp
qed simp

text \<open>C15: fanning a task out is idempotent. When the fan-out of a page has gone through, fanning the
  same targets out again, as a redelivered parent does, inserts no task, publishes no message and
  leaves every counter alone.
\<close>
theorem fan_out_idempotent:
  assumes "enqueue_children bk due parent kind stage targets pl = (Ok (), pl1)"
    and "map snd again = map snd targets"
    and "\<forall>t \<in> fst ` set again. task_of (pl_db pl1) t = None"
  shows "\<exists>pl2. enqueue_children bk' due' parent kind stage again pl1 = (Ok (), pl2) \<and>
    pl_published pl2 = pl_published pl1 \<and> sc_runs (pl_db pl2) = sc_runs (pl_db pl1) \<and>
    map fst (sc_tasks (pl_db pl2)) = map fst (sc_tasks (pl_db pl1))"
proof -
  have ch: "concat (chunks fanout_chunk xs) = xs" for xs :: "(task_id \<times> json) list"
    by (simp add: concat_chunks fanout_chunk_def)
  have "task_exists (pl_db pl1) (tm_run parent) (task_kind_as_str kind) tg" if "tg \<in> set (map snd targets)" for tg
    using enqueue_chunks_exist [OF assms(1) [unfolded enqueue_children_def]] that by (auto simp: ch)
  then have "task_exists (pl_db pl1) (tm_run parent) (task_kind_as_str kind) tg" if "(t, tg) \<in> set again" for t tg
    using that assms(2) by (metis image_eqI list.set_map snd_conv)
  then show ?thesis
    unfolding enqueue_children_def using assms(3) by (intro enqueue_chunks_known) (auto simp: ch)
qed

theorem fan_out_idempotent_witness:
  "length (sc_tasks (pl_db (snd (enqueue_children accepting_broker (\<lambda>_. True) feed_message Series FeedFanout
      [(8, ''a''), (9, ''b''), (10, ''a'')] stranded_pipeline)))) = 3 \<and>
   (\<exists>pl2. enqueue_children accepting_broker (\<lambda>_. False) feed_message Series FeedFanout
      [(11, ''a''), (12, ''b''), (13, ''a'')]
      (snd (enqueue_children accepting_broker (\<lambda>_. True) feed_message Series FeedFanout
        [(8, ''a''), (9, ''b''), (10, ''a'')] stranded_pipeline)) = (Ok (), pl2) \<and> length (pl_published pl2) = 2)"
proof -
  let ?first = "enqueue_children accepting_broker (\<lambda>_. True) feed_message Series FeedFanout
      [(8, ''a''), (9, ''b''), (10, ''a'')] stranded_pipeline"
  have "fst ?first = Ok ()" by code_simp
  then have ok: "?first = (Ok (), snd ?first)" by (metis prod.collapse)
  have fresh: "\<forall>t \<in> fst ` set [(11::nat, ''a''), (12, ''b''), (13, ''a'')]. task_of (pl_db (snd ?first)) t = None"
    by code_simp
  have "length (pl_published (snd ?first)) = 2" "length (sc_tasks (pl_db (snd ?first))) = 3" by code_simp+
  moreover obtain pl2 where "enqueue_children accepting_broker (\<lambda>_. False) feed_message Series FeedFanout
      [(11, ''a''), (12, ''b''), (13, ''a'')] (snd ?first) = (Ok (), pl2)" "pl_published pl2 = pl_published (snd ?first)"
    using fan_out_idempotent [OF ok _ fresh, of accepting_broker "\<lambda>_. False"] by auto
  ultimately show ?thesis by auto
qed

end
