(* ===== verification/Scan_Pipeline.thy ===== *)
theory Scan_Pipeline
  imports Scan_Worker
begin

text \<open>
  The scan pipeline as a whole: planners, workers, the aggregator, the reconciler and operators
  interleave their statements on one database. A step of the relation is one statement of
  \<open>Scan_Store\<close> or one broker event; the ghost components say where each actor is between its
  statements: runs a planner has opened, rows that were inserted but whose count is not yet added
  (with the actor that will add it), tasks published, and tasks a worker holds. The invariant is
  what keeps a run from being finalised while work of it is open.
\<close>

section \<open>States\<close>

datatype planner_pc = Opened | Started | Inserted | Counted

datatype owner = Planner run_id | Worker task_id

record scan_sys =
  sy_db :: scan_db
  sy_planner :: "run_id \<rightharpoonup> planner_pc"
  sy_pending :: "task_id \<rightharpoonup> owner"
  sy_bus :: "task_id set"
  sy_working :: "task_id set"
  sy_lost :: "task_id set"

definition batch :: "scan_sys \<Rightarrow> owner \<Rightarrow> task_id set" where
  "batch s ow = {t. sy_pending s t = Some ow}"

definition drop_batch :: "owner \<Rightarrow> (task_id \<rightharpoonup> owner) \<Rightarrow> (task_id \<rightharpoonup> owner)" where
  "drop_batch ow m = (\<lambda>t. if m t = Some ow then None else m t)"

fun owner_run :: "scan_db \<Rightarrow> owner \<Rightarrow> run_id option" where
  "owner_run db (Planner r) = Some r"
| "owner_run db (Worker p) = map_option st_run (task_of db p)"

section \<open>Steps\<close>

text \<open>
  The steps follow the order of the statements in the code. A worker that is still fanning out
  does not settle its task (\<open>no batch\<close> in \<open>settle\<close>), and the broker does not deliver a task a
  worker holds (the acknowledgement heartbeat). A batch whose count is never added, because the
  worker died or the statement failed, is \<open>lost\<close>. \<open>publish\<close> covers the fan-out, the planner
  and the republishing of the reconciler, which does not touch rows younger than its age limit.
\<close>

inductive scan_step :: "scan_sys \<Rightarrow> scan_sys \<Rightarrow> bool" where
  open_run: "create_run r p mode (sy_db s) = (Ok r, db) \<Longrightarrow>
    scan_step s (s\<lparr>sy_db := db, sy_planner := (sy_planner s)(r \<mapsto> Opened)\<rparr>)"
| start: "sy_planner s r = Some Opened \<Longrightarrow>
    scan_step s (s\<lparr>sy_db := start_run r (sy_db s), sy_planner := (sy_planner s)(r \<mapsto> Started)\<rparr>)"
| plan_task: "sy_planner s r = Some Started \<Longrightarrow> create_task t r kind target (sy_db s) = (Ok (Some t), db) \<Longrightarrow>
    scan_step s (s\<lparr>sy_db := db, sy_planner := (sy_planner s)(r \<mapsto> Inserted),
      sy_pending := (sy_pending s)(t \<mapsto> Planner r)\<rparr>)"
| plan_count: "sy_planner s r = Some Inserted \<Longrightarrow> add_total_tasks r 1 (sy_db s) = (Ok (), db) \<Longrightarrow>
    scan_step s (s\<lparr>sy_db := db, sy_planner := (sy_planner s)(r \<mapsto> Counted),
      sy_pending := drop_batch (Planner r) (sy_pending s)\<rparr>)"
| plan_done: "sy_planner s r = Some Counted \<Longrightarrow>
    scan_step s (s\<lparr>sy_planner := (sy_planner s)(r := None)\<rparr>)"
| plan_fail: "sy_planner s r = Some pc \<Longrightarrow>
    scan_step s (s\<lparr>sy_db := finish_run r run_state.Failed (sy_db s), sy_planner := (sy_planner s)(r := None),
      sy_pending := drop_batch (Planner r) (sy_pending s), sy_lost := sy_lost s \<union> batch s (Planner r)\<rparr>)"
| publish: "task_of (sy_db s) t \<noteq> None \<Longrightarrow> sy_pending s t = None \<Longrightarrow>
    scan_step s (s\<lparr>sy_bus := insert t (sy_bus s)\<rparr>)"
| claim: "t \<in> sy_bus s \<Longrightarrow> t \<notin> sy_working s \<Longrightarrow> claim_task t w (sy_db s) = (Ok True, db) \<Longrightarrow>
    scan_step s (s\<lparr>sy_db := db, sy_working := insert t (sy_working s)\<rparr>)"
| stage: "scan_step s (s\<lparr>sy_db := set_task_stage t stage progress detail (sy_db s)\<rparr>)"
| fan_out: "p \<in> sy_working s \<Longrightarrow> batch s (Worker p) = {} \<Longrightarrow> task_of (sy_db s) p = Some k \<Longrightarrow>
    create_tasks (st_run k) kind rows (sy_db s) = (Ok out, db) \<Longrightarrow>
    scan_step s (s\<lparr>sy_db := db,
      sy_pending := (\<lambda>t. if t \<in> fst ` set out then Some (Worker p) else sy_pending s t)\<rparr>)"
| count: "p \<in> sy_working s \<Longrightarrow> task_of (sy_db s) p = Some k \<Longrightarrow>
    add_total_tasks (st_run k) (int (card (batch s (Worker p)))) (sy_db s) = (Ok (), db) \<Longrightarrow>
    scan_step s (s\<lparr>sy_db := db, sy_pending := drop_batch (Worker p) (sy_pending s)\<rparr>)"
| lose: "p \<in> sy_working s \<Longrightarrow>
    scan_step s (s\<lparr>sy_pending := drop_batch (Worker p) (sy_pending s), sy_lost := sy_lost s \<union> batch s (Worker p)\<rparr>)"
| complete: "t \<in> sy_working s \<Longrightarrow> batch s (Worker t) = {} \<Longrightarrow> complete_task t oc (sy_db s) = (Ok (), db) \<Longrightarrow>
    scan_step s (s\<lparr>sy_db := db, sy_working := sy_working s - {t}\<rparr>)"
| fail: "t \<in> sy_working s \<Longrightarrow> batch s (Worker t) = {} \<Longrightarrow> fail_task t e oc (sy_db s) = (Ok (), db) \<Longrightarrow>
    scan_step s (s\<lparr>sy_db := db, sy_working := sy_working s - {t}\<rparr>)"
| release: "t \<in> sy_working s \<Longrightarrow> batch s (Worker t) = {} \<Longrightarrow>
    scan_step s (s\<lparr>sy_working := sy_working s - {t}\<rparr>)"
| cancel: "scan_step s (s\<lparr>sy_db := snd (stop_runs pick (sy_db s))\<rparr>)"
| finalize: "finalize_if_complete r (sy_db s) = (Ok (Some row), db) \<Longrightarrow> scan_step s (s\<lparr>sy_db := db\<rparr>)"
| abandon: "(r, row) \<in> set (sc_runs (sy_db s)) \<Longrightarrow> unplanned (sy_db s) older (r, row) \<Longrightarrow>
    scan_step s (s\<lparr>sy_db := finish_run r run_state.Failed (sy_db s)\<rparr>)"
| tick: "sc_now (sy_db s) \<le> now \<Longrightarrow> scan_step s (s\<lparr>sy_db := (sy_db s)\<lparr>sc_now := now\<rparr>\<rparr>)"

definition empty_sys :: "(provider_id, string) tbl \<Rightarrow> scan_sys" where
  "empty_sys providers =
     \<lparr>sy_db = \<lparr>sc_runs = [], sc_tasks = [], sc_providers = providers, sc_now = 0\<rparr>,
      sy_planner = Map.empty, sy_pending = Map.empty, sy_bus = {}, sy_working = {}, sy_lost = {}\<rparr>"

inductive reachable :: "(provider_id, string) tbl \<Rightarrow> scan_sys \<Rightarrow> bool" for providers where
  init: "reachable providers (empty_sys providers)"
| step: "reachable providers s \<Longrightarrow> scan_step s s' \<Longrightarrow> reachable providers s'"

section \<open>The invariant\<close>

text \<open>
  What the counters see of a task: its run, and once it has settled whether it counted as done.
\<close>

fun fate :: "task_state \<Rightarrow> bool option" where
  "fate task_state.Done = Some True"
| "fate task_state.Skipped = Some True"
| "fate task_state.Failed = Some False"
| "fate _ = None"

definition view :: "scan_db \<Rightarrow> task_id \<rightharpoonup> run_id \<times> bool option" where
  "view db t = map_option (\<lambda>k. (st_run k, fate (st_state k))) (task_of db t)"

definition in_run :: "(task_id \<rightharpoonup> run_id \<times> bool option) \<Rightarrow> run_id \<Rightarrow> task_id set" where
  "in_run v r = {t. \<exists>f. v t = Some (r, f)}"

definition fated :: "(task_id \<rightharpoonup> run_id \<times> bool option) \<Rightarrow> run_id \<Rightarrow> bool \<Rightarrow> task_id set" where
  "fated v r b = {t. v t = Some (r, Some b)}"

definition tallied ::
  "(task_id \<rightharpoonup> run_id \<times> bool option) \<Rightarrow> task_id set \<Rightarrow> task_id set \<Rightarrow> run_id \<Rightarrow> scan_run \<Rightarrow> bool" where
  "tallied v pend lost r row \<longleftrightarrow>
     sr_done row = int (card (fated v r True)) \<and> sr_failed row = int (card (fated v r False)) \<and>
     sr_total row + int (card (in_run v r \<inter> pend)) + int (card (in_run v r \<inter> lost)) = int (card (in_run v r))"

definition run_inv :: "scan_sys \<Rightarrow> run_id \<Rightarrow> scan_run \<Rightarrow> bool" where
  "run_inv s r row \<longleftrightarrow>
     (sy_planner s r = Some Opened \<or> sy_planner s r = Some Started \<longrightarrow>
        in_run (view (sy_db s)) r = {} \<and> sr_total row = 0 \<and> sr_done row = 0 \<and> sr_failed row = 0) \<and>
     (sy_planner s r = Some Inserted \<longrightarrow> sr_total row = 0 \<and>
        in_run (view (sy_db s)) r = batch s (Planner r) \<and> card (batch s (Planner r)) = 1) \<and>
     (run_active row \<longrightarrow>
        tallied (view (sy_db s)) (dom (sy_pending s)) (sy_lost s) r row \<and>
        (\<forall>t f. view (sy_db s) t = Some (r, f) \<longrightarrow> t \<in> dom (sy_pending s) \<union> sy_working s \<longrightarrow> f = None))"

definition owner_inv :: "scan_sys \<Rightarrow> task_id \<Rightarrow> owner \<Rightarrow> bool" where
  "owner_inv s t ow \<longleftrightarrow>
     (case ow of
        Planner r \<Rightarrow> sy_planner s r = Some Inserted \<and> (\<exists>f. view (sy_db s) t = Some (r, f))
      | Worker p \<Rightarrow> p \<in> sy_working s \<and>
          (\<exists>r f g. view (sy_db s) p = Some (r, f) \<and> view (sy_db s) t = Some (r, g))) \<and>
     t \<notin> sy_bus s \<and> t \<notin> sy_lost s"

definition scan_inv :: "scan_sys \<Rightarrow> bool" where
  "scan_inv s \<longleftrightarrow>
     (\<forall>t r f. view (sy_db s) t = Some (r, f) \<longrightarrow> run_of (sy_db s) r \<noteq> None) \<and>
     (\<forall>r. sy_planner s r \<noteq> None \<longrightarrow> run_of (sy_db s) r \<noteq> None) \<and>
     sy_working s \<subseteq> sy_bus s \<and> sy_bus s \<union> sy_lost s \<subseteq> dom (view (sy_db s)) \<and>
     (\<forall>t ow. sy_pending s t = Some ow \<longrightarrow> owner_inv s t ow) \<and>
     (\<forall>r row. run_of (sy_db s) r = Some row \<longrightarrow> run_inv s r row)"

section \<open>Facts about the view\<close>

lemma finite_view: "finite (dom (view db))"
proof -
  have "dom (view db) = dom (task_of db)" by (auto simp: view_def dom_def)
  then show ?thesis by (simp add: finite_dom_map_of)
qed

lemma finite_in_run [simp]: "finite (in_run (view db) r)"
  by (rule finite_subset [OF _ finite_view]) (auto simp: in_run_def)

lemma finite_fated [simp]: "finite (fated (view db) r b)"
  by (rule finite_subset [OF _ finite_view]) (auto simp: fated_def)

lemma fate_None: "fate st = None \<longleftrightarrow> \<not> task_settled st" "None = fate st \<longleftrightarrow> \<not> task_settled st"
  by (cases st; simp)+

section \<open>What a statement does to the view\<close>

lemma view_create_run: "create_run r p mode db = (Ok r', db') \<Longrightarrow> view db' = view db \<and> run_of db r = None \<and>
    run_of db' = (run_of db)(r \<mapsto> fresh_run p mode (sc_now db)) \<and> r' = r"
  by (auto simp: create_run_def view_def map_add_fresh split: if_splits)

lemma view_start_run: "view (start_run r db) = view db" "run_of (start_run r db) r' =
    (if r' = r then map_option (\<lambda>row. row\<lparr>sr_state := run_state.Running,
       sr_started_at := (case sr_started_at row of None \<Rightarrow> Some (sc_now db) | Some t \<Rightarrow> Some t)\<rparr>) (run_of db r')
     else run_of db r')"
  by (simp_all add: start_run_def view_def fun_eq_iff)

lemma view_finish_run: "view (finish_run r st db) = view db" "run_of (finish_run r st db) r' =
    (if r' = r then map_option (\<lambda>row. row\<lparr>sr_state := st, sr_finished_at := Some (sc_now db)\<rparr>) (run_of db r')
     else run_of db r')"
  by (simp_all add: finish_run_def view_def fun_eq_iff)

lemma view_create_task: "create_task t r kind target db = (Ok (Some t'), db') \<Longrightarrow>
    t' = t \<and> view db t = None \<and> view db' = (view db)(t \<mapsto> (r, None)) \<and> sc_runs db' = sc_runs db \<and> run_of db r \<noteq> None"
  by (auto simp: create_task_def view_def map_add_fresh fresh_task_def fun_eq_iff split: if_splits)

lemma view_create_task_none: "create_task t r kind target db = (Ok None, db') \<Longrightarrow> db' = db"
  by (auto simp: create_task_def split: if_splits)

lemma view_insert_tasks:
  "insert_tasks r kind rows db = Ok (out, db') \<Longrightarrow>
   sc_runs db' = sc_runs db \<and> (\<forall>t \<in> fst ` set out. view db t = None) \<and> (out \<noteq> [] \<longrightarrow> run_of db r \<noteq> None) \<and>
   view db' = (\<lambda>t. if t \<in> fst ` set out then Some (r, None) else view db t)"
proof (induction rows arbitrary: db out)
  case (Cons row rows)
  obtain t target where row: "row = (t, target)" by fastforce
  obtain c db1 where c: "create_task t r kind target db = (c, db1)" by fastforce
  with Cons.prems row obtain created where cr: "c = Ok created" by (cases c) auto
  obtain out' where rest: "insert_tasks r kind rows db1 = Ok (out', db')"
    and out: "out = (case created of None \<Rightarrow> out' | Some i \<Rightarrow> (i, target) # out')"
    using Cons.prems row c cr by (auto simp: bind_result_ok_iff)
  note ih = Cons.IH [OF rest]
  show ?case
  proof (cases created)
    case None
    then show ?thesis using ih out view_create_task_none [of t r kind target db db1] c cr by auto
  next
    case (Some i)
    then have new: "i = t" "view db t = None" "view db1 = (view db)(t \<mapsto> (r, None))" "sc_runs db1 = sc_runs db"
      "run_of db r \<noteq> None"
      using view_create_task [of t r kind target db i db1] c cr by auto
    have "view db' = (\<lambda>u. if u \<in> fst ` set out then Some (r, None) else view db u)"
      unfolding ih [THEN conjunct2, THEN conjunct2, THEN conjunct2] new(3) using out Some new(1) by (intro ext) simp
    moreover have "\<forall>u \<in> fst ` set out. view db u = None"
    proof
      fix u
      assume "u \<in> fst ` set out"
      then have "u = t \<or> view db1 u = None" using ih out Some new(1) by auto
      then show "view db u = None" using new(2,3) by (cases "u = t") simp_all
    qed
    ultimately show ?thesis using ih new(4,5) by simp
  qed
qed simp

lemma view_create_tasks:
  "create_tasks r kind rows db = (Ok out, db') \<Longrightarrow>
   sc_runs db' = sc_runs db \<and> (\<forall>t \<in> fst ` set out. view db t = None) \<and> (out \<noteq> [] \<longrightarrow> run_of db r \<noteq> None) \<and>
   view db' = (\<lambda>t. if t \<in> fst ` set out then Some (r, None) else view db t)"
  using view_insert_tasks by (auto simp: create_tasks_def split: sum.splits prod.splits)

lemma view_claim: "claim_task t w db = (Ok True, db') \<Longrightarrow>
    view db' = view db \<and> sc_runs db' = sc_runs db \<and> (\<exists>r. view db t = Some (r, None))"
  by (auto simp: claim_task_def view_def fun_eq_iff claimed_row_def fate_None option.map_comp comp_def
      split: option.splits if_splits sum.splits)

lemma view_stage: "view (set_task_stage t st pr de db) = view db" "sc_runs (set_task_stage t st pr de db) = sc_runs db"
  by (auto simp: set_task_stage_def view_def fun_eq_iff option.map_comp comp_def intro: option.map_cong)

lemma view_add_total: "add_total_tasks r d db = (Ok (), db') \<Longrightarrow> run_of db r = Some row \<Longrightarrow>
    view db' = view db \<and> run_of db' = (run_of db)(r \<mapsto> row\<lparr>sr_total := sr_total row + d\<rparr>)"
  by (auto simp: add_total_tasks_def view_def fun_eq_iff update_conv' int4_ok split: sum.splits)

lemma view_finalize: "finalize_if_complete r db = (Ok (Some row'), db') \<Longrightarrow>
    view db' = view db \<and> \<not> run_active row' \<and> run_of db' = (run_of db)(r \<mapsto> row') \<and>
    (\<exists>row. run_of db r = Some row \<and> sr_total row' = sr_total row \<and> sr_done row' = sr_done row \<and> sr_failed row' = sr_failed row \<and>
      sr_state row = run_state.Running \<and> 0 < sr_total row \<and> sr_total row \<le> sr_done row + sr_failed row)"
  by (auto simp: finalize_if_complete_def view_def fun_eq_iff update_conv' int4_ok Let_def run_active_def
      split: option.splits if_splits sum.splits)

lemma view_stop: "run_of db r = Some row \<Longrightarrow>
    (\<exists>row'. run_of (snd (stop_runs pick db)) r = Some row' \<and> sr_total row' = sr_total row \<and>
       sr_done row' = sr_done row \<and> sr_failed row' = sr_failed row \<and>
       (run_active row' \<longrightarrow> row' = row \<and> \<not> pick (r, row)))"
  by (auto simp: stop_runs_def Let_def map_of_map_rows run_active_def)

section \<open>Every step keeps the invariant\<close>

lemma scan_invD:
  assumes "scan_inv s"
  shows "view (sy_db s) t = Some (r, f) \<Longrightarrow> run_of (sy_db s) r \<noteq> None"
    and "sy_planner s r \<noteq> None \<Longrightarrow> run_of (sy_db s) r \<noteq> None"
    and "t \<in> sy_working s \<Longrightarrow> t \<in> sy_bus s"
    and "t \<in> sy_bus s \<Longrightarrow> view (sy_db s) t \<noteq> None"
    and "t \<in> sy_lost s \<Longrightarrow> view (sy_db s) t \<noteq> None"
    and "sy_pending s t = Some ow \<Longrightarrow> owner_inv s t ow"
    and "run_of (sy_db s) r = Some row \<Longrightarrow> run_inv s r row"
  using assms unfolding scan_inv_def by auto

text \<open>
  Two states agree on a run when the run's tasks, their owners and its planner are the same in
  both; then only the run's row matters.
\<close>

definition same_run :: "scan_sys \<Rightarrow> scan_sys \<Rightarrow> run_id \<Rightarrow> bool" where
  "same_run s s' r \<longleftrightarrow>
     (\<forall>t f. view (sy_db s') t = Some (r, f) \<longleftrightarrow> view (sy_db s) t = Some (r, f)) \<and>
     (sy_planner s' r = sy_planner s r \<or> sy_planner s' r = None) \<and> batch s' (Planner r) = batch s (Planner r) \<and>
     (\<forall>t f. view (sy_db s) t = Some (r, f) \<longrightarrow>
        (t \<in> dom (sy_pending s') \<longleftrightarrow> t \<in> dom (sy_pending s)) \<and> (t \<in> sy_lost s' \<longleftrightarrow> t \<in> sy_lost s) \<and>
        (t \<in> sy_working s' \<longrightarrow> t \<in> sy_working s \<or> f = None))"

lemma same_run_inv:
  assumes same: "same_run s s' r" and inv: "run_inv s r row"
    and counters: "sr_total row' = sr_total row" "sr_done row' = sr_done row" "sr_failed row' = sr_failed row"
    and act: "run_active row' \<Longrightarrow> run_active row"
  shows "run_inv s' r row'"
proof -
  have v: "view (sy_db s') t = Some (r, f) \<longleftrightarrow> view (sy_db s) t = Some (r, f)" for t f
    using same by (simp add: same_run_def)
  have sets: "in_run (view (sy_db s')) r = in_run (view (sy_db s)) r"
    "fated (view (sy_db s')) r b = fated (view (sy_db s)) r b" for b
    by (simp_all add: in_run_def fated_def v)
  have "in_run (view (sy_db s)) r \<inter> dom (sy_pending s') = in_run (view (sy_db s)) r \<inter> dom (sy_pending s)"
    "in_run (view (sy_db s)) r \<inter> sy_lost s' = in_run (view (sy_db s)) r \<inter> sy_lost s"
    using same unfolding same_run_def in_run_def by blast+
  then have tal: "tallied (view (sy_db s')) (dom (sy_pending s')) (sy_lost s') r row' =
      tallied (view (sy_db s)) (dom (sy_pending s)) (sy_lost s) r row"
    by (simp add: tallied_def sets counters)
  have quiet: "f = None" if "run_active row'" "view (sy_db s') t = Some (r, f)"
    "t \<in> dom (sy_pending s') \<union> sy_working s'" for t f
  proof -
    have vt: "view (sy_db s) t = Some (r, f)" using that(2) v by simp
    then have "t \<in> dom (sy_pending s) \<union> sy_working s \<or> f = None"
      using that(3) same unfolding same_run_def by blast
    then show ?thesis using inv act [OF that(1)] vt unfolding run_inv_def by blast
  qed
  have pl: "sy_planner s' r = sy_planner s r \<or> sy_planner s' r = None" "batch s' (Planner r) = batch s (Planner r)"
    using same by (simp_all add: same_run_def)
  show ?thesis
    unfolding run_inv_def tal sets pl(2) counters
    using inv act quiet pl(1) unfolding run_inv_def by fastforce
qed

lemma same_run_refl_db: "view db' = view (sy_db s) \<Longrightarrow> same_run s (s\<lparr>sy_db := db'\<rparr>) r"
  by (simp add: same_run_def batch_def)

text \<open>Steps that change run rows only.\<close>

lemma inv_rows:
  assumes inv: "scan_inv s" and view: "view db' = view (sy_db s)"
    and rows: "\<And>r. run_of (sy_db s) r \<noteq> None \<Longrightarrow> run_of db' r \<noteq> None"
    and row: "\<And>r row'. run_of db' r = Some row' \<Longrightarrow> \<exists>row. run_of (sy_db s) r = Some row \<and>
      sr_total row' = sr_total row \<and> sr_done row' = sr_done row \<and> sr_failed row' = sr_failed row \<and>
      (run_active row' \<longrightarrow> run_active row)"
  shows "scan_inv (s\<lparr>sy_db := db'\<rparr>)"
  unfolding scan_inv_def
proof (intro conjI allI impI)
  show "run_of (sy_db (s\<lparr>sy_db := db'\<rparr>)) r \<noteq> None" if "view (sy_db (s\<lparr>sy_db := db'\<rparr>)) t = Some (r, f)" for t r f
    using that rows scan_invD(1) [OF inv] by (simp add: view)
  show "run_of (sy_db (s\<lparr>sy_db := db'\<rparr>)) r \<noteq> None" if "sy_planner (s\<lparr>sy_db := db'\<rparr>) r \<noteq> None" for r
    using that rows scan_invD(2) [OF inv] by simp
  show "owner_inv (s\<lparr>sy_db := db'\<rparr>) t ow" if "sy_pending (s\<lparr>sy_db := db'\<rparr>) t = Some ow" for t ow
    using scan_invD(6) [OF inv, of t ow] that by (cases ow) (simp_all add: owner_inv_def view)
  show "run_inv (s\<lparr>sy_db := db'\<rparr>) r row'" if h: "run_of (sy_db (s\<lparr>sy_db := db'\<rparr>)) r = Some row'" for r row'
  proof -
    obtain row where "run_of (sy_db s) r = Some row" "sr_total row' = sr_total row"
      "sr_done row' = sr_done row" "sr_failed row' = sr_failed row" "run_active row' \<longrightarrow> run_active row"
      using row [of r row'] h by auto
    then show ?thesis
      using same_run_inv [OF same_run_refl_db [OF view] scan_invD(7) [OF inv]] by blast
  qed
qed (use inv in \<open>auto simp: scan_inv_def view\<close>)

lemma inv_stage: "scan_inv s \<Longrightarrow> scan_inv (s\<lparr>sy_db := set_task_stage t st pr de (sy_db s)\<rparr>)"
  by (rule inv_rows) (auto simp: view_stage)

lemma inv_finalize:
  assumes "scan_inv s" "finalize_if_complete r (sy_db s) = (Ok (Some row), db)"
  shows "scan_inv (s\<lparr>sy_db := db\<rparr>)"
  using view_finalize [OF assms(2)] by (intro inv_rows [OF assms(1)]) (auto split: if_splits)

lemma inv_abandon: "scan_inv s \<Longrightarrow> scan_inv (s\<lparr>sy_db := finish_run r run_state.Failed (sy_db s)\<rparr>)"
  by (rule inv_rows) (auto simp: view_finish_run run_active_def split: if_splits)

lemma inv_tick: "scan_inv s \<Longrightarrow> scan_inv (s\<lparr>sy_db := (sy_db s)\<lparr>sc_now := now\<rparr>\<rparr>)"
  by (rule inv_rows) (auto simp: view_def)


lemma run_inv_quiet:
  assumes "scan_inv s" "run_of (sy_db s) r = Some row" "run_active row" "view (sy_db s) t = Some (r, f)"
    "t \<in> dom (sy_pending s) \<or> t \<in> sy_working s"
  shows "f = None"
  using scan_invD(7) [OF assms(1,2)] assms(3-5) unfolding run_inv_def by blast

lemma working_planner:
  assumes inv: "scan_inv s" and p: "p \<in> sy_working s" "view (sy_db s) p = Some (r, f)"
  shows "sy_planner s r \<notin> {Some Opened, Some Started, Some Inserted}"
proof -
  obtain row where row: "run_of (sy_db s) r = Some row" using scan_invD(1) [OF inv p(2)] by blast
  have "p \<in> in_run (view (sy_db s)) r" using p(2) by (auto simp: in_run_def)
  moreover have "p \<notin> batch s (Planner r)"
    using scan_invD(6) [OF inv, of p] scan_invD(3) [OF inv p(1)] by (auto simp: batch_def owner_inv_def)
  ultimately show ?thesis using scan_invD(7) [OF inv row] by (auto simp: run_inv_def)
qed

lemma pending_known:
  assumes "scan_inv s" "sy_pending s t \<noteq> None"
  shows "view (sy_db s) t \<noteq> None" "t \<notin> sy_bus s" "t \<notin> sy_lost s"
proof -
  obtain ow where "owner_inv s t ow" using assms scan_invD(6) by blast
  then show "view (sy_db s) t \<noteq> None" "t \<notin> sy_bus s" "t \<notin> sy_lost s"
    by (auto simp: owner_inv_def split: owner.splits)
qed

lemma batch_run:
  assumes "scan_inv s" "t \<in> batch s ow"
  shows "case ow of Planner r \<Rightarrow> \<exists>f. view (sy_db s) t = Some (r, f)
    | Worker p \<Rightarrow> \<exists>r f g. view (sy_db s) p = Some (r, f) \<and> view (sy_db s) t = Some (r, g)"
  using scan_invD(6) [OF assms(1), of t ow] assms(2) by (auto simp: batch_def owner_inv_def split: owner.splits)

lemma batch_in_run:
  assumes "scan_inv s"
  shows "t \<in> batch s (Planner r) \<Longrightarrow> view (sy_db s) t = Some (r', f) \<Longrightarrow> r' = r"
    and "t \<in> batch s (Worker p) \<Longrightarrow> view (sy_db s) p = Some (r, g) \<Longrightarrow> view (sy_db s) t = Some (r', f) \<Longrightarrow> r' = r"
    and "batch s (Planner r) \<subseteq> in_run (view (sy_db s)) r"
    and "view (sy_db s) p = Some (r, g) \<Longrightarrow> batch s (Worker p) \<subseteq> in_run (view (sy_db s)) r"
  using batch_run [OF assms, of t "Planner r"] batch_run [OF assms, of t "Worker p"]
    batch_run [OF assms, of _ "Planner r"] batch_run [OF assms, of _ "Worker p"]
  by (auto simp: in_run_def)

lemma unknown_task:
  assumes "scan_inv s" "view (sy_db s) t = None"
  shows "t \<notin> sy_bus s" "t \<notin> sy_lost s" "t \<notin> sy_working s" "sy_pending s t = None"
  using scan_invD(3-5) [OF assms(1)] pending_known(1) [OF assms(1), of t] assms(2) by blast+

lemma empty_run_tallied:
  assumes "in_run v r = {}" "sr_total row = 0" "sr_done row = 0" "sr_failed row = 0"
  shows "tallied v pend lost r row"
proof -
  have "fated v r b = {}" for b using assms(1) by (auto simp: fated_def in_run_def)
  then show ?thesis using assms by (simp add: tallied_def)
qed

lemma inv_open:
  assumes inv: "scan_inv s" and c: "create_run r p mode (sy_db s) = (Ok r, db)"
  shows "scan_inv (s\<lparr>sy_db := db, sy_planner := (sy_planner s)(r \<mapsto> Opened)\<rparr>)" (is "scan_inv ?s")
proof -
  note e = view_create_run [OF c]
  have empty: "in_run (view (sy_db s)) r = {}" using scan_invD(1) [OF inv, of _ r] e by (fastforce simp: in_run_def)
  have pl: "sy_planner s r = None" using scan_invD(2) [OF inv] e by blast
  have fresh: "run_inv ?s r (fresh_run p mode (sc_now (sy_db s)))"
    using empty e by (auto simp: run_inv_def fresh_run_def in_run_def intro!: empty_run_tallied)
  have other: "run_inv ?s r' row" if "r' \<noteq> r" "run_of (sy_db s) r' = Some row" for r' row
    by (rule same_run_inv [OF _ scan_invD(7) [OF inv that(2)]])
      (use that e in \<open>auto simp: same_run_def batch_def\<close>)
  have own: "owner_inv ?s t ow" if "sy_pending s t = Some ow" for t ow
    using scan_invD(6) [OF inv that] e pl by (auto simp: owner_inv_def split: owner.splits)
  show ?thesis
    unfolding scan_inv_def using inv e fresh other own by (auto simp: scan_inv_def)
qed

lemma inv_start:
  assumes inv: "scan_inv s" and pc: "sy_planner s r = Some Opened"
  shows "scan_inv (s\<lparr>sy_db := start_run r (sy_db s), sy_planner := (sy_planner s)(r \<mapsto> Started)\<rparr>)" (is "scan_inv ?s")
proof -
  obtain row where row: "run_of (sy_db s) r = Some row" using scan_invD(2) [OF inv] pc by blast
  have u: "in_run (view (sy_db s)) r = {}" "sr_total row = 0" "sr_done row = 0" "sr_failed row = 0"
    using scan_invD(7) [OF inv row] pc by (auto simp: run_inv_def)
  have mine: "run_inv ?s r row'" if "run_of (sy_db ?s) r = Some row'" for row'
    using that row u
    by (auto simp: run_inv_def view_start_run in_run_def intro!: empty_run_tallied)
  have other: "run_inv ?s r' row'" if "r' \<noteq> r" "run_of (sy_db s) r' = Some row'" for r' row'
    by (rule same_run_inv [OF _ scan_invD(7) [OF inv that(2)]])
      (use that in \<open>auto simp: same_run_def batch_def view_start_run\<close>)
  have own: "owner_inv ?s t ow" if "sy_pending s t = Some ow" for t ow
    using scan_invD(6) [OF inv that] pc by (auto simp: owner_inv_def view_start_run split: owner.splits)
  have rows: "run_inv ?s r' row'" if "run_of (start_run r (sy_db s)) r' = Some row'" for r' row'
    using that mine other [of r' row'] by (cases "r' = r") (auto simp: view_start_run)
  show ?thesis
    unfolding scan_inv_def using inv own rows row by (auto simp: scan_inv_def view_start_run)
qed


lemma inv_plan_task:
  assumes inv: "scan_inv s" and pc: "sy_planner s r = Some Started"
    and c: "create_task t r kind target (sy_db s) = (Ok (Some t), db)"
  shows "scan_inv (s\<lparr>sy_db := db, sy_planner := (sy_planner s)(r \<mapsto> Inserted),
      sy_pending := (sy_pending s)(t \<mapsto> Planner r)\<rparr>)" (is "scan_inv ?s")
proof -
  have e: "view (sy_db s) t = None" "view db = (view (sy_db s))(t \<mapsto> (r, None))" "sc_runs db = sc_runs (sy_db s)"
    using view_create_task [OF c] by auto
  obtain row where row: "run_of (sy_db s) r = Some row" using scan_invD(2) [OF inv] pc by blast
  have u: "in_run (view (sy_db s)) r = {}" "sr_total row = 0" "sr_done row = 0" "sr_failed row = 0"
    using scan_invD(7) [OF inv row] pc by (auto simp: run_inv_def)
  have new: "t \<notin> sy_bus s" "t \<notin> sy_lost s" "sy_pending s t = None"
    using unknown_task [OF inv e(1)] by blast+
  have noown: "sy_pending s t' \<noteq> Some (Planner r)" for t'
    using scan_invD(6) [OF inv, of t' "Planner r"] pc by (auto simp: owner_inv_def)
  have in1: "in_run (view db) r = {t}" "fated (view db) r b = {}" for b
    using u(1) e(1) by (auto simp: in_run_def fated_def e(2) split: if_splits)
  have mine: "run_inv ?s r row"
    using in1 u new noown e(1)
    by (auto simp: run_inv_def tallied_def batch_def e(2) in_run_def split: if_splits)
  have other: "run_inv ?s r' row'" if "r' \<noteq> r" "run_of (sy_db s) r' = Some row'" for r' row'
    by (rule same_run_inv [OF _ scan_invD(7) [OF inv that(2)]])
      (use that e new in \<open>auto simp: same_run_def batch_def\<close>)
  have own: "owner_inv ?s t' ow" if "sy_pending ?s t' = Some ow" for t' ow
  proof (cases "t' = t")
    case True
    then show ?thesis using that new by (auto simp: owner_inv_def e(2))
  next
    case False
    then have o: "sy_pending s t' = Some ow" using that by simp
    then show ?thesis
      using scan_invD(6) [OF inv o] noown e(1) False
      by (auto simp: owner_inv_def e(2) split: owner.splits)
  qed
  have rows: "run_inv ?s r' row'" if "run_of (sy_db ?s) r' = Some row'" for r' row'
    using that mine other [of r' row'] row by (cases "r' = r") (auto simp: e(3))
  show ?thesis
    unfolding scan_inv_def using inv own rows row e by (auto simp: scan_inv_def)
qed

lemma drop_batch_iff: "drop_batch ow m t = Some ow' \<longleftrightarrow> m t = Some ow' \<and> ow' \<noteq> ow"
  by (auto simp: drop_batch_def)

lemma dom_drop_batch: "dom (drop_batch ow (sy_pending s)) = dom (sy_pending s) - batch s ow"
  by (auto simp: drop_batch_def batch_def dom_def split: if_splits)

lemma batch_drop [simp]:
  "batch (s\<lparr>sy_db := db, sy_planner := pl, sy_pending := drop_batch ow (sy_pending s)\<rparr>) ow' = (if ow' = ow then {} else batch s ow')"
  "batch (s\<lparr>sy_db := db, sy_pending := drop_batch ow (sy_pending s)\<rparr>) ow' = (if ow' = ow then {} else batch s ow')"
  "batch (s\<lparr>sy_pending := drop_batch ow (sy_pending s), sy_lost := lo\<rparr>) ow' = (if ow' = ow then {} else batch s ow')"
  "batch (s\<lparr>sy_db := db, sy_planner := pl, sy_pending := drop_batch ow (sy_pending s), sy_lost := lo\<rparr>) ow' =
     (if ow' = ow then {} else batch s ow')"
  by (auto simp: batch_def drop_batch_iff)

lemma inv_plan_count:
  assumes inv: "scan_inv s" and pc: "sy_planner s r = Some Inserted"
    and c: "add_total_tasks r 1 (sy_db s) = (Ok (), db)"
  shows "scan_inv (s\<lparr>sy_db := db, sy_planner := (sy_planner s)(r \<mapsto> Counted),
      sy_pending := drop_batch (Planner r) (sy_pending s)\<rparr>)" (is "scan_inv ?s")
proof -
  obtain row where row: "run_of (sy_db s) r = Some row" using scan_invD(2) [OF inv] pc by blast
  have e: "view db = view (sy_db s)" "run_of db = (run_of (sy_db s))(r \<mapsto> row\<lparr>sr_total := sr_total row + 1\<rparr>)"
    using view_add_total [OF c row] by auto
  note ri = scan_invD(7) [OF inv row]
  have u: "sr_total row = 0" "in_run (view (sy_db s)) r = batch s (Planner r)" "card (batch s (Planner r)) = 1"
    using ri pc by (auto simp: run_inv_def)
  have lost: "batch s (Planner r) \<inter> sy_lost s = {}"
    using pending_known(3) [OF inv] by (auto simp: batch_def)
  have "run_inv ?s r (row\<lparr>sr_total := sr_total row + 1\<rparr>)"
    using ri u lost
    by (auto simp: run_inv_def tallied_def dom_drop_batch e(1) run_active_def Int_Diff)
  moreover have "run_inv ?s r' row'" if "r' \<noteq> r" "run_of (sy_db s) r' = Some row'" for r' row'
    by (rule same_run_inv [OF _ scan_invD(7) [OF inv that(2)]])
      (use that batch_in_run(1) [OF inv] in \<open>auto simp: same_run_def dom_drop_batch e(1)\<close>)
  ultimately have rows: "run_inv ?s r' row'" if "run_of (sy_db ?s) r' = Some row'" for r' row'
    using that row by (cases "r' = r") (auto simp: e(2))
  have own: "owner_inv ?s t ow" if "sy_pending ?s t = Some ow" for t ow
  proof -
    have o: "sy_pending s t = Some ow" "ow \<noteq> Planner r" using that by (simp_all add: drop_batch_iff)
    then show ?thesis
      using scan_invD(6) [OF inv o(1)] by (auto simp: owner_inv_def e(1) split: owner.splits)
  qed
  show ?thesis
    unfolding scan_inv_def using inv own rows row e by (auto simp: scan_inv_def)
qed


lemma inv_plan_done:
  assumes inv: "scan_inv s" and pc: "sy_planner s r = Some Counted"
  shows "scan_inv (s\<lparr>sy_planner := (sy_planner s)(r := None)\<rparr>)" (is "scan_inv ?s")
proof -
  have rows: "run_inv ?s r' row'" if "run_of (sy_db s) r' = Some row'" for r' row'
    by (rule same_run_inv [OF _ scan_invD(7) [OF inv that]]) (auto simp: same_run_def batch_def)
  have own: "owner_inv ?s t ow" if "sy_pending s t = Some ow" for t ow
    using scan_invD(6) [OF inv that] pc by (auto simp: owner_inv_def split: owner.splits)
  show ?thesis unfolding scan_inv_def using inv own rows by (auto simp: scan_inv_def)
qed

lemma inv_plan_fail:
  assumes inv: "scan_inv s" and pc: "sy_planner s r = Some pc"
  shows "scan_inv (s\<lparr>sy_db := finish_run r run_state.Failed (sy_db s), sy_planner := (sy_planner s)(r := None),
      sy_pending := drop_batch (Planner r) (sy_pending s), sy_lost := sy_lost s \<union> batch s (Planner r)\<rparr>)" (is "scan_inv ?s")
proof -
  have mine: "run_inv ?s r row'" if "run_of (sy_db ?s) r = Some row'" for row'
    using that by (auto simp: run_inv_def view_finish_run run_active_def)
  have other: "run_inv ?s r' row'" if "r' \<noteq> r" "run_of (sy_db s) r' = Some row'" for r' row'
    by (rule same_run_inv [OF _ scan_invD(7) [OF inv that(2)]])
      (use that batch_in_run(1) [OF inv] in \<open>auto simp: same_run_def dom_drop_batch view_finish_run\<close>)
  have rows: "run_inv ?s r' row'" if "run_of (sy_db ?s) r' = Some row'" for r' row'
    using that mine other [of r' row'] by (cases "r' = r") (auto simp: view_finish_run)
  have own: "owner_inv ?s t ow" if "sy_pending ?s t = Some ow" for t ow
  proof -
    have o: "sy_pending s t = Some ow" "ow \<noteq> Planner r" using that by (simp_all add: drop_batch_iff)
    then show ?thesis
      using scan_invD(6) [OF inv o(1)] by (auto simp: owner_inv_def view_finish_run batch_def split: owner.splits)
  qed
  have "batch s (Planner r) \<subseteq> dom (view (sy_db s))"
    using batch_in_run(3) [OF inv, of r] by (auto simp: in_run_def)
  then show ?thesis
    unfolding scan_inv_def using inv own rows
    by (auto simp: scan_inv_def view_finish_run split: if_splits)
qed

lemma inv_publish:
  assumes inv: "scan_inv s" and t: "task_of (sy_db s) t \<noteq> None" "sy_pending s t = None"
  shows "scan_inv (s\<lparr>sy_bus := insert t (sy_bus s)\<rparr>)" (is "scan_inv ?s")
proof -
  have rows: "run_inv ?s r' row'" if "run_of (sy_db s) r' = Some row'" for r' row'
    by (rule same_run_inv [OF _ scan_invD(7) [OF inv that]]) (auto simp: same_run_def batch_def)
  have own: "owner_inv ?s t' ow" if "sy_pending s t' = Some ow" for t' ow
    using scan_invD(6) [OF inv that] that t(2) by (auto simp: owner_inv_def split: owner.splits)
  have "view (sy_db s) t \<noteq> None" using t(1) by (auto simp: view_def)
  then show ?thesis unfolding scan_inv_def using inv own rows by (auto simp: scan_inv_def)
qed

lemma inv_claim:
  assumes inv: "scan_inv s" and t: "t \<in> sy_bus s" and c: "claim_task t w (sy_db s) = (Ok True, db)"
  shows "scan_inv (s\<lparr>sy_db := db, sy_working := insert t (sy_working s)\<rparr>)" (is "scan_inv ?s")
proof -
  obtain r where e: "view db = view (sy_db s)" "sc_runs db = sc_runs (sy_db s)" "view (sy_db s) t = Some (r, None)"
    using view_claim [OF c] by blast
  have rows: "run_inv ?s r' row'" if "run_of (sy_db s) r' = Some row'" for r' row'
    by (rule same_run_inv [OF _ scan_invD(7) [OF inv that]]) (use e in \<open>auto simp: same_run_def batch_def\<close>)
  have own: "owner_inv ?s t' ow" if "sy_pending s t' = Some ow" for t' ow
    using scan_invD(6) [OF inv that] by (auto simp: owner_inv_def e split: owner.splits)
  show ?thesis unfolding scan_inv_def using inv own rows t by (auto simp: scan_inv_def e)
qed

lemma inv_release:
  assumes inv: "scan_inv s" and t: "batch s (Worker t) = {}"
  shows "scan_inv (s\<lparr>sy_working := sy_working s - {t}\<rparr>)" (is "scan_inv ?s")
proof -
  have rows: "run_inv ?s r' row'" if "run_of (sy_db s) r' = Some row'" for r' row'
    by (rule same_run_inv [OF _ scan_invD(7) [OF inv that]]) (auto simp: same_run_def batch_def)
  have own: "owner_inv ?s t' ow" if "sy_pending s t' = Some ow" for t' ow
    using scan_invD(6) [OF inv that] that t by (auto simp: owner_inv_def batch_def split: owner.splits)
  show ?thesis unfolding scan_inv_def using inv own rows by (auto simp: scan_inv_def)
qed


lemma inv_new_batch:
  assumes inv: "scan_inv s" and p: "p \<in> sy_working s" and vp: "view (sy_db s) p = Some (r, f)"
    and fresh: "\<And>t. t \<in> new \<Longrightarrow> view (sy_db s) t = None" and fin: "finite new"
    and e: "view db = (\<lambda>t. if t \<in> new then Some (r, None) else view (sy_db s) t)" "sc_runs db = sc_runs (sy_db s)"
  shows "scan_inv (s\<lparr>sy_db := db, sy_pending := (\<lambda>t. if t \<in> new then Some (Worker p) else sy_pending s t)\<rparr>)" (is "scan_inv ?s")
proof -
  note unk = unknown_task [OF inv fresh]
  obtain row where row: "run_of (sy_db s) r = Some row" using scan_invD(1) [OF inv vp] by blast
  note pl = working_planner [OF inv p vp]
  let ?v = "view (sy_db s)"
  have sets: "in_run (view db) r = in_run ?v r \<union> new" "fated (view db) r b = fated ?v r b"
    "in_run ?v r \<inter> new = {}" for b
    using fresh by (auto simp: in_run_def fated_def e(1))
  have "(in_run ?v r \<union> new) \<inter> dom (sy_pending ?s) = (in_run ?v r \<inter> dom (sy_pending s)) \<union> new"
    "(in_run ?v r \<union> new) \<inter> sy_lost s = in_run ?v r \<inter> sy_lost s"
    using unk(2,4) fresh by (auto split: if_splits)
  moreover have "card (in_run ?v r \<union> new) = card (in_run ?v r) + card new"
    "card ((in_run ?v r \<inter> dom (sy_pending s)) \<union> new) = card (in_run ?v r \<inter> dom (sy_pending s)) + card new"
    using sets(3) fin by (auto intro!: card_Un_disjoint)
  ultimately have "tallied (view db) (dom (sy_pending ?s)) (sy_lost s) r row \<longleftrightarrow>
      tallied ?v (dom (sy_pending s)) (sy_lost s) r row"
    unfolding tallied_def sets by (simp add: add.assoc)
  moreover have "g = None" if "run_active row" "view db t = Some (r, g)" "t \<in> dom (sy_pending ?s) \<union> sy_working s" for t g
  proof (cases "t \<in> new")
    case True
    then show ?thesis using that(2) by (simp add: e(1))
  next
    case False
    then have "view (sy_db s) t = Some (r, g)" "t \<in> dom (sy_pending s) \<or> t \<in> sy_working s"
      using that(2,3) by (auto simp: e(1) split: if_splits)
    then show ?thesis using run_inv_quiet [OF inv row that(1)] by blast
  qed
  ultimately have mine: "run_inv ?s r row"
    using scan_invD(7) [OF inv row] pl by (auto simp: run_inv_def)
  have other: "run_inv ?s r' row'" if "r' \<noteq> r" "run_of (sy_db s) r' = Some row'" for r' row'
    by (rule same_run_inv [OF _ scan_invD(7) [OF inv that(2)]])
      (use that unk(4) fresh in \<open>auto simp: same_run_def batch_def e(1) split: if_splits\<close>)
  have rows: "run_inv ?s r' row'" if "run_of (sy_db ?s) r' = Some row'" for r' row'
    using that mine other [of r' row'] row by (cases "r' = r") (auto simp: e(2))
  have own: "owner_inv ?s t ow" if "sy_pending ?s t = Some ow" for t ow
  proof (cases "t \<in> new")
    case True
    then show ?thesis using that p vp unk(1,2) fresh [of p]
      by (auto simp: owner_inv_def e(1))
  next
    case False
    then have o: "sy_pending s t = Some ow" using that by simp
    then show ?thesis
      using scan_invD(6) [OF inv o] False fresh
      by (auto simp: owner_inv_def e(1) split: owner.splits)
  qed
  have "run_of db r' \<noteq> None" if "view db t = Some (r', g)" for t r' g
    using that row scan_invD(1) [OF inv] by (auto simp: e split: if_splits)
  then show ?thesis
    unfolding scan_inv_def using inv own rows by (auto simp: scan_inv_def e(2)) (auto simp: e(1))
qed


lemma inv_fan_out:
  assumes inv: "scan_inv s" and p: "p \<in> sy_working s" "task_of (sy_db s) p = Some k"
    and c: "create_tasks (st_run k) kind rows (sy_db s) = (Ok out, db)"
  shows "scan_inv (s\<lparr>sy_db := db,
      sy_pending := (\<lambda>t. if t \<in> fst ` set out then Some (Worker p) else sy_pending s t)\<rparr>)"
proof -
  have "view (sy_db s) p = Some (st_run k, fate (st_state k))" using p(2) by (simp add: view_def)
  then show ?thesis using view_create_tasks [OF c] by (intro inv_new_batch [OF inv p(1)]) auto
qed

text \<open>A batch leaves the pending rows, counted or lost.\<close>

lemma card_batch:
  assumes "scan_inv s" "view (sy_db s) p = Some (r, f)"
  shows "card (in_run (view (sy_db s)) r \<inter> (dom (sy_pending s) - batch s (Worker p))) + card (batch s (Worker p)) =
      card (in_run (view (sy_db s)) r \<inter> dom (sy_pending s))"
proof -
  let ?B = "batch s (Worker p)" and ?P = "in_run (view (sy_db s)) r \<inter> dom (sy_pending s)"
  have "?B \<subseteq> ?P" using batch_in_run(4) [OF assms] by (auto simp: batch_def)
  then have "card (?P - ?B) + card ?B = card ?P"
    by (metis card_Diff_subset card_mono finite_Int finite_in_run finite_subset le_add_diff_inverse2)
  moreover have "in_run (view (sy_db s)) r \<inter> (dom (sy_pending s) - ?B) = ?P - ?B" by blast
  ultimately show ?thesis by simp
qed

lemma inv_count:
  assumes inv: "scan_inv s" and p: "p \<in> sy_working s" "task_of (sy_db s) p = Some k"
    and c: "add_total_tasks (st_run k) (int (card (batch s (Worker p)))) (sy_db s) = (Ok (), db)"
  shows "scan_inv (s\<lparr>sy_db := db, sy_pending := drop_batch (Worker p) (sy_pending s)\<rparr>)" (is "scan_inv ?s")
proof -
  define r where "r = st_run k"
  obtain f where vp: "view (sy_db s) p = Some (r, f)" using p(2) by (simp add: view_def r_def)
  obtain row where row: "run_of (sy_db s) r = Some row" using scan_invD(1) [OF inv vp] by blast
  define row1 where "row1 = row\<lparr>sr_total := sr_total row + int (card (batch s (Worker p)))\<rparr>"
  have e: "view db = view (sy_db s)" "run_of db = (run_of (sy_db s))(r \<mapsto> row1)"
    using view_add_total [OF c [folded r_def] row] by (simp_all add: row1_def)
  have tal: "tallied (view db) (dom (sy_pending ?s)) (sy_lost s) r row1 \<longleftrightarrow>
      tallied (view (sy_db s)) (dom (sy_pending s)) (sy_lost s) r row"
    using card_batch [OF inv vp] by (auto simp: tallied_def dom_drop_batch e(1) row1_def)
  have mine: "run_inv ?s r row1"
    using scan_invD(7) [OF inv row] working_planner [OF inv p(1) vp] tal
    by (auto simp: run_inv_def e(1) row1_def run_active_def drop_batch_iff dom_drop_batch)
  have other: "run_inv ?s r' row'" if "r' \<noteq> r" "run_of (sy_db s) r' = Some row'" for r' row'
    by (rule same_run_inv [OF _ scan_invD(7) [OF inv that(2)]])
      (use that batch_in_run(2) [OF inv _ vp] in \<open>auto simp: same_run_def dom_drop_batch e(1)\<close>)
  have rows: "run_inv ?s r' row'" if "run_of (sy_db ?s) r' = Some row'" for r' row'
    using that mine other [of r' row'] by (cases "r' = r") (auto simp: e(2))
  have own: "owner_inv ?s t ow" if "sy_pending ?s t = Some ow" for t ow
  proof -
    have o: "sy_pending s t = Some ow" using that by (simp add: drop_batch_iff)
    then show ?thesis using scan_invD(6) [OF inv o] by (auto simp: owner_inv_def e(1) split: owner.splits)
  qed
  show ?thesis unfolding scan_inv_def using inv own rows by (auto simp: scan_inv_def e)
qed

lemma inv_lose:
  assumes inv: "scan_inv s" and p: "p \<in> sy_working s"
  shows "scan_inv (s\<lparr>sy_pending := drop_batch (Worker p) (sy_pending s), sy_lost := sy_lost s \<union> batch s (Worker p)\<rparr>)"
    (is "scan_inv ?s")
proof -
  obtain r f where vp: "view (sy_db s) p = Some (r, f)" using scan_invD(3,4) [OF inv] p by fastforce
  let ?v = "view (sy_db s)" and ?B = "batch s (Worker p)"
  have B: "?B \<subseteq> in_run ?v r" "?B \<inter> sy_lost s = {}"
    using batch_in_run(4) [OF inv vp] pending_known(3) [OF inv] by (auto simp: batch_def)
  have "in_run ?v r \<inter> (sy_lost s \<union> ?B) = (in_run ?v r \<inter> sy_lost s) \<union> ?B" using B(1) by blast
  then have "card (in_run ?v r \<inter> (sy_lost s \<union> ?B)) = card (in_run ?v r \<inter> sy_lost s) + card ?B"
    using B(2) finite_subset [OF B(1)] by (simp add: card_Un_disjoint Int_assoc inf_commute [of "sy_lost s"])
  then have tal: "tallied ?v (dom (sy_pending ?s)) (sy_lost ?s) r row \<longleftrightarrow> tallied ?v (dom (sy_pending s)) (sy_lost s) r row" for row
    using card_batch [OF inv vp] by (auto simp: tallied_def dom_drop_batch)
  have mine: "run_inv ?s r row" if "run_of (sy_db s) r = Some row" for row
    using scan_invD(7) [OF inv that] working_planner [OF inv p vp] tal
    by (auto simp: run_inv_def dom_drop_batch drop_batch_iff)
  have other: "run_inv ?s r' row'" if "r' \<noteq> r" "run_of (sy_db s) r' = Some row'" for r' row'
    by (rule same_run_inv [OF _ scan_invD(7) [OF inv that(2)]])
      (use that batch_in_run(2) [OF inv _ vp] in \<open>auto simp: same_run_def dom_drop_batch\<close>)
  have rows: "run_inv ?s r' row'" if "run_of (sy_db ?s) r' = Some row'" for r' row'
    using that mine other [of r' row'] by (cases "r' = r") auto
  have own: "owner_inv ?s t ow" if "sy_pending ?s t = Some ow" for t ow
  proof -
    have o: "sy_pending s t = Some ow" "t \<notin> ?B" using that by (auto simp: drop_batch_iff batch_def)
    then show ?thesis using scan_invD(6) [OF inv o(1)] by (auto simp: owner_inv_def split: owner.splits)
  qed
  have "?B \<subseteq> dom ?v" using B(1) by (auto simp: in_run_def)
  then show ?thesis unfolding scan_inv_def using inv own rows by (auto simp: scan_inv_def)
qed


context settling
begin

lemma fate_outcome: "fate outcome = Some (\<not> as_failed)"
  using settles counted by (cases outcome) auto

lemma inv_settle:
  assumes inv: "scan_inv s" and t: "t \<in> sy_working s" "batch s (Worker t) = {}"
    and op: "op t (sy_db s) = (Ok (), db)"
  shows "scan_inv (s\<lparr>sy_db := db, sy_working := sy_working s - {t}\<rparr>)" (is "scan_inv ?s")
proof -
  obtain k where k: "task_of (sy_db s) t = Some k" using scan_invD(3,4) [OF inv] t(1) by (fastforce simp: view_def)
  define r where "r = st_run k"
  have vt: "view (sy_db s) t = Some (r, fate (st_state k))" by (simp add: view_def k r_def)
  obtain row where row: "run_of (sy_db s) r = Some row" using scan_invD(1) [OF inv vt] by blast
  show ?thesis
  proof (cases "task_settled (st_state k)")
    case True
    then have "db = sy_db s" using op op_noop [of "sy_db s" t] k by simp
    then show ?thesis using inv_release [OF inv t(2)] by simp
  next
    case False
    define row1 where "row1 = (if as_failed then row\<lparr>sr_failed := sr_failed row + 1\<rparr> else row\<lparr>sr_done := sr_done row + 1\<rparr>)"
    obtain k' where k': "st_run k' = r" "st_state k' = outcome" "task_of db = (task_of (sy_db s))(t \<mapsto> k')"
      and runs: "run_of db = (run_of (sy_db s))(r \<mapsto> row1)"
      using op_ok [OF op k False row [unfolded r_def]] by (auto simp: r_def row1_def)
    have v: "view db = (view (sy_db s))(t \<mapsto> (r, Some (\<not> as_failed)))"
      by (rule ext) (simp add: view_def k' fate_outcome)
    have v0: "view (sy_db s) t = Some (r, None)" using vt False by (simp add: fate_None)
    have sets: "in_run (view db) r = in_run (view (sy_db s)) r"
      "fated (view db) r b = (if b = (\<not> as_failed) then insert t (fated (view (sy_db s)) r b) else fated (view (sy_db s)) r b)"
      "t \<notin> fated (view (sy_db s)) r b" for b
      using v0 by (auto simp: in_run_def fated_def v)
    have tal: "tallied (view db) pend lost r row1 \<longleftrightarrow> tallied (view (sy_db s)) pend lost r row" for pend lost
      using sets by (cases as_failed) (auto simp: tallied_def row1_def)
    have "t \<notin> dom (sy_pending s)" using pending_known(2) [OF inv, of t] scan_invD(3) [OF inv t(1)] by blast
    then have mine: "run_inv ?s r row1"
      using scan_invD(7) [OF inv row] working_planner [OF inv t(1) vt] tal
      by (auto simp: run_inv_def v row1_def run_active_def split: if_splits)
    have other: "run_inv ?s r' row'" if "r' \<noteq> r" "run_of (sy_db s) r' = Some row'" for r' row'
      by (rule same_run_inv [OF _ scan_invD(7) [OF inv that(2)]])
        (use that v0 in \<open>auto simp: same_run_def batch_def v\<close>)
    have rows: "run_inv ?s r' row'" if "run_of (sy_db ?s) r' = Some row'" for r' row'
      using that mine other [of r' row'] by (cases "r' = r") (auto simp: runs)
    have own: "owner_inv ?s t' ow" if "sy_pending s t' = Some ow" for t' ow
      using scan_invD(6) [OF inv that] that t(2) v0
      by (auto simp: owner_inv_def batch_def v split: owner.splits)
    show ?thesis
      unfolding scan_inv_def using inv own rows row v0 by (auto simp: scan_inv_def v runs)
  qed
qed

end

lemma view_stop_runs:
  "view (snd (stop_runs pick db)) t =
     (case view db t of
        None \<Rightarrow> None
      | Some (r, f) \<Rightarrow>
          Some (r, if (case run_of db r of None \<Rightarrow> False | Some row \<Rightarrow> run_active row \<and> pick (r, row)) \<and> f = None
                   then Some True else f))"
  by (auto simp: stop_runs_def Let_def view_def map_of_map_rows' fate_None split: option.split)

lemma inv_cancel:
  assumes inv: "scan_inv s"
  shows "scan_inv (s\<lparr>sy_db := snd (stop_runs pick (sy_db s))\<rparr>)" (is "scan_inv ?s")
proof -
  let ?db = "snd (stop_runs pick (sy_db s))"
  note v = view_stop_runs [of pick "sy_db s"]
  have some: "(\<exists>f. view ?db t = Some (r, f)) \<longleftrightarrow> (\<exists>f. view (sy_db s) t = Some (r, f))" for t r
    by (auto simp: v split: option.splits)
  have dom: "dom (view ?db) = dom (view (sy_db s))" by (auto simp: v dom_def split: option.splits)
  have inr: "in_run (view ?db) r = in_run (view (sy_db s)) r" for r unfolding in_run_def some ..
  have rows: "run_inv ?s r row'" if r': "run_of ?db r = Some row'" for r row'
  proof -
    obtain row where row: "run_of (sy_db s) r = Some row"
      using r' by (auto simp: stop_runs_def Let_def map_of_map_rows)
    have c: "sr_total row' = sr_total row" "sr_done row' = sr_done row" "sr_failed row' = sr_failed row"
      and act: "run_active row' \<Longrightarrow> row' = row \<and> \<not> pick (r, row)"
      using view_stop [OF row, of pick] r' by auto
    show ?thesis
    proof (cases "run_active row'")
      case True
      then have "same_run s ?s r" using act row
        by (auto simp: same_run_def batch_def v split: option.splits if_splits)
      then show ?thesis using same_run_inv [OF _ scan_invD(7) [OF inv row]] c act by blast
    next
      case False
      then show ?thesis using scan_invD(7) [OF inv row] c by (auto simp: run_inv_def inr batch_def)
    qed
  qed
  have own: "owner_inv ?s t ow" if o: "sy_pending s t = Some ow" for t ow
    using scan_invD(6) [OF inv o] by (cases ow) (auto simp: owner_inv_def, (metis some)+)
  have runs: "run_of ?db r \<noteq> None \<longleftrightarrow> run_of (sy_db s) r \<noteq> None" for r
    by (simp add: stop_runs_def Let_def map_of_map_rows)
  have known: "run_of ?db r \<noteq> None" if "view ?db t = Some (r, f)" for t r f
    using that scan_invD(1) [OF inv] some runs by blast
  show ?thesis
    unfolding scan_inv_def using inv own rows known runs dom by (auto simp: scan_inv_def)
qed

lemma scan_step_inv: "scan_step s s' \<Longrightarrow> scan_inv s \<Longrightarrow> scan_inv s'"
proof (induction rule: scan_step.induct)
  case (complete t s oc db)
  then show ?case by (intro complete.inv_settle)
next
  case (fail t s e oc db)
  then show ?case by (intro failing.inv_settle)
next
  case (fan_out p s k kind rows out db)
  then show ?case by (intro inv_fan_out)
next
  case (cancel s pick)
  then show ?case by (rule inv_cancel)
qed (blast intro: inv_open inv_start inv_plan_task inv_plan_count inv_plan_done inv_plan_fail inv_publish
    inv_claim inv_stage inv_count inv_lose inv_release inv_finalize inv_abandon inv_tick)+

lemma empty_inv: "scan_inv (empty_sys providers)"
  by (simp add: scan_inv_def empty_sys_def view_def)

lemma reachable_inv: "reachable providers s \<Longrightarrow> scan_inv s"
  by (induction rule: reachable.induct) (auto intro: empty_inv scan_step_inv)

section \<open>What the pipeline promises\<close>

definition run_task_ids :: "scan_db \<Rightarrow> run_id \<Rightarrow> (task_state \<Rightarrow> bool) \<Rightarrow> task_id set" where
  "run_task_ids db r P = {t. \<exists>k. task_of db t = Some k \<and> st_run k = r \<and> P (st_state k)}"

lemma run_task_ids_view:
  "run_task_ids db r (\<lambda>_. True) = in_run (view db) r"
  "run_task_ids db r (\<lambda>st. st = task_state.Failed) = fated (view db) r False"
  "run_task_ids db r (\<lambda>st. st = task_state.Done \<or> st = task_state.Skipped) = fated (view db) r True"
proof -
  have f: "fate st = Some False \<longleftrightarrow> st = task_state.Failed"
    "fate st = Some True \<longleftrightarrow> st = task_state.Done \<or> st = task_state.Skipped" for st
    by (cases st; simp)+
  show "run_task_ids db r (\<lambda>_. True) = in_run (view db) r"
    "run_task_ids db r (\<lambda>st. st = task_state.Failed) = fated (view db) r False"
    "run_task_ids db r (\<lambda>st. st = task_state.Done \<or> st = task_state.Skipped) = fated (view db) r True"
    by (auto simp: run_task_ids_def in_run_def fated_def view_def f)
qed

lemma fated_split:
  "fated v r b \<subseteq> in_run v r" "fated v r True \<inter> fated v r False = {}"
  by (auto simp: fated_def in_run_def)

lemma active_tallied:
  assumes "scan_inv s" "run_of (sy_db s) r = Some row" "run_active row"
  shows "tallied (view (sy_db s)) (dom (sy_pending s)) (sy_lost s) r row"
  using scan_invD(7) [OF assms(1,2)] assms(3) by (simp add: run_inv_def)

lemma card_fated:
  "card (fated (view db) r True \<union> fated (view db) r False) = card (fated (view db) r True) + card (fated (view db) r False)"
  by (simp add: card_Un_disjoint fated_split)

text \<open>While a batch is uncounted the run cannot have settled up to its total.\<close>

lemma pending_keeps_open:
  assumes inv: "scan_inv s" and row: "run_of (sy_db s) r = Some row" "run_active row"
    and lost: "in_run (view (sy_db s)) r \<inter> sy_lost s = {}"
    and t: "t \<in> in_run (view (sy_db s)) r" "sy_pending s t = Some ow" and pos: "0 < sr_total row"
  shows "sr_done row + sr_failed row < sr_total row"
proof -
  let ?v = "view (sy_db s)" and ?N = "in_run (view (sy_db s)) r" and ?P = "in_run (view (sy_db s)) r \<inter> dom (sy_pending s)"
  note tal = active_tallied [OF inv row]
  note quiet = run_inv_quiet [OF inv row]
  obtain f where vt: "?v t = Some (r, f)" using t(1) by (auto simp: in_run_def)
  obtain p where p: "ow = Worker p"
  proof (cases ow)
    case (Planner q)
    then have "q = r" "sy_planner s q = Some Inserted"
      using scan_invD(6) [OF inv t(2)] vt by (auto simp: owner_inv_def)
    then show thesis using scan_invD(7) [OF inv row(1)] pos by (auto simp: run_inv_def)
  qed blast
  then have pw: "p \<in> sy_working s" and pv: "\<exists>f. ?v p = Some (r, f)"
    using scan_invD(6) [OF inv t(2)] vt by (auto simp: owner_inv_def)
  have "p \<notin> dom (sy_pending s)" using pending_known(2) [OF inv, of p] scan_invD(3) [OF inv pw] by blast
  moreover have "p \<in> ?N" using pv by (auto simp: in_run_def)
  moreover have "?v p = Some (r, None)" using pv quiet pw by blast
  ultimately have sub: "fated ?v r True \<union> fated ?v r False \<subseteq> ?N - ?P - {p}"
    using quiet by (fastforce simp: fated_def in_run_def)
  have "card (fated ?v r True \<union> fated ?v r False) \<le> card (?N - ?P - {p})"
    by (rule card_mono [OF _ sub]) simp
  also have "\<dots> < card (?N - ?P)"
    using \<open>p \<in> ?N\<close> \<open>p \<notin> dom (sy_pending s)\<close> by (intro card_Diff1_less) auto
  also have "\<dots> = card ?N - card ?P" by (simp add: card_Diff_subset)
  finally have "card (fated ?v r True) + card (fated ?v r False) + card ?P < card ?N" by (simp add: card_fated)
  then show ?thesis using tal lost by (simp add: tallied_def)
qed

lemma fated_all:
  assumes "in_run (view db) r = fated (view db) r True \<union> fated (view db) r False"
    and "task_of db t = Some k" "st_run k = r"
  shows "task_settled (st_state k)"
proof -
  have "view db t = Some (r, fate (st_state k))" using assms(2,3) by (simp add: view_def)
  moreover have "t \<in> fated (view db) r True \<union> fated (view db) r False"
    using assms(1) calculation by (auto simp: in_run_def)
  ultimately have "fate (st_state k) \<noteq> None" by (auto simp: fated_def)
  then show ?thesis by (simp add: fate_None)
qed

lemma finalized_settled:
  assumes inv: "scan_inv s"
    and "finalize_if_complete r (sy_db s) = (Ok (Some row), db)"
    and "run_task_ids (sy_db s) r (\<lambda>_. True) \<inter> sy_lost s = {}"
  shows "(\<forall>t k. task_of (sy_db s) t = Some k \<and> st_run k = r \<longrightarrow> task_settled (st_state k)) \<and>
    sr_total row = int (card (run_task_ids (sy_db s) r (\<lambda>_. True))) \<and>
    (sr_state row = run_state.Failed \<longleftrightarrow>
       run_task_ids (sy_db s) r (\<lambda>_. True) = run_task_ids (sy_db s) r (\<lambda>st. st = task_state.Failed))"
proof -
  let ?v = "view (sy_db s)"
  have lost: "in_run ?v r \<inter> sy_lost s = {}" using assms(3) by (simp add: run_task_ids_view)
  obtain row0 where r0: "run_of (sy_db s) r = Some row0" "run_active row0" "0 < sr_total row0"
    "sr_total row0 \<le> sr_done row0 + sr_failed row0" "sr_total row = sr_total row0"
    using view_finalize [OF assms(2)] by (auto simp: run_active_def)
  have state: "sr_state row = (if sr_done row0 = 0 \<and> 0 < sr_failed row0 then run_state.Failed else run_state.Completed)"
    using assms(2) r0(1) by (auto simp: finalize_if_complete_def Let_def split: if_splits sum.splits)
  note tal = active_tallied [OF inv r0(1,2)]
  have none: "in_run ?v r \<inter> dom (sy_pending s) = {}"
    using pending_keeps_open [OF inv r0(1,2) lost _ _ r0(3)] r0(4) by fastforce
  then have total_n: "sr_total row0 = int (card (in_run ?v r))" using tal lost by (simp add: tallied_def)
  have "card (in_run ?v r) \<le> card (fated ?v r True \<union> fated ?v r False)"
    using tal total_n r0(4) by (simp add: tallied_def card_fated)
  then have all: "in_run ?v r = fated ?v r True \<union> fated ?v r False"
    using fated_split(1) [of ?v r] by (metis Un_subset_iff card_seteq finite_in_run)
  have "sr_state row = run_state.Failed \<longleftrightarrow> in_run ?v r = fated ?v r False"
  proof -
    have "fated ?v r True = {} \<longleftrightarrow> sr_done row0 = 0" using tal by (simp add: tallied_def)
    moreover have "sr_done row0 = 0 \<Longrightarrow> 0 < sr_failed row0" using r0(3,4) by linarith
    ultimately show ?thesis using state all fated_split(2) [of ?v r] by auto
  qed
  moreover have "\<forall>t k. task_of (sy_db s) t = Some k \<and> st_run k = r \<longrightarrow> task_settled (st_state k)"
    using fated_all [OF all] by blast
  ultimately show ?thesis using total_n r0(5) by (simp add: run_task_ids_view)
qed

text \<open>When the finalising statement succeeds, the tasks that have not settled are no more than those
  that were inserted but not counted into the total.\<close>

lemma finalized_shortfall:
  assumes inv: "scan_inv s" and fin: "finalize_if_complete r (sy_db s) = (Ok (Some row), db)"
  shows "sr_total row + int (card (run_task_ids (sy_db s) r (\<lambda>_. True) \<inter> dom (sy_pending s))) +
      int (card (run_task_ids (sy_db s) r (\<lambda>_. True) \<inter> sy_lost s)) = int (card (run_task_ids (sy_db s) r (\<lambda>_. True)))"
    and "card (run_task_ids (sy_db s) r (\<lambda>st. \<not> task_settled st)) \<le>
      card (run_task_ids (sy_db s) r (\<lambda>_. True) \<inter> dom (sy_pending s)) +
      card (run_task_ids (sy_db s) r (\<lambda>_. True) \<inter> sy_lost s)"
proof -
  let ?v = "view (sy_db s)" and ?F = "fated (view (sy_db s)) r True \<union> fated (view (sy_db s)) r False"
  obtain row0 where r0: "run_of (sy_db s) r = Some row0" "run_active row0"
    "sr_total row0 \<le> sr_done row0 + sr_failed row0" "sr_total row = sr_total row0"
    using view_finalize [OF fin] by (auto simp: run_active_def)
  note tal = active_tallied [OF inv r0(1,2)]
  show total: "sr_total row + int (card (run_task_ids (sy_db s) r (\<lambda>_. True) \<inter> dom (sy_pending s))) +
      int (card (run_task_ids (sy_db s) r (\<lambda>_. True) \<inter> sy_lost s)) = int (card (run_task_ids (sy_db s) r (\<lambda>_. True)))"
    using tal r0(4) by (simp add: tallied_def run_task_ids_view)
  have open_tasks: "run_task_ids (sy_db s) r (\<lambda>st. \<not> task_settled st) = in_run ?v r - ?F"
  proof -
    have f: "fate st \<noteq> None \<longleftrightarrow> task_settled st" for st by (simp add: fate_None)
    show ?thesis by (auto simp: run_task_ids_def in_run_def fated_def view_def f [symmetric])
  qed
  have sub: "?F \<subseteq> in_run ?v r" by (simp add: fated_split)
  then have "card (in_run ?v r - ?F) = card (in_run ?v r) - card ?F"
    by (intro card_Diff_subset finite_subset [OF sub finite_in_run])
  moreover have "sr_total row0 \<le> int (card ?F)" using tal r0(3) by (simp add: tallied_def card_fated)
  ultimately show "card (run_task_ids (sy_db s) r (\<lambda>st. \<not> task_settled st)) \<le>
      card (run_task_ids (sy_db s) r (\<lambda>_. True) \<inter> dom (sy_pending s)) +
      card (run_task_ids (sy_db s) r (\<lambda>_. True) \<inter> sy_lost s)"
    using total r0(4) by (simp add: open_tasks run_task_ids_view)
qed

text \<open>C2: a run is finalised only when the work that was counted is over. In every state the interleaved
  planners, workers, operators and repairs can reach, if the finalising statement succeeds on a run,
  then its total falls short of the number of its tasks by exactly those inserted and not (yet)
  counted, and the tasks that have not settled are no more than these. So if no batch of the run was
  lost between its insert and its count, every task of the run has settled, the total is the number
  of its tasks, and the run is recorded as failed exactly when every task failed. When a batch was
  lost the run can be finalised with tasks still queued (\<open>uncounted_batch_finalizes_early\<close>).
\<close>
theorem finalize_only_when_settled:
  assumes "reachable providers s"
    and "finalize_if_complete r (sy_db s) = (Ok (Some row), db)"
  shows "sr_total row + int (card (run_task_ids (sy_db s) r (\<lambda>_. True) \<inter> dom (sy_pending s))) +
      int (card (run_task_ids (sy_db s) r (\<lambda>_. True) \<inter> sy_lost s)) = int (card (run_task_ids (sy_db s) r (\<lambda>_. True))) \<and>
    card (run_task_ids (sy_db s) r (\<lambda>st. \<not> task_settled st)) \<le>
      card (run_task_ids (sy_db s) r (\<lambda>_. True) \<inter> dom (sy_pending s)) +
      card (run_task_ids (sy_db s) r (\<lambda>_. True) \<inter> sy_lost s) \<and>
    (run_task_ids (sy_db s) r (\<lambda>_. True) \<inter> sy_lost s = {} \<longrightarrow>
      (\<forall>t k. task_of (sy_db s) t = Some k \<and> st_run k = r \<longrightarrow> task_settled (st_state k)) \<and>
      sr_total row = int (card (run_task_ids (sy_db s) r (\<lambda>_. True))) \<and>
      (sr_state row = run_state.Failed \<longleftrightarrow>
         run_task_ids (sy_db s) r (\<lambda>_. True) = run_task_ids (sy_db s) r (\<lambda>st. st = task_state.Failed)))"
proof (intro conjI impI)
  show "sr_total row + int (card (run_task_ids (sy_db s) r (\<lambda>_. True) \<inter> dom (sy_pending s))) +
      int (card (run_task_ids (sy_db s) r (\<lambda>_. True) \<inter> sy_lost s)) = int (card (run_task_ids (sy_db s) r (\<lambda>_. True)))"
    and "card (run_task_ids (sy_db s) r (\<lambda>st. \<not> task_settled st)) \<le>
      card (run_task_ids (sy_db s) r (\<lambda>_. True) \<inter> dom (sy_pending s)) +
      card (run_task_ids (sy_db s) r (\<lambda>_. True) \<inter> sy_lost s)"
    by (rule finalized_shortfall [OF reachable_inv [OF assms(1)] assms(2)])+
  assume lost: "run_task_ids (sy_db s) r (\<lambda>_. True) \<inter> sy_lost s = {}"
  note all = finalized_settled [OF reachable_inv [OF assms(1)] assms(2) lost]
  show "\<forall>t k. task_of (sy_db s) t = Some k \<and> st_run k = r \<longrightarrow> task_settled (st_state k)"
    and "sr_total row = int (card (run_task_ids (sy_db s) r (\<lambda>_. True)))"
    and "sr_state row = run_state.Failed \<longleftrightarrow>
         run_task_ids (sy_db s) r (\<lambda>_. True) = run_task_ids (sy_db s) r (\<lambda>st. st = task_state.Failed)"
    using all by blast+
qed

text \<open>C6: the counters of a run in progress are exact: in every reachable state, the done counter of an
  active run is the number of its tasks that are done or skipped, the failed counter the number that
  failed, and their sum never exceeds the number of its tasks.
\<close>
theorem counters_exact:
  assumes "reachable providers s" "run_of (sy_db s) r = Some row" "run_active row"
  shows "sr_done row = int (card (run_task_ids (sy_db s) r (\<lambda>st. st = task_state.Done \<or> st = task_state.Skipped))) \<and>
    sr_failed row = int (card (run_task_ids (sy_db s) r (\<lambda>st. st = task_state.Failed))) \<and>
    sr_done row + sr_failed row \<le> int (card (run_task_ids (sy_db s) r (\<lambda>_. True)))"
proof -
  let ?v = "view (sy_db s)"
  note tal = active_tallied [OF reachable_inv [OF assms(1)] assms(2,3)]
  have "card (fated ?v r True \<union> fated ?v r False) \<le> card (in_run ?v r)"
    by (rule card_mono) (auto simp: fated_split)
  then show ?thesis using tal by (simp add: run_task_ids_view tallied_def card_fated)
qed

text \<open>C13: a run whose work is over can always be finalised: once every task of a running run has
  settled, none is uncounted and their number fits the counter, the finalising statement succeeds.
\<close>
theorem settled_run_finalizes:
  assumes "reachable providers s" "run_of (sy_db s) r = Some row" "sr_state row = run_state.Running"
    and "run_task_ids (sy_db s) r (\<lambda>_. True) \<noteq> {}"
    and "run_task_ids (sy_db s) r (\<lambda>st. \<not> task_settled st) = {}"
    and "run_task_ids (sy_db s) r (\<lambda>_. True) \<inter> (dom (sy_pending s) \<union> sy_lost s) = {}"
    and "card (run_task_ids (sy_db s) r (\<lambda>_. True)) \<le> 2147483647"
  shows "\<exists>row' db. finalize_if_complete r (sy_db s) = (Ok (Some row'), db)"
proof -
  let ?v = "view (sy_db s)"
  have act: "run_active row" using assms(3) by (simp add: run_active_def)
  note tal = active_tallied [OF reachable_inv [OF assms(1)] assms(2) act]
  have none: "in_run ?v r \<inter> dom (sy_pending s) = {}" "in_run ?v r \<inter> sy_lost s = {}"
    using assms(6) by (auto simp: run_task_ids_view)
  have "in_run ?v r \<subseteq> fated ?v r True \<union> fated ?v r False"
  proof
    fix t
    assume "t \<in> in_run ?v r"
    then obtain k where k: "task_of (sy_db s) t = Some k" "st_run k = r" by (auto simp: in_run_def view_def)
    then have "fate (st_state k) \<noteq> None" using assms(5) by (auto simp: run_task_ids_def fate_None)
    then show "t \<in> fated ?v r True \<union> fated ?v r False" using k by (auto simp: fated_def view_def)
  qed
  then have "card (in_run ?v r) \<le> card (fated ?v r True) + card (fated ?v r False)"
    using card_mono [of "fated ?v r True \<union> fated ?v r False" "in_run ?v r"] by (simp add: card_fated)
  moreover have "card (fated ?v r True) + card (fated ?v r False) \<le> card (in_run ?v r)"
    using card_mono [of "in_run ?v r" "fated ?v r True \<union> fated ?v r False"] by (simp add: fated_split card_fated)
  moreover have "0 < card (in_run ?v r)" using assms(4) by (simp add: run_task_ids_view card_gt_0_iff)
  ultimately have n: "sr_total row = sr_done row + sr_failed row" "0 < sr_total row" "sr_total row \<le> 2147483647"
    using tal none assms(7) by (auto simp: tallied_def run_task_ids_view)
  then have "int4 (sr_done row + sr_failed row) = Ok (sr_total row)" by (simp add: int4_def)
  then show ?thesis using assms(2,3) n(2) by (simp add: finalize_if_complete_def Let_def)
qed


section \<open>A scan that fans out one child\<close>

text \<open>One fast scan of provider 2: run 7, feed task 5, and a child 6 for the one series of the feed.\<close>

definition scan_providers :: "(provider_id, string) tbl" where
  "scan_providers = [(2, ''one'')]"

definition after_plan :: scan_sys where
  "after_plan =
     (let db1 = snd (create_run 7 (Some 2) Fast (sy_db (empty_sys scan_providers)));
          db2 = snd (create_task 5 7 ''latest_feed'' ''{}'' (start_run 7 db1))
      in (empty_sys scan_providers)\<lparr>sy_db := snd (add_total_tasks 7 1 db2), sy_planner := [7 \<mapsto> Counted],
           sy_pending := drop_batch (Planner 7) [5 \<mapsto> Planner 7]\<rparr>)"

lemma reachable_step:
  assumes "reachable ps s" "scan_step s t" "sy_db t = sy_db s'" "sy_planner t = sy_planner s'"
    "sy_pending t = sy_pending s'" "sy_bus t = sy_bus s'" "sy_working t = sy_working s'" "sy_lost t = sy_lost s'"
  shows "reachable ps s'"
proof -
  have "t = s'" by (rule scan_sys.equality) (use assms(3-) in simp_all)
  then show ?thesis using reachable.step [OF assms(1,2)] by simp
qed

lemma after_plan_reachable: "reachable scan_providers after_plan"
proof -
  let ?e = "empty_sys scan_providers"
  define db1 where "db1 = snd (create_run 7 (Some 2) Fast (sy_db ?e))"
  define db2 where "db2 = snd (create_task 5 7 ''latest_feed'' ''{}'' (start_run 7 db1))"
  define db3 where "db3 = snd (add_total_tasks 7 1 db2)"
  have c1: "create_run 7 (Some 2) Fast (sy_db ?e) = (Ok 7, db1)" unfolding db1_def by code_simp
  have c2: "create_task 5 7 ''latest_feed'' ''{}'' (start_run 7 db1) = (Ok (Some 5), db2)"
    unfolding db2_def db1_def by code_simp
  have c3: "add_total_tasks 7 1 db2 = (Ok (), db3)" unfolding db3_def db2_def db1_def by code_simp
  have "reachable scan_providers (?e\<lparr>sy_db := db1, sy_planner := [7 \<mapsto> Opened]\<rparr>)"
    by (rule reachable_step [OF reachable.init open_run [OF c1]]) (simp_all add: empty_sys_def)
  then have "reachable scan_providers (?e\<lparr>sy_db := start_run 7 db1, sy_planner := [7 \<mapsto> Started]\<rparr>)"
    by (rule reachable_step [OF _ start [where r = 7]]) simp_all
  then have "reachable scan_providers (?e\<lparr>sy_db := db2, sy_planner := [7 \<mapsto> Inserted], sy_pending := [5 \<mapsto> Planner 7]\<rparr>)"
    by (rule reachable_step [OF _ plan_task [where r = 7]]) (use c2 in \<open>simp_all add: empty_sys_def\<close>)
  then have "reachable scan_providers (?e\<lparr>sy_db := db3, sy_planner := [7 \<mapsto> Counted],
      sy_pending := drop_batch (Planner 7) [5 \<mapsto> Planner 7]\<rparr>)"
    by (rule reachable_step [OF _ plan_count [where r = 7]]) (use c3 in \<open>simp_all add: empty_sys_def\<close>)
  then show ?thesis by (simp add: after_plan_def Let_def db1_def db2_def db3_def)
qed


definition fan_db :: scan_db where
  "fan_db = snd (create_tasks 7 ''series'' [(6, ''{path}'')] (snd (claim_task 5 ''w'' (sy_db after_plan))))"

definition after_fan :: scan_sys where
  "after_fan = after_plan\<lparr>sy_db := fan_db, sy_bus := {5}, sy_working := {5},
     sy_pending := (\<lambda>t. if t \<in> {6} then Some (Worker 5) else None)\<rparr>"

lemma after_plan_fields:
  "sy_bus after_plan = {}" "sy_working after_plan = {}" "sy_lost after_plan = {}" "sy_pending after_plan = Map.empty"
  by (simp_all add: after_plan_def Let_def empty_sys_def drop_batch_def fun_eq_iff)

lemma after_fan_reachable: "reachable scan_providers after_fan"
proof -
  define db1 where "db1 = snd (claim_task 5 ''w'' (sy_db after_plan))"
  have known: "task_of (sy_db after_plan) 5 \<noteq> None" by code_simp
  have c1: "claim_task 5 ''w'' (sy_db after_plan) = (Ok True, db1)" unfolding db1_def by code_simp
  obtain k where k: "task_of db1 5 = Some k" "st_run k = 7"
  proof -
    have "map_option st_run (task_of db1 5) = Some 7" unfolding db1_def by code_simp
    then show thesis using that by auto
  qed
  have c2: "create_tasks 7 ''series'' [(6, ''{path}'')] db1 = (Ok [(6, ''{path}'')], fan_db)"
    unfolding fan_db_def db1_def by code_simp
  have "reachable scan_providers (after_plan\<lparr>sy_bus := {5}\<rparr>)"
    by (rule reachable_step [OF after_plan_reachable publish [where t = 5]])
      (use known in \<open>simp_all add: after_plan_fields\<close>)
  then have "reachable scan_providers (after_plan\<lparr>sy_bus := {5}, sy_db := db1, sy_working := {5}\<rparr>)"
    by (rule reachable_step [OF _ claim [where t = 5 and w = "''w''"]])
      (use c1 in \<open>simp_all add: after_plan_fields\<close>)
  then show ?thesis
    by (rule reachable_step [OF _ fan_out [where p = 5 and kind = "''series''" and rows = "[(6, ''{path}'')]"
          and k = k and out = "[(6, ''{path}'')]" and db = fan_db]])
      (use c2 k in \<open>simp_all add: after_plan_fields batch_def after_fan_def fun_eq_iff\<close>)
qed

definition after_loss :: scan_sys where
  "after_loss = after_fan\<lparr>sy_db := snd (complete_task 5 None fan_db), sy_working := {},
     sy_pending := Map.empty, sy_lost := {6}\<rparr>"

lemma after_loss_reachable: "reachable scan_providers after_loss"
proof -
  have c: "complete_task 5 None (sy_db after_fan) = (Ok (), snd (complete_task 5 None fan_db))" by code_simp
  have "reachable scan_providers (after_fan\<lparr>sy_pending := Map.empty, sy_lost := {6}\<rparr>)"
    by (rule reachable_step [OF after_fan_reachable lose [where p = 5]])
      (simp_all add: after_fan_def after_plan_fields drop_batch_def batch_def fun_eq_iff)
  then show ?thesis
    by (rule reachable_step [OF _ complete [where t = 5 and oc = None]])
      (use c in \<open>simp_all add: after_fan_def after_loss_def batch_def\<close>)
qed

text \<open>A batch that is inserted and never counted lets its run be finalised with open work: a worker
  that stops between inserting a task's children and adding them to the total, and whose task is
  then settled, leaves a state in which the finalising statement succeeds although a task of the run
  is still queued.
\<close>
theorem uncounted_batch_finalizes_early:
  "\<exists>s r row db t k. reachable scan_providers s \<and> finalize_if_complete r (sy_db s) = (Ok (Some row), db) \<and>
     sr_state row = run_state.Completed \<and> task_of (sy_db s) t = Some k \<and> st_run k = r \<and> st_state k = task_state.Queued"
proof -
  have "map_option st_state (task_of (sy_db after_loss) 6) = Some task_state.Queued"
    "map_option st_run (task_of (sy_db after_loss) 6) = Some 7" by code_simp+
  then obtain k where k: "task_of (sy_db after_loss) 6 = Some k" "st_run k = 7" "st_state k = task_state.Queued"
    by auto
  have "(case finalize_if_complete 7 (sy_db after_loss) of (Inr (Some row), _) \<Rightarrow> sr_state row = run_state.Completed | _ \<Rightarrow> False)"
    by code_simp
  then obtain row db where "finalize_if_complete 7 (sy_db after_loss) = (Ok (Some row), db)" "sr_state row = run_state.Completed"
    by (auto split: prod.splits sum.splits option.splits)
  then show ?thesis using after_loss_reachable k by blast
qed


definition counted_db :: scan_db where
  "counted_db = snd (complete_task 5 None (snd (add_total_tasks 7 1 fan_db)))"

definition after_scan :: scan_sys where
  "after_scan = after_fan\<lparr>sy_db := snd (fail_task 6 ''timeout'' None (snd (claim_task 6 ''w'' counted_db))),
     sy_bus := {5, 6}, sy_working := {}, sy_pending := Map.empty\<rparr>"

lemma after_scan_reachable: "reachable scan_providers after_scan"
proof -
  define db1 where "db1 = snd (add_total_tasks 7 1 fan_db)"
  define db2 where "db2 = snd (claim_task 6 ''w'' counted_db)"
  have c1: "add_total_tasks 7 1 (sy_db after_fan) = (Ok (), db1)" unfolding db1_def by code_simp
  have c2: "complete_task 5 None db1 = (Ok (), counted_db)" unfolding counted_db_def db1_def by code_simp
  have c3: "claim_task 6 ''w'' counted_db = (Ok True, db2)" unfolding db2_def by code_simp
  have c4: "fail_task 6 ''timeout'' None db2 = (Ok (), sy_db after_scan)" unfolding db2_def by code_simp
  have known: "task_of counted_db 6 \<noteq> None" by code_simp
  obtain k where k: "task_of (sy_db after_fan) 5 = Some k" "st_run k = 7"
  proof -
    have "map_option st_run (task_of (sy_db after_fan) 5) = Some 7" by code_simp
    then show thesis using that by auto
  qed
  have b6: "batch after_fan (Worker 5) = {6}" by (auto simp: batch_def after_fan_def)
  have "5 \<in> sy_working after_fan" by (simp add: after_fan_def)
  then have "scan_step after_fan (after_fan\<lparr>sy_db := db1, sy_pending := drop_batch (Worker 5) (sy_pending after_fan)\<rparr>)"
    by (rule count [OF _ k(1)]) (simp add: b6 k(2) c1)
  moreover have "drop_batch (Worker 5) (sy_pending after_fan) = Map.empty"
    by (auto simp: after_fan_def drop_batch_def fun_eq_iff)
  ultimately have "reachable scan_providers (after_fan\<lparr>sy_db := db1, sy_pending := Map.empty\<rparr>)"
    using reachable.step [OF after_fan_reachable] by simp
  then have "reachable scan_providers (after_fan\<lparr>sy_db := counted_db, sy_working := {}, sy_pending := Map.empty\<rparr>)"
    by (rule reachable_step [OF _ complete [where t = 5 and oc = None]])
      (use c2 in \<open>simp_all add: after_fan_def batch_def\<close>)
  then have "reachable scan_providers (after_fan\<lparr>sy_db := counted_db, sy_bus := {5, 6}, sy_working := {}, sy_pending := Map.empty\<rparr>)"
    by (rule reachable_step [OF _ publish [where t = 6]]) (use known in \<open>simp_all add: after_fan_def insert_commute\<close>)
  then have "reachable scan_providers (after_fan\<lparr>sy_db := db2, sy_bus := {5, 6}, sy_working := {6}, sy_pending := Map.empty\<rparr>)"
    by (rule reachable_step [OF _ claim [where t = 6 and w = "''w''"]]) (use c3 in \<open>simp_all add: after_fan_def\<close>)
  then show ?thesis
    by (rule reachable_step [OF _ fail [where t = 6 and e = "''timeout''" and oc = None]])
      (use c4 in \<open>simp_all add: after_fan_def after_scan_def batch_def\<close>)
qed

lemma after_scan_fields:
  "sy_lost after_scan = {}" "sy_pending after_scan = Map.empty"
  by (simp_all add: after_scan_def after_fan_def after_plan_fields)

lemma after_scan_tasks:
  "run_task_ids (sy_db after_scan) 7 P = {t \<in> {5, 6}. P (if t = 5 then task_state.Done else task_state.Failed)}"
proof -
  have "map (\<lambda>(t, k). (t, st_run k, st_state k)) (sc_tasks (sy_db after_scan)) =
      [(5, 7, task_state.Done), (6, 7, task_state.Failed)]" by code_simp
  then obtain k5 k6 where "sc_tasks (sy_db after_scan) = [(5, k5), (6, k6)]" "st_run k5 = 7" "st_run k6 = 7"
    "st_state k5 = task_state.Done" "st_state k6 = task_state.Failed" by (auto split: prod.splits)
  then show ?thesis by (auto simp: run_task_ids_def split: if_splits)
qed

theorem settled_run_finalizes_witness:
  "\<exists>row' db. finalize_if_complete 7 (sy_db after_scan) = (Ok (Some row'), db)"
proof -
  have "map_option sr_state (run_of (sy_db after_scan) 7) = Some run_state.Running" by code_simp
  then obtain row where "run_of (sy_db after_scan) 7 = Some row" "sr_state row = run_state.Running" by auto
  moreover have "run_task_ids (sy_db after_scan) 7 (\<lambda>_. True) = {5, 6}"
    "run_task_ids (sy_db after_scan) 7 (\<lambda>st. \<not> task_settled st) = {}" by (auto simp: after_scan_tasks)
  ultimately show ?thesis
    by (intro settled_run_finalizes [OF after_scan_reachable]) (simp_all add: after_scan_fields)
qed

theorem finalize_only_when_settled_witness:
  "\<exists>row db. finalize_if_complete 7 (sy_db after_scan) = (Ok (Some row), db) \<and> sr_total row = 2 \<and>
     sr_state row = run_state.Completed"
proof -
  have "(case finalize_if_complete 7 (sy_db after_scan) of (Inr (Some row), _) \<Rightarrow> sr_state row = run_state.Completed | _ \<Rightarrow> False)"
    by code_simp
  then obtain row db where f: "finalize_if_complete 7 (sy_db after_scan) = (Ok (Some row), db)" "sr_state row = run_state.Completed"
    by (auto split: prod.splits sum.splits option.splits)
  have tasks: "run_task_ids (sy_db after_scan) 7 (\<lambda>_. True) = {5, 6}" by (auto simp: after_scan_tasks)
  have "sr_total row = 2"
    using finalize_only_when_settled [OF after_scan_reachable f(1)] by (simp add: tasks after_scan_fields)
  then show ?thesis using f by blast
qed

theorem counters_exact_witness:
  "\<exists>row. run_of (sy_db after_scan) 7 = Some row \<and> sr_done row = 1 \<and> sr_failed row = 1"
proof -
  have "map_option sr_state (run_of (sy_db after_scan) 7) = Some run_state.Running" by code_simp
  then obtain row where r: "run_of (sy_db after_scan) 7 = Some row" "run_active row" by (auto simp: run_active_def)
  have "run_task_ids (sy_db after_scan) 7 (\<lambda>st. st = task_state.Done \<or> st = task_state.Skipped) = {5}"
    "run_task_ids (sy_db after_scan) 7 (\<lambda>st. st = task_state.Failed) = {6}" by (auto simp: after_scan_tasks)
  then show ?thesis using counters_exact [OF after_scan_reachable r] r by simp
qed

end
