(* ===== verification/Title_Text.thy ===== *)
theory Title_Text
  imports Vault_Prelude
begin

text \<open>
  Text and the matching key of a title, \<open>src/crates/domain/src/normalize.rs\<close>. A Rust string is the
  list of its Unicode scalar values; its length is that of its UTF-8 encoding. Lower-casing and the
  alphanumeric test are tables of the Unicode standard: the model takes them as a parameter, and
  \<open>unicode_ok\<close> states the facts of the standard that the results use. Everything else (the elided
  characters, the folded letters, the noise words, the thresholds for alternative titles) is the
  code's own table.
\<close>

section \<open>Text\<close>

type_synonym utext = "nat list"

definition lit :: "string \<Rightarrow> utext" where
  "lit s = map of_char s"

definition len_utf8 :: "nat \<Rightarrow> nat" where
  "len_utf8 c = (if c < 0x80 then 1 else if c < 0x800 then 2 else if c < 0x10000 then 3 else 4)"

definition byte_len :: "utext \<Rightarrow> nat" where
  "byte_len s = sum_list (map len_utf8 s)"

definition is_control :: "nat \<Rightarrow> bool" where
  "is_control c \<longleftrightarrow> c < 0x20 \<or> (0x7F \<le> c \<and> c \<le> 0x9F)"

definition is_whitespace :: "nat \<Rightarrow> bool" where
  "is_whitespace c \<longleftrightarrow> (9 \<le> c \<and> c \<le> 13) \<or> (0x2000 \<le> c \<and> c \<le> 0x200A) \<or>
     c \<in> {0x20, 0x85, 0xA0, 0x1680, 0x2028, 0x2029, 0x202F, 0x205F, 0x3000}"

definition is_ascii_alphanumeric :: "nat \<Rightarrow> bool" where
  "is_ascii_alphanumeric c \<longleftrightarrow>
     (48 \<le> c \<and> c \<le> 57) \<or> (65 \<le> c \<and> c \<le> 90) \<or> (97 \<le> c \<and> c \<le> 122)"

definition to_ascii_lowercase :: "nat \<Rightarrow> nat" where
  "to_ascii_lowercase c = (if 65 \<le> c \<and> c \<le> 90 then c + 32 else c)"

definition trim_start :: "utext \<Rightarrow> utext" where
  "trim_start = dropWhile is_whitespace"

definition trim_end :: "utext \<Rightarrow> utext" where
  "trim_end s = rev (dropWhile is_whitespace (rev s))"

definition trim :: "utext \<Rightarrow> utext" where
  "trim s = trim_end (trim_start s)"

fun split_from :: "utext \<Rightarrow> utext \<Rightarrow> utext list" where
  "split_from cur [] = (if cur = [] then [] else [cur])"
| "split_from cur (c # cs) =
     (if is_whitespace c then (if cur = [] then split_from [] cs else cur # split_from [] cs)
      else split_from (cur @ [c]) cs)"

definition split_whitespace :: "utext \<Rightarrow> utext list" where
  "split_whitespace s = split_from [] s"

fun join_space :: "utext list \<Rightarrow> utext" where
  "join_space [] = []"
| "join_space [t] = t"
| "join_space (t # ts) = t @ [32] @ join_space ts"

text \<open>The prefix of at most \<open>n\<close> bytes, cut back to a character boundary.\<close>

fun take_bytes :: "nat \<Rightarrow> utext \<Rightarrow> utext" where
  "take_bytes n [] = []"
| "take_bytes n (c # cs) = (if n < len_utf8 c then [] else c # take_bytes (n - len_utf8 c) cs)"

lemma take_bytes_sub: "set (take_bytes n s) \<subseteq> set s"
  by (induction s arbitrary: n) auto

lemma take_bytes_len: "byte_len (take_bytes n s) \<le> n"
proof (induction s arbitrary: n)
  case (Cons c s)
  have "byte_len (take_bytes (n - len_utf8 c) s) \<le> n - len_utf8 c" by (rule Cons)
  then show ?case by (cases "n < len_utf8 c") (simp_all add: byte_len_def)
qed (simp add: byte_len_def)

definition starts_with :: "utext \<Rightarrow> utext \<Rightarrow> bool" where
  "starts_with s p \<longleftrightarrow> take (length p) s = p"

fun contains_text :: "utext \<Rightarrow> utext \<Rightarrow> bool" where
  "contains_text [] p \<longleftrightarrow> p = []"
| "contains_text (c # cs) p \<longleftrightarrow> starts_with (c # cs) p \<or> contains_text cs p"

definition ascii_lowercase :: "utext \<Rightarrow> utext" where
  "ascii_lowercase s = map to_ascii_lowercase s"

definition eq_ignore_ascii_case :: "utext \<Rightarrow> utext \<Rightarrow> bool" where
  "eq_ignore_ascii_case a b \<longleftrightarrow> ascii_lowercase a = ascii_lowercase b"

section \<open>The tables of the Unicode standard\<close>

record unicode =
  uc_lower :: "nat \<Rightarrow> utext"
  uc_alnum :: "nat \<Rightarrow> bool"

definition unicode_ok :: "unicode \<Rightarrow> bool" where
  "unicode_ok U \<longleftrightarrow>
     (\<forall>c. \<forall>d \<in> set (uc_lower U c). uc_lower U d = [d]) \<and>
     (\<forall>c < 128. uc_lower U c = [to_ascii_lowercase c]) \<and>
     (\<forall>c. 0xFF21 \<le> c \<and> c \<le> 0xFF3A \<longrightarrow> uc_lower U c = [c + 32]) \<and>
     (\<forall>c < 128. uc_alnum U c \<longleftrightarrow> is_ascii_alphanumeric c) \<and>
     (\<forall>c. uc_alnum U c \<longrightarrow> \<not> is_whitespace c)"

lemma unicode_okD:
  assumes "unicode_ok U"
  shows "d \<in> set (uc_lower U c) \<Longrightarrow> uc_lower U d = [d]"
    and "c < 128 \<Longrightarrow> uc_lower U c = [to_ascii_lowercase c]"
    and "0xFF21 \<le> c \<Longrightarrow> c \<le> 0xFF3A \<Longrightarrow> uc_lower U c = [c + 32]"
    and "c < 128 \<Longrightarrow> uc_alnum U c \<longleftrightarrow> is_ascii_alphanumeric c"
    and "is_whitespace c \<Longrightarrow> \<not> uc_alnum U c"
  using assms unfolding unicode_ok_def by blast+

section \<open>Normalising a title\<close>

definition noise_words :: "utext list" where
  "noise_words = map lit
     [''manga'', ''mangas'', ''manhwa'', ''manhwas'', ''manhua'', ''manhuas'', ''webtoon'', ''webtoons'',
      ''webcomic'', ''webcomics'', ''comic'', ''comics'', ''official'', ''raw'', ''raws'', ''scan'',
      ''scans'', ''scanlation'']"

definition widen :: "nat \<Rightarrow> nat" where
  "widen c = (if 0xFF01 \<le> c \<and> c \<le> 0xFF5E then c - 0xFEE0 else if c = 0x3000 then 32 else c)"

definition elided :: "nat \<Rightarrow> bool" where
  "elided c \<longleftrightarrow> c \<in> {0x27, 0x2018, 0x2019, 0x2BC, 0x2B9, 0x60, 0xB4, 0x2032} \<or>
     (0x300 \<le> c \<and> c \<le> 0x36F) \<or> (0x1AB0 \<le> c \<and> c \<le> 0x1AFF) \<or> (0x20D0 \<le> c \<and> c \<le> 0x20F0) \<or>
     (0xFE20 \<le> c \<and> c \<le> 0xFE2F)"

definition fold_table :: "(nat list \<times> string) list" where
  "fold_table =
     [([0x26], '' and ''),
      ([0xE6], ''ae''),
      ([0x153], ''oe''),
      ([0x133], ''ij''),
      ([0xDF], ''ss''),
      ([0xFE], ''th''),
      ([0xFB00], ''ff''),
      ([0xFB01], ''fi''),
      ([0xFB02], ''fl''),
      ([0xFB03], ''ffi''),
      ([0xFB04], ''ffl''),
      ([0xE0, 0xE1, 0xE2, 0xE3, 0xE4, 0xE5, 0x101, 0x103, 0x105, 0x1CE, 0x227], ''a''),
      ([0xE7, 0x107, 0x109, 0x10B, 0x10D], ''c''),
      ([0x10F, 0x111, 0xF0], ''d''),
      ([0xE8, 0xE9, 0xEA, 0xEB, 0x113, 0x115, 0x117, 0x119, 0x11B], ''e''),
      ([0x11D, 0x11F, 0x121, 0x123], ''g''),
      ([0x125, 0x127], ''h''),
      ([0xEC, 0xED, 0xEE, 0xEF, 0x129, 0x12B, 0x12D, 0x12F, 0x131], ''i''),
      ([0x135], ''j''),
      ([0x137], ''k''),
      ([0x13A, 0x13C, 0x13E, 0x140, 0x142], ''l''),
      ([0xF1, 0x144, 0x146, 0x148, 0x14B], ''n''),
      ([0xF2, 0xF3, 0xF4, 0xF5, 0xF6, 0xF8, 0x14D, 0x14F, 0x151], ''o''),
      ([0x155, 0x157, 0x159], ''r''),
      ([0x15B, 0x15D, 0x15F, 0x161], ''s''),
      ([0x163, 0x165, 0x167], ''t''),
      ([0xF9, 0xFA, 0xFB, 0xFC, 0x169, 0x16B, 0x16D, 0x16F, 0x171, 0x173], ''u''),
      ([0x175], ''w''),
      ([0xFD, 0xFF, 0x177], ''y''),
      ([0x17A, 0x17C, 0x17E], ''z'')]"

definition folds_to :: "nat \<Rightarrow> string option" where
  "folds_to c = map_option snd (find (\<lambda>(cs, _). c \<in> set cs) fold_table)"

definition fold_into :: "unicode \<Rightarrow> nat \<Rightarrow> utext" where
  "fold_into U c =
     (if elided c then []
      else case folds_to c of
        Some s \<Rightarrow> lit s
      | None \<Rightarrow> if uc_alnum U c then [c] else [32])"

definition folded :: "unicode \<Rightarrow> utext \<Rightarrow> utext" where
  "folded U title = concat (map (\<lambda>c. fold_into U (widen c)) (concat (map (uc_lower U) title)))"

definition keep_words :: "utext list \<Rightarrow> utext list" where
  "keep_words ws = (case [t \<leftarrow> ws. t \<notin> set noise_words] of [] \<Rightarrow> ws | ts \<Rightarrow> ts)"

definition normalize_title :: "unicode \<Rightarrow> utext \<Rightarrow> utext" where
  "normalize_title U title = join_space (keep_words (split_whitespace (folded U title)))"

definition compact_key :: "utext \<Rightarrow> utext" where
  "compact_key s = [c \<leftarrow> s. \<not> is_whitespace c]"

section \<open>Alternative titles\<close>

definition placeholder_aliases :: "utext list" where
  "placeholder_aliases = map lit
     [''unknown'', ''status'', ''none'', ''untitled'', ''no alternative titles'', ''sorry'', ''please'',
      ''delete'', ''season 2'', ''manhwa'', ''manga'', ''fantasy'', ''encode'', ''right'', ''nihongo'',
      ''english'', ''japanese'', ''korean'', ''chinese'']"

definition alias_is_placeholder :: "utext \<Rightarrow> bool" where
  "alias_is_placeholder n \<longleftrightarrow> trim n = [] \<or> n \<in> set placeholder_aliases"

definition min_alias_chars :: nat where "min_alias_chars = 8"

definition min_single_word_alias_chars :: nat where "min_single_word_alias_chars = 10"

definition min_non_latin_alias_chars :: nat where "min_non_latin_alias_chars = 3"

definition alias_is_distinctive :: "utext \<Rightarrow> bool" where
  "alias_is_distinctive n \<longleftrightarrow>
     \<not> alias_is_placeholder n \<and>
     (let compact = compact_key n; chars = length compact; single_word = length (split_whitespace n) \<le> 1
      in if \<not> list_all (\<lambda>c. c < 128) compact then min_non_latin_alias_chars \<le> chars
         else min_alias_chars \<le> chars \<and> \<not> (single_word \<and> chars < min_single_word_alias_chars))"

section \<open>Laws of the text operations\<close>

lemma trim_start_sub: "set (trim_start s) \<subseteq> set s"
  by (auto simp: trim_start_def dest: set_dropWhileD)

lemma trim_end_sub: "set (trim_end s) \<subseteq> set s"
  by (auto simp: trim_end_def dest!: set_dropWhileD)

lemma trim_sub: "set (trim s) \<subseteq> set s"
  using trim_start_sub trim_end_sub by (fastforce simp: trim_def)

lemma dropWhile_rev_idem: "dropWhile P (dropWhile P s) = dropWhile P s"
  by (induction s) auto

lemma dropWhile_sum: "sum_list (map f (dropWhile P s)) \<le> (sum_list (map f s) :: nat)"
  by (induction s) auto

lemma byte_len_trim: "byte_len (trim s) \<le> byte_len s"
proof -
  have e: "byte_len (trim_end t) \<le> byte_len t" for t
    using dropWhile_sum [of len_utf8 is_whitespace "rev t"]
    by (simp add: byte_len_def trim_end_def rev_map [symmetric] del: sum_list_rev)
      (metis rev_map sum_list_rev)
  have "byte_len (trim_start s) \<le> byte_len s"
    by (simp add: byte_len_def trim_start_def dropWhile_sum)
  then show ?thesis using e [of "trim_start s"] by (simp add: trim_def)
qed

lemma trim_nonempty: "trim s \<noteq> [] \<Longrightarrow> \<exists>c \<in> set (trim s). \<not> is_whitespace c"
  by (metis hd_dropWhile hd_in_set rev.simps(1) set_rev trim_def trim_end_def)

lemma trim_Nil: "trim s = [] \<longleftrightarrow> (\<forall>c \<in> set s. is_whitespace c)"
proof
  assume "trim s = []"
  then have "\<forall>c \<in> set (trim_start s). is_whitespace c"
    by (simp add: trim_def trim_end_def dropWhile_eq_Nil_conv)
  then have "trim_start s = []"
    by (metis hd_dropWhile hd_in_set trim_start_def)
  then show "\<forall>c \<in> set s. is_whitespace c" by (simp add: trim_start_def dropWhile_eq_Nil_conv)
next
  assume "\<forall>c \<in> set s. is_whitespace c"
  then show "trim s = []" using trim_nonempty trim_sub by blast
qed

lemma split_from_words:
  "\<lbrakk>t \<in> set (split_from cur s); \<forall>c \<in> set cur. \<not> is_whitespace c\<rbrakk> \<Longrightarrow>
     t \<noteq> [] \<and> (\<forall>c \<in> set t. \<not> is_whitespace c \<and> (c \<in> set cur \<or> c \<in> set s))"
  by (induction cur s rule: split_from.induct) (fastforce split: if_splits)+

lemma split_words:
  "t \<in> set (split_whitespace s) \<Longrightarrow> t \<noteq> [] \<and> (\<forall>c \<in> set t. \<not> is_whitespace c \<and> c \<in> set s)"
  using split_from_words [of t "[]" s] by (simp add: split_whitespace_def)

lemma split_from_word:
  "\<forall>c \<in> set t. \<not> is_whitespace c \<Longrightarrow> split_from cur (t @ rest) = split_from (cur @ t) rest"
  by (induction t arbitrary: cur) auto

lemma split_join:
  "\<forall>t \<in> set ts. t \<noteq> [] \<and> (\<forall>c \<in> set t. \<not> is_whitespace c) \<Longrightarrow> split_whitespace (join_space ts) = ts"
proof (induction ts rule: join_space.induct)
  case (2 t)
  then show ?case using split_from_word [of t "[]" "[]"] by (simp add: split_whitespace_def)
next
  case (3 t u ts)
  then have "split_whitespace (join_space (u # ts)) = u # ts" by simp
  moreover have "split_from [] (t @ [32] @ join_space (u # ts)) =
      split_from t ([32] @ join_space (u # ts))"
    using 3(2) by (subst split_from_word) auto
  ultimately show ?case using 3(2) by (simp add: split_whitespace_def is_whitespace_def)
qed (simp add: split_whitespace_def)

lemma set_join: "c \<in> set (join_space ts) \<Longrightarrow> c = 32 \<or> (\<exists>t \<in> set ts. c \<in> set t)"
  by (induction ts rule: join_space.induct) auto

section \<open>Keys are stable\<close>

definition stable_char :: "unicode \<Rightarrow> nat \<Rightarrow> bool" where
  "stable_char U c \<longleftrightarrow> c = 32 \<or>
     uc_lower U c = [c] \<and> widen c = c \<and> \<not> elided c \<and> folds_to c = None \<and> uc_alnum U c"

lemma fold_table_ascii:
  "\<forall>(cs, s) \<in> set fold_table. list_all (\<lambda>d. d = 32 \<or> 97 \<le> d \<and> d \<le> 122) (lit s)"
  by (simp add: fold_table_def lit_def)

lemma fold_table_foreign: "\<forall>(cs, s) \<in> set fold_table. list_all (\<lambda>d. d = 38 \<or> 128 \<le> d) cs"
  by (simp add: fold_table_def)

lemma letters_not_folded: "97 \<le> c \<Longrightarrow> c \<le> 122 \<Longrightarrow> folds_to c = None"
  using fold_table_foreign by (fastforce simp: folds_to_def find_None_iff list_all_iff)

lemma folds_to_ascii: "folds_to c = Some s \<Longrightarrow> d \<in> set (lit s) \<Longrightarrow> d = 32 \<or> 97 \<le> d \<and> d \<le> 122"
  using fold_table_ascii by (fastforce simp: folds_to_def list_all_iff dest!: find_Some_mem)

lemma stable_ascii: "unicode_ok U \<Longrightarrow> 97 \<le> c \<Longrightarrow> c \<le> 122 \<Longrightarrow> stable_char U c"
  using unicode_okD(2,4) [of U c]
  by (simp add: stable_char_def to_ascii_lowercase_def widen_def elided_def letters_not_folded
      is_ascii_alphanumeric_def)

lemma stable_fold:
  assumes U: "unicode_ok U" and d: "uc_lower U d = [d]" and c: "c \<in> set (fold_into U (widen d))"
  shows "stable_char U c"
proof (cases "folds_to (widen d)")
  case (Some s)
  then show ?thesis
    using c folds_to_ascii [OF Some] stable_ascii [OF U]
    by (auto simp: fold_into_def stable_char_def split: if_splits)
next
  case None
  show ?thesis
  proof (cases "c = 32")
    case False
    then have w: "c = widen d" "uc_alnum U (widen d)" "\<not> elided (widen d)"
      using c None by (auto simp: fold_into_def split: if_splits)
    have "uc_lower U (widen d) = [widen d] \<and> widen (widen d) = widen d"
    proof (cases "0xFF01 \<le> d \<and> d \<le> 0xFF5E")
      case True
      have "\<not> (0xFF21 \<le> d \<and> d \<le> 0xFF3A)" using unicode_okD(3) [OF U, of d] d by auto
      moreover have "d - 0xFEE0 < 128" using True by linarith
      then have "uc_lower U (d - 0xFEE0) = [to_ascii_lowercase (d - 0xFEE0)]"
        by (rule unicode_okD(2) [OF U])
      ultimately show ?thesis using True by (auto simp: widen_def to_ascii_lowercase_def)
    qed (use d w(1) False in \<open>auto simp: widen_def\<close>)
    then show ?thesis using w None by (simp add: stable_char_def)
  qed (simp add: stable_char_def)
qed

lemma folded_stable: "unicode_ok U \<Longrightarrow> c \<in> set (folded U t) \<Longrightarrow> stable_char U c"
  using unicode_okD(1) stable_fold by (fastforce simp: folded_def)

lemma folded_id:
  assumes U: "unicode_ok U" and s: "\<forall>c \<in> set s. stable_char U c"
  shows "folded U s = s"
proof -
  have one: "concat (map (\<lambda>c. fold_into U (widen c)) (uc_lower U c)) = [c]" if "stable_char U c" for c
  proof (cases "c = 32")
    case True
    have "\<not> uc_alnum U 32" "uc_lower U 32 = [32]"
      using unicode_okD(5) [OF U, of 32] unicode_okD(2) [OF U, of 32]
      by (simp_all add: is_whitespace_def to_ascii_lowercase_def)
    moreover have "folds_to 32 = None" by (simp add: folds_to_def fold_table_def)
    ultimately show ?thesis using True by (simp add: fold_into_def widen_def elided_def)
  qed (use that in \<open>auto simp: stable_char_def fold_into_def\<close>)
  have "folded U s = concat (map (\<lambda>c. concat (map (\<lambda>c. fold_into U (widen c)) (uc_lower U c))) s)"
    by (induction s) (simp_all add: folded_def)
  also have "\<dots> = s" using s one by (induction s) auto
  finally show ?thesis .
qed

lemma keep_words_sub: "set (keep_words ws) \<subseteq> set ws"
  by (auto simp: keep_words_def split: list.splits) (metis filter_is_subset list.set_intros subsetD)+

lemma keep_words_idem: "keep_words (keep_words ws) = keep_words ws"
proof (cases "[t \<leftarrow> ws. t \<notin> set noise_words]")
  case (Cons a ts)
  have "[t \<leftarrow> [t \<leftarrow> ws. t \<notin> set noise_words]. t \<notin> set noise_words] = [t \<leftarrow> ws. t \<notin> set noise_words]"
    by simp
  then have "[t \<leftarrow> a # ts. t \<notin> set noise_words] = a # ts" unfolding Cons .
  then show ?thesis using Cons by (simp only: keep_words_def list.case)
qed (simp add: keep_words_def)

text \<open>C20: a title's matching key is a fixed point: normalising a key again changes nothing, whatever
  the title and whatever the Unicode tables say, as long as lower-casing is idempotent and treats
  ASCII and the full-width capitals as the standard does. Two providers' keys therefore compare the
  same whether a stored key or the raw title is normalised.\<close>

theorem normalize_title_idempotent:
  assumes "unicode_ok U"
  shows "normalize_title U (normalize_title U title) = normalize_title U title"
proof -
  define ws where "ws = keep_words (split_whitespace (folded U title))"
  have words: "t \<noteq> [] \<and> (\<forall>c \<in> set t. \<not> is_whitespace c \<and> stable_char U c)" if "t \<in> set ws" for t
    using that keep_words_sub split_words folded_stable [OF assms] unfolding ws_def by blast
  then have "\<forall>c \<in> set (join_space ws). stable_char U c"
    using set_join by (fastforce simp: stable_char_def)
  then have "folded U (join_space ws) = join_space ws" by (rule folded_id [OF assms])
  then show ?thesis
    using words split_join [of ws] keep_words_idem
    by (simp add: normalize_title_def ws_def [symmetric]) (simp add: ws_def keep_words_idem)
qed

text \<open>The ASCII part of the tables, with the full-width letters, for concrete titles.\<close>

definition ascii_tables :: unicode where
  "ascii_tables =
     \<lparr>uc_lower = (\<lambda>c. [if (65 \<le> c \<and> c \<le> 90) \<or> (0xFF21 \<le> c \<and> c \<le> 0xFF3A) then c + 32 else c]),
      uc_alnum = is_ascii_alphanumeric\<rparr>"

lemma ascii_tables_ok: "unicode_ok ascii_tables"
  by (auto simp: unicode_ok_def ascii_tables_def to_ascii_lowercase_def is_ascii_alphanumeric_def
      is_whitespace_def)

theorem normalize_title_idempotent_witness:
  "normalize_title ascii_tables (lit ''Ao!  Scan'') = lit ''ao'' \<and>
   normalize_title ascii_tables (normalize_title ascii_tables (lit ''Ao!  Scan'')) =
     normalize_title ascii_tables (lit ''Ao!  Scan'')"
proof
  show "normalize_title ascii_tables (lit ''Ao!  Scan'') = lit ''ao''"
    by (simp add: normalize_title_def folded_def fold_into_def folds_to_def fold_table_def lit_def
        ascii_tables_def widen_def elided_def keep_words_def noise_words_def split_whitespace_def
        is_whitespace_def is_ascii_alphanumeric_def)
qed (rule normalize_title_idempotent [OF ascii_tables_ok])

end
