(* ===== verification/Watchlist_Transfer.thy ===== *)
theory Watchlist_Transfer
  imports Title_Text Reading_Progress Domain_Enums
begin

text \<open>
  Portable watchlist entries, \<open>src/crates/domain/src/watchlist_transfer.rs\<close>: the validation of an
  entry and the repair that makes a catalogue entry valid, the keys and the matching of an entry
  against a catalogue, and the plan that merges a document into a watchlist. URL parsing is the
  \<open>url\<close> crate's and is a parameter; a hash map of the code is a function. Lemmas describe the plan
  by the entries it chooses, the first one of each series.
\<close>

section \<open>Bounds\<close>

definition max_entries :: nat where "max_entries = 10000"

definition max_sources :: nat where "max_sources = 32"

definition max_external_ids :: nat where "max_external_ids = 8"

definition max_alternative_titles :: nat where "max_alternative_titles = 32"

definition max_title_bytes :: nat where "max_title_bytes = 512"

definition max_url_bytes :: nat where "max_url_bytes = 2048"

definition max_name_bytes :: nat where "max_name_bytes = 64"

definition max_external_id_bytes :: nat where "max_external_id_bytes = 128"

section \<open>Portable entries\<close>

record source_ref =
  so_provider :: utext
  so_url :: utext
  so_path :: utext
  so_pinned :: bool

record external_ref =
  xr_tracker :: utext
  xr_id :: utext

record portable_progress =
  pp_whole :: rat
  pp_part :: "rat option"

definition progress_is_empty :: "portable_progress \<Rightarrow> bool" where
  "progress_is_empty p \<longleftrightarrow> pp_whole p = 0 \<and> pp_part p = None"

record portable_entry =
  pe_title :: utext
  pe_alternative_titles :: "utext list"
  pe_status :: watch_status
  pe_notify :: bool
  pe_sync_excluded :: bool
  pe_added_at :: int
  pe_progress :: "portable_progress option"
  pe_sources :: "source_ref list"
  pe_external_ids :: "external_ref list"

datatype field =
    FTitle | FAlternatives | FAlternative nat | FChapter | FPart | FSources | FProvider nat | FUrl nat
  | FPath nat | FExternalIds | FTracker nat | FId nat

type_synonym entry_error = "field \<times> string"

text \<open>The parts of a URL the code reads; parsing is the \<open>url\<close> crate's and is a parameter.\<close>

record url_parts =
  ur_scheme :: utext
  ur_host :: "utext option"
  ur_username :: utext
  ur_password :: "utext option"
  ur_path :: utext
  ur_query :: "utext option"
  ur_text :: utext

type_synonym url_parse = "utext \<Rightarrow> url_parts option"

section \<open>Validation\<close>

definition has_control :: "utext \<Rightarrow> bool" where
  "has_control s \<longleftrightarrow> list_ex is_control s"

definition check_title :: "field \<Rightarrow> utext \<Rightarrow> (entry_error, unit) result" where
  "check_title f s =
     (if trim s = [] then Err (f, ''must not be empty'')
      else if max_title_bytes < byte_len s then Err (f, ''is too long'')
      else if has_control s then Err (f, ''must not contain control characters'')
      else Ok ())"

definition is_name :: "utext \<Rightarrow> bool" where
  "is_name s \<longleftrightarrow> s \<noteq> [] \<and> byte_len s \<le> max_name_bytes \<and>
     list_all (\<lambda>c. is_ascii_alphanumeric c \<or> c = 45 \<or> c = 95) s"

definition check_progress :: "portable_progress \<Rightarrow> (entry_error, unit) result" where
  "check_progress p =
     (if \<not> is_storable (Fin (pp_whole p)) \<or> \<not> is_whole (pp_whole p)
      then Err (FChapter, ''must be a whole chapter number within the storable range'')
      else case pp_part p of
        None \<Rightarrow> Ok ()
      | Some part \<Rightarrow>
          if \<not> is_storable (Fin part) \<or> is_whole part \<or> of_int \<lfloor>part\<rfloor> < pp_whole p
          then Err (FPart, ''must be a fractional chapter number at or above the whole chapter'')
          else Ok ())"

definition validate_source :: "url_parse \<Rightarrow> nat \<Rightarrow> source_ref \<Rightarrow> (entry_error, unit) result" where
  "validate_source parse i s =
     (if \<not> is_name (so_provider s) then Err (FProvider i, ''must be a provider slug'')
      else if max_url_bytes < byte_len (so_url s) then Err (FUrl i, ''is too long'')
      else case parse (so_url s) of
        None \<Rightarrow> Err (FUrl i, ''must be an absolute URL'')
      | Some u \<Rightarrow>
          if ur_scheme u \<notin> {lit ''http'', lit ''https''} \<or> ur_host u = None
          then Err (FUrl i, ''must be an http(s) URL with a host'')
          else if ur_username u \<noteq> [] \<or> ur_password u \<noteq> None
          then Err (FUrl i, ''must not embed credentials'')
          else if take 1 (so_path s) \<noteq> [47] \<or> max_url_bytes < byte_len (so_path s) \<or> has_control (so_path s)
          then Err (FPath i, ''must be a site-relative path'')
          else Ok ())"

definition validate_external :: "nat \<Rightarrow> external_ref \<Rightarrow> (entry_error, unit) result" where
  "validate_external i x =
     (if \<not> is_name (xr_tracker x) then Err (FTracker i, ''must be a short name'')
      else if xr_id x = [] \<or> max_external_id_bytes < byte_len (xr_id x) \<or>
        list_ex (\<lambda>c. is_control c \<or> is_whitespace c) (xr_id x)
      then Err (FId i, ''must be a non-empty token without whitespace'')
      else Ok ())"

fun check_each :: "(nat \<Rightarrow> 'a \<Rightarrow> ('e, unit) result) \<Rightarrow> nat \<Rightarrow> 'a list \<Rightarrow> ('e, unit) result" where
  "check_each f i [] = Ok ()"
| "check_each f i (x # xs) = bind_result (f i x) (\<lambda>_. check_each f (Suc i) xs)"

definition check_that :: "bool \<Rightarrow> 'e \<Rightarrow> ('e, unit) result" where
  "check_that b e = (if b then Ok () else Err e)"

definition validate :: "url_parse \<Rightarrow> portable_entry \<Rightarrow> (entry_error, unit) result" where
  "validate parse e =
     bind_result (check_title FTitle (pe_title e)) (\<lambda>_.
     bind_result (check_that (length (pe_alternative_titles e) \<le> max_alternative_titles)
       (FAlternatives, ''has too many items'')) (\<lambda>_.
     bind_result (check_each (\<lambda>i. check_title (FAlternative i)) 0 (pe_alternative_titles e)) (\<lambda>_.
     bind_result (case pe_progress e of None \<Rightarrow> Ok () | Some p \<Rightarrow> check_progress p) (\<lambda>_.
     bind_result (check_that (length (pe_sources e) \<le> max_sources) (FSources, ''has too many items'')) (\<lambda>_.
     bind_result (check_that (length (filter so_pinned (pe_sources e)) \<le> 1)
       (FSources, ''may pin at most one source'')) (\<lambda>_.
     bind_result (check_each (validate_source parse) 0 (pe_sources e)) (\<lambda>_.
     bind_result (check_that (length (pe_external_ids e) \<le> max_external_ids)
       (FExternalIds, ''has too many items'')) (\<lambda>_.
     check_each validate_external 0 (pe_external_ids e)))))))))"

section \<open>Making a catalogue entry valid\<close>

definition clean_title :: "utext \<Rightarrow> utext option" where
  "clean_title title =
     (let out = trim (take_bytes max_title_bytes [c \<leftarrow> trim title. \<not> is_control c])
      in if out = [] then None else Some out)"

definition sanitize_progress :: "portable_progress \<Rightarrow> portable_progress option" where
  "sanitize_progress p =
     (let whole_only = \<lparr>pp_whole = pp_whole p, pp_part = None\<rparr>
      in if is_ok (check_progress p) then Some p
         else if is_ok (check_progress whole_only) then Some whole_only else None)"

fun pin_first :: "source_ref list \<Rightarrow> source_ref list" where
  "pin_first [] = []"
| "pin_first (s # ss) = (if so_pinned s then s # map (\<lambda>t. t\<lparr>so_pinned := False\<rparr>) ss else s # pin_first ss)"

definition sanitized :: "url_parse \<Rightarrow> portable_entry \<Rightarrow> portable_entry option" where
  "sanitized parse e =
     (case clean_title (pe_title e) of
        None \<Rightarrow> None
      | Some title \<Rightarrow>
          Some (e\<lparr>pe_title := title,
            pe_alternative_titles := take max_alternative_titles (remdups_adj (sort
              [t \<leftarrow> List.map_filter clean_title (pe_alternative_titles e). t \<noteq> title])),
            pe_progress := Option.bind (pe_progress e) sanitize_progress,
            pe_sources := pin_first (take max_sources
              [s \<leftarrow> pe_sources e. is_ok (validate_source parse 0 s)]),
            pe_external_ids := take max_external_ids
              [x \<leftarrow> pe_external_ids e. is_ok (validate_external 0 x)]\<rparr>))"

section \<open>Keys\<close>

definition identity_key :: "unicode \<Rightarrow> portable_entry \<Rightarrow> utext" where
  "identity_key U e =
     (case sort (map (\<lambda>x. lit ''ext:'' @ xr_tracker x @ lit '':'' @ xr_id x) (pe_external_ids e)) of
        k # _ \<Rightarrow> k
      | [] \<Rightarrow> (case sort (map (\<lambda>s. lit ''src:'' @ so_provider s @ lit '':'' @ so_path s) (pe_sources e)) of
          k # _ \<Rightarrow> k
        | [] \<Rightarrow> lit ''title:'' @ compact_key (normalize_title U (pe_title e))))"

definition title_keys :: "unicode \<Rightarrow> portable_entry \<Rightarrow> utext list" where
  "title_keys U e = remdups_adj (sort [k \<leftarrow> map (\<lambda>t. compact_key (normalize_title U t))
     (pe_title e # pe_alternative_titles e). k \<noteq> []])"

section \<open>Matching an entry\<close>

type_synonym provider_id = nat
type_synonym source_id = nat

record catalogue_provider =
  cp_id :: provider_id
  cp_slug :: utext
  cp_base_url :: utext

definition host_key :: "url_parts \<Rightarrow> utext option" where
  "host_key u = map_option (\<lambda>h. let l = map to_ascii_lowercase h in
     if take 4 l = lit ''www.'' then drop 4 l else l) (ur_host u)"

definition trim_slashes :: "utext \<Rightarrow> utext" where
  "trim_slashes s = rev (dropWhile (\<lambda>c. c = 47) (rev s))"

record provider_index =
  px_by_slug :: "utext \<Rightarrow> provider_id option"
  px_by_host :: "utext \<Rightarrow> (provider_id \<times> utext) list"

definition index_add :: "url_parse \<Rightarrow> catalogue_provider \<Rightarrow> provider_index \<Rightarrow> provider_index" where
  "index_add parse p ix =
     ix\<lparr>px_by_host := (case parse (cp_base_url p) of
            None \<Rightarrow> px_by_host ix
          | Some base \<Rightarrow> (case host_key base of
              None \<Rightarrow> px_by_host ix
            | Some h \<Rightarrow> (px_by_host ix)(h := px_by_host ix h @ [(cp_id p, trim_slashes (ur_path base))]))),
        px_by_slug := (px_by_slug ix)(cp_slug p \<mapsto> cp_id p)\<rparr>"

definition index_new :: "url_parse \<Rightarrow> catalogue_provider list \<Rightarrow> provider_index" where
  "index_new parse ps = fold (index_add parse) ps \<lparr>px_by_slug = Map.empty, px_by_host = (\<lambda>_. [])\<rparr>"

definition url_rest :: "url_parts \<Rightarrow> utext" where
  "url_rest u = ur_path u @ (case ur_query u of None \<Rightarrow> [] | Some q \<Rightarrow> [63] @ q)"

definition strip_base :: "utext \<Rightarrow> utext \<Rightarrow> utext option" where
  "strip_base base full =
     (if take (length base) full = base \<and> take 1 (drop (length base) full) = [47]
      then Some (drop (length base) full) else None)"

definition candidates :: "url_parse \<Rightarrow> provider_index \<Rightarrow> source_ref \<Rightarrow> (provider_id \<times> utext) list" where
  "candidates parse ix s =
     rev (remdups (rev
       ((case px_by_slug ix (so_provider s) of None \<Rightarrow> [] | Some i \<Rightarrow> [(i, so_path s)]) @
        (case parse (so_url s) of
           None \<Rightarrow> []
         | Some u \<Rightarrow> (case host_key u of
             None \<Rightarrow> []
           | Some h \<Rightarrow> List.map_filter (\<lambda>(i, base). map_option (Pair i) (strip_base base (url_rest u)))
                         (px_by_host ix h))))))"

datatype matched_by = ByExternalId | BySource | ByTitle

record lookups =
  lk_sources :: "provider_id \<times> utext \<Rightarrow> (series_id \<times> source_id) option"
  lk_external :: "utext \<times> utext \<Rightarrow> series_id option"
  lk_titles :: "utext \<Rightarrow> series_id list"

record resolved =
  rs_series :: series_id
  rs_matched_by :: matched_by
  rs_pinned :: "source_id option"

definition title_matches_of :: "unicode \<Rightarrow> lookups \<Rightarrow> portable_entry \<Rightarrow> series_id list" where
  "title_matches_of U lk e = remdups (concat (map (lk_titles lk) (title_keys U e)))"

definition match_series ::
  "unicode \<Rightarrow> url_parse \<Rightarrow> provider_index \<Rightarrow> lookups \<Rightarrow> bool \<Rightarrow> portable_entry \<Rightarrow>
     (series_id \<times> matched_by) option" where
  "match_series U parse ix lk match_titles e =
     (case List.map_filter (\<lambda>x. lk_external lk (xr_tracker x, xr_id x)) (pe_external_ids e) of
        s # _ \<Rightarrow> Some (s, ByExternalId)
      | [] \<Rightarrow> (case List.map_filter (lk_sources lk) (concat (map (candidates parse ix) (pe_sources e))) of
          (s, _) # _ \<Rightarrow> Some (s, BySource)
        | [] \<Rightarrow> if match_titles
               then (case title_matches_of U lk e of [s] \<Rightarrow> Some (s, ByTitle) | _ \<Rightarrow> None)
               else None))"

definition pinned_source ::
  "url_parse \<Rightarrow> provider_index \<Rightarrow> lookups \<Rightarrow> portable_entry \<Rightarrow> series_id \<Rightarrow> source_id option" where
  "pinned_source parse ix lk e s =
     map_option snd (find (\<lambda>(t, _). t = s) (List.map_filter (lk_sources lk)
       (concat (map (candidates parse ix) (filter so_pinned (pe_sources e))))))"

definition resolve_entry ::
  "unicode \<Rightarrow> url_parse \<Rightarrow> provider_index \<Rightarrow> lookups \<Rightarrow> bool \<Rightarrow> portable_entry \<Rightarrow> resolved option" where
  "resolve_entry U parse ix lk match_titles e =
     map_option (\<lambda>(s, by). \<lparr>rs_series = s, rs_matched_by = by, rs_pinned = pinned_source parse ix lk e s\<rparr>)
       (match_series U parse ix lk match_titles e)"

section \<open>Merging into a watchlist\<close>

datatype import_policy = KeepLocal | PreferImported

record local_entry =
  le_status :: watch_status
  le_notify :: bool
  le_sync_excluded :: bool
  le_pinned :: "source_id option"

record entry_write =
  ew_series :: series_id
  ew_status :: watch_status
  ew_notify :: bool
  ew_sync_excluded :: bool
  ew_added_at :: int
  ew_pinned :: "source_id option"

definition keep_ahead :: "rat \<Rightarrow> rat option \<Rightarrow> rat option \<Rightarrow> rat option" where
  "keep_ahead whole a b =
     (case [p \<leftarrow> (case a of None \<Rightarrow> [] | Some x \<Rightarrow> [x]) @ (case b of None \<Rightarrow> [] | Some x \<Rightarrow> [x]). whole \<le> of_int \<lfloor>p\<rfloor>] of
        [] \<Rightarrow> None
      | p # ps \<Rightarrow> Some (fold max ps p))"

definition merge_target ::
  "portable_progress option \<Rightarrow> portable_progress \<Rightarrow> import_policy \<Rightarrow> portable_progress" where
  "merge_target loc imported policy =
     (case loc of
        None \<Rightarrow> imported
      | Some l \<Rightarrow>
          (case policy of
             PreferImported \<Rightarrow> imported
           | KeepLocal \<Rightarrow>
               (let whole = max (pp_whole l) (pp_whole imported)
                in \<lparr>pp_whole = whole, pp_part = keep_ahead whole (pp_part l) (pp_part imported)\<rparr>)))"

definition merged_progress ::
  "portable_progress option \<Rightarrow> portable_progress option \<Rightarrow> import_policy \<Rightarrow> portable_progress option" where
  "merged_progress loc imported policy =
     (case imported of
        None \<Rightarrow> None
      | Some imp \<Rightarrow>
          (let target = merge_target loc imp policy
           in case loc of
                None \<Rightarrow> if progress_is_empty target then None else Some target
              | Some l \<Rightarrow> if l = target then None else Some target))"

record import_plan =
  ip_writes :: "entry_write list"
  ip_progress :: "(series_id \<times> portable_progress) list"
  ip_matched :: "series_id list"
  ip_added :: nat
  ip_updated :: nat
  ip_unchanged :: nat
  ip_unmatched :: "nat list"
  ip_duplicates :: "nat list"
  ip_title_matches :: "nat list"

definition plan_default :: import_plan where
  "plan_default = \<lparr>ip_writes = [], ip_progress = [], ip_matched = [], ip_added = 0, ip_updated = 0,
     ip_unchanged = 0, ip_unmatched = [], ip_duplicates = [], ip_title_matches = []\<rparr>"

definition import_write :: "portable_entry \<Rightarrow> resolved \<Rightarrow> entry_write" where
  "import_write e r =
     \<lparr>ew_series = rs_series r, ew_status = pe_status e, ew_notify = pe_notify e,
      ew_sync_excluded = pe_sync_excluded e, ew_added_at = pe_added_at e, ew_pinned = rs_pinned r\<rparr>"

definition entry_differs :: "local_entry \<Rightarrow> entry_write \<Rightarrow> bool" where
  "entry_differs cur w \<longleftrightarrow> le_status cur \<noteq> ew_status w \<or> le_notify cur \<noteq> ew_notify w \<or>
     le_sync_excluded cur \<noteq> ew_sync_excluded w \<or> le_pinned cur \<noteq> ew_pinned w"

definition wants_write :: "import_policy \<Rightarrow> local_entry option \<Rightarrow> entry_write \<Rightarrow> bool" where
  "wants_write policy existing w =
     (case existing of None \<Rightarrow> True | Some cur \<Rightarrow> policy = PreferImported \<and> entry_differs cur w)"

definition plan_step ::
  "(series_id \<Rightarrow> local_entry option) \<Rightarrow> (series_id \<Rightarrow> portable_progress option) \<Rightarrow> import_policy \<Rightarrow>
     nat \<times> portable_entry \<times> resolved option \<Rightarrow> import_plan \<Rightarrow> import_plan" where
  "plan_step loc prog policy item plan =
     (case item of (i, e, res) \<Rightarrow>
      case res of
        None \<Rightarrow> plan\<lparr>ip_unmatched := ip_unmatched plan @ [i]\<rparr>
      | Some r \<Rightarrow>
          if rs_series r \<in> set (ip_matched plan) then plan\<lparr>ip_duplicates := ip_duplicates plan @ [i]\<rparr>
          else
            let w = import_write e r;
                existing = loc (rs_series r);
                changed = wants_write policy existing w;
                progress = merged_progress (prog (rs_series r)) (pe_progress e) policy
            in plan
              \<lparr>ip_matched := ip_matched plan @ [rs_series r],
               ip_title_matches := ip_title_matches plan @ (if rs_matched_by r = ByTitle then [i] else []),
               ip_writes := ip_writes plan @ (if changed then [w] else []),
               ip_progress := ip_progress plan @ (case progress of None \<Rightarrow> [] | Some p \<Rightarrow> [(rs_series r, p)]),
               ip_added := ip_added plan + (if existing = None then 1 else 0),
               ip_updated := ip_updated plan + (if existing \<noteq> None \<and> (changed \<or> progress \<noteq> None) then 1 else 0),
               ip_unchanged := ip_unchanged plan + (if existing \<noteq> None \<and> \<not> changed \<and> progress = None then 1 else 0)\<rparr>)"

definition import_plan_of ::
  "portable_entry list \<Rightarrow> resolved option list \<Rightarrow> (series_id \<Rightarrow> local_entry option) \<Rightarrow>
     (series_id \<Rightarrow> portable_progress option) \<Rightarrow> import_policy \<Rightarrow> import_plan" where
  "import_plan_of entries res loc prog policy =
     fold (plan_step loc prog policy) (zip [0..<length entries] (zip entries res)) plan_default"

section \<open>A sanitized entry is valid\<close>

lemma check_each_ok: "check_each f i xs = Ok () \<longleftrightarrow> (\<forall>j < length xs. f (i + j) (xs ! j) = Ok ())"
proof (induction xs arbitrary: i)
  case (Cons x xs)
  then show ?case
    by (auto simp: bind_result_ok_iff nth_Cons less_Suc_eq_0_disj split: nat.split)
qed simp

lemma set_map_filter: "y \<in> set (List.map_filter f xs) \<longleftrightarrow> (\<exists>x \<in> set xs. f x = Some y)"
  by (induction xs) (auto simp: map_filter_simps split: option.split)

lemma check_each_all: "(\<And>i x. x \<in> set xs \<Longrightarrow> f i x = Ok ()) \<Longrightarrow> check_each f j xs = Ok ()"
  by (simp add: check_each_ok)

lemma unit_ok: "is_ok (r :: ('e, unit) result) \<longleftrightarrow> r = Ok ()"
  by (cases r) simp_all

lemma validate_ok:
  "validate parse e = Ok () \<longleftrightarrow>
     check_title FTitle (pe_title e) = Ok () \<and>
     length (pe_alternative_titles e) \<le> max_alternative_titles \<and>
     check_each (\<lambda>i. check_title (FAlternative i)) 0 (pe_alternative_titles e) = Ok () \<and>
     (\<forall>p. pe_progress e = Some p \<longrightarrow> check_progress p = Ok ()) \<and>
     length (pe_sources e) \<le> max_sources \<and> length (filter so_pinned (pe_sources e)) \<le> 1 \<and>
     check_each (validate_source parse) 0 (pe_sources e) = Ok () \<and>
     length (pe_external_ids e) \<le> max_external_ids \<and>
     check_each validate_external 0 (pe_external_ids e) = Ok ()"
  by (auto simp: validate_def bind_result_ok_iff check_that_def split: option.split if_splits)

lemma clean_title_valid:
  assumes "clean_title t = Some out"
  shows "check_title f out = Ok ()"
proof -
  let ?raw = "take_bytes max_title_bytes [c \<leftarrow> trim t. \<not> is_control c]"
  have out: "out = trim ?raw" "out \<noteq> []"
    using assms by (auto simp: clean_title_def Let_def split: if_splits)
  have "\<exists>c \<in> set out. \<not> is_whitespace c" using trim_nonempty [of ?raw] out by simp
  then have "trim out \<noteq> []" by (auto simp: trim_Nil)
  moreover have "byte_len out \<le> max_title_bytes"
    using byte_len_trim [of ?raw] take_bytes_len [of max_title_bytes] out(1) by (metis order_trans)
  moreover have "\<not> has_control out"
    using trim_sub [of ?raw] take_bytes_sub [of max_title_bytes "[c \<leftarrow> trim t. \<not> is_control c]"] out(1)
    by (auto simp: has_control_def list_ex_iff)
  ultimately show ?thesis by (simp add: check_title_def)
qed

lemma source_index: "validate_source parse i s = Ok () \<longleftrightarrow> validate_source parse j s = Ok ()"
  by (auto simp: validate_source_def split: option.split if_splits)

lemma external_index: "validate_external i x = Ok () \<longleftrightarrow> validate_external j x = Ok ()"
  by (auto simp: validate_external_def split: if_splits)

lemma validate_source_pin: "validate_source parse i (s\<lparr>so_pinned := b\<rparr>) = validate_source parse i s"
  by (cases s) (auto simp: validate_source_def)

lemma pin_first_valid:
  "\<forall>s \<in> set ss. validate_source parse i s = Ok () \<Longrightarrow> \<forall>s \<in> set (pin_first ss). validate_source parse i s = Ok ()"
  by (induction ss) (auto simp: validate_source_pin)

lemma pin_first_length [simp]: "length (pin_first ss) = length ss"
  by (induction ss) auto

lemma pin_first_once: "length (filter so_pinned (pin_first ss)) \<le> 1"
  by (induction ss) (auto simp: filter_map comp_def)

lemma sanitize_progress_valid: "sanitize_progress p = Some q \<Longrightarrow> check_progress q = Ok ()"
  by (auto simp: sanitize_progress_def Let_def unit_ok split: if_splits)

text \<open>C21: whatever the crawler has stored, an exported entry is importable. An entry that the export
  has sanitized passes every check an import makes of a document, on every list and every bound;
  no over-long title, invalid page or second pin can make a backup unreadable.\<close>

theorem sanitized_validates:
  assumes "sanitized parse e = Some e'"
  shows "validate parse e' = Ok ()"
proof -
  obtain title where title: "clean_title (pe_title e) = Some title"
    and e': "e' = e\<lparr>pe_title := title,
            pe_alternative_titles := take max_alternative_titles (remdups_adj (sort
              [t \<leftarrow> List.map_filter clean_title (pe_alternative_titles e). t \<noteq> title])),
            pe_progress := Option.bind (pe_progress e) sanitize_progress,
            pe_sources := pin_first (take max_sources
              [s \<leftarrow> pe_sources e. is_ok (validate_source parse 0 s)]),
            pe_external_ids := take max_external_ids
              [x \<leftarrow> pe_external_ids e. is_ok (validate_external 0 x)]\<rparr>"
    using assms by (auto simp: sanitized_def split: option.splits)
  have alt: "\<exists>u. clean_title u = Some t" if "t \<in> set (pe_alternative_titles e')" for t
  proof -
    have "t \<in> set (remdups_adj (sort
        [t \<leftarrow> List.map_filter clean_title (pe_alternative_titles e). t \<noteq> title]))"
      using that unfolding e' by (simp del: remdups_adj_set set_sort) (rule in_set_takeD)
    then show ?thesis by (auto simp: set_map_filter)
  qed
  have src: "validate_source parse 0 s = Ok ()" if "s \<in> set (pe_sources e')" for s
  proof -
    have "\<forall>s \<in> set (take max_sources [s \<leftarrow> pe_sources e. is_ok (validate_source parse 0 s)]).
        validate_source parse 0 s = Ok ()"
    proof
      fix s assume "s \<in> set (take max_sources [s \<leftarrow> pe_sources e. is_ok (validate_source parse 0 s)])"
      then have "s \<in> set [s \<leftarrow> pe_sources e. is_ok (validate_source parse 0 s)]" by (rule in_set_takeD)
      then show "validate_source parse 0 s = Ok ()" by (simp add: unit_ok)
    qed
    note valid = pin_first_valid [OF this]
    have "pe_sources e' = pin_first (take max_sources [s \<leftarrow> pe_sources e. is_ok (validate_source parse 0 s)])"
      by (simp add: e')
    with that valid show ?thesis by metis
  qed
  have ext: "validate_external 0 x = Ok ()" if "x \<in> set (pe_external_ids e')" for x
  proof -
    have "x \<in> set [x \<leftarrow> pe_external_ids e. is_ok (validate_external 0 x)]"
      using that unfolding e' by (simp del: set_filter) (rule in_set_takeD)
    then show ?thesis by (simp add: unit_ok)
  qed
  show ?thesis
    unfolding validate_ok
  proof (intro conjI allI impI)
    show "check_title FTitle (pe_title e') = Ok ()"
      using clean_title_valid [OF title] by (simp add: e')
    show "check_each (\<lambda>i. check_title (FAlternative i)) 0 (pe_alternative_titles e') = Ok ()"
      using alt clean_title_valid by (blast intro: check_each_all)
    show "check_progress p = Ok ()" if "pe_progress e' = Some p" for p
      using that by (auto simp: e' bind_eq_Some_conv intro: sanitize_progress_valid)
    show "check_each (validate_source parse) 0 (pe_sources e') = Ok ()"
      using src source_index by (blast intro: check_each_all)
    show "check_each validate_external 0 (pe_external_ids e') = Ok ()"
      using ext external_index by (blast intro: check_each_all)
    show "length (filter so_pinned (pe_sources e')) \<le> 1"
      using pin_first_once [of "take max_sources [s \<leftarrow> pe_sources e. is_ok (validate_source parse 0 s)]"]
      by (simp add: e')
  qed (simp_all add: e')
qed

section \<open>Merged progress reads exactly what either side read\<close>

definition as_read :: "portable_progress \<Rightarrow> read_progress" where
  "as_read p = \<lparr>last_read_whole_number = pp_whole p, last_read_part_number = pp_part p\<rparr>"

lemma check_progress_ok:
  "check_progress p = Ok () \<longleftrightarrow>
     is_storable (Fin (pp_whole p)) \<and> is_whole (pp_whole p) \<and>
     (\<forall>q. pp_part p = Some q \<longrightarrow> is_storable (Fin q) \<and> \<not> is_whole q \<and> pp_whole p \<le> of_int \<lfloor>q\<rfloor>)"
  by (auto simp: check_progress_def not_less split: option.split if_splits)

lemma keep_ahead_cases:
  "keep_ahead w a b =
     (let ahead = (\<lambda>q. Option.bind q (\<lambda>x. if w \<le> of_int \<lfloor>x\<rfloor> then Some x else None))
      in case ahead a of
           None \<Rightarrow> ahead b
         | Some x \<Rightarrow> Some (case ahead b of None \<Rightarrow> x | Some y \<Rightarrow> max x y))"
  by (cases a; cases b) (auto simp: keep_ahead_def max.commute)

text \<open>C23: an import that keeps the local side never un-reads and never invents. For a stored and an
  imported progress that pass validation, the progress written is again valid, and a chapter counts
  as read under it exactly when it counted as read under the stored or under the imported one.\<close>

theorem merged_progress_union:
  assumes "check_progress l = Ok ()" "check_progress imp = Ok ()"
  shows "check_progress (merge_target (Some l) imp KeepLocal) = Ok () \<and>
    (covers (as_read (merge_target (Some l) imp KeepLocal)) n \<longleftrightarrow>
       covers (as_read l) n \<or> covers (as_read imp) n)"
proof -
  have ahead: "of_int \<lfloor>n\<rfloor> \<le> w" if "n \<le> q" "\<not> w \<le> of_int \<lfloor>q\<rfloor>" for q w :: rat
    using that floor_mono [OF that(1)] by (metis linear of_int_le_iff order_trans)
  show ?thesis
    using assms ahead
    by (auto simp: check_progress_ok merge_target_def Let_def keep_ahead_cases covers_def as_read_def
        max_def bind_eq_Some_conv split: option.splits if_splits)
qed

section \<open>What the plan decides\<close>

text \<open>The entries an import acts on: the first one for each series, in the order of the document.\<close>

definition choose_step ::
  "portable_entry \<times> resolved option \<Rightarrow> (portable_entry \<times> resolved) list \<Rightarrow> (portable_entry \<times> resolved) list" where
  "choose_step er chosen =
     (case er of (e, None) \<Rightarrow> chosen
      | (e, Some r) \<Rightarrow> if rs_series r \<in> (\<lambda>(_, r). rs_series r) ` set chosen then chosen else chosen @ [(e, r)])"

definition chosen :: "portable_entry list \<Rightarrow> resolved option list \<Rightarrow> (portable_entry \<times> resolved) list" where
  "chosen entries res = fold choose_step (zip entries res) []"

definition series_of :: "portable_entry \<times> resolved \<Rightarrow> series_id" where
  "series_of er = rs_series (snd er)"

definition plan_shape ::
  "(series_id \<Rightarrow> local_entry option) \<Rightarrow> (series_id \<Rightarrow> portable_progress option) \<Rightarrow> import_policy \<Rightarrow>
     (portable_entry \<times> resolved) list \<Rightarrow> import_plan \<Rightarrow> bool" where
  "plan_shape loc prog policy cs plan \<longleftrightarrow>
     ip_matched plan = map series_of cs \<and>
     ip_writes plan = [import_write e r. (e, r) \<leftarrow> cs, wants_write policy (loc (rs_series r)) (import_write e r)] \<and>
     ip_progress plan = [(rs_series r, p). (e, r) \<leftarrow> cs,
        p \<leftarrow> (case merged_progress (prog (rs_series r)) (pe_progress e) policy of None \<Rightarrow> [] | Some p \<Rightarrow> [p])] \<and>
     ip_added plan + ip_updated plan + ip_unchanged plan = length cs \<and>
     ip_added plan = length [(e, r) \<leftarrow> cs. loc (rs_series r) = None] \<and>
     ip_updated plan = length [(e, r) \<leftarrow> cs. loc (rs_series r) \<noteq> None \<and>
        (wants_write policy (loc (rs_series r)) (import_write e r) \<or>
         merged_progress (prog (rs_series r)) (pe_progress e) policy \<noteq> None)]"

lemma plan_step_shape:
  assumes "plan_shape loc prog policy cs plan"
  shows "plan_shape loc prog policy (choose_step (e, res) cs) (plan_step loc prog policy (i, e, res) plan)"
proof (cases res)
  case (Some r)
  have "series_of ` set cs = (\<lambda>(_, r). rs_series r) ` set cs"
    by (rule image_cong) (auto simp: series_of_def)
  then show ?thesis
    using assms Some
    by (auto simp: plan_shape_def choose_step_def plan_step_def Let_def series_of_def import_write_def
        split: option.split)
qed (use assms in \<open>simp add: plan_shape_def choose_step_def plan_step_def\<close>)

lemma plan_fold_shape:
  "plan_shape loc prog policy cs plan \<Longrightarrow> length entries = length res \<Longrightarrow>
   plan_shape loc prog policy (fold choose_step (zip entries res) cs)
     (fold (plan_step loc prog policy) (zip [k..<k + length entries] (zip entries res)) plan)"
proof (induction entries arbitrary: res cs plan k)
  case (Cons e entries)
  then obtain r rs where r: "res = r # rs" by (cases res) auto
  have u: "[k..<k + length (e # entries)] = k # [Suc k..<Suc k + length entries]"
    by (simp add: upt_conv_Cons del: upt_Suc)
  show ?case
    unfolding u r zip_Cons_Cons fold.simps comp_def
    using Cons.IH [where res = rs and k = "Suc k", OF plan_step_shape [OF Cons.prems(1)]] Cons.prems(2) r
    by simp
qed simp

lemma import_plan_shape:
  assumes "length entries = length res"
  shows "plan_shape loc prog policy (chosen entries res) (import_plan_of entries res loc prog policy)"
proof -
  have "plan_shape loc prog policy [] plan_default" by (simp add: plan_shape_def plan_default_def)
  from plan_fold_shape [OF this assms, of 0] show ?thesis by (simp add: chosen_def import_plan_of_def)
qed

lemma choose_distinct: "distinct (map series_of cs) \<Longrightarrow> distinct (map series_of (choose_step er cs))"
  by (auto simp: choose_step_def series_of_def image_iff split: prod.splits option.splits)

lemma chosen_distinct: "distinct (map series_of (chosen entries res))"
proof -
  have "distinct (map series_of cs) \<Longrightarrow> distinct (map series_of (fold choose_step ers cs))" for ers cs
    by (induction ers arbitrary: cs) (auto simp: choose_distinct)
  then show ?thesis by (simp add: chosen_def)
qed

lemma choose_member: "x \<in> set (choose_step er cs) \<Longrightarrow> x \<in> set cs \<or> er = (fst x, Some (snd x))"
  by (cases er; cases "snd er") (auto simp: choose_step_def split: if_splits)

lemma chosen_member:
  assumes "(e, r) \<in> set (chosen entries res)"
  shows "(e, Some r) \<in> set (zip entries res)"
proof -
  have "(e, r) \<in> set cs \<or> (e, Some r) \<in> set ers" if "(e, r) \<in> set (fold choose_step ers cs)" for ers cs
    using that
  proof (induction ers arbitrary: cs)
    case (Cons er ers)
    then have "(e, r) \<in> set (choose_step er cs) \<or> (e, Some r) \<in> set ers" by simp
    then show ?case using choose_member [of "(e, r)" er cs] by auto
  qed simp
  from this [of "zip entries res" "[]"] show ?thesis using assms by (simp add: chosen_def)
qed

text \<open>The watchlist and the progress once a plan has been written.\<close>

definition written_entries ::
  "(series_id \<Rightarrow> local_entry option) \<Rightarrow> entry_write list \<Rightarrow> series_id \<Rightarrow> local_entry option" where
  "written_entries loc ws = fold (\<lambda>w m. m(ew_series w \<mapsto>
     \<lparr>le_status = ew_status w, le_notify = ew_notify w, le_sync_excluded = ew_sync_excluded w,
      le_pinned = ew_pinned w\<rparr>)) ws loc"

text \<open>
  The columns of the progress are \<open>numeric(10,4)\<close>: a value is cast on its way in and read back as the
  double nearest to what was kept.
\<close>

definition numeric_progress :: "portable_progress \<Rightarrow> (db_error, portable_progress) result" where
  "numeric_progress p =
     bind_result (to_numeric (pp_whole p)) (\<lambda>w.
       case pp_part p of
         None \<Rightarrow> Ok \<lparr>pp_whole = from_milli w, pp_part = None\<rparr>
       | Some x \<Rightarrow> bind_result (to_numeric x) (\<lambda>m. Ok \<lparr>pp_whole = from_milli w, pp_part = Some (from_milli m)\<rparr>))"

fun written_progress ::
  "(series_id \<Rightarrow> portable_progress option) \<Rightarrow> (series_id \<times> portable_progress) list \<Rightarrow>
     (db_error, series_id \<Rightarrow> portable_progress option) result" where
  "written_progress prog [] = Ok prog"
| "written_progress prog ((s, p) # ps) =
     bind_result (numeric_progress p) (\<lambda>q. written_progress (prog(s \<mapsto> q)) ps)"

lemma written_entries_at:
  "distinct (map ew_series ws) \<Longrightarrow>
   written_entries loc ws s =
     (case find (\<lambda>w. ew_series w = s) ws of
        None \<Rightarrow> loc s
      | Some w \<Rightarrow> Some \<lparr>le_status = ew_status w, le_notify = ew_notify w,
          le_sync_excluded = ew_sync_excluded w, le_pinned = ew_pinned w\<rparr>)"
proof (induction ws arbitrary: loc)
  case (Cons w ws)
  have "find (\<lambda>w. ew_series w = s) ws = None" if "ew_series w = s"
    using Cons.prems that by (simp add: find_None_iff) (metis image_eqI)
  then show ?case using Cons by (auto simp: written_entries_def split: option.split)
qed (simp add: written_entries_def)

lemma written_progress_at:
  assumes "distinct (map fst ps)" "\<And>s p. (s, p) \<in> set ps \<Longrightarrow> numeric_progress p = Ok (kept p)"
  shows "\<exists>stored. written_progress prog ps = Ok stored \<and>
    (\<forall>s. stored s = (case map_of ps s of None \<Rightarrow> prog s | Some p \<Rightarrow> Some (kept p)))"
  using assms
proof (induction ps arbitrary: prog)
  case (Cons sp ps)
  obtain s p where sp: "sp = (s, p)" by fastforce
  obtain stored where st: "written_progress (prog(s \<mapsto> kept p)) ps = Ok stored"
    "\<And>t. stored t = (case map_of ps t of None \<Rightarrow> (prog(s \<mapsto> kept p)) t | Some p \<Rightarrow> Some (kept p))"
  proof -
    have "\<exists>stored. written_progress (prog(s \<mapsto> kept p)) ps = Ok stored \<and>
        (\<forall>t. stored t = (case map_of ps t of None \<Rightarrow> (prog(s \<mapsto> kept p)) t | Some p \<Rightarrow> Some (kept p)))"
      by (rule Cons.IH) (use Cons.prems in auto)
    then show thesis using that by blast
  qed
  have "numeric_progress p = Ok (kept p)" using Cons.prems(2) [of s p] by (simp add: sp)
  moreover have "map_of ps s = None" using Cons.prems(1) by (auto simp: sp map_of_eq_None_iff)
  ultimately show ?case using st by (auto simp: sp split: option.split)
qed simp

text \<open>Sub-lists of the chosen entries name each series once.\<close>

lemma distinct_concat_optional:
  assumes "distinct (map series_of cs)" "\<And>x. f x = [] \<or> (\<exists>y. f x = [y] \<and> g y = series_of x)"
  shows "distinct (map g (concat (map f cs)))"
    and "x \<in> set cs \<Longrightarrow> y \<in> set (concat (map f cs)) \<Longrightarrow> g y = series_of x \<Longrightarrow> f x = [y]"
proof -
  have "distinct (map g (concat (map f cs))) \<and>
      (\<forall>y \<in> set (concat (map f cs)). \<exists>x \<in> set cs. g y = series_of x \<and> f x = [y])"
    using assms(1)
  proof (induction cs)
    case (Cons x cs)
    then show ?case using assms(2) [of x] by (fastforce simp: image_iff)
  qed simp
  then show "distinct (map g (concat (map f cs)))"
    and "x \<in> set cs \<Longrightarrow> y \<in> set (concat (map f cs)) \<Longrightarrow> g y = series_of x \<Longrightarrow> f x = [y]"
    using assms(1) by (auto simp: distinct_map inj_on_def) metis+
qed

definition write_of ::
  "(series_id \<Rightarrow> local_entry option) \<Rightarrow> import_policy \<Rightarrow> portable_entry \<times> resolved \<Rightarrow> entry_write list" where
  "write_of loc policy = (\<lambda>(e, r).
     if wants_write policy (loc (rs_series r)) (import_write e r) then [import_write e r] else [])"

definition progress_of ::
  "(series_id \<Rightarrow> portable_progress option) \<Rightarrow> import_policy \<Rightarrow> portable_entry \<times> resolved \<Rightarrow>
     (series_id \<times> portable_progress) list" where
  "progress_of prog policy = (\<lambda>(e, r).
     case merged_progress (prog (rs_series r)) (pe_progress e) policy of None \<Rightarrow> [] | Some p \<Rightarrow> [(rs_series r, p)])"

lemma plan_writes:
  assumes "length entries = length res"
  shows "ip_writes (import_plan_of entries res loc prog policy) = concat (map (write_of loc policy) (chosen entries res))"
    and "ip_progress (import_plan_of entries res loc prog policy) = concat (map (progress_of prog policy) (chosen entries res))"
proof -
  note shape = import_plan_shape [OF assms, of loc prog policy, unfolded plan_shape_def]
  show "ip_writes (import_plan_of entries res loc prog policy) = concat (map (write_of loc policy) (chosen entries res))"
    using shape by (simp add: write_of_def)
  have "progress_of prog policy = (\<lambda>(e, r). map (Pair (rs_series r))
      (case merged_progress (prog (rs_series r)) (pe_progress e) policy of None \<Rightarrow> [] | Some p \<Rightarrow> [p]))"
    by (auto simp: progress_of_def fun_eq_iff split: option.split)
  then show "ip_progress (import_plan_of entries res loc prog policy) = concat (map (progress_of prog policy) (chosen entries res))"
    using shape by simp
qed

lemma write_of_single: "write_of loc policy x = [] \<or> (\<exists>w. write_of loc policy x = [w] \<and> ew_series w = series_of x)"
  by (cases x) (auto simp: write_of_def series_of_def import_write_def)

lemma progress_of_single: "progress_of prog policy x = [] \<or> (\<exists>p. progress_of prog policy x = [p] \<and> fst p = series_of x)"
  by (cases x) (auto simp: progress_of_def series_of_def split: option.split)

lemma chosen_write_at:
  assumes er: "(e, r) \<in> set cs" and d: "distinct (map series_of cs)"
  shows "written_entries loc (concat (map (write_of loc policy) cs)) (rs_series r) =
    (if wants_write policy (loc (rs_series r)) (import_write e r)
     then Some \<lparr>le_status = pe_status e, le_notify = pe_notify e, le_sync_excluded = pe_sync_excluded e,
       le_pinned = rs_pinned r\<rparr>
     else loc (rs_series r))"
proof -
  let ?ws = "concat (map (write_of loc policy) cs)"
  note one = distinct_concat_optional [where g = ew_series, OF d write_of_single [of loc policy]]
  have at: "w = import_write e r \<and> wants_write policy (loc (rs_series r)) (import_write e r)"
    if "w \<in> set ?ws" "ew_series w = rs_series r" for w
    using one(2) [OF er that(1)] that(2) by (auto simp: series_of_def write_of_def split: if_splits)
  have mem: "import_write e r \<in> set ?ws" if "wants_write policy (loc (rs_series r)) (import_write e r)"
    using er that by (force simp: write_of_def)
  show ?thesis
  proof (cases "find (\<lambda>w. ew_series w = rs_series r) ?ws")
    case None
    then have "\<not> wants_write policy (loc (rs_series r)) (import_write e r)"
      using mem None [unfolded find_None_iff] by (metis entry_write.select_convs(1) import_write_def)
    then show ?thesis by (simp add: written_entries_at [OF one(1)] None)
  next
    case (Some w)
    then show ?thesis
      using at [of w] find_Some_mem [OF Some]
      by (simp add: written_entries_at [OF one(1)] Some import_write_def)
  qed
qed

lemma chosen_progress_at:
  assumes er: "(e, r) \<in> set cs" and d: "distinct (map series_of cs)"
  shows "map_of (concat (map (progress_of prog policy) cs)) (rs_series r) =
    merged_progress (prog (rs_series r)) (pe_progress e) policy"
proof -
  let ?ps = "concat (map (progress_of prog policy) cs)"
  note one = distinct_concat_optional [where g = fst, OF d progress_of_single [of prog policy]]
  have at: "merged_progress (prog (rs_series r)) (pe_progress e) policy = Some p" if "(rs_series r, p) \<in> set ?ps" for p
    using one(2) [OF er that] by (auto simp: series_of_def progress_of_def split: option.splits)
  have mem: "(rs_series r, p) \<in> set ?ps" if "merged_progress (prog (rs_series r)) (pe_progress e) policy = Some p" for p
    using er that by (force simp: progress_of_def)
  show ?thesis
  proof (cases "map_of ?ps (rs_series r)")
    case None
    then have "(rs_series r, p) \<notin> set ?ps" for p by (metis domI domIff map_of_SomeD weak_map_of_SomeI)
    then show ?thesis using None mem by (metis option.exhaust)
  next
    case (Some p)
    then show ?thesis using at [OF map_of_SomeD [OF Some]] by simp
  qed
qed

lemma keep_ahead_again: "keep_ahead w (keep_ahead w a b) b = keep_ahead w a b"
  by (cases a; cases b) (auto simp: keep_ahead_cases max_def)

lemma merge_target_settled:
  assumes "check_progress imp = Ok ()"
  shows "merge_target (Some (merge_target l imp policy)) imp policy = merge_target l imp policy"
proof (cases "policy = KeepLocal")
  case True
  show ?thesis
  proof (cases l)
    case None
    have "keep_ahead (pp_whole imp) (pp_part imp) (pp_part imp) = pp_part imp"
      using assms by (cases "pp_part imp") (auto simp: keep_ahead_cases check_progress_ok)
    then show ?thesis using None True by (simp add: merge_target_def)
  next
    case (Some a)
    have "max (max (pp_whole a) (pp_whole imp)) (pp_whole imp) = max (pp_whole a) (pp_whole imp)" by simp
    then show ?thesis using Some True by (simp add: merge_target_def Let_def keep_ahead_again del: max.left_idem)
  qed
next
  case False
  then have "policy = PreferImported" by (cases policy) auto
  then show ?thesis by (cases l) (simp_all add: merge_target_def)
qed

lemma merged_progress_settled:
  assumes "check_progress imp = Ok ()"
  shows "merged_progress (case merged_progress l (Some imp) policy of None \<Rightarrow> l | Some p \<Rightarrow> Some p) (Some imp) policy = None"
  using merge_target_settled [OF assms, of l policy]
  by (cases l) (auto simp: merged_progress_def Let_def)

text \<open>What the columns keep of a number in their range.\<close>

definition kept_number :: "rat \<Rightarrow> rat" where
  "kept_number x = from_milli (round_away (x * 10000))"

definition kept_progress :: "portable_progress \<Rightarrow> portable_progress" where
  "kept_progress p = \<lparr>pp_whole = kept_number (pp_whole p), pp_part = map_option kept_number (pp_part p)\<rparr>"

definition in_range :: "portable_progress \<Rightarrow> bool" where
  "in_range p \<longleftrightarrow> is_storable (Fin (pp_whole p)) \<and>
     (case pp_part p of None \<Rightarrow> True | Some x \<Rightarrow> is_storable (Fin x))"

lemma in_range_iff:
  "in_range p \<longleftrightarrow> is_storable (Fin (pp_whole p)) \<and> (\<forall>x. pp_part p = Some x \<longrightarrow> is_storable (Fin x))"
  by (simp add: in_range_def del: is_storable.simps split: option.split)

text \<open>Values the columns keep as they are: those of at most four decimals.\<close>

definition four_decimals :: "portable_progress \<Rightarrow> bool" where
  "four_decimals p \<longleftrightarrow> in_range p \<and> kept_progress p = p"

lemma round_away_range:
  assumes "is_storable (Fin x)"
  shows "milli_ok (round_away (x * 10000))"
proof -
  have "0 \<le> x * 10000" "x * 10000 \<le> 2000000000" using assms by (simp_all add: max_chapter_number_def)
  then have "0 \<le> x * 10000 + 1 / 2" "x * 10000 + 1 / 2 < 2000000001" by linarith+
  then show ?thesis
    using \<open>0 \<le> x * 10000\<close> by (simp only: milli_ok_def round_away_def if_True) (simp add: le_floor_iff floor_le_iff)
qed

lemma kept_number_mono:
  assumes "is_storable (Fin x)" "x \<le> y"
  shows "kept_number x \<le> kept_number y"
proof -
  have "0 \<le> x * 10000" "x * 10000 \<le> y * 10000" using assms by simp_all
  then have "0 \<le> y * 10000" by linarith
  then have "round_away (x * 10000) \<le> round_away (y * 10000)"
    using \<open>0 \<le> x * 10000\<close> \<open>x * 10000 \<le> y * 10000\<close> by (simp add: round_away_def floor_mono)
  then show ?thesis
    unfolding kept_number_def using round_away_range [OF assms(1)] by (intro from_milli_mono) (simp add: milli_ok_def)
qed

lemma kept_number_again:
  assumes "is_storable (Fin x)"
  shows "kept_number (kept_number x) = kept_number x" "is_storable (Fin (kept_number x))"
proof -
  note m = round_away_range [OF assms]
  have "round_away (from_milli (round_away (x * 10000)) * 10000) = round_away (x * 10000)"
    using to_numeric_from_milli [OF m] by (simp add: to_numeric_def Let_def split: if_splits)
  then show "kept_number (kept_number x) = kept_number x" by (simp only: kept_number_def)
  show "is_storable (Fin (kept_number x))" unfolding kept_number_def by (rule from_milli_storable [OF m])
qed

lemma numeric_storable: "is_storable (Fin x) \<Longrightarrow> to_numeric x = Ok (round_away (x * 10000))"
  using round_away_range [of x] by (simp add: to_numeric_def milli_ok_def del: is_storable.simps)

lemma numeric_in_range: "in_range p \<Longrightarrow> numeric_progress p = Ok (kept_progress p)"
  by (auto simp: numeric_progress_def in_range_iff numeric_storable kept_progress_def kept_number_def
      simp del: is_storable.simps split: option.split)

lemma kept_in_range: "in_range p \<Longrightarrow> in_range (kept_progress p) \<and> kept_progress (kept_progress p) = kept_progress p"
  by (cases "pp_part p") (auto simp: in_range_iff kept_progress_def kept_number_again simp del: is_storable.simps)

lemma valid_in_range: "check_progress p = Ok () \<Longrightarrow> in_range p"
  by (auto simp: check_progress_ok in_range_iff)

lemma kept_whole:
  assumes "is_storable (Fin x)" "is_whole x"
  shows "kept_number x = x"
proof -
  have x: "x = of_int \<lfloor>x\<rfloor>" "0 \<le> x" "x \<le> 200000"
    using assms by (simp_all add: is_whole_def max_chapter_number_def)
  then have "0 \<le> \<lfloor>x\<rfloor>" "\<lfloor>x\<rfloor> \<le> 200000" by (simp_all add: floor_le_iff)
  then have "from_milli (\<lfloor>x\<rfloor> * 10000) = of_int \<lfloor>x\<rfloor>"
    using from_milli_whole [of "\<lfloor>x\<rfloor>"] by (simp add: milli_of_whole_def milli_scale_int_def)
  moreover have "round_away (x * 10000) = \<lfloor>x\<rfloor> * 10000"
    using round_away_of_int [of "\<lfloor>x\<rfloor> * 10000"] x(1) by simp
  ultimately show ?thesis using x(1) by (simp add: kept_number_def)
qed

lemma max_kept:
  assumes "is_storable (Fin x)"
  shows "kept_number (max (kept_number x) x) = kept_number x"
  using kept_number_again(1) [OF assms] by (cases "kept_number x \<le> x") (simp_all add: max_def)

lemma keep_ahead_kept:
  assumes "\<And>x. a = Some x \<Longrightarrow> is_storable (Fin x) \<and> kept_number x = x" "\<And>x. b = Some x \<Longrightarrow> is_storable (Fin x)"
  shows "map_option kept_number (keep_ahead w (map_option kept_number (keep_ahead w a b)) b) =
    map_option kept_number (keep_ahead w a b)"
proof -
  have both: "kept_number (max x y) = kept_number (if x \<le> y then y else x)" for x y by (simp add: max_def)
  show ?thesis
    using assms kept_number_again(1) max_kept
    by (cases a; cases b)
      (auto simp: keep_ahead_cases max_def both split: if_splits simp del: is_storable.simps)
qed

lemma merge_target_in_range:
  assumes "check_progress imp = Ok ()" "\<And>p. l = Some p \<Longrightarrow> in_range p"
  shows "in_range (merge_target l imp policy)"
  using valid_in_range [OF assms(1)] assms(2)
  by (cases l; cases policy; cases "pp_part imp"; cases "pp_part (the l)")
    (auto simp: merge_target_def in_range_iff keep_ahead_cases Let_def max_def simp del: is_storable.simps
      split: if_splits)

lemma merge_target_four_decimals:
  assumes "four_decimals imp" "\<And>p. l = Some p \<Longrightarrow> four_decimals p"
  shows "kept_progress (merge_target l imp policy) = merge_target l imp policy"
proof -
  have imp: "kept_number (pp_whole imp) = pp_whole imp" "\<And>x. pp_part imp = Some x \<Longrightarrow> kept_number x = x"
    using assms(1) by (auto simp: four_decimals_def kept_progress_def dest: arg_cong [of _ _ pp_whole] arg_cong [of _ _ pp_part])
  have loc: "kept_number (pp_whole p) = pp_whole p" "\<And>x. pp_part p = Some x \<Longrightarrow> kept_number x = x" if "l = Some p" for p
    using assms(2) [OF that] by (auto simp: four_decimals_def kept_progress_def dest: arg_cong [of _ _ pp_whole] arg_cong [of _ _ pp_part])
  show ?thesis
    using imp loc
    by (cases l; cases policy; cases "pp_part imp"; cases "pp_part (the l)")
      (auto simp: merge_target_def kept_progress_def keep_ahead_cases Let_def max_def split: if_splits)
qed

text \<open>Merging what was kept with the import again is kept as the same.\<close>

lemma merge_target_kept:
  assumes imp: "check_progress imp = Ok ()" and l: "\<And>p. l = Some p \<Longrightarrow> four_decimals p"
  shows "kept_progress (merge_target (Some (kept_progress (merge_target l imp policy))) imp policy) =
    kept_progress (merge_target l imp policy)"
proof (cases "policy = KeepLocal")
  case False
  then have "policy = PreferImported" by (cases policy) auto
  then show ?thesis by (cases l) (simp_all add: merge_target_def)
next
  case True
  note ok = imp [unfolded check_progress_ok]
  have w: "kept_number (pp_whole imp) = pp_whole imp" using ok kept_whole by blast
  show ?thesis
  proof (cases l)
    case None
    have "keep_ahead (pp_whole imp) None (pp_part imp) = pp_part imp"
      using ok by (cases "pp_part imp") (auto simp: keep_ahead_cases)
    then show ?thesis
      using keep_ahead_kept [of None "pp_part imp" "pp_whole imp"] ok True None
      by (simp add: merge_target_def kept_progress_def Let_def w)
  next
    case (Some p)
    have p: "kept_number (pp_whole p) = pp_whole p" "\<And>x. pp_part p = Some x \<Longrightarrow> is_storable (Fin x) \<and> kept_number x = x"
      using l [OF Some] by (auto simp: four_decimals_def in_range_iff kept_progress_def
          dest: arg_cong [of _ _ pp_whole] arg_cong [of _ _ pp_part])
    let ?w = "max (pp_whole p) (pp_whole imp)"
    have top: "kept_number ?w = ?w" "max ?w (pp_whole imp) = ?w" using w p(1) by (simp_all add: max_def)
    show ?thesis
      using keep_ahead_kept [of "pp_part p" "pp_part imp" ?w] p(2) ok True Some
      by (simp add: merge_target_def Let_def kept_progress_def top del: max.assoc max.left_idem is_storable.simps)
  qed
qed

lemma merged_progress_kept:
  fixes policy
  assumes imp: "check_progress imp = Ok ()" and l: "\<And>p. l = Some p \<Longrightarrow> four_decimals p"
  defines "stored \<equiv> (case merged_progress l (Some imp) policy of None \<Rightarrow> l | Some p \<Rightarrow> Some (kept_progress p))"
  shows "merged_progress stored (Some imp) policy = Some p \<Longrightarrow> stored = Some (kept_progress p) \<and> in_range p"
    and "four_decimals imp \<Longrightarrow> merged_progress stored (Some imp) policy = None"
proof -
  note settled = merged_progress_settled [OF imp, where l = l and policy = policy]
  have target: "merged_progress l (Some imp) policy = Some (merge_target l imp policy)"
    if "merged_progress l (Some imp) policy \<noteq> None"
    using that by (auto simp: merged_progress_def Let_def split: option.splits if_splits)
  have range: "in_range (kept_progress (merge_target l imp policy))"
    using merge_target_in_range [OF imp, where l = l and policy = policy] l kept_in_range by (auto simp: four_decimals_def)
  show "stored = Some (kept_progress p) \<and> in_range p" if "merged_progress stored (Some imp) policy = Some p"
  proof (cases "merged_progress l (Some imp) policy")
    case None
    then show ?thesis using that settled by (simp add: stored_def)
  next
    case (Some q)
    then have st: "stored = Some (kept_progress (merge_target l imp policy))" using target by (simp add: stored_def)
    then have p: "p = merge_target stored imp policy"
      using that by (auto simp: merged_progress_def Let_def split: if_splits)
    show ?thesis
      using merge_target_kept [OF imp l, where policy = policy] merge_target_in_range [OF imp, where l = stored and policy = policy] range
      by (simp add: p) (simp add: st)
  qed
  show "merged_progress stored (Some imp) policy = None" if "four_decimals imp"
  proof (cases "merged_progress l (Some imp) policy")
    case None
    then show ?thesis using settled by (simp add: stored_def)
  next
    case (Some q)
    then show ?thesis
      using settled target merge_target_four_decimals [OF that l, where policy = policy] by (simp add: stored_def)
  qed
qed

text \<open>C22: importing a document twice leaves what importing it once left. Whatever the policy, and
  whatever duplicates a valid document has, the progress of the plan can be stored; a second import over
  the watchlist and the progress the first one wrote plans no watchlist row, adds no entry, and stores
  the progress that is there already. It also plans no progress row and reports every matched entry as
  unchanged when the numbers of the document have at most four decimals, which is what the columns keep;
  with more it plans the rounded value again, every time (\<open>long_part_planned_again\<close>).\<close>

theorem import_idempotent:
  fixes loc prog policy
  assumes len: "length entries = length res"
    and valid: "\<forall>e \<in> set entries. \<forall>p. pe_progress e = Some p \<longrightarrow> check_progress p = Ok ()"
    and kept: "\<forall>s p. prog s = Some p \<longrightarrow> four_decimals p"
  defines "plan \<equiv> import_plan_of entries res loc prog policy"
  defines "again \<equiv> import_plan_of entries res (written_entries loc (ip_writes plan))"
  shows "\<exists>stored. written_progress prog (ip_progress plan) = Ok stored \<and>
    ip_writes (again stored policy) = [] \<and> ip_added (again stored policy) = 0 \<and>
    ip_matched (again stored policy) = ip_matched plan \<and>
    written_progress stored (ip_progress (again stored policy)) = Ok stored \<and>
    ((\<forall>e \<in> set entries. \<forall>p. pe_progress e = Some p \<longrightarrow> four_decimals p) \<longrightarrow>
       ip_progress (again stored policy) = [] \<and> ip_updated (again stored policy) = 0 \<and>
       ip_unchanged (again stored policy) = length (ip_matched plan))"
proof -
  let ?cs = "chosen entries res" and ?loc = "written_entries loc (ip_writes plan)"
  have one: "distinct (map fst (concat (map (progress_of q policy) ?cs)))" for q
    by (rule distinct_concat_optional(1) [OF chosen_distinct progress_of_single])
  have imp: "check_progress p = Ok ()" if "(e, r) \<in> set ?cs" "pe_progress e = Some p" for e r p
    using that valid chosen_member [OF that(1)] by (auto dest: set_zip_leftD)
  have from_cs: "\<exists>e r imp. (e, r) \<in> set ?cs \<and> s = rs_series r \<and> pe_progress e = Some imp \<and>
      merged_progress (q s) (Some imp) policy = Some p"
    if "(s, p) \<in> set (concat (map (progress_of q policy) ?cs))" for q s p
    using that by (fastforce simp: progress_of_def merged_progress_def split: option.splits)
  have "numeric_progress p = Ok (kept_progress p)"
    if planned: "(s, p) \<in> set (concat (map (progress_of prog policy) ?cs))" for s p
  proof -
    obtain e r i where i: "(e, r) \<in> set ?cs" "pe_progress e = Some i" "merged_progress (prog s) (Some i) policy = Some p"
      using from_cs [OF planned] by blast
    then have "p = merge_target (prog s) i policy"
      by (auto simp: merged_progress_def Let_def split: option.splits if_splits)
    then show ?thesis
      using merge_target_in_range [OF imp [OF i(1,2)], where l = "prog s" and policy = policy] kept
      by (auto simp: numeric_in_range four_decimals_def)
  qed
  then obtain stored where stored: "written_progress prog (ip_progress plan) = Ok stored"
    "\<And>s. stored s = (case map_of (concat (map (progress_of prog policy) ?cs)) s of None \<Rightarrow> prog s | Some p \<Rightarrow> Some (kept_progress p))"
    using written_progress_at [OF one, where kept = kept_progress and prog = prog]
    unfolding plan_def plan_writes [OF len] by blast
  have at: "stored (rs_series r) = (case merged_progress (prog (rs_series r)) (pe_progress e) policy of
      None \<Rightarrow> prog (rs_series r) | Some p \<Rightarrow> Some (kept_progress p))" if er: "(e, r) \<in> set ?cs" for e r
    by (simp add: stored(2) chosen_progress_at [OF er chosen_distinct])
  have second: "stored s = Some (kept_progress p) \<and> in_range p"
    if planned: "(s, p) \<in> set (concat (map (progress_of stored policy) ?cs))" for s p
  proof -
    obtain e r i where i: "(e, r) \<in> set ?cs" "s = rs_series r" "pe_progress e = Some i"
      "merged_progress (stored s) (Some i) policy = Some p"
      using from_cs [OF planned] by blast
    show ?thesis
      using merged_progress_kept(1) [OF imp [OF i(1,3)], where l = "prog s" and policy = policy and p = p] kept i at [OF i(1)] by auto
  qed
  obtain stored' where stored': "written_progress stored (concat (map (progress_of stored policy) ?cs)) = Ok stored'"
    "\<And>s. stored' s = (case map_of (concat (map (progress_of stored policy) ?cs)) s of None \<Rightarrow> stored s | Some p \<Rightarrow> Some (kept_progress p))"
    using written_progress_at [OF one, where kept = kept_progress and prog = stored]
      second numeric_in_range by blast
  note shape = import_plan_shape [OF len, of ?loc stored policy, folded again_def, unfolded plan_shape_def]
  note w = plan_writes [OF len, of ?loc stored policy, folded again_def]
  have "stored' = stored"
  proof
    fix s
    show "stored' s = stored s"
      using second map_of_SomeD by (fastforce simp: stored'(2) split: option.split)
  qed
  then have same: "written_progress stored (ip_progress (again stored policy)) = Ok stored"
    using stored'(1) unfolding w by simp
  have settled: "\<not> wants_write policy (?loc (rs_series r)) (import_write e r) \<and> ?loc (rs_series r) \<noteq> None"
    if er: "(e, r) \<in> set ?cs" for e r
    unfolding plan_def plan_writes [OF len] chosen_write_at [OF er chosen_distinct, of loc policy]
    by (auto simp: wants_write_def entry_differs_def import_write_def split: option.splits)
  have quiet: "merged_progress (stored (rs_series r)) (pe_progress e) policy = None"
    if er: "(e, r) \<in> set ?cs"
      and four: "\<forall>e \<in> set entries. \<forall>p. pe_progress e = Some p \<longrightarrow> four_decimals p" for e r
  proof (cases "pe_progress e")
    case (Some i)
    then have "four_decimals i" using four chosen_member [OF er] by (auto dest: set_zip_leftD)
    then show ?thesis
      using merged_progress_kept(2) [OF imp [OF er Some], where l = "prog (rs_series r)" and policy = policy] kept at [OF er] Some by simp
  qed (simp add: merged_progress_def)
  have writes: "ip_writes (again stored policy) = []" unfolding w using settled by (auto simp: write_of_def split: if_splits)
  have "[(e, r) \<leftarrow> ?cs. ?loc (rs_series r) = None] = []" using settled by (auto simp: filter_empty_conv)
  then have added: "ip_added (again stored policy) = 0" using shape by simp
  have matched: "ip_matched (again stored policy) = ip_matched plan" "length ?cs = length (ip_matched plan)"
    using shape import_plan_shape [OF len, of loc prog policy, folded plan_def, unfolded plan_shape_def] by simp_all
  have "ip_progress (again stored policy) = [] \<and> ip_updated (again stored policy) = 0 \<and>
      ip_unchanged (again stored policy) = length (ip_matched plan)"
    if four: "\<forall>e \<in> set entries. \<forall>p. pe_progress e = Some p \<longrightarrow> four_decimals p"
  proof -
    have "[(e, r) \<leftarrow> ?cs. ?loc (rs_series r) \<noteq> None \<and>
        (wants_write policy (?loc (rs_series r)) (import_write e r) \<or>
         merged_progress (stored (rs_series r)) (pe_progress e) policy \<noteq> None)] = []"
      using settled quiet [OF _ four] by (auto simp: filter_empty_conv)
    then have up: "ip_updated (again stored policy) = 0" using shape by simp
    have "ip_progress (again stored policy) = []"
      unfolding w using quiet [OF _ four] by (auto simp: progress_of_def split: option.splits)
    moreover have "ip_unchanged (again stored policy) = length (ip_matched plan)"
      using shape up added matched by linarith
    ultimately show ?thesis using up by blast
  qed
  then show ?thesis using stored(1) same writes added matched by blast
qed

lemma plan_step_counts:
  "length (ip_unmatched (plan_step loc prog policy x plan)) + length (ip_duplicates (plan_step loc prog policy x plan)) +
     length (ip_matched (plan_step loc prog policy x plan)) =
   Suc (length (ip_unmatched plan) + length (ip_duplicates plan) + length (ip_matched plan))"
  by (simp add: plan_step_def Let_def split: prod.split option.split)

lemma plan_fold_counts:
  "length (ip_unmatched (fold (plan_step loc prog policy) xs plan)) +
     length (ip_duplicates (fold (plan_step loc prog policy) xs plan)) +
     length (ip_matched (fold (plan_step loc prog policy) xs plan)) =
   length xs + length (ip_unmatched plan) + length (ip_duplicates plan) + length (ip_matched plan)"
proof (induction xs arbitrary: plan)
  case (Cons x xs)
  show ?case
    using Cons [of "plan_step loc prog policy x plan"] plan_step_counts [of loc prog policy x plan] by simp
qed simp

lemma optional_sub:
  assumes "\<And>x. f x = [] \<or> (\<exists>y. f x = [y] \<and> g y = series_of x)"
  shows "g ` set (concat (map f cs)) \<subseteq> series_of ` set cs"
proof (rule image_subsetI)
  fix y assume "y \<in> set (concat (map f cs))"
  then obtain x where "x \<in> set cs" "y \<in> set (f x)" by auto
  with assms [of x] show "g y \<in> series_of ` set cs" by auto
qed

text \<open>The plan accounts for every entry of the document exactly once: it matched nothing, it is a
  duplicate of an earlier entry's series, or it is the entry its series is imported from, and each
  of those is added, updated or left unchanged. No statement of the import names a series twice.\<close>

theorem import_accounts_for_entries:
  fixes entries res loc prog policy
  assumes "length entries = length res"
  defines "plan \<equiv> import_plan_of entries res loc prog policy"
  shows "length (ip_unmatched plan) + length (ip_duplicates plan) +
      (ip_added plan + ip_updated plan + ip_unchanged plan) = length entries \<and>
    distinct (ip_matched plan) \<and>
    distinct (map ew_series (ip_writes plan)) \<and> ew_series ` set (ip_writes plan) \<subseteq> set (ip_matched plan) \<and>
    distinct (map fst (ip_progress plan)) \<and> fst ` set (ip_progress plan) \<subseteq> set (ip_matched plan)"
proof -
  let ?cs = "chosen entries res"
  note shape = import_plan_shape [OF assms(1), of loc prog policy, folded plan_def, unfolded plan_shape_def]
  note w = plan_writes [OF assms(1), of loc prog policy, folded plan_def]
  have counts: "length (ip_unmatched plan) + length (ip_duplicates plan) + length (ip_matched plan) = length entries"
    unfolding plan_def import_plan_of_def plan_fold_counts using assms(1) by (simp add: plan_default_def)
  have sub: "ew_series ` set (ip_writes plan) \<subseteq> series_of ` set ?cs" "fst ` set (ip_progress plan) \<subseteq> series_of ` set ?cs"
    unfolding w
    by (rule optional_sub [OF write_of_single], rule optional_sub [OF progress_of_single])
  show ?thesis
  proof (intro conjI)
    show "length (ip_unmatched plan) + length (ip_duplicates plan) +
      (ip_added plan + ip_updated plan + ip_unchanged plan) = length entries"
      using counts shape by simp
    show "distinct (ip_matched plan)" using shape chosen_distinct by simp
    show "distinct (map ew_series (ip_writes plan))"
      unfolding w by (rule distinct_concat_optional(1) [OF chosen_distinct write_of_single])
    show "distinct (map fst (ip_progress plan))"
      unfolding w by (rule distinct_concat_optional(1) [OF chosen_distinct progress_of_single])
  qed (use sub shape in auto)
qed

text \<open>Validation accepts a progress the database cannot keep. The columns hold four decimals: a
  part just below the next chapter passes every check, is stored as that whole chapter, and the
  row then no longer satisfies the rule that the part frontier is fractional.\<close>

theorem valid_part_rounds_to_whole:
  "check_progress \<lparr>pp_whole = 1, pp_part = Some (2 - 1 / 131072)\<rparr> = Ok () \<and>
   f64 (2 - 1 / 131072) = 2 - 1 / 131072 \<and>
   to_numeric (2 - 1 / 131072) = Ok 20000 \<and> from_milli 20000 = 2 \<and>
   check_progress \<lparr>pp_whole = 1, pp_part = Some (from_milli 20000)\<rparr> \<noteq> Ok ()"
proof (intro conjI)
  show "check_progress \<lparr>pp_whole = 1, pp_part = Some (2 - 1 / 131072)\<rparr> = Ok ()" by code_simp
  show "f64 (2 - 1 / 131072) = 2 - 1 / 131072" by code_simp
  show "to_numeric (2 - 1 / 131072) = Ok 20000" by code_simp
  show "from_milli 20000 = 2" by code_simp
  show "check_progress \<lparr>pp_whole = 1, pp_part = Some (from_milli 20000)\<rparr> \<noteq> Ok ()" by code_simp
qed

section \<open>A document that can be evaluated\<close>

definition sample_url :: url_parse where
  "sample_url s = (if s = lit ''u'' then Some \<lparr>ur_scheme = lit ''https'', ur_host = Some (lit ''a''),
     ur_username = [], ur_password = None, ur_path = lit ''/x'', ur_query = None, ur_text = s\<rparr> else None)"

definition sample_portable :: portable_entry where
  "sample_portable =
     \<lparr>pe_title = lit '' A'', pe_alternative_titles = [lit ''B'', lit '' '', lit ''B''], pe_status = Reading,
      pe_notify = True, pe_sync_excluded = False, pe_added_at = 3,
      pe_progress = Some \<lparr>pp_whole = 5, pp_part = Some (11 / 2)\<rparr>,
      pe_sources = [\<lparr>so_provider = lit ''p'', so_url = lit ''u'', so_path = lit ''/x'', so_pinned = True\<rparr>,
                    \<lparr>so_provider = lit ''p'', so_url = lit ''u'', so_path = lit ''/y'', so_pinned = True\<rparr>,
                    \<lparr>so_provider = [], so_url = lit ''u'', so_path = lit ''/y'', so_pinned = False\<rparr>],
      pe_external_ids = [\<lparr>xr_tracker = lit ''anilist'', xr_id = lit ''7''\<rparr>]\<rparr>"

theorem sanitized_validates_witness:
  "\<exists>e. sanitized sample_url sample_portable = Some e \<and> pe_title e = lit ''A'' \<and> validate sample_url e = Ok ()"
proof -
  have "clean_title (pe_title sample_portable) = Some (lit ''A'')"
    by (simp add: clean_title_def sample_portable_def lit_def trim_def trim_start_def trim_end_def
        is_whitespace_def is_control_def max_title_bytes_def len_utf8_def)
  then obtain e where "sanitized sample_url sample_portable = Some e" "pe_title e = lit ''A''"
    by (auto simp: sanitized_def)
  then show ?thesis using sanitized_validates by blast
qed

theorem merged_progress_union_witness:
  "covers (as_read (merge_target (Some \<lparr>pp_whole = 3, pp_part = None\<rparr>)
     \<lparr>pp_whole = 2, pp_part = Some (11 / 2)\<rparr> KeepLocal)) 3"
proof -
  have "check_progress \<lparr>pp_whole = 3, pp_part = None\<rparr> = Ok ()"
    "check_progress \<lparr>pp_whole = 2, pp_part = Some (11 / 2)\<rparr> = Ok ()"
    "covers (as_read \<lparr>pp_whole = 3, pp_part = None\<rparr>) 3"
    by code_simp+
  then show ?thesis using merged_progress_union by blast
qed

definition sample_resolved :: resolved where
  "sample_resolved = \<lparr>rs_series = 4, rs_matched_by = BySource, rs_pinned = Some 2\<rparr>"

theorem import_idempotent_witness:
  "\<exists>stored. written_progress Map.empty (ip_progress (import_plan_of [sample_portable, sample_portable]
       [Some sample_resolved, Some sample_resolved] Map.empty Map.empty PreferImported)) = Ok stored \<and>
   import_plan_of [sample_portable, sample_portable] [Some sample_resolved, Some sample_resolved]
     Map.empty Map.empty PreferImported \<noteq> plan_default \<and>
   ip_progress (import_plan_of [sample_portable, sample_portable] [Some sample_resolved, Some sample_resolved]
     (written_entries Map.empty (ip_writes (import_plan_of [sample_portable, sample_portable]
        [Some sample_resolved, Some sample_resolved] Map.empty Map.empty PreferImported))) stored PreferImported) = []"
proof -
  have "check_progress \<lparr>pp_whole = 5, pp_part = Some (11 / 2)\<rparr> = Ok ()" by code_simp
  moreover have "four_decimals \<lparr>pp_whole = 5, pp_part = Some (11 / 2)\<rparr>" by code_simp
  ultimately have e: "\<forall>e \<in> set [sample_portable, sample_portable]. \<forall>p. pe_progress e = Some p \<longrightarrow> check_progress p = Ok ()"
    "\<forall>e \<in> set [sample_portable, sample_portable]. \<forall>p. pe_progress e = Some p \<longrightarrow> four_decimals p"
    by (simp_all add: sample_portable_def)
  have "import_plan_of [sample_portable, sample_portable] [Some sample_resolved, Some sample_resolved]
     Map.empty Map.empty PreferImported \<noteq> plan_default"
    by (simp add: import_plan_of_def plan_default_def plan_step_def wants_write_def Let_def)
  then show ?thesis
    using import_idempotent [of "[sample_portable, sample_portable]" "[Some sample_resolved, Some sample_resolved]"
        Map.empty Map.empty PreferImported] e by auto
qed

text \<open>A part of five decimals is planned again by every import, though what is stored does not change.\<close>

lemma long_part_planned_again:
  "let imp = \<lparr>pp_whole = 1, pp_part = Some (1 + 1 / 32)\<rparr>; stored = \<lparr>pp_whole = 1, pp_part = Some (from_milli 10313)\<rparr>
   in check_progress imp = Ok () \<and> numeric_progress imp = Ok stored \<and>
      merged_progress (Some stored) (Some imp) PreferImported = Some imp"
  by code_simp

theorem import_accounts_for_entries_witness:
  "length (ip_duplicates (import_plan_of [sample_portable, sample_portable] [Some sample_resolved, Some sample_resolved]
     Map.empty Map.empty KeepLocal)) \<le> 2"
  using import_accounts_for_entries [of "[sample_portable, sample_portable]"
      "[Some sample_resolved, Some sample_resolved]" Map.empty Map.empty KeepLocal] by simp

end
