(* ===== verification/Links.thy ===== *)
theory Links
  imports Watchlist_Transfer
begin

text \<open>
  Links, \<open>src/crates/domain/src/link.rs\<close>: resolving a stored path against a provider's base URL,
  and the compressed form in which a chapter's path is stored under its source.
\<close>

section \<open>Links\<close>

datatype resolve_error = InvalidBase utext | UnsupportedScheme utext | Unresolvable utext utext

definition web_scheme :: "url_parts \<Rightarrow> bool" where
  "web_scheme u \<longleftrightarrow> ur_scheme u = lit ''http'' \<or> ur_scheme u = lit ''https''"

definition resolve_relative :: "url_parse \<Rightarrow> utext \<Rightarrow> utext \<Rightarrow> (resolve_error, utext) result" where
  "resolve_relative parse base_url path =
     (case parse base_url of
        None \<Rightarrow> Err (InvalidBase base_url)
      | Some base \<Rightarrow>
          if \<not> web_scheme base then Err (UnsupportedScheme (ur_scheme base))
          else (case parse (trim_slashes base_url @ (if take 1 path = [47] then path else [47] @ path)) of
              None \<Rightarrow> Err (Unresolvable base_url path)
            | Some u \<Rightarrow> Ok (ur_text u)))"

definition resolve_link :: "url_parse \<Rightarrow> utext \<Rightarrow> utext \<Rightarrow> (resolve_error, utext) result" where
  "resolve_link parse base_url path =
     (case parse path of
        Some u \<Rightarrow> if web_scheme u then Ok (ur_text u) else resolve_relative parse base_url path
      | None \<Rightarrow> resolve_relative parse base_url path)"

section \<open>Stored chapter paths\<close>

definition source_prefix :: "utext \<Rightarrow> utext" where
  "source_prefix source_path = trim_slashes source_path @ [47]"

definition strip_prefix :: "utext \<Rightarrow> utext \<Rightarrow> utext option" where
  "strip_prefix p s = (if take (length p) s = p then Some (drop (length p) s) else None)"

definition compress_chapter_path :: "utext \<Rightarrow> utext \<Rightarrow> utext" where
  "compress_chapter_path source_path path =
     (case strip_prefix (source_prefix source_path) path of Some rest \<Rightarrow> rest | None \<Rightarrow> path)"

definition expand_chapter_path :: "utext \<Rightarrow> utext \<Rightarrow> utext" where
  "expand_chapter_path source_path stored =
     (if take 1 stored = [47] then stored else source_prefix source_path @ stored)"

lemma strip_prefix_Some: "strip_prefix p s = Some r \<longleftrightarrow> s = p @ r"
  by (auto simp: strip_prefix_def) (metis append_take_drop_id)

text \<open>C24: a stored chapter path expands back to the path it was made from, exactly for two kinds of
  path: one below its source whose next character is not a slash, and one outside its source that
  begins with a slash. Every other path is changed by being stored.\<close>

theorem chapter_path_round_trip:
  "expand_chapter_path source_path (compress_chapter_path source_path path) = path \<longleftrightarrow>
     (\<exists>rest. path = source_prefix source_path @ rest \<and> take 1 rest \<noteq> [47]) \<or>
     (strip_prefix (source_prefix source_path) path = None \<and> take 1 path = [47])"
proof (cases "strip_prefix (source_prefix source_path) path")
  case None
  then have "\<nexists>rest. path = source_prefix source_path @ rest" by (metis option.distinct(1) strip_prefix_Some)
  then show ?thesis
    using None by (auto simp: compress_chapter_path_def expand_chapter_path_def source_prefix_def)
next
  case (Some rest)
  then have p: "path = source_prefix source_path @ rest" by (simp add: strip_prefix_Some)
  have "source_prefix source_path \<noteq> []" by (simp add: source_prefix_def)
  then show ?thesis
    using Some p by (auto simp: compress_chapter_path_def expand_chapter_path_def)
qed

text \<open>A chapter page one empty segment below its source is stored as another page. The path
  \<open>/m/x//c\<close> of the source \<open>/m/x\<close> begins with a slash, is stored as \<open>/c\<close> and is read back as
  \<open>/c\<close>.\<close>

lemma doubled_slash_path_lost:
  "compress_chapter_path (lit ''/m/x'') (lit ''/m/x//c'') = lit ''/c'' \<and>
   expand_chapter_path (lit ''/m/x'') (compress_chapter_path (lit ''/m/x'') (lit ''/m/x//c'')) = lit ''/c''"
  by (simp add: compress_chapter_path_def expand_chapter_path_def strip_prefix_def source_prefix_def
      trim_slashes_def lit_def)

end
