(* ===== verification/Watchlist_Store.thy ===== *)
theory Watchlist_Store
  imports Links
begin

text \<open>
  Watchlist backups in the database, \<open>src/crates/db/src/repo/tracking/watchlist/transfer.rs\<close>: exporting a
  reader's watchlist, importing a document in one transaction, and the queue of entries whose series the
  catalogue does not have yet. Text sorts by code points; the rows of a table are in insertion order. A
  transaction that fails or is rolled back leaves the database as it was.
\<close>

section \<open>The tables\<close>

record series_row =
  se_canonical_title :: utext
  se_normalized_title :: utext
  se_adult_gated :: bool

record series_title_row =
  st_series :: series_id
  st_title :: utext
  st_normalized :: utext

record series_source_row =
  sr_id :: source_id
  sr_series :: series_id
  sr_provider :: provider_id
  sr_path :: utext

record mapping_ref =
  mr_series :: series_id
  mr_tracker :: utext
  mr_external_id :: utext

record entry_row =
  en_status :: watch_status
  en_notify :: bool
  en_sync_excluded :: bool
  en_added_at :: int
  en_pinned :: "source_id option"
  en_updated_at :: int

record pending_row =
  pn_id :: nat
  pn_title :: utext
  pn_alternative_titles :: "utext list"
  pn_providers :: "utext list"
  pn_urls :: "utext list"
  pn_paths :: "utext list"
  pn_pinned :: "nat option"
  pn_trackers :: "utext list"
  pn_external_ids :: "utext list"
  pn_status :: watch_status
  pn_notify :: bool
  pn_sync_excluded :: bool
  pn_added_at :: int
  pn_whole :: "int option"
  pn_part :: "int option"
  pn_prefer_imported :: bool
  pn_match_titles :: bool
  pn_queued_at :: int
  pn_last_attempt_at :: int
  pn_attempts :: nat

record wl_db =
  wd_now :: int
  wd_providers :: "catalogue_provider list"
  wd_series :: "(series_id, series_row) tbl"
  wd_titles :: "series_title_row list"
  wd_sources :: "series_source_row list"
  wd_mappings :: "mapping_ref list"
  wd_adult_opt_in :: "(user_id, bool) tbl"
  wd_entries :: "(user_id \<times> series_id, entry_row) tbl"
  wd_progress :: progress_table
  wd_pending :: "(user_id \<times> utext, pending_row) tbl"
  wd_next_id :: nat

datatype import_error = Db db_error | PendingCheckViolation

type_synonym 'a wl = "(wl_db, import_error, 'a) act"

text \<open>The rows of one reader, without the reader in the key.\<close>

definition rows_of :: "user_id \<Rightarrow> (user_id \<times> 'k, 'r) tbl \<Rightarrow> ('k, 'r) tbl" where
  "rows_of u t = map (\<lambda>((_, k), r). (k, r)) [row \<leftarrow> t. fst (fst row) = u]"

section \<open>Export\<close>

definition float_of_milli :: "int option \<Rightarrow> rat option" where
  "float_of_milli m = map_option from_milli m"

definition export_sources :: "url_parse \<Rightarrow> wl_db \<Rightarrow> series_id \<Rightarrow> source_id option \<Rightarrow> source_ref list" where
  "export_sources parse db s pin =
     (let joined = [(\<not> Some (sr_id r) = pin, cp_slug p, sr_path r, cp_base_url p).
            r \<leftarrow> wd_sources db, sr_series r = s, p \<leftarrow> wd_providers db, cp_id p = sr_provider r];
          first = take 64 (sort_key (\<lambda>(unpinned, slug, path, _). (unpinned, slug, path)) joined)
      in List.map_filter (\<lambda>(unpinned, slug, path, base).
           case resolve_link parse base path of
             Inl _ \<Rightarrow> None
           | Inr url \<Rightarrow> Some \<lparr>so_provider = slug, so_url = url, so_path = path, so_pinned = \<not> unpinned\<rparr>) first)"

definition export_entry :: "url_parse \<Rightarrow> wl_db \<Rightarrow> user_id \<Rightarrow> series_id \<times> entry_row \<Rightarrow> portable_entry option" where
  "export_entry parse db u item =
     (case item of (s, e) \<Rightarrow>
      case map_of (wd_series db) s of
        None \<Rightarrow> None
      | Some row \<Rightarrow> sanitized parse
          \<lparr>pe_title = se_canonical_title row,
           pe_alternative_titles = take 64 (sort (map st_title [t \<leftarrow> wd_titles db. st_series t = s])),
           pe_status = en_status e, pe_notify = en_notify e, pe_sync_excluded = en_sync_excluded e,
           pe_added_at = en_added_at e,
           pe_progress = map_option (\<lambda>p. \<lparr>pp_whole = from_milli (pr_whole p),
             pp_part = float_of_milli (pr_part p)\<rparr>) (map_of (wd_progress db) (u, s)),
           pe_sources = export_sources parse db s (en_pinned e),
           pe_external_ids = map (\<lambda>m. \<lparr>xr_tracker = mr_tracker m, xr_id = mr_external_id m\<rparr>)
             (sort_key (\<lambda>m. (mr_tracker m, mr_external_id m)) [m \<leftarrow> wd_mappings db. mr_series m = s])\<rparr>)"

definition watchlist_export :: "url_parse \<Rightarrow> wl_db \<Rightarrow> user_id \<Rightarrow> portable_entry list" where
  "watchlist_export parse db u =
     List.map_filter (export_entry parse db u)
       (sort_key (\<lambda>(s, e). (en_added_at e, s)) (rows_of u (wd_entries db)))"

section \<open>Resolving entries\<close>

record import_options =
  io_policy :: import_policy
  io_remove_missing :: bool
  io_match_titles :: bool
  io_include_adult :: bool

definition visible :: "wl_db \<Rightarrow> bool \<Rightarrow> series_id \<Rightarrow> bool" where
  "visible db include_adult s =
     (case map_of (wd_series db) s of None \<Rightarrow> False | Some r \<Rightarrow> \<not> se_adult_gated r \<or> include_adult)"

definition lookup_sources ::
  "wl_db \<Rightarrow> (provider_id \<times> utext) list \<Rightarrow> bool \<Rightarrow> provider_id \<times> utext \<Rightarrow> (series_id \<times> source_id) option" where
  "lookup_sources db wanted include_adult =
     map_of (rev [((sr_provider r, sr_path r), (sr_series r, sr_id r)).
       r \<leftarrow> wd_sources db, (sr_provider r, sr_path r) \<in> set wanted \<and> visible db include_adult (sr_series r)])"

definition lookup_external ::
  "wl_db \<Rightarrow> (utext \<times> utext) list \<Rightarrow> bool \<Rightarrow> utext \<times> utext \<Rightarrow> series_id option" where
  "lookup_external db wanted include_adult =
     map_of (rev [((mr_tracker m, mr_external_id m), mr_series m).
       m \<leftarrow> wd_mappings db,
       (mr_tracker m, mr_external_id m) \<in> set wanted \<and> visible db include_adult (mr_series m)])"

definition without_spaces :: "utext \<Rightarrow> utext" where
  "without_spaces s = [c \<leftarrow> s. c \<noteq> 32]"

definition lookup_titles :: "wl_db \<Rightarrow> utext list \<Rightarrow> bool \<Rightarrow> utext \<Rightarrow> series_id list" where
  "lookup_titles db wanted include_adult key =
     (if key \<notin> set wanted then []
      else remdups [s \<leftarrow> map fst [(s, r) \<leftarrow> wd_series db. without_spaces (se_normalized_title r) = key] @
          map st_series [t \<leftarrow> wd_titles db. without_spaces (st_normalized t) = key].
        visible db include_adult s])"

definition resolve_entries ::
  "unicode \<Rightarrow> url_parse \<Rightarrow> wl_db \<Rightarrow> portable_entry list \<Rightarrow> bool \<Rightarrow> bool \<Rightarrow> resolved option list" where
  "resolve_entries U parse db entries match_titles include_adult =
     (let ix = index_new parse (wd_providers db);
          wanted_sources = concat (map (\<lambda>e. concat (map (candidates parse ix) (pe_sources e))) entries);
          wanted_external = concat (map (\<lambda>e. map (\<lambda>x. (xr_tracker x, xr_id x)) (pe_external_ids e)) entries);
          wanted_titles = (if match_titles then concat (map (title_keys U) entries) else []);
          lk = \<lparr>lk_sources = lookup_sources db wanted_sources include_adult,
                lk_external = lookup_external db wanted_external include_adult,
                lk_titles = lookup_titles db wanted_titles include_adult\<rparr>
      in map (resolve_entry U parse ix lk match_titles) entries)"

section \<open>Writing a plan\<close>

definition local_entries :: "wl_db \<Rightarrow> user_id \<Rightarrow> series_id \<Rightarrow> local_entry option" where
  "local_entries db u s =
     map_option (\<lambda>e. \<lparr>le_status = en_status e, le_notify = en_notify e,
       le_sync_excluded = en_sync_excluded e, le_pinned = en_pinned e\<rparr>) (map_of (wd_entries db) (u, s))"

definition local_progress :: "wl_db \<Rightarrow> user_id \<Rightarrow> series_id \<Rightarrow> portable_progress option" where
  "local_progress db u s =
     map_option (\<lambda>p. \<lparr>pp_whole = from_milli (pr_whole p), pp_part = float_of_milli (pr_part p)\<rparr>)
       (map_of (wd_progress db) (u, s))"

definition written_row :: "wl_db \<Rightarrow> entry_write \<Rightarrow> entry_row option \<Rightarrow> entry_row" where
  "written_row db w old =
     (let pin = (case ew_pinned w of
            None \<Rightarrow> None
          | Some i \<Rightarrow> if list_ex (\<lambda>r. sr_id r = i \<and> sr_series r = ew_series w) (wd_sources db)
                     then Some i else None)
      in case old of
           None \<Rightarrow> \<lparr>en_status = ew_status w, en_notify = ew_notify w, en_sync_excluded = ew_sync_excluded w,
             en_added_at = min (ew_added_at w) (wd_now db), en_pinned = pin, en_updated_at = wd_now db\<rparr>
         | Some r \<Rightarrow> r\<lparr>en_status := ew_status w, en_notify := ew_notify w,
             en_sync_excluded := ew_sync_excluded w, en_pinned := pin, en_updated_at := wd_now db\<rparr>)"

definition write_entry :: "user_id \<Rightarrow> entry_write \<Rightarrow> wl_db \<Rightarrow> wl_db" where
  "write_entry u w db =
     (let k = (u, ew_series w)
      in db\<lparr>wd_entries := AList.update k (written_row db w (map_of (wd_entries db) k)) (wd_entries db)\<rparr>)"

definition write_entries :: "user_id \<Rightarrow> import_plan \<Rightarrow> unit wl" where
  "write_entries u plan = act_modify (fold (write_entry u) (ip_writes plan))"

definition numeric_option :: "rat option \<Rightarrow> (import_error, int option) result" where
  "numeric_option x =
     (case x of
        None \<Rightarrow> Ok None
      | Some q \<Rightarrow> (case to_numeric q of Inl e \<Rightarrow> Err (Db e) | Inr m \<Rightarrow> Ok (Some m)))"

definition write_one_progress :: "user_id \<Rightarrow> series_id \<times> portable_progress \<Rightarrow> unit wl" where
  "write_one_progress u item db =
     (case item of (s, p) \<Rightarrow>
      case to_numeric (pp_whole p) of
        Inl e \<Rightarrow> (Err (Db e), db)
      | Inr whole \<Rightarrow>
          (case numeric_option (pp_part p) of
             Inl e \<Rightarrow> (Err e, db)
           | Inr part \<Rightarrow>
               (Ok (), db\<lparr>wd_progress := AList.update (u, s)
                  \<lparr>pr_whole = whole, pr_part = part, pr_updated_at = wd_now db\<rparr> (wd_progress db)\<rparr>)))"

definition write_progress :: "user_id \<Rightarrow> import_plan \<Rightarrow> unit wl" where
  "write_progress u plan = act_for (write_one_progress u) (ip_progress plan)"

text \<open>What the statement leaves in the rows of the reader is what the plan says, cast to the columns.\<close>

lemma write_one_stored:
  assumes "write_one_progress u (s, p) db = (Ok (), db')"
  shows "\<exists>q. numeric_progress p = Ok q \<and> local_progress db' u = (local_progress db u)(s \<mapsto> q)"
  using assms
  by (cases "pp_part p")
    (auto simp: write_one_progress_def numeric_progress_def numeric_option_def local_progress_def float_of_milli_def
      update_conv' fun_eq_iff split: sum.splits)

lemma write_progress_stored:
  assumes "write_progress u plan db = (Ok (), db')"
  shows "written_progress (local_progress db u) (ip_progress plan) = Ok (local_progress db' u)"
proof -
  have "written_progress (local_progress db u) ps = Ok (local_progress db' u)"
    if "act_for (write_one_progress u) ps db = (Ok (), db')" for ps db
    using that
  proof (induction ps arbitrary: db)
    case (Cons x ps)
    obtain s p where x: "x = (s, p)" by fastforce
    obtain db1 where one: "write_one_progress u (s, p) db = (Ok (), db1)"
      and rest: "act_for (write_one_progress u) ps db1 = (Ok (), db')"
      using Cons.prems by (auto simp: x act_then_ok)
    obtain q where "numeric_progress p = Ok q" "local_progress db1 u = (local_progress db u)(s \<mapsto> q)"
      using write_one_stored [OF one] by blast
    with Cons.IH [OF rest] show ?case by (simp add: x del: fun_upd_apply)
  qed simp
  then show ?thesis using assms by (simp add: write_progress_def)
qed

record import_outcome =
  ic_plan :: import_plan
  ic_removed :: nat

definition missing_of :: "wl_db \<Rightarrow> user_id \<Rightarrow> import_plan \<Rightarrow> import_options \<Rightarrow> series_id list" where
  "missing_of db u plan opts =
     (if io_remove_missing opts
      then [s \<leftarrow> map fst (rows_of u (wd_entries db)). s \<notin> set (ip_matched plan)] else [])"

definition remove_unmatched :: "user_id \<Rightarrow> import_plan \<Rightarrow> wl_db \<Rightarrow> wl_db" where
  "remove_unmatched u plan db =
     db\<lparr>wd_entries := [row \<leftarrow> wd_entries db. \<not> (fst (fst row) = u \<and> snd (fst row) \<notin> set (ip_matched plan))]\<rparr>"

definition plan_and_apply ::
  "user_id \<Rightarrow> portable_entry list \<Rightarrow> resolved option list \<Rightarrow> import_options \<Rightarrow> import_outcome wl" where
  "plan_and_apply u entries res opts db =
     (let plan = import_plan_of entries res (local_entries db u) (local_progress db u) (io_policy opts);
          removed = length (missing_of db u plan opts)
      in act_then (write_entries u plan)
          (act_then (write_progress u plan)
            (act_then (act_modify (if 0 < removed then remove_unmatched u plan else (\<lambda>d. d)))
              (act_return \<lparr>ic_plan = plan, ic_removed = removed\<rparr>))) db)"

section \<open>The pending queue\<close>

definition pinned_position :: "source_ref list \<Rightarrow> nat option" where
  "pinned_position ss = find (\<lambda>i. so_pinned (ss ! i)) [0..<length ss]"

definition pending_insert ::
  "import_options \<Rightarrow> wl_db \<Rightarrow> portable_entry \<Rightarrow> (import_error, pending_row) result" where
  "pending_insert opts db e =
     bind_result (numeric_option (map_option pp_whole (pe_progress e))) (\<lambda>whole.
     bind_result (numeric_option (Option.bind (pe_progress e) pp_part)) (\<lambda>part.
       if 32 < length (pe_sources e) \<or> 8 < length (pe_external_ids e) \<or> 32 < length (pe_alternative_titles e)
       then Err PendingCheckViolation
       else Ok \<lparr>pn_id = wd_next_id db, pn_title = pe_title e, pn_alternative_titles = pe_alternative_titles e,
         pn_providers = map so_provider (pe_sources e), pn_urls = map so_url (pe_sources e),
         pn_paths = map so_path (pe_sources e), pn_pinned = pinned_position (pe_sources e),
         pn_trackers = map xr_tracker (pe_external_ids e), pn_external_ids = map xr_id (pe_external_ids e),
         pn_status = pe_status e, pn_notify = pe_notify e, pn_sync_excluded = pe_sync_excluded e,
         pn_added_at = min (pe_added_at e) (wd_now db), pn_whole = whole, pn_part = part,
         pn_prefer_imported = (io_policy opts = PreferImported), pn_match_titles = io_match_titles opts,
         pn_queued_at = wd_now db, pn_last_attempt_at = wd_now db, pn_attempts = 1\<rparr>))"

definition pending_merge :: "pending_row option \<Rightarrow> pending_row \<Rightarrow> pending_row" where
  "pending_merge old new =
     (case old of
        None \<Rightarrow> new
      | Some r \<Rightarrow> new\<lparr>pn_id := pn_id r, pn_queued_at := pn_queued_at r, pn_attempts := pn_attempts r\<rparr>)"

definition queue_one :: "import_options \<Rightarrow> user_id \<Rightarrow> utext \<times> portable_entry \<Rightarrow> unit wl" where
  "queue_one opts u item db =
     (case item of (key, e) \<Rightarrow>
      case pending_insert opts db e of
        Inl err \<Rightarrow> (Err err, db)
      | Inr row \<Rightarrow>
          (Ok (), db\<lparr>wd_pending := AList.update (u, key)
             (pending_merge (map_of (wd_pending db) (u, key)) row) (wd_pending db),
             wd_next_id := wd_next_id db + 1\<rparr>))"

definition by_key :: "unicode \<Rightarrow> portable_entry list \<Rightarrow> (utext, portable_entry) tbl" where
  "by_key U entries = fold (\<lambda>e. AList.update (identity_key U e) e) entries []"

definition queue_pending :: "unicode \<Rightarrow> import_options \<Rightarrow> user_id \<Rightarrow> portable_entry list \<Rightarrow> unit wl" where
  "queue_pending U opts u entries = act_for (queue_one opts u) (by_key U entries)"

definition pending_drop :: "(user_id \<times> utext \<Rightarrow> bool) \<Rightarrow> wl_db \<Rightarrow> wl_db" where
  "pending_drop gone db = db\<lparr>wd_pending := [row \<leftarrow> wd_pending db. \<not> gone (fst row)]\<rparr>"

definition pending_count :: "wl_db \<Rightarrow> user_id \<Rightarrow> nat" where
  "pending_count db u = length (rows_of u (wd_pending db))"

definition watchlist_pending :: "wl_db \<Rightarrow> user_id \<Rightarrow> nat \<Rightarrow> nat \<times> (utext \<times> utext list \<times> int \<times> int \<times> nat) list" where
  "watchlist_pending db u limit =
     (pending_count db u,
      map (\<lambda>(_, r). (pn_title r, pn_urls r, pn_queued_at r, pn_last_attempt_at r, pn_attempts r))
        (take limit (sort_key (\<lambda>(_, r). (pn_queued_at r, pn_id r)) (rows_of u (wd_pending db)))))"

definition watchlist_pending_clear :: "user_id \<Rightarrow> wl_db \<Rightarrow> nat \<times> wl_db" where
  "watchlist_pending_clear u db = (pending_count db u, pending_drop (\<lambda>k. fst k = u) db)"

section \<open>The import\<close>

datatype commit = Apply | DryRun

datatype import_refusal = PendingLimit

definition import_body ::
  "unicode \<Rightarrow> url_parse \<Rightarrow> user_id \<Rightarrow> portable_entry list \<Rightarrow> import_options \<Rightarrow>
     (import_refusal, import_outcome) result wl" where
  "import_body U parse u entries opts db =
     (let res = resolve_entries U parse db entries (io_match_titles opts) (io_include_adult opts)
      in act_bind (plan_and_apply u entries res opts) (\<lambda>outcome.
         let unmatched = map ((!) entries) (ip_unmatched (ic_plan outcome));
             new_keys = remdups (map (identity_key U) unmatched)
         in if io_remove_missing opts
            then act_then (act_modify (pending_drop (\<lambda>k. fst k = u)))
              (act_then (queue_pending U opts u unmatched) (act_return (Ok outcome)))
            else
              let matched_keys = map (\<lambda>(e, _). identity_key U e) [(e, r) \<leftarrow> zip entries res. r \<noteq> None]
              in act_then (act_modify (pending_drop (\<lambda>k. fst k = u \<and> snd k \<in> set matched_keys)))
                (\<lambda>d. if max_entries < length [k \<leftarrow> map fst (rows_of u (wd_pending d)). k \<notin> set new_keys] + length new_keys
                     then (Ok (Err PendingLimit), d)
                     else act_then (queue_pending U opts u unmatched) (act_return (Ok outcome)) d)) db)"

definition watchlist_import ::
  "unicode \<Rightarrow> url_parse \<Rightarrow> user_id \<Rightarrow> portable_entry list \<Rightarrow> import_options \<Rightarrow> commit \<Rightarrow>
     (import_refusal, import_outcome) result wl" where
  "watchlist_import U parse u entries opts commit db =
     (case import_body U parse u entries opts db of
        (Inl e, _) \<Rightarrow> (Err e, db)
      | (Inr (Inl refusal), _) \<Rightarrow> (Ok (Err refusal), db)
      | (Inr (Inr outcome), db') \<Rightarrow> (Ok (Ok outcome), if commit = Apply then db' else db))"

section \<open>The sweep of the pending queue\<close>

definition into_entry :: "pending_row \<Rightarrow> portable_entry" where
  "into_entry r =
     \<lparr>pe_title = pn_title r, pe_alternative_titles = pn_alternative_titles r, pe_status = pn_status r,
      pe_notify = pn_notify r, pe_sync_excluded = pn_sync_excluded r, pe_added_at = pn_added_at r,
      pe_progress = map_option (\<lambda>w. \<lparr>pp_whole = from_milli w, pp_part = float_of_milli (pn_part r)\<rparr>) (pn_whole r),
      pe_sources = map (\<lambda>(i, (provider, url), path).
          \<lparr>so_provider = provider, so_url = url, so_path = path, so_pinned = pn_pinned r = Some i\<rparr>)
        (let rows = zip (zip (pn_providers r) (pn_urls r)) (pn_paths r) in zip [0..<length rows] rows),
      pe_external_ids = map (\<lambda>(tracker, i). \<lparr>xr_tracker = tracker, xr_id = i\<rparr>)
        (zip (pn_trackers r) (pn_external_ids r))\<rparr>"

record sweep_group =
  sg_user :: user_id
  sg_policy :: import_policy
  sg_match_titles :: bool
  sg_include_adult :: bool

definition sweep_options :: "sweep_group \<Rightarrow> import_options" where
  "sweep_options g =
     \<lparr>io_policy = sg_policy g, io_remove_missing = False, io_match_titles = sg_match_titles g,
      io_include_adult = sg_include_adult g\<rparr>"

definition claimed_rows :: "wl_db \<Rightarrow> nat \<Rightarrow> bool \<Rightarrow> (sweep_group \<times> nat \<times> portable_entry) list" where
  "claimed_rows db limit adult_feature_on =
     map (\<lambda>((u, opt_in), r).
         (\<lparr>sg_user = u, sg_policy = (if pn_prefer_imported r then PreferImported else KeepLocal),
           sg_match_titles = pn_match_titles r, sg_include_adult = adult_feature_on \<and> opt_in\<rparr>,
          pn_id r, into_entry r))
       (take limit (sort_key (\<lambda>(_, r). (pn_last_attempt_at r, pn_id r))
         [((u, opt_in), r). ((u, _), r) \<leftarrow> wd_pending db, (v, opt_in) \<leftarrow> wd_adult_opt_in db, v = u]))"

definition sweep_group_step ::
  "unicode \<Rightarrow> url_parse \<Rightarrow> (sweep_group \<times> nat \<times> portable_entry) list \<Rightarrow> sweep_group \<Rightarrow>
     nat list \<times> nat list \<Rightarrow> (nat list \<times> nat list) wl" where
  "sweep_group_step U parse rows g acc db =
     (let members = map snd [row \<leftarrow> rows. fst row = g];
          entries = map snd members;
          res = resolve_entries U parse db entries (sg_match_titles g) (sg_include_adult g);
          tagged = zip (map fst members) res
      in act_bind (plan_and_apply (sg_user g) entries res (sweep_options g)) (\<lambda>_.
           act_return (fst acc @ map fst [(i, r) \<leftarrow> tagged. r \<noteq> None],
                       snd acc @ map fst [(i, r) \<leftarrow> tagged. r = None])) db)"

fun sweep_groups ::
  "unicode \<Rightarrow> url_parse \<Rightarrow> (sweep_group \<times> nat \<times> portable_entry) list \<Rightarrow> sweep_group list \<Rightarrow>
     nat list \<times> nat list \<Rightarrow> (nat list \<times> nat list) wl" where
  "sweep_groups U parse rows [] acc = act_return acc"
| "sweep_groups U parse rows (g # gs) acc =
     act_bind (sweep_group_step U parse rows g acc) (sweep_groups U parse rows gs)"

definition retried :: "int \<Rightarrow> pending_row \<Rightarrow> pending_row" where
  "retried now r = r\<lparr>pn_attempts := pn_attempts r + 1, pn_last_attempt_at := now\<rparr>"

text \<open>The groups are visited in the order of a hash map, which is a parameter.\<close>

definition watchlist_pending_sweep ::
  "unicode \<Rightarrow> url_parse \<Rightarrow> (sweep_group list \<Rightarrow> sweep_group list) \<Rightarrow> nat \<Rightarrow> bool \<Rightarrow> (nat \<times> nat) wl" where
  "watchlist_pending_sweep U parse hash_order limit adult_feature_on db =
     (let rows = claimed_rows db limit adult_feature_on
      in case sweep_groups U parse rows (hash_order (remdups (map fst rows))) ([], []) db of
           (Inl e, _) \<Rightarrow> (Err e, db)
         | (Inr (attached, retry), d) \<Rightarrow>
             (Ok (length rows, length attached),
              d\<lparr>wd_pending := map (\<lambda>(k, r). (k, if pn_id r \<in> set retry then retried (wd_now d) r else r))
                  [row \<leftarrow> wd_pending d. pn_id (snd row) \<notin> set attached]\<rparr>))"

section \<open>What an import leaves alone\<close>

definition others_kept :: "user_id \<Rightarrow> wl_db \<Rightarrow> wl_db \<Rightarrow> bool" where
  "others_kept u db d \<longleftrightarrow>
     (\<forall>v. v \<noteq> u \<longrightarrow> rows_of v (wd_entries d) = rows_of v (wd_entries db) \<and>
        rows_of v (wd_progress d) = rows_of v (wd_progress db) \<and>
        rows_of v (wd_pending d) = rows_of v (wd_pending db)) \<and>
     wd_series d = wd_series db \<and> wd_titles d = wd_titles db \<and> wd_sources d = wd_sources db \<and>
     wd_providers d = wd_providers db \<and> wd_mappings d = wd_mappings db \<and>
     wd_adult_opt_in d = wd_adult_opt_in db \<and> wd_now d = wd_now db"

lemma rows_of_update [simp]: "v \<noteq> u \<Longrightarrow> rows_of v (AList.update (u, k) r t) = rows_of v t"
  by (induction t) (auto simp: rows_of_def)

lemma rows_of_filter:
  "(\<And>k. \<not> gone (v, k)) \<Longrightarrow> rows_of v [row \<leftarrow> t. \<not> gone (fst row)] = rows_of v t"
  by (induction t) (auto simp: rows_of_def)

lemma others_refl [simp]: "others_kept u db db"
  by (simp add: others_kept_def)

lemma others_write_entry: "others_kept u db d \<Longrightarrow> others_kept u db (write_entry u w d)"
  by (auto simp: others_kept_def write_entry_def Let_def)

lemma others_fold_entries: "others_kept u db d \<Longrightarrow> others_kept u db (fold (write_entry u) ws d)"
  by (induction ws arbitrary: d) (simp_all add: others_write_entry)

lemma others_progress:
  "others_kept u db d \<Longrightarrow> write_one_progress u item d = (r, t) \<Longrightarrow> others_kept u db t"
  by (auto simp: write_one_progress_def others_kept_def split: prod.splits sum.splits)

lemma others_remove: "others_kept u db d \<Longrightarrow> others_kept u db (remove_unmatched u plan d)"
proof -
  have "rows_of v [row \<leftarrow> t. \<not> (fst (fst row) = u \<and> snd (fst row) \<notin> S)] = rows_of v t"
    if "v \<noteq> u" for v S and t :: "(user_id \<times> series_id, entry_row) tbl"
    using that by (intro rows_of_filter) simp
  then show "others_kept u db d \<Longrightarrow> ?thesis" by (simp add: others_kept_def remove_unmatched_def)
qed

lemma others_apply:
  assumes "others_kept u db d" "plan_and_apply u entries res opts d = (r, t)"
  shows "others_kept u db t"
proof -
  have inv: "others_kept u db t" if "act_for (write_one_progress u) items s = (q, t)" "others_kept u db s"
    for items s q t
    by (rule act_for_inv [where P = "others_kept u db", OF _ that(2,1)]) (rule others_progress)
  show ?thesis
    using assms(2) others_fold_entries [OF assms(1)]
    unfolding plan_and_apply_def Let_def write_entries_def write_progress_def act_then_modify
    by (auto simp: act_then_def act_bind_def others_remove split: prod.splits sum.splits if_splits dest: inv)
qed

lemma others_drop:
  assumes "others_kept u db d" and gone: "\<And>k. gone k \<Longrightarrow> fst k = u"
  shows "others_kept u db (pending_drop gone d)"
proof -
  have "rows_of v [row \<leftarrow> t. \<not> gone (fst row)] = rows_of v t" if "v \<noteq> u" for v and t :: "(user_id \<times> utext, pending_row) tbl"
  proof (rule rows_of_filter)
    show "\<not> gone (v, k)" for k using gone [of "(v, k)"] that by auto
  qed
  then show ?thesis using assms(1) by (simp add: others_kept_def pending_drop_def)
qed

lemma others_queue:
  assumes "others_kept u db d" "queue_pending U opts u es d = (r, t)" shows "others_kept u db t"
proof -
  have "others_kept u db t" if "others_kept u db s" "queue_one opts u x s = (q, t)" for x s q t
    using that by (auto simp: queue_one_def others_kept_def split: prod.splits sum.splits)
  then show ?thesis
    using assms act_for_inv [where P = "others_kept u db"] unfolding queue_pending_def by metis
qed

lemma others_body:
  assumes "import_body U parse u entries opts db = (r, t)" shows "others_kept u db t"
proof -
  define res where "res = resolve_entries U parse db entries (io_match_titles opts) (io_include_adult opts)"
  obtain q d where run: "plan_and_apply u entries res opts db = (q, d)" by force
  have d: "others_kept u db d" using others_apply [OF _ run] by simp
  have drop: "others_kept u db (pending_drop (\<lambda>k. fst k = u) d)"
    "others_kept u db (pending_drop (\<lambda>k. fst k = u \<and> snd k \<in> M) d)" for M
    by (auto intro!: others_drop [OF d])
  show ?thesis
    using assms run d drop others_queue [OF drop(1)] others_queue [OF drop(2)]
    unfolding import_body_def Let_def res_def [symmetric]
    by (auto simp: act_bind_def act_then_def split: prod.splits sum.splits if_splits)
qed

section \<open>The size of the pending queue\<close>

lemma rows_of_keys: "map fst (rows_of u t) = map snd [k \<leftarrow> map fst t. fst k = u]"
  by (induction t) (auto simp: rows_of_def)

lemma distinct_rows_of: "distinct (map fst t) \<Longrightarrow> distinct (map fst (rows_of u t))"
  unfolding rows_of_keys by (auto simp: distinct_map intro!: inj_onI prod_eqI simp del: filter_map)

lemma pending_count_card:
  assumes "distinct (map fst (wd_pending d))"
  shows "pending_count d u = card {k. (u, k) \<in> fst ` set (wd_pending d)}"
proof -
  have "pending_count d u = card (set (map fst (rows_of u (wd_pending d))))"
    using distinct_card [OF distinct_rows_of [OF assms], of u] by (simp add: pending_count_def)
  moreover have "set (map fst (rows_of u (wd_pending d))) = {k. (u, k) \<in> fst ` set (wd_pending d)}"
    unfolding rows_of_keys by force
  ultimately show ?thesis by simp
qed

lemma queue_keys:
  assumes "act_for (queue_one opts u) items d = (Ok (), t)" "distinct (map fst (wd_pending d))"
  shows "distinct (map fst (wd_pending t)) \<and>
    fst ` set (wd_pending t) = fst ` set (wd_pending d) \<union> Pair u ` fst ` set items"
  using assms
proof (induction items arbitrary: d)
  case (Cons item items)
  obtain key e where item: "item = (key, e)" by (cases item)
  obtain d1 where d1: "queue_one opts u item d = (Ok (), d1)" "act_for (queue_one opts u) items d1 = (Ok (), t)"
    using Cons.prems(1) by (auto simp: act_then_ok)
  obtain row where row: "wd_pending d1 = AList.update (u, key) row (wd_pending d)"
    using d1(1) by (auto simp: queue_one_def item split: sum.splits)
  have "distinct (map fst (wd_pending d1))" unfolding row using Cons.prems(2) by (rule distinct_update)
  from Cons.IH [OF d1(2) this] show ?case
    using dom_update [of "(u, key)" row "wd_pending d"]
    by (auto simp: row item update_keys image_iff)
qed simp

lemma by_key_keys: "fst ` set (by_key U entries) = identity_key U ` set entries"
proof -
  have "fst ` set (fold (\<lambda>e. AList.update (identity_key U e) e) es t) = fst ` set t \<union> identity_key U ` set es" for es t
    by (induction es arbitrary: t) (auto simp: update_keys simp flip: set_map split: if_splits)
  then show ?thesis by (simp add: by_key_def)
qed

lemma dropped_keys:
  "fst ` set (wd_pending (pending_drop gone d)) = {k \<in> fst ` set (wd_pending d). \<not> gone k}"
  by (auto simp: pending_drop_def)

lemma dropped_distinct:
  "distinct (map fst (wd_pending d)) \<Longrightarrow> distinct (map fst (wd_pending (pending_drop gone d)))"
  by (simp add: pending_drop_def distinct_map_filter)

lemma apply_pending:
  assumes "plan_and_apply u entries res opts d = (r, t)"
  shows "wd_pending t = wd_pending d"
proof -
  have fold: "wd_pending (fold (write_entry u) ws d) = wd_pending d" for ws d
    by (induction ws arbitrary: d) (simp_all add: write_entry_def Let_def)
  have prog: "wd_pending t = wd_pending s"
    if "act_for (write_one_progress u) items s = (q, t)" for items s q t
  proof (rule act_for_inv [where P = "\<lambda>w. wd_pending w = wd_pending s", OF _ _ that])
    show "wd_pending w' = wd_pending s"
      if "wd_pending w = wd_pending s" "write_one_progress u x w = (q', w')" for x w q' w'
      using that by (auto simp: write_one_progress_def split: prod.splits sum.splits)
  qed simp
  show ?thesis
    using assms fold
    unfolding plan_and_apply_def Let_def write_entries_def write_progress_def act_then_modify
    by (auto simp: act_then_def act_bind_def remove_unmatched_def split: prod.splits sum.splits if_splits dest!: prog)
qed

lemma queued_count:
  assumes "queue_pending U opts u es d = (Ok (), t)" "distinct (map fst (wd_pending d))"
  shows "pending_count t u =
    card ({k. (u, k) \<in> fst ` set (wd_pending d)} \<union> identity_key U ` set es)"
proof -
  note keys = queue_keys [OF assms(1) [unfolded queue_pending_def] assms(2)]
  have "{k. (u, k) \<in> fst ` set (wd_pending t)} =
      {k. (u, k) \<in> fst ` set (wd_pending d)} \<union> identity_key U ` set es"
    using keys unfolding by_key_keys by auto
  then show ?thesis using keys by (simp add: pending_count_card)
qed

lemma unmatched_length: "length (ip_unmatched (import_plan_of entries res loc prog policy)) \<le> length entries"
proof -
  have "length (ip_unmatched (fold (plan_step loc prog policy) items plan)) \<le>
      length (ip_unmatched plan) + length items" for items plan
  proof (induction items arbitrary: plan)
    case (Cons item items)
    have "length (ip_unmatched (plan_step loc prog policy item plan)) \<le> Suc (length (ip_unmatched plan))"
      by (auto simp: plan_step_def Let_def split: prod.splits option.splits)
    with Cons.IH [of "plan_step loc prog policy item plan"] show ?case by simp
  qed simp
  from this [of "zip [0..<length entries] (zip entries res)" plan_default] show ?thesis
    by (simp add: import_plan_of_def plan_default_def)
qed

lemma body_pending_bounded:
  assumes "import_body U parse u entries opts db = (Ok (Ok outcome), d)"
    and "distinct (map fst (wd_pending db))" "length entries \<le> max_entries"
  shows "pending_count d u \<le> max_entries"
proof -
  define res where "res = resolve_entries U parse db entries (io_match_titles opts) (io_include_adult opts)"
  obtain out d0 where run: "plan_and_apply u entries res opts db = (Ok out, d0)"
    using assms(1) by (auto simp: import_body_def Let_def act_bind_ok simp flip: res_def)
  define es where "es = map ((!) entries) (ip_unmatched (ic_plan out))"
  have dist: "distinct (map fst (wd_pending d0))" using assms(2) apply_pending [OF run] by simp
  show ?thesis
  proof (cases "io_remove_missing opts")
    case True
    define d1 where "d1 = pending_drop (\<lambda>k. fst k = u) d0"
    have q: "queue_pending U opts u es d1 = (Ok (), d)"
      using assms(1) True run
      by (auto simp: import_body_def Let_def act_bind_step act_then_ok es_def d1_def simp flip: res_def)
    have "length es \<le> length entries"
    proof -
      have "ic_plan out = import_plan_of entries res (local_entries db u) (local_progress db u) (io_policy opts)"
        using run by (auto simp: plan_and_apply_def Let_def act_then_ok)
      then show ?thesis using unmatched_length by (simp add: es_def)
    qed
    moreover have "card (identity_key U ` set es) \<le> length es"
      by (meson card_image_le card_length finite_set order_trans)
    moreover have "{k. (u, k) \<in> fst ` set (wd_pending d1)} = {}" by (simp add: d1_def dropped_keys)
    ultimately show ?thesis
      using queued_count [OF q] dropped_distinct [OF dist] assms(3) by (simp add: d1_def)
  next
    case False
    define M where "M = map (\<lambda>(e, _). identity_key U e) [(e, r) \<leftarrow> zip entries res. r \<noteq> None]"
    define d1 where "d1 = pending_drop (\<lambda>k. fst k = u \<and> snd k \<in> set M) d0"
    define N where "N = remdups (map (identity_key U) es)"
    have body: "import_body U parse u entries opts db =
      (if max_entries < length [k \<leftarrow> map fst (rows_of u (wd_pending d1)). k \<notin> set N] + length N
       then (Ok (Err PendingLimit), d1)
       else act_then (queue_pending U opts u es) (act_return (Ok out)) d1)"
      by (simp only: import_body_def Let_def res_def [symmetric] act_bind_step [where m = "plan_and_apply u entries res opts", OF run] es_def N_def M_def
          d1_def if_False False act_then_modify)
    have fit: "\<not> max_entries < length [k \<leftarrow> map fst (rows_of u (wd_pending d1)). k \<notin> set N] + length N"
      and q: "queue_pending U opts u es d1 = (Ok (), d)"
      using assms(1) unfolding body by (simp_all add: act_then_ok split: if_split_asm)
    have dist1: "distinct (map fst (wd_pending d1))" unfolding d1_def by (rule dropped_distinct [OF dist])
    define K where "K = {k. (u, k) \<in> fst ` set (wd_pending d1)}"
    have K: "set (map fst (rows_of u (wd_pending d1))) = K"
      unfolding K_def rows_of_keys by force
    have "length [k \<leftarrow> map fst (rows_of u (wd_pending d1)). k \<notin> set N] = card (K - set N)"
    proof -
      have "distinct [k \<leftarrow> map fst (rows_of u (wd_pending d1)). k \<notin> set N]"
        using distinct_filter [OF distinct_rows_of [OF dist1]] .
      then have "length [k \<leftarrow> map fst (rows_of u (wd_pending d1)). k \<notin> set N] =
          card (set [k \<leftarrow> map fst (rows_of u (wd_pending d1)). k \<notin> set N])"
        by (rule distinct_card [symmetric])
      moreover have "set [k \<leftarrow> map fst (rows_of u (wd_pending d1)). k \<notin> set N] = K - set N"
        unfolding set_filter K by blast
      ultimately show ?thesis by simp
    qed
    moreover have "length N = card (set N)" by (simp add: N_def distinct_card [symmetric])
    moreover have "card (K \<union> set N) \<le> card (K - set N) + card (set N)"
      by (metis Un_Diff_cancel2 card_Un_le)
    ultimately have "card (K \<union> set N) \<le> max_entries" using fit by linarith
    then show ?thesis using queued_count [OF q dist1] by (simp add: K_def N_def)
  qed
qed

text \<open>C30: An import is all or nothing, and its dry run tells the truth: unless it is applied and succeeds
  the database stays as it was, a dry run answers what the real import would answer, no row of another
  reader and nothing of the catalogue changes, and an applied import leaves at most \<open>max_entries\<close>
  pending entries.
\<close>

theorem import_all_or_nothing:
  assumes "watchlist_import U parse u entries opts commit db = (answer, d)"
    and "distinct (map fst (wd_pending db))" "length entries \<le> max_entries"
  shows "fst (watchlist_import U parse u entries opts DryRun db) =
       fst (watchlist_import U parse u entries opts Apply db) \<and>
     (commit = DryRun \<or> (\<forall>outcome. answer \<noteq> Ok (Ok outcome)) \<longrightarrow> d = db) \<and>
     others_kept u db d \<and>
     (commit = Apply \<and> (\<exists>outcome. answer = Ok (Ok outcome)) \<longrightarrow> pending_count d u \<le> max_entries)"
proof -
  obtain q t where body: "import_body U parse u entries opts db = (q, t)" by force
  note others = others_body [OF body]
  show ?thesis
    using assms(1) body others body_pending_bounded [of U parse u entries opts db _ t] assms(2,3)
    by (auto simp: watchlist_import_def split: sum.splits if_splits)
qed

definition empty_wl :: wl_db where
  "empty_wl =
     \<lparr>wd_now = 10, wd_providers = [], wd_series = [], wd_titles = [], wd_sources = [], wd_mappings = [],
      wd_adult_opt_in = [(2, False)],
      wd_entries = [((3, 5), \<lparr>en_status = watch_status.Reading, en_notify = True, en_sync_excluded = False,
        en_added_at = 1, en_pinned = None, en_updated_at = 1\<rparr>)],
      wd_progress = [], wd_pending = [], wd_next_id = 0\<rparr>"

definition lone_entry :: portable_entry where
  "lone_entry =
     \<lparr>pe_title = [97, 98], pe_alternative_titles = [], pe_status = watch_status.Planned, pe_notify = False,
      pe_sync_excluded = False, pe_added_at = 99, pe_progress = None, pe_sources = [], pe_external_ids = []\<rparr>"

definition keep_options :: import_options where
  "keep_options = \<lparr>io_policy = KeepLocal, io_remove_missing = False, io_match_titles = False,
     io_include_adult = False\<rparr>"

theorem import_all_or_nothing_witness:
  "\<exists>outcome d. watchlist_import ascii_tables sample_url 2 [lone_entry] keep_options Apply empty_wl =
       (Ok (Ok outcome), d) \<and> pending_count d 2 = 1 \<and> others_kept 2 empty_wl d \<and>
     fst (watchlist_import ascii_tables sample_url 2 [lone_entry] keep_options DryRun empty_wl) = Ok (Ok outcome)"
proof -
  have plan: "import_plan_of [lone_entry] [None] loc prog policy = plan_default\<lparr>ip_unmatched := [0]\<rparr>" for loc prog policy
    by (simp add: import_plan_of_def plan_step_def plan_default_def)
  have res: "resolve_entries ascii_tables sample_url empty_wl [lone_entry] False False = [None]"
    by (simp add: resolve_entries_def Let_def lone_entry_def resolve_entry_def match_series_def)
  have opts: "io_remove_missing keep_options = False" "io_match_titles keep_options = False"
    "io_include_adult keep_options = False" "io_policy keep_options = KeepLocal"
    by (simp_all add: keep_options_def)
  have pa: "plan_and_apply 2 [lone_entry] [None] keep_options empty_wl =
      (Ok \<lparr>ic_plan = plan_default\<lparr>ip_unmatched := [0]\<rparr>, ic_removed = 0\<rparr>, empty_wl)"
    by (simp add: plan_and_apply_def Let_def plan write_entries_def write_progress_def missing_of_def opts
        plan_default_def)
  have dropped: "pending_drop gone empty_wl = empty_wl" for gone by (simp add: pending_drop_def empty_wl_def)
  have rows: "rows_of 2 (wd_pending empty_wl) = []" by (simp add: rows_of_def empty_wl_def)
  have insert: "\<exists>row. pending_insert keep_options empty_wl lone_entry = Ok row"
    by (simp add: pending_insert_def numeric_option_def lone_entry_def)
  then have queue: "\<exists>d. queue_pending ascii_tables keep_options 2 [lone_entry] empty_wl = (Ok (), d) \<and> pending_count d 2 = 1"
    by (auto simp: queue_pending_def by_key_def queue_one_def act_then_def act_bind_def pending_count_def
        rows_of_def empty_wl_def)
  have "\<exists>outcome d. import_body ascii_tables sample_url 2 [lone_entry] keep_options empty_wl = (Ok (Ok outcome), d) \<and>
      pending_count d 2 = 1"
    using queue
    by (auto simp: import_body_def Let_def opts res pa dropped rows max_entries_def
        plan_default_def act_then_def act_bind_def)
  then obtain outcome d where body:
    "import_body ascii_tables sample_url 2 [lone_entry] keep_options empty_wl = (Ok (Ok outcome), d)"
    "pending_count d 2 = 1" by blast
  have run: "watchlist_import ascii_tables sample_url 2 [lone_entry] keep_options Apply empty_wl = (Ok (Ok outcome), d)"
    by (simp add: watchlist_import_def body)
  from import_all_or_nothing [OF run] have
    "fst (watchlist_import ascii_tables sample_url 2 [lone_entry] keep_options DryRun empty_wl) = Ok (Ok outcome)"
    "others_kept 2 empty_wl d"
    by (simp_all add: run) (simp_all add: empty_wl_def max_entries_def)
  with run body(2) show ?thesis by blast
qed

section \<open>A queued entry comes back\<close>

lemma numeric_option_milli:
  "milli_ok m \<Longrightarrow> numeric_option (Some (from_milli m)) = Ok (Some m)"
  by (simp add: numeric_option_def to_numeric_from_milli)

lemma pinned_index:
  assumes "length (filter so_pinned ss) \<le> 1" "i < length ss"
  shows "pinned_position ss = Some i \<longleftrightarrow> so_pinned (ss ! i)"
proof
  assume "so_pinned (ss ! i)"
  then have "pinned_position ss \<noteq> None"
    using assms(2) by (auto simp: pinned_position_def find_None_iff)
  then obtain j where j: "pinned_position ss = Some j" by blast
  then have "j < length ss" "so_pinned (ss ! j)" by (auto simp: pinned_position_def find_Some_iff)
  moreover have "card {k. k < length ss \<and> so_pinned (ss ! k)} \<le> Suc 0"
    using assms(1) by (simp add: length_filter_conv_card)
  ultimately have "i = j"
    using \<open>so_pinned (ss ! i)\<close> assms(2) by (subst (asm) card_le_Suc0_iff_eq) auto
  then show "pinned_position ss = Some i" using j by simp
qed (auto simp: pinned_position_def find_Some_iff)

definition storable_progress :: "portable_progress option \<Rightarrow> bool" where
  "storable_progress p \<longleftrightarrow>
     (\<forall>q. p = Some q \<longrightarrow> (\<exists>m. pp_whole q = from_milli m \<and> milli_ok m) \<and>
        (\<forall>x. pp_part q = Some x \<longrightarrow> (\<exists>m. x = from_milli m \<and> milli_ok m)))"

text \<open>The pending queue loses nothing: an entry with at most one pinned source and a progress of four
  decimals is queued as a row that reads back as the entry, with its date capped at the present.
\<close>

theorem pending_row_round_trip:
  assumes "pending_insert opts db e = Ok row"
    and "length (filter so_pinned (pe_sources e)) \<le> 1" "storable_progress (pe_progress e)"
  shows "into_entry row = e\<lparr>pe_added_at := min (pe_added_at e) (wd_now db)\<rparr>"
proof -
  define ss where "ss = pe_sources e"
  have sources: "map (\<lambda>(i, (provider, url), path).
      \<lparr>so_provider = provider, so_url = url, so_path = path, so_pinned = pinned_position ss = Some i\<rparr>)
     (let rows = zip (zip (map so_provider ss) (map so_url ss)) (map so_path ss) in zip [0..<length rows] rows) = ss"
    using pinned_index [OF assms(2) [folded ss_def]] by (intro nth_equalityI) (auto simp: Let_def)
  have ids: "map (\<lambda>(tracker, i). \<lparr>xr_tracker = tracker, xr_id = i\<rparr>) (zip (map xr_tracker xs) (map xr_id xs)) = xs"
    for xs by (induction xs) simp_all
  obtain whole part where cells: "numeric_option (map_option pp_whole (pe_progress e)) = Ok whole"
    "numeric_option (Option.bind (pe_progress e) pp_part) = Ok part"
    and row: "row = \<lparr>pn_id = wd_next_id db, pn_title = pe_title e, pn_alternative_titles = pe_alternative_titles e,
         pn_providers = map so_provider ss, pn_urls = map so_url ss,
         pn_paths = map so_path ss, pn_pinned = pinned_position ss,
         pn_trackers = map xr_tracker (pe_external_ids e), pn_external_ids = map xr_id (pe_external_ids e),
         pn_status = pe_status e, pn_notify = pe_notify e, pn_sync_excluded = pe_sync_excluded e,
         pn_added_at = min (pe_added_at e) (wd_now db), pn_whole = whole, pn_part = part,
         pn_prefer_imported = (io_policy opts = PreferImported), pn_match_titles = io_match_titles opts,
         pn_queued_at = wd_now db, pn_last_attempt_at = wd_now db, pn_attempts = 1\<rparr>"
    using assms(1) by (auto simp: pending_insert_def bind_result_ok_iff ss_def split: if_splits)
  have progress: "map_option (\<lambda>w. \<lparr>pp_whole = from_milli w, pp_part = float_of_milli part\<rparr>) whole = pe_progress e"
  proof (cases "pe_progress e")
    case None
    then show ?thesis using cells by (simp add: numeric_option_def)
  next
    case (Some q)
    then obtain m where m: "pp_whole q = from_milli m" "milli_ok m" using assms(3) by (auto simp: storable_progress_def)
    have "whole = Some m" using cells(1) Some m numeric_option_milli by simp
    moreover have "float_of_milli part = pp_part q"
    proof (cases "pp_part q")
      case None
      then show ?thesis using cells(2) Some by (simp add: numeric_option_def float_of_milli_def)
    next
      case (Some x)
      then obtain k where "x = from_milli k" "milli_ok k"
        using assms(3) \<open>pe_progress e = Some q\<close> by (auto simp: storable_progress_def)
      then show ?thesis
        using cells(2) Some \<open>pe_progress e = Some q\<close> numeric_option_milli by (auto simp: float_of_milli_def)
    qed
    ultimately show ?thesis using Some m(1) by simp
  qed
  show ?thesis
    unfolding into_entry_def row
    using sources ids progress by (simp add: ss_def)
qed

definition pinned_entry :: portable_entry where
  "pinned_entry = lone_entry\<lparr>pe_sources :=
     [\<lparr>so_provider = [112], so_url = [117], so_path = [47], so_pinned = False\<rparr>,
      \<lparr>so_provider = [113], so_url = [118], so_path = [47, 97], so_pinned = True\<rparr>],
     pe_external_ids := [\<lparr>xr_tracker = [116], xr_id = [49]\<rparr>],
     pe_progress := Some \<lparr>pp_whole = from_milli 50000, pp_part = Some (from_milli 55000)\<rparr>\<rparr>"

theorem pending_row_round_trip_witness:
  "\<exists>row. pending_insert keep_options empty_wl pinned_entry = Ok row \<and> pn_pinned row = Some 1 \<and>
     into_entry row = pinned_entry\<lparr>pe_added_at := 10\<rparr>"
proof -
  have ok: "milli_ok 50000" "milli_ok 55000" by (simp_all add: milli_ok_def)
  obtain row where row: "pending_insert keep_options empty_wl pinned_entry = Ok row" "pn_pinned row = Some 1"
    by (auto simp: pending_insert_def pinned_entry_def lone_entry_def numeric_option_milli ok pinned_position_def)
  have "storable_progress (pe_progress pinned_entry)"
    using ok by (auto simp: storable_progress_def pinned_entry_def)
  from pending_row_round_trip [OF row(1) _ this] row show ?thesis
    by (simp add: pinned_entry_def lone_entry_def empty_wl_def)
qed

end
