(* ===== verification/Ssrf_Guard.thy ===== *)
theory Ssrf_Guard
  imports "HOL-Library.Word" Title_Text
begin

text \<open>
  The address guard: \<open>src/crates/domain/src/ssrf.rs\<close>, and its use by the fetch client in
  \<open>src/crates/fetch/src/ssrf.rs\<close> (the resolver) and \<open>base.rs\<close> (the redirect policy). Addresses are
  octets and segments at their width. Parsing a URL and resolving a name are parameters. The ranges
  the code tests with masks are shown to be the address blocks its comments name.
\<close>

unbundle bit_operations_syntax

section \<open>Addresses\<close>

datatype ipv4 = Ipv4 "8 word" "8 word" "8 word" "8 word"

datatype ipv6 = Ipv6 "16 word" "16 word" "16 word" "16 word" "16 word" "16 word" "16 word" "16 word"

datatype ip_addr = V4 ipv4 | V6 ipv6

text \<open>The classifications of \<open>std::net\<close> the guard asks for.\<close>

fun v4_is_unspecified :: "ipv4 \<Rightarrow> bool" where
  "v4_is_unspecified (Ipv4 a b c d) \<longleftrightarrow> a = 0 \<and> b = 0 \<and> c = 0 \<and> d = 0"

fun v4_is_private :: "ipv4 \<Rightarrow> bool" where
  "v4_is_private (Ipv4 a b c d) \<longleftrightarrow>
     a = 10 \<or> (a = 172 \<and> 16 \<le> b \<and> b \<le> 31) \<or> (a = 192 \<and> b = 168)"

fun v4_is_broadcast :: "ipv4 \<Rightarrow> bool" where
  "v4_is_broadcast (Ipv4 a b c d) \<longleftrightarrow> a = 255 \<and> b = 255 \<and> c = 255 \<and> d = 255"

fun is_forbidden_v4 :: "ipv4 \<Rightarrow> bool" where
  "is_forbidden_v4 (Ipv4 a b c d) \<longleftrightarrow>
     v4_is_unspecified (Ipv4 a b c d) \<or>
     a = 127 \<or>
     v4_is_private (Ipv4 a b c d) \<or>
     (a = 169 \<and> b = 254) \<or>
     v4_is_broadcast (Ipv4 a b c d) \<or>
     (224 \<le> a \<and> a \<le> 239) \<or>
     (a = 100 \<and> b AND 0xc0 = 64) \<or>
     (a = 192 \<and> b = 0 \<and> c = 0) \<or>
     (a = 192 \<and> b = 0 \<and> c = 2) \<or>
     (a = 198 \<and> b = 51 \<and> c = 100) \<or>
     (a = 203 \<and> b = 0 \<and> c = 113) \<or>
     (a = 198 \<and> b AND 0xfe = 18) \<or>
     240 \<le> a"

definition v4_of_segments :: "16 word \<Rightarrow> 16 word \<Rightarrow> ipv4" where
  "v4_of_segments g h =
     Ipv4 (ucast (drop_bit 8 g)) (ucast g) (ucast (drop_bit 8 h)) (ucast h)"

fun to_ipv4_mapped :: "ipv6 \<Rightarrow> ipv4 option" where
  "to_ipv4_mapped (Ipv6 s0 s1 s2 s3 s4 s5 s6 s7) =
     (if s0 = 0 \<and> s1 = 0 \<and> s2 = 0 \<and> s3 = 0 \<and> s4 = 0 \<and> s5 = 0xffff
      then Some (v4_of_segments s6 s7) else None)"

fun to_ipv4 :: "ipv6 \<Rightarrow> ipv4 option" where
  "to_ipv4 (Ipv6 s0 s1 s2 s3 s4 s5 s6 s7) =
     (if s0 = 0 \<and> s1 = 0 \<and> s2 = 0 \<and> s3 = 0 \<and> s4 = 0 \<and> (s5 = 0 \<or> s5 = 0xffff)
      then Some (v4_of_segments s6 s7) else None)"

definition v6_unspecified :: ipv6 where "v6_unspecified = Ipv6 0 0 0 0 0 0 0 0"

definition v6_loopback :: ipv6 where "v6_loopback = Ipv6 0 0 0 0 0 0 0 1"

fun v6_range :: "ipv6 \<Rightarrow> bool" where
  "v6_range (Ipv6 s0 s1 s2 s3 s4 s5 s6 s7) \<longleftrightarrow>
     Ipv6 s0 s1 s2 s3 s4 s5 s6 s7 = v6_unspecified \<or>
     Ipv6 s0 s1 s2 s3 s4 s5 s6 s7 = v6_loopback \<or>
     s0 AND 0xff00 = 0xff00 \<or>
     s0 AND 0xfe00 = 0xfc00 \<or>
     s0 AND 0xffc0 = 0xfe80 \<or>
     (s0 = 0x2001 \<and> s1 = 0x0db8)"

definition is_forbidden_v6 :: "ipv6 \<Rightarrow> bool" where
  "is_forbidden_v6 ip =
     (case to_ipv4_mapped ip of
        Some v4 \<Rightarrow> is_forbidden_v4 v4
      | None \<Rightarrow>
          (case to_ipv4 ip of
             Some v4 \<Rightarrow>
               if ip \<noteq> v6_loopback \<and> ip \<noteq> v6_unspecified then is_forbidden_v4 v4 else v6_range ip
           | None \<Rightarrow> v6_range ip))"

fun is_forbidden_ip :: "ip_addr \<Rightarrow> bool" where
  "is_forbidden_ip (V4 ip) = is_forbidden_v4 ip"
| "is_forbidden_ip (V6 ip) = is_forbidden_v6 ip"

section \<open>Checking a URL\<close>

text \<open>
  The parts of a URL the guard reads. Parsing is the \<open>url\<close> crate's and is a parameter, and so is
  the name resolution of the host.
\<close>

datatype url_host = Domain utext | HostV4 ipv4 | HostV6 ipv6

record fetch_url =
  fu_scheme :: utext
  fu_host :: "url_host option"
  fu_text :: utext

type_synonym fetch_parse = "utext \<Rightarrow> fetch_url option"
type_synonym dns = "utext \<Rightarrow> ip_addr list option"

datatype ssrf_error =
    Scheme utext
  | NoHost
  | ForbiddenAddress url_host
  | Resolution utext

definition http_scheme :: "fetch_url \<Rightarrow> bool" where
  "http_scheme u \<longleftrightarrow> fu_scheme u = lit ''http'' \<or> fu_scheme u = lit ''https''"

definition validate_url :: "fetch_url \<Rightarrow> (ssrf_error, unit) result" where
  "validate_url u =
     (if \<not> http_scheme u then Err (Scheme (fu_scheme u))
      else (case fu_host u of
          None \<Rightarrow> Err NoHost
        | Some (HostV4 ip) \<Rightarrow> if is_forbidden_ip (V4 ip) then Err (ForbiddenAddress (HostV4 ip)) else Ok ()
        | Some (HostV6 ip) \<Rightarrow> if is_forbidden_ip (V6 ip) then Err (ForbiddenAddress (HostV6 ip)) else Ok ()
        | Some (Domain _) \<Rightarrow> Ok ()))"

definition validate_str :: "fetch_parse \<Rightarrow> utext \<Rightarrow> (ssrf_error, fetch_url) result" where
  "validate_str parse raw =
     (case parse raw of
        None \<Rightarrow> Err NoHost
      | Some u \<Rightarrow> bind_result (validate_url u) (\<lambda>_. Ok u))"

definition require_all_public :: "utext \<Rightarrow> ip_addr list \<Rightarrow> (ssrf_error, unit) result" where
  "require_all_public host addrs =
     (if addrs = [] then Err (Resolution host)
      else if list_ex is_forbidden_ip addrs then Err (ForbiddenAddress (Domain host))
      else Ok ())"

definition resolve_checked :: "dns \<Rightarrow> utext \<Rightarrow> (ssrf_error, ip_addr list) result" where
  "resolve_checked resolve host =
     (case resolve host of
        None \<Rightarrow> Err (Resolution host)
      | Some addrs \<Rightarrow>
          let allowed = filter (\<lambda>ip. \<not> is_forbidden_ip ip) addrs
          in if allowed = [] then Err (ForbiddenAddress (Domain host)) else Ok allowed)"

definition validate_and_resolve :: "fetch_parse \<Rightarrow> dns \<Rightarrow> utext \<Rightarrow> (ssrf_error, unit) result" where
  "validate_and_resolve parse resolve raw =
     bind_result (validate_str parse raw) (\<lambda>u.
       case fu_host u of
         None \<Rightarrow> Err NoHost
       | Some (Domain d) \<Rightarrow> bind_result (resolve_checked resolve d) (\<lambda>_. Ok ())
       | Some _ \<Rightarrow> Ok ())"

definition dns_lookup :: "dns \<Rightarrow> utext \<Rightarrow> (ssrf_error, ip_addr list) result" where
  "dns_lookup resolve host = (case resolve host of None \<Rightarrow> Err (Resolution host) | Some addrs \<Rightarrow> Ok addrs)"

definition validate_unpinned :: "fetch_parse \<Rightarrow> dns \<Rightarrow> utext \<Rightarrow> (ssrf_error, fetch_url) result" where
  "validate_unpinned parse resolve raw =
     bind_result (validate_str parse raw) (\<lambda>u.
       case fu_host u of
         Some (Domain d) \<Rightarrow>
           bind_result (dns_lookup resolve d) (\<lambda>addrs. bind_result (require_all_public d addrs) (\<lambda>_. Ok u))
       | _ \<Rightarrow> Ok u)"

section \<open>The guard of the fetch client\<close>

definition is_ipv4 :: "ip_addr \<Rightarrow> bool" where
  "is_ipv4 ip = (case ip of V4 _ \<Rightarrow> True | V6 _ \<Rightarrow> False)"

definition prefer_ipv6 :: "ip_addr list \<Rightarrow> ip_addr list" where
  "prefer_ipv6 addrs = sort_key (\<lambda>ip. if is_ipv4 ip then 1 else (0::nat)) addrs"

datatype resolver_error = LookupFailed | ResolverRefused ssrf_error

definition ssrf_resolver :: "dns \<Rightarrow> utext \<Rightarrow> (resolver_error, ip_addr list) result" where
  "ssrf_resolver resolve host =
     (case resolve host of
        None \<Rightarrow> Err LookupFailed
      | Some addrs \<Rightarrow>
          let allowed = filter (\<lambda>ip. \<not> is_forbidden_ip ip) addrs
          in if allowed = [] then Err (ResolverRefused (ForbiddenAddress (Domain host)))
             else Ok (prefer_ipv6 allowed))"

definition max_redirects :: nat where "max_redirects = 5"

datatype hop = Follow | Stop | Refuse ssrf_error

definition redirect_hop :: "fetch_parse \<Rightarrow> utext \<Rightarrow> hop" where
  "redirect_hop parse target =
     (case parse target of
        None \<Rightarrow> Stop
      | Some u \<Rightarrow>
          if \<not> http_scheme u then Stop
          else (case validate_url u of Inr _ \<Rightarrow> Follow | Inl e \<Rightarrow> Refuse e))"

datatype redirect_action = ActFollow | ActStop | ActTooMany | ActRefuse ssrf_error

definition redirect_policy :: "fetch_parse \<Rightarrow> utext list \<Rightarrow> utext \<Rightarrow> redirect_action" where
  "redirect_policy parse previous target =
     (if max_redirects \<le> length previous then ActTooMany
      else (case redirect_hop parse target of
          Follow \<Rightarrow> ActFollow | Stop \<Rightarrow> ActStop | Refuse e \<Rightarrow> ActRefuse e))"

text \<open>
  The addresses the client may connect to for a URL: an IP literal is connected to without any name
  resolution, a name goes through the resolver.
\<close>

definition connect_targets :: "dns \<Rightarrow> fetch_url \<Rightarrow> ip_addr list" where
  "connect_targets resolve u =
     (case fu_host u of
        None \<Rightarrow> []
      | Some (HostV4 ip) \<Rightarrow> [V4 ip]
      | Some (HostV6 ip) \<Rightarrow> [V6 ip]
      | Some (Domain d) \<Rightarrow> (case ssrf_resolver resolve d of Inl _ \<Rightarrow> [] | Inr addrs \<Rightarrow> addrs))"

section \<open>The forbidden ranges as blocks\<close>

text \<open>An address as a number, and a block in the notation of the comments: network and prefix length.\<close>

fun v4_value :: "ipv4 \<Rightarrow> nat" where
  "v4_value (Ipv4 a b c d) = ((unat a * 256 + unat b) * 256 + unat c) * 256 + unat d"

fun v6_value :: "ipv6 \<Rightarrow> nat" where
  "v6_value (Ipv6 s0 s1 s2 s3 s4 s5 s6 s7) =
     foldl (\<lambda>n s. n * 65536 + unat s) 0 [s0, s1, s2, s3, s4, s5, s6, s7]"

definition in_block :: "nat \<Rightarrow> nat \<Rightarrow> nat \<times> nat \<Rightarrow> bool" where
  "in_block width n block \<longleftrightarrow>
     n div 2 ^ (width - snd block) = fst block div 2 ^ (width - snd block)"

definition v4_blocks :: "(nat \<times> nat) list" where
  "v4_blocks = map (\<lambda>(a, b, c, d, len). (((a * 256 + b) * 256 + c) * 256 + d, len))
     [(0, 0, 0, 0, 32), (127, 0, 0, 0, 8), (10, 0, 0, 0, 8), (172, 16, 0, 0, 12), (192, 168, 0, 0, 16),
      (169, 254, 0, 0, 16), (255, 255, 255, 255, 32), (224, 0, 0, 0, 4), (100, 64, 0, 0, 10),
      (192, 0, 0, 0, 24), (192, 0, 2, 0, 24), (198, 51, 100, 0, 24), (203, 0, 113, 0, 24),
      (198, 18, 0, 0, 15), (240, 0, 0, 0, 4)]"

definition v6_blocks :: "(nat \<times> nat) list" where
  "v6_blocks =
     [(0, 128), (1, 128), (0xff00 * 2 ^ 112, 8), (0xfc00 * 2 ^ 112, 7), (0xfe80 * 2 ^ 112, 10),
      (0x20010db8 * 2 ^ 96, 32)]"

lemma masked_block:
  fixes x y :: "'a::len word"
  shows "x AND NOT (mask n) = y AND NOT (mask n) \<longleftrightarrow> drop_bit n x = drop_bit n y"
proof
  assume eq: "drop_bit n x = drop_bit n y"
  have "bit x k = bit y k" if "n \<le> k" for k
    using arg_cong [OF eq, of "\<lambda>w. bit w (k - n)"] that by (simp add: bit_drop_bit_eq)
  then show "x AND NOT (mask n) = y AND NOT (mask n)"
    by (auto simp: bit_eq_iff bit_simps not_less)
next
  assume eq: "x AND NOT (mask n) = y AND NOT (mask n)"
  have "bit x (n + k) = bit y (n + k)" if "n + k < LENGTH('a)" for k
    using arg_cong [OF eq, of "\<lambda>w. bit w (n + k)"] that by (simp add: bit_simps)
  then show "drop_bit n x = drop_bit n y"
    by (auto simp: bit_eq_iff bit_simps dest: bit_imp_le_length)
qed

lemma masked_range:
  fixes x :: "'a::len word"
  assumes "m = NOT (mask n)" "c AND m = c" 
  shows "x AND m = c \<longleftrightarrow> unat x div 2 ^ n = unat c div 2 ^ n"
proof -
  have "x AND m = c \<longleftrightarrow> drop_bit n x = drop_bit n c"
    using masked_block [of x n c] assms by simp
  then show ?thesis by (simp add: word_unat_eq_iff unat_drop_bit_eq drop_bit_eq_div [of _ "_::nat"])
qed

lemma masks_of_the_guard:
  fixes o1 :: "8 word" and s :: "16 word"
  shows "o1 AND 0xc0 = 64 \<longleftrightarrow> unat o1 div 64 = 1" "o1 AND 0xfe = 18 \<longleftrightarrow> unat o1 div 2 = 9"
    "s AND 0xff00 = 0xff00 \<longleftrightarrow> unat s div 256 = 255" "s AND 0xfe00 = 0xfc00 \<longleftrightarrow> unat s div 512 = 126"
    "s AND 0xffc0 = 0xfe80 \<longleftrightarrow> unat s div 64 = 1018"
  using masked_range [of "0xc0::8 word" 6 64 o1] masked_range [of "0xfe::8 word" 1 18 o1]
    masked_range [of "0xff00::16 word" 8 "0xff00" s] masked_range [of "0xfe00::16 word" 9 "0xfc00" s]
    masked_range [of "0xffc0::16 word" 6 "0xfe80" s]
  by (simp_all add: mask_eq_exp_minus_1)

lemma unat_octet: "unat (x::8 word) < 256"
  using unsigned_less [of x] by simp

lemma unat_segment: "unat (x::16 word) < 65536"
  using unsigned_less [of x] by simp

lemma div_digits: "r < m \<Longrightarrow> (q * m + r) div m = q" for q r m :: nat
  by simp

text \<open>The prefixes of an address as a number are its leading octets, or segments.\<close>

lemma v4_prefixes:
  fixes a b c d :: nat
  assumes "b < 256" "c < 256" "d < 256" and n: "n = ((a * 256 + b) * 256 + c) * 256 + d"
  shows "n div 2 ^ 28 = a div 16" "n div 2 ^ 24 = a" "n div 2 ^ 22 = (a * 256 + b) div 64"
    "n div 2 ^ 20 = (a * 256 + b) div 16" "n div 2 ^ 17 = (a * 256 + b) div 2"
    "n div 2 ^ 16 = a * 256 + b" "n div 2 ^ 8 = (a * 256 + b) * 256 + c" "n div 2 ^ 0 = n"
  using assms by simp_all

lemma in_block_at: "width - len = k \<Longrightarrow> in_block width n (v, len) \<longleftrightarrow> n div 2 ^ k = v div 2 ^ k"
  by (simp add: in_block_def)

lemma digit_eq: "r < m \<Longrightarrow> q * m + r = k \<longleftrightarrow> q = k div m \<and> r = k mod m" for q r m k :: nat
  by (metis div_digits div_mult_mod_eq mod_less mod_mult_self3)

lemma v4_digits:
  fixes a b c d :: nat
  assumes "b < 256" "c < 256" "d < 256" and n: "n = ((a * 256 + b) * 256 + c) * 256 + d"
  shows "n = 0 \<longleftrightarrow> a = 0 \<and> b = 0 \<and> c = 0 \<and> d = 0"
    "n = 4294967295 \<longleftrightarrow> a = 255 \<and> b = 255 \<and> c = 255 \<and> d = 255"
    "(a * 256 + b) div 16 = 2753 \<longleftrightarrow> a = 172 \<and> b div 16 = 1"
    "(a * 256 + b) div 64 = 401 \<longleftrightarrow> a = 100 \<and> b div 64 = 1"
    "(a * 256 + b) div 2 = 25353 \<longleftrightarrow> a = 198 \<and> b div 2 = 9"
    "a * 256 + b = 49320 \<longleftrightarrow> a = 192 \<and> b = 168"
    "a * 256 + b = 43518 \<longleftrightarrow> a = 169 \<and> b = 254"
    "(a * 256 + b) * 256 + c = 12582912 \<longleftrightarrow> a = 192 \<and> b = 0 \<and> c = 0"
    "(a * 256 + b) * 256 + c = 12582914 \<longleftrightarrow> a = 192 \<and> b = 0 \<and> c = 2"
    "(a * 256 + b) * 256 + c = 12989284 \<longleftrightarrow> a = 198 \<and> b = 51 \<and> c = 100"
    "(a * 256 + b) * 256 + c = 13303921 \<longleftrightarrow> a = 203 \<and> b = 0 \<and> c = 113"
proof -
  have high: "(a * 256 + b) div 16 = a * 16 + b div 16" "(a * 256 + b) div 64 = a * 4 + b div 64"
    "(a * 256 + b) div 2 = a * 128 + b div 2" by (simp_all add: div_add1_eq [of "a * 256"])
  note eq = digit_eq [of _ 256]
  show "n = 0 \<longleftrightarrow> a = 0 \<and> b = 0 \<and> c = 0 \<and> d = 0"
    "n = 4294967295 \<longleftrightarrow> a = 255 \<and> b = 255 \<and> c = 255 \<and> d = 255"
    unfolding n eq [OF assms(3)] eq [OF assms(2)] eq [OF assms(1)] by auto
  show "a * 256 + b = 49320 \<longleftrightarrow> a = 192 \<and> b = 168" "a * 256 + b = 43518 \<longleftrightarrow> a = 169 \<and> b = 254"
    "(a * 256 + b) * 256 + c = 12582912 \<longleftrightarrow> a = 192 \<and> b = 0 \<and> c = 0"
    "(a * 256 + b) * 256 + c = 12582914 \<longleftrightarrow> a = 192 \<and> b = 0 \<and> c = 2"
    "(a * 256 + b) * 256 + c = 12989284 \<longleftrightarrow> a = 198 \<and> b = 51 \<and> c = 100"
    "(a * 256 + b) * 256 + c = 13303921 \<longleftrightarrow> a = 203 \<and> b = 0 \<and> c = 113"
    unfolding eq [OF assms(2)] eq [OF assms(1)] by auto
  have "b div 16 < 16" "b div 64 < 4" "b div 2 < 128" using assms(1) by simp_all
  note low = this [THEN digit_eq]
  show "(a * 256 + b) div 16 = 2753 \<longleftrightarrow> a = 172 \<and> b div 16 = 1"
    "(a * 256 + b) div 64 = 401 \<longleftrightarrow> a = 100 \<and> b div 64 = 1"
    "(a * 256 + b) div 2 = 25353 \<longleftrightarrow> a = 198 \<and> b div 2 = 9"
    unfolding high low by auto
qed

lemma is_forbidden_v4_blocks:
  "is_forbidden_v4 ip \<longleftrightarrow> list_ex (in_block 32 (v4_value ip)) v4_blocks"
proof (cases ip)
  case (Ipv4 a b c d)
  have lt: "unat a < 256" "unat b < 256" "unat c < 256" "unat d < 256" by (simp_all add: unat_octet)
  have n: "v4_value ip = ((unat a * 256 + unat b) * 256 + unat c) * 256 + unat d" by (simp add: Ipv4)
  note pre = v4_prefixes [OF lt(2-4) n] and dig = v4_digits [OF lt(2-4) n]
  have "is_forbidden_v4 ip \<longleftrightarrow>
      (unat a = 0 \<and> unat b = 0 \<and> unat c = 0 \<and> unat d = 0) \<or> unat a = 127 \<or> unat a = 10 \<or>
      (unat a = 172 \<and> unat b div 16 = 1) \<or> (unat a = 192 \<and> unat b = 168) \<or>
      (unat a = 169 \<and> unat b = 254) \<or>
      (unat a = 255 \<and> unat b = 255 \<and> unat c = 255 \<and> unat d = 255) \<or> unat a div 16 = 14 \<or>
      (unat a = 100 \<and> unat b div 64 = 1) \<or> (unat a = 192 \<and> unat b = 0 \<and> unat c = 0) \<or>
      (unat a = 192 \<and> unat b = 0 \<and> unat c = 2) \<or> (unat a = 198 \<and> unat b = 51 \<and> unat c = 100) \<or>
      (unat a = 203 \<and> unat b = 0 \<and> unat c = 113) \<or> (unat a = 198 \<and> unat b div 2 = 9) \<or>
      unat a div 16 = 15"
  proof -
    have "16 \<le> b \<and> b \<le> 31 \<longleftrightarrow> unat b div 16 = 1" by (auto simp: word_le_nat_alt)
    moreover have "224 \<le> a \<and> a \<le> 239 \<longleftrightarrow> unat a div 16 = 14" by (auto simp: word_le_nat_alt)
    moreover have "240 \<le> a \<longleftrightarrow> unat a div 16 = 15" using lt by (auto simp: word_le_nat_alt)
    ultimately show ?thesis
      unfolding Ipv4 is_forbidden_v4.simps masks_of_the_guard by (simp add: word_unat_eq_iff)
  qed
  also have "\<dots> \<longleftrightarrow> list_ex (in_block 32 (v4_value ip)) v4_blocks"
    by (simp add: v4_blocks_def in_block_at [OF refl] pre [simplified] dig dig [simplified] del: v4_value.simps)
  finally show ?thesis .
qed

text \<open>
  The lower 32 bits of an address that embeds an IPv4 address are that address.
\<close>

lemma octets_of_segment:
  fixes g :: "16 word"
  shows "unat (ucast (drop_bit 8 g) :: 8 word) = unat g div 256"
    and "unat (ucast g :: 8 word) = unat g mod 256"
proof -
  have "unat g div 256 < 256" using unat_segment [of g] by simp
  then show "unat (ucast (drop_bit 8 g) :: 8 word) = unat g div 256"
    by (simp add: unsigned_ucast_eq unat_drop_bit_eq drop_bit_eq_div [of _ "_::nat"] take_bit_eq_mod [of _ "_::nat"])
  show "unat (ucast g :: 8 word) = unat g mod 256"
    by (simp add: unsigned_ucast_eq take_bit_eq_mod [of _ "_::nat"])
qed

lemma v4_value_of_segments: "v4_value (v4_of_segments g h) = unat g * 65536 + unat h"
proof -
  have "((q * 256 + r) * 256 + q') * 256 + r' = g * 65536 + h"
    if "q * 256 + r = g" "q' * 256 + r' = h" for q r q' r' g h :: nat
    using that by simp
  from this [OF div_mult_mod_eq div_mult_mod_eq] show ?thesis
    unfolding v4_of_segments_def v4_value.simps octets_of_segment(1)
    unfolding octets_of_segment(2) .
qed

definition digits16 :: "nat list \<Rightarrow> nat" where
  "digits16 xs = foldl (\<lambda>n s. n * 65536 + s) 0 xs"

lemma digits16_snoc: "digits16 (xs @ [x]) = digits16 xs * 65536 + x"
  by (simp add: digits16_def)

lemma digits16_div:
  assumes "\<forall>y \<in> set ys. y < 65536"
  shows "digits16 (xs @ ys) div 2 ^ (16 * length ys) = digits16 xs"
    "digits16 (xs @ ys) mod 2 ^ (16 * length ys) = digits16 ys"
proof -
  have app: "digits16 (xs @ ys) = digits16 xs * 2 ^ (16 * length ys) + digits16 ys" for xs
    by (induction ys rule: rev_induct)
      (simp_all add: digits16_snoc digits16_def [of "[]"] power_add algebra_simps flip: append_assoc)
  have "digits16 ys < 2 ^ (16 * length ys)" using assms
    by (induction ys rule: rev_induct) (auto simp: digits16_snoc digits16_def [of "[]"] power_add)
  then show "digits16 (xs @ ys) div 2 ^ (16 * length ys) = digits16 xs"
    "digits16 (xs @ ys) mod 2 ^ (16 * length ys) = digits16 ys"
    by (simp_all add: app)
qed

lemma v6_value_digits:
  "v6_value (Ipv6 s0 s1 s2 s3 s4 s5 s6 s7) = digits16 (map unat [s0, s1, s2, s3, s4, s5, s6, s7])"
  by (simp add: digits16_def)

lemma digits16_lead:
  assumes "\<forall>y \<in> set ys. y < 65536" "k = 16 * length ys"
  shows "digits16 (x # ys) div 2 ^ k = x" "j \<le> 16 \<Longrightarrow> digits16 (x # ys) div 2 ^ (k + j) = x div 2 ^ j"
proof -
  show *: "digits16 (x # ys) div 2 ^ k = x"
    using digits16_div(1) [of ys "[x]"] assms by (simp add: digits16_def)
  show "digits16 (x # ys) div 2 ^ (k + j) = x div 2 ^ j"
    by (simp add: power_add div_mult2_eq *)
qed

text \<open>
  The guard refuses exactly these blocks: of an address that embeds an IPv4 address, the blocks of the
  embedded one.
\<close>

definition embeds_v4 :: "nat \<Rightarrow> bool" where
  "embeds_v4 n \<longleftrightarrow> n div 2 ^ 32 = 0xffff \<or> (n div 2 ^ 32 = 0 \<and> 1 < n)"

lemma v6_forms:
  fixes s0 s1 s2 s3 s4 s5 s6 s7 :: "16 word"
  defines "n \<equiv> v6_value (Ipv6 s0 s1 s2 s3 s4 s5 s6 s7)"
  shows "n div 2 ^ 32 = 0 \<longleftrightarrow> s0 = 0 \<and> s1 = 0 \<and> s2 = 0 \<and> s3 = 0 \<and> s4 = 0 \<and> s5 = 0"
    "n div 2 ^ 32 = 65535 \<longleftrightarrow> s0 = 0 \<and> s1 = 0 \<and> s2 = 0 \<and> s3 = 0 \<and> s4 = 0 \<and> s5 = 0xffff"
    "n = 0 \<longleftrightarrow> Ipv6 s0 s1 s2 s3 s4 s5 s6 s7 = v6_unspecified"
    "n = 1 \<longleftrightarrow> Ipv6 s0 s1 s2 s3 s4 s5 s6 s7 = v6_loopback"
    "n mod 2 ^ 32 = v4_value (v4_of_segments s6 s7)"
    "n div 2 ^ 120 = unat s0 div 256" "n div 2 ^ 121 = unat s0 div 512"
    "n div 2 ^ 118 = unat s0 div 64" "n div 2 ^ 96 = unat s0 * 65536 + unat s1"
proof -
  note eq = digit_eq [OF unat_segment, of _ _]
  have n: "n = digits16 ([unat s0, unat s1, unat s2, unat s3, unat s4, unat s5] @ [unat s6, unat s7])"
    "n = digits16 ([unat s0, unat s1] @ map unat [s2, s3, s4, s5, s6, s7])"
    "n = digits16 (unat s0 # map unat [s1, s2, s3, s4, s5, s6, s7])"
    unfolding n_def v6_value_digits by simp_all
  have top: "n div 2 ^ 32 = digits16 [unat s0, unat s1, unat s2, unat s3, unat s4, unat s5]"
    unfolding n(1)
    using digits16_div(1) [of "[unat s6, unat s7]" "[unat s0, unat s1, unat s2, unat s3, unat s4, unat s5]"] by (simp add: unat_segment)
  show "n div 2 ^ 32 = 0 \<longleftrightarrow> s0 = 0 \<and> s1 = 0 \<and> s2 = 0 \<and> s3 = 0 \<and> s4 = 0 \<and> s5 = 0"
    "n div 2 ^ 32 = 65535 \<longleftrightarrow> s0 = 0 \<and> s1 = 0 \<and> s2 = 0 \<and> s3 = 0 \<and> s4 = 0 \<and> s5 = 0xffff"
    unfolding top digits16_def foldl.simps eq by (auto simp: word_unat_eq_iff)
  show "n = 0 \<longleftrightarrow> Ipv6 s0 s1 s2 s3 s4 s5 s6 s7 = v6_unspecified"
    "n = 1 \<longleftrightarrow> Ipv6 s0 s1 s2 s3 s4 s5 s6 s7 = v6_loopback"
    unfolding n_def v6_value.simps foldl.simps eq
    by (auto simp: word_unat_eq_iff v6_unspecified_def v6_loopback_def)
  show "n mod 2 ^ 32 = v4_value (v4_of_segments s6 s7)"
    unfolding n(1) v4_value_of_segments
    using digits16_div(2) [of "[unat s6, unat s7]" "[unat s0, unat s1, unat s2, unat s3, unat s4, unat s5]"]
    by (simp add: unat_segment digits16_def [of "[unat s6, unat s7]"])
  have lead: "n div 2 ^ (112 + j) = unat s0 div 2 ^ j" if "j \<le> 16" for j
    unfolding n(3) by (rule digits16_lead) (use that in \<open>auto simp: unat_segment\<close>)
  show "n div 2 ^ 120 = unat s0 div 256" "n div 2 ^ 121 = unat s0 div 512"
    "n div 2 ^ 118 = unat s0 div 64"
    using lead [of 8] lead [of 9] lead [of 6] by simp_all
  show "n div 2 ^ 96 = unat s0 * 65536 + unat s1"
    unfolding n(2) using digits16_div(1) [of "map unat [s2, s3, s4, s5, s6, s7]" "[unat s0, unat s1]"]
    by (simp add: unat_segment digits16_def [of "[unat s0, unat s1]"])
qed

lemma v6_range_blocks: "v6_range ip \<longleftrightarrow> list_ex (in_block 128 (v6_value ip)) v6_blocks"
proof (cases ip)
  case (Ipv6 s0 s1 s2 s3 s4 s5 s6 s7)
  note f = v6_forms [of s0 s1 s2 s3 s4 s5 s6 s7, folded Ipv6]
  have doc: "unat s0 * 65536 + unat s1 = 0x20010db8 \<longleftrightarrow> unat s0 = 0x2001 \<and> unat s1 = 0x0db8"
    unfolding digit_eq [OF unat_segment] by simp
  have "v6_range ip \<longleftrightarrow>
      v6_value ip = 0 \<or> v6_value ip = 1 \<or> v6_value ip div 2 ^ 120 = 255 \<or>
      v6_value ip div 2 ^ 121 = 126 \<or> v6_value ip div 2 ^ 118 = 1018 \<or>
      v6_value ip div 2 ^ 96 = 0x20010db8"
    unfolding f doc
    by (simp only: Ipv6 v6_range.simps masks_of_the_guard word_unat_eq_iff [of s0] word_unat_eq_iff [of s1])
      simp
  also have "\<dots> \<longleftrightarrow> list_ex (in_block 128 (v6_value ip)) v6_blocks"
    by (simp add: v6_blocks_def in_block_at [OF refl] del: v6_value.simps)
  finally show ?thesis .
qed

text \<open>C26: The address guard refuses exactly the listed blocks: an IPv4 address in one of them, an IPv6
  address that embeds an IPv4 address (mapped or compatible) exactly when the embedded address is
  refused, and any other IPv6 address in one of the IPv6 blocks.
\<close>

theorem is_forbidden_ip_blocks:
  "is_forbidden_ip ip \<longleftrightarrow>
     (case ip of
        V4 a \<Rightarrow> list_ex (in_block 32 (v4_value a)) v4_blocks
      | V6 a \<Rightarrow>
          if embeds_v4 (v6_value a) then list_ex (in_block 32 (v6_value a mod 2 ^ 32)) v4_blocks
          else list_ex (in_block 128 (v6_value a)) v6_blocks)"
proof (cases ip)
  case (V6 a)
  obtain s0 s1 s2 s3 s4 s5 s6 s7 where a: "a = Ipv6 s0 s1 s2 s3 s4 s5 s6 s7" by (cases a)
  note f = v6_forms [of s0 s1 s2 s3 s4 s5 s6 s7, folded a]
  have "is_forbidden_v6 a \<longleftrightarrow>
      (if v6_value a div 2 ^ 32 = 65535 \<or>
          (v6_value a div 2 ^ 32 = 0 \<and> v6_value a \<noteq> 0 \<and> v6_value a \<noteq> 1)
       then is_forbidden_v4 (v4_of_segments s6 s7) else v6_range a)"
    unfolding f is_forbidden_v6_def by (auto simp: a)
  moreover have "v6_value a \<noteq> 0 \<and> v6_value a \<noteq> 1 \<longleftrightarrow> 1 < v6_value a" by linarith
  ultimately show ?thesis
    by (simp add: V6 embeds_v4_def is_forbidden_v4_blocks v6_range_blocks flip: f(5) conj_assoc)
qed (simp add: is_forbidden_v4_blocks)

section \<open>What a guarded fetch reaches\<close>

lemma validate_url_ok:
  "validate_url u = Ok () \<longleftrightarrow> http_scheme u \<and>
     (case fu_host u of None \<Rightarrow> False | Some (Domain _) \<Rightarrow> True
      | Some (HostV4 ip) \<Rightarrow> \<not> is_forbidden_v4 ip | Some (HostV6 ip) \<Rightarrow> \<not> is_forbidden_v6 ip)"
  by (auto simp: validate_url_def split: option.splits url_host.splits)

lemma set_prefer_ipv6 [simp]: "set (prefer_ipv6 addrs) = set addrs"
  by (simp add: prefer_ipv6_def)

lemma insort_family:
  fixes f :: "'a \<Rightarrow> nat"
  assumes "\<forall>y \<in> set ys. f y = 0" "\<forall>z \<in> set zs. f z = 1"
  shows "f x = 0 \<Longrightarrow> insort_key f x (ys @ zs) = x # ys @ zs"
    and "f x = 1 \<Longrightarrow> insort_key f x (ys @ zs) = ys @ x # zs"
  using assms by (induction ys; cases zs; auto)+

lemma prefer_ipv6_order: "prefer_ipv6 addrs = filter (\<lambda>ip. \<not> is_ipv4 ip) addrs @ filter is_ipv4 addrs"
proof (induction addrs)
  case (Cons a as)
  show ?case
    using Cons.IH
      insort_family [of "filter (\<lambda>ip. \<not> is_ipv4 ip) as" "\<lambda>ip. if is_ipv4 ip then 1 else 0" "filter is_ipv4 as" a]
    by (simp add: prefer_ipv6_def)
qed (simp add: prefer_ipv6_def)

lemma connect_targets_public:
  assumes "validate_url u = Ok ()" "ip \<in> set (connect_targets resolve u)"
  shows "\<not> is_forbidden_ip ip"
proof (cases "fu_host u")
  case (Some host)
  then show ?thesis
    using assms by (cases host)
      (auto simp: validate_url_ok connect_targets_def ssrf_resolver_def Let_def
        split: option.splits if_splits)
qed (use assms in \<open>simp add: connect_targets_def\<close>)

lemma followed_hop_valid:
  "redirect_policy parse previous target = ActFollow \<longleftrightarrow>
     length previous < max_redirects \<and> (\<exists>u. parse target = Some u \<and> validate_url u = Ok ())"
proof (cases "parse target")
  case (Some u)
  have "validate_url u = Ok () \<Longrightarrow> http_scheme u" by (simp add: validate_url_ok)
  then show ?thesis using Some
    by (cases "validate_url u") (auto simp: redirect_policy_def redirect_hop_def)
qed (simp add: redirect_policy_def redirect_hop_def)

text \<open>C25: Whatever the resolver answers, a URL that passed the check of the request, and a redirect that
  is followed, lead to no address of the refused blocks, and only over http or https; and no request
  follows more than \<open>max_redirects\<close> redirects. What the list leaves out is not refused: an address that
  embeds an internal one for a translator of the network gets through (\<open>nat64_metadata_not_refused\<close>).
\<close>

theorem guarded_fetch_avoids_blocks:
  assumes "validate_url u = Ok () \<or>
     (parse target = Some u \<and> redirect_policy parse previous target = ActFollow)"
  shows "http_scheme u \<and>
     (\<forall>ip \<in> set (connect_targets resolve u). \<not> is_forbidden_ip ip) \<and>
     (redirect_policy parse (previous @ [target]) next_target = ActFollow \<longrightarrow>
        length previous + 1 < max_redirects)"
proof -
  have ok: "validate_url u = Ok ()" using assms by (auto simp: followed_hop_valid)
  then show ?thesis
    using connect_targets_public [OF ok] by (auto simp: validate_url_ok followed_hop_valid)
qed

definition sample_parse :: fetch_parse where
  "sample_parse s =
     (if s = lit ''name'' then Some \<lparr>fu_scheme = lit ''https'', fu_host = Some (Domain (lit ''a'')),
        fu_text = lit ''name''\<rparr>
      else if s = lit ''meta''
      then Some \<lparr>fu_scheme = lit ''http'', fu_host = Some (HostV4 (Ipv4 169 254 169 254)),
        fu_text = lit ''meta''\<rparr>
      else None)"

definition sample_dns :: dns where
  "sample_dns host = Some [V4 (Ipv4 10 0 0 7), V4 (Ipv4 93 184 216 34), V6 (Ipv6 0x2606 0 0 0 0 0 0 1)]"

theorem guarded_fetch_avoids_blocks_witness:
  "\<exists>u. sample_parse (lit ''name'') = Some u \<and>
     connect_targets sample_dns u = [V6 (Ipv6 0x2606 0 0 0 0 0 0 1), V4 (Ipv4 93 184 216 34)] \<and>
     redirect_policy sample_parse [] (lit ''name'') = ActFollow \<and>
     redirect_policy sample_parse [] (lit ''meta'') \<noteq> ActFollow \<and>
     (\<forall>ip \<in> set (connect_targets sample_dns u). \<not> is_forbidden_ip ip)"
proof -
  define u where "u = \<lparr>fu_scheme = lit ''https'', fu_host = Some (Domain (lit ''a'')),
        fu_text = lit ''name''\<rparr>"
  have parse: "sample_parse (lit ''name'') = Some u" by (simp add: sample_parse_def u_def)
  have follow: "redirect_policy sample_parse [] (lit ''name'') = ActFollow"
    unfolding followed_hop_valid parse by (simp add: u_def validate_url_def http_scheme_def max_redirects_def)
  have meta: "redirect_policy sample_parse [] (lit ''meta'') \<noteq> ActFollow"
    unfolding followed_hop_valid
    by (simp add: sample_parse_def lit_def validate_url_def http_scheme_def)
  have "connect_targets sample_dns u = [V6 (Ipv6 0x2606 0 0 0 0 0 0 1), V4 (Ipv4 93 184 216 34)]"
    by (simp add: connect_targets_def u_def ssrf_resolver_def sample_dns_def prefer_ipv6_order is_ipv4_def
        is_forbidden_v6_def v6_unspecified_def v6_loopback_def)
  then show ?thesis
    using parse follow meta guarded_fetch_avoids_blocks [of u sample_parse "lit ''name''" "[]" sample_dns]
    by simp
qed

text \<open>
  A client that resolves the name again by itself gets a stricter check: every answer is public.
\<close>

lemma validate_unpinned_ok:
  assumes "validate_unpinned parse resolve raw = Ok u" "fu_host u = Some (Domain d)"
  shows "\<exists>addrs. resolve d = Some addrs \<and> addrs \<noteq> [] \<and> (\<forall>ip \<in> set addrs. \<not> is_forbidden_ip ip)"
proof -
  obtain v where v: "(case fu_host v of
      Some (Domain d) \<Rightarrow>
        bind_result (dns_lookup resolve d) (\<lambda>addrs. bind_result (require_all_public d addrs) (\<lambda>_. Ok v))
    | _ \<Rightarrow> Ok v) = Ok u"
    using assms(1) by (auto simp: validate_unpinned_def bind_result_ok_iff)
  then have "v = u" by (auto simp: bind_result_ok_iff split: option.splits url_host.splits)
  with v assms(2) obtain addrs where "dns_lookup resolve d = Ok addrs" "require_all_public d addrs = Ok ()"
    by (auto simp: bind_result_ok_iff)
  then show ?thesis
    by (auto simp: dns_lookup_def require_all_public_def list_ex_iff split: option.splits if_splits)
qed

text \<open>
  A literal of the NAT64 prefix embeds an IPv4 address the guard does not look at.
\<close>

lemma nat64_metadata_not_refused:
  "is_forbidden_ip (V4 (Ipv4 169 254 169 254)) \<and>
   \<not> is_forbidden_ip (V6 (Ipv6 0x64 0xff9b 0 0 0 0 0xa9fe 0xa9fe))"
  by (simp add: is_forbidden_v6_def v6_unspecified_def v6_loopback_def)

end
