(* ===== verification/Challenge_Detection.thy ===== *)
theory Challenge_Detection
  imports Title_Text
begin

text \<open>
  Recognising a bot-management challenge: \<open>src/crates/solver/src/types.rs\<close> and \<open>detection.rs\<close>. A
  response is seen through its status, headers and a bounded prefix of its body; the markers are the
  code's own.
\<close>

section \<open>Challenges and solves\<close>

datatype challenge_kind = CloudflareJs | CloudflareManaged | Turnstile | GenericJsInterstitial

fun challenge_as_str :: "challenge_kind \<Rightarrow> utext" where
  "challenge_as_str CloudflareJs = lit ''cloudflare_js''"
| "challenge_as_str CloudflareManaged = lit ''cloudflare_managed''"
| "challenge_as_str Turnstile = lit ''turnstile''"
| "challenge_as_str GenericJsInterstitial = lit ''generic_js_interstitial''"

type_synonym headers = "(utext \<times> utext) list"

definition header_of :: "headers \<Rightarrow> utext \<Rightarrow> utext option" where
  "header_of hs name = map_option snd (find (\<lambda>(k, _). eq_ignore_ascii_case k name) hs)"

record solve_request =
  sq_url :: utext
  sq_provider :: utext
  sq_kind :: "challenge_kind option"

record solve_outcome =
  sv_cookies :: headers
  sv_user_agent :: utext
  sv_html :: "utext option"
  sv_status :: "nat option"
  sv_headers :: headers
  sv_ttl_secs :: nat

datatype solve_error =
    SolveTransport utext
  | Unsolved utext
  | Unavailable utext
  | SolveTimeout
  | Malformed utext

fun solve_transient :: "solve_error \<Rightarrow> bool" where
  "solve_transient (SolveTransport _) = True"
| "solve_transient (Unavailable _) = True"
| "solve_transient SolveTimeout = True"
| "solve_transient _ = False"

section \<open>Reading a response\<close>

record response_view =
  rv_status :: nat
  rv_headers :: headers
  rv_snippet :: utext

definition challenge_statuses :: "nat list" where "challenge_statuses = [403, 429, 503]"

definition title_scan_bytes :: nat where "title_scan_bytes = 4096"

definition is_rate_limit_page :: "utext \<Rightarrow> bool" where
  "is_rate_limit_page body =
     (let head = take_bytes title_scan_bytes body
      in contains_text head (lit ''<title>Too Many Requests'') \<or>
         contains_text head (lit ''<title>429 Too Many Requests'') \<or>
         contains_text head (lit ''<title>Rate limit exceeded''))"

definition loads_challenge_orchestration :: "utext \<Rightarrow> bool" where
  "loads_challenge_orchestration body \<longleftrightarrow>
     contains_text body (lit ''/cdn-cgi/challenge-platform'') \<and>
     (contains_text body (lit ''/orchestrate/'') \<or> contains_text body (lit ''chl_page''))"

definition detect_challenge_body :: "utext \<Rightarrow> challenge_kind option" where
  "detect_challenge_body body =
     (if contains_text body (lit ''challenges.cloudflare.com/turnstile'') \<or>
         contains_text body (lit ''cf-turnstile'') then Some Turnstile
      else if loads_challenge_orchestration body \<or> contains_text body (lit ''cf_chl_opt'') \<or>
         contains_text body (lit ''<title>Just a moment'') then Some CloudflareJs
      else None)"

definition server_is_cf :: "response_view \<Rightarrow> bool" where
  "server_is_cf r =
     (case header_of (rv_headers r) (lit ''server'') of
        None \<Rightarrow> False | Some v \<Rightarrow> eq_ignore_ascii_case v (lit ''cloudflare''))"

definition announces_challenge :: "response_view \<Rightarrow> bool" where
  "announces_challenge r =
     (case header_of (rv_headers r) (lit ''cf-mitigated'') of
        None \<Rightarrow> False | Some v \<Rightarrow> eq_ignore_ascii_case v (lit ''challenge''))"

definition challenge_status :: "response_view \<Rightarrow> bool" where
  "challenge_status r \<longleftrightarrow> rv_status r \<in> set challenge_statuses"

definition detect_challenge :: "response_view \<Rightarrow> challenge_kind option" where
  "detect_challenge r =
     (let body = rv_snippet r
      in if announces_challenge r then Some CloudflareManaged
         else if \<not> challenge_status r \<and> \<not> server_is_cf r then None
         else if detect_challenge_body body \<noteq> None then detect_challenge_body body
         else if is_rate_limit_page body then None
         else if contains_text body (lit ''Just a moment'') then Some CloudflareJs
         else if server_is_cf r \<and> challenge_status r then Some CloudflareManaged
         else if challenge_status r \<and> byte_len body < 8192 \<and>
            (contains_text body (lit ''enable JavaScript'') \<or>
             contains_text body (lit ''Please turn JavaScript on''))
         then Some GenericJsInterstitial
         else None)"

definition error_page_markers :: "(utext \<times> utext) list" where
  "error_page_markers =
     [(lit ''nginx'', lit ''<center>nginx''), (lit ''openresty'', lit ''<center>openresty''),
      (lit ''apache'', lit ''<address>Apache''), (lit ''lighttpd'', lit ''<address>lighttpd'')]"

definition error_page_max_bytes :: nat where "error_page_max_bytes = 4096"

definition default_error_page_server :: "utext \<Rightarrow> utext option" where
  "default_error_page_server body =
     (if error_page_max_bytes < byte_len body then None
      else map_option fst (find (\<lambda>(_, marker). contains_text body marker) error_page_markers))"

text \<open>
  An ordinary page is never taken for a challenge by its text: without a challenge status, Cloudflare's
  server header or its announcement, the body is not looked at.
\<close>

lemma ordinary_page_passes:
  "\<not> announces_challenge r \<Longrightarrow> \<not> challenge_status r \<Longrightarrow> \<not> server_is_cf r \<Longrightarrow> detect_challenge r = None"
  by (simp add: detect_challenge_def Let_def)

text \<open>A throttle notice without challenge markup is the origin's answer.\<close>

lemma rate_limit_page_passes:
  "\<not> announces_challenge r \<Longrightarrow> detect_challenge_body (rv_snippet r) = None \<Longrightarrow>
   is_rate_limit_page (rv_snippet r) \<Longrightarrow> detect_challenge r = None"
  by (simp add: detect_challenge_def Let_def)

end
