(* ===== verification/Crawl_Pacing.thy ===== *)
theory Crawl_Pacing
  imports Rust_Float Title_Text
begin

text \<open>
  How politely a provider is crawled: \<open>src/crates/domain/src/politeness.rs\<close> (the configured limits),
  \<open>period_for\<close> of \<open>src/crates/fetch/src/ratelimit.rs\<close>, and \<open>src/crates/domain/src/pacing.rs\<close> (the gap
  between requests, and the penalty a provider's push-back adds to it). Durations and instants are
  nanoseconds without an upper bound: the code's own type holds centuries.
\<close>

section \<open>Politeness\<close>

definition max_rps :: rat where "max_rps = 8"

definition min_rps :: rat where "min_rps = fl 53 (1 / 1000)"

definition max_concurrency :: nat where "max_concurrency = 16"

definition default_user_agent :: utext where
  "default_user_agent =
     lit ''TankoVaultBot/0.1 (+https://github.com/tankovault; metadata-aggregator; contact: operator)''"

datatype browser_emulation = Chrome | Firefox | Safari | Edge | OkHttp

record politeness =
  po_rps :: float_value
  po_concurrency :: nat
  po_crawl_delay_ms :: nat
  po_user_agent :: utext
  po_emulation :: "browser_emulation option"

definition default_rps :: float_value where "default_rps = Fin 2"

definition default_concurrency :: nat where "default_concurrency = 4"

definition default_politeness :: politeness where
  "default_politeness =
     \<lparr>po_rps = default_rps, po_concurrency = default_concurrency, po_crawl_delay_ms = 0,
      po_user_agent = default_user_agent, po_emulation = Some Chrome\<rparr>"

definition clamped :: "politeness \<Rightarrow> politeness" where
  "clamped p =
     p\<lparr>po_rps := (case po_rps p of Fin x \<Rightarrow> Fin (clamp_to min_rps max_rps x) | _ \<Rightarrow> default_rps),
       po_concurrency := clamp_to 1 max_concurrency (po_concurrency p)\<rparr>"

text \<open>
  The body of a request carries the same fields; a key that is absent means no emulation there, and
  Chrome in the stored document.
\<close>

record politeness_body =
  pb_rps :: "float_value option"
  pb_concurrency :: "nat option"
  pb_crawl_delay_ms :: "nat option"
  pb_user_agent :: "utext option"
  pb_emulation :: "browser_emulation option option"

definition politeness_stored :: "politeness_body \<Rightarrow> politeness" where
  "politeness_stored b =
     \<lparr>po_rps = (case pb_rps b of None \<Rightarrow> default_rps | Some x \<Rightarrow> x),
      po_concurrency = (case pb_concurrency b of None \<Rightarrow> default_concurrency | Some n \<Rightarrow> n),
      po_crawl_delay_ms = (case pb_crawl_delay_ms b of None \<Rightarrow> 0 | Some n \<Rightarrow> n),
      po_user_agent = (case pb_user_agent b of None \<Rightarrow> default_user_agent | Some s \<Rightarrow> s),
      po_emulation = (case pb_emulation b of None \<Rightarrow> Some Chrome | Some e \<Rightarrow> e)\<rparr>"

definition politeness_input :: "politeness_body \<Rightarrow> politeness" where
  "politeness_input b =
     (politeness_stored b)\<lparr>po_emulation := (case pb_emulation b of None \<Rightarrow> None | Some e \<Rightarrow> e)\<rparr>"

section \<open>The request period\<close>

text \<open>A duration, and an instant of the monotonic clock, is a number of nanoseconds.\<close>

type_synonym duration = nat
type_synonym instant = nat

definition from_millis :: "nat \<Rightarrow> duration" where "from_millis n = n * 1000000"

definition from_secs :: "nat \<Rightarrow> duration" where "from_secs n = n * 1000000000"

definition from_secs_f64 :: "rat \<Rightarrow> duration" where
  "from_secs_f64 x = nat (round_even (x * 1000000000))"

text \<open>\<open>f64::max\<close> and \<open>f64::min\<close> return the other argument when one is \<open>NaN\<close>.\<close>

fun floored_rps :: "float_value \<Rightarrow> rat" where
  "floored_rps (Fin x) = min (max x min_rps) max_rps"
| "floored_rps PosInf = max_rps"
| "floored_rps NegInf = min_rps"
| "floored_rps NaN = min_rps"

definition period_for :: "float_value \<Rightarrow> duration" where
  "period_for rps = from_secs_f64 (fl 53 (1 / floored_rps rps))"

section \<open>Pacing\<close>

record pacing_policy =
  pp_step :: duration
  pp_max :: duration
  pp_recovery :: duration

definition default_pacing :: pacing_policy where
  "default_pacing = \<lparr>pp_step = from_millis 500, pp_max = from_secs 8, pp_recovery = from_secs 60\<rparr>"

record pacer =
  pc_min_interval :: duration
  pc_policy :: pacing_policy
  pc_next_allowed :: "instant option"
  pc_penalty :: duration
  pc_next_decay :: instant

definition new_pacer :: "instant \<Rightarrow> duration \<Rightarrow> pacing_policy \<Rightarrow> pacer" where
  "new_pacer now min_interval policy =
     \<lparr>pc_min_interval = min_interval, pc_policy = policy, pc_next_allowed = None, pc_penalty = 0,
      pc_next_decay = now\<rparr>"

definition pacer_decay :: "instant \<Rightarrow> pacer \<Rightarrow> pacer" where
  "pacer_decay now p =
     (if pc_penalty p \<noteq> 0 \<and> pc_next_decay p \<le> now
      then let halved = pc_penalty p div 2
        in p\<lparr>pc_penalty := if halved < pp_step (pc_policy p) then 0 else halved,
             pc_next_decay := now + pp_recovery (pc_policy p)\<rparr>
      else p)"

definition pacer_penalty :: "instant \<Rightarrow> pacer \<Rightarrow> duration \<times> pacer" where
  "pacer_penalty now p = (let q = pacer_decay now p in (pc_penalty q, q))"

definition pacer_reserve :: "instant \<Rightarrow> pacer \<Rightarrow> duration \<times> pacer" where
  "pacer_reserve now p =
     (let q = pacer_decay now p;
          gap = pc_min_interval q + pc_penalty q;
          earliest = (case pc_next_allowed q of Some slot \<Rightarrow> if now < slot then slot else now | None \<Rightarrow> now)
      in (earliest - now, q\<lparr>pc_next_allowed := Some (earliest + gap)\<rparr>))"

definition pacer_penalise :: "instant \<Rightarrow> duration option \<Rightarrow> pacer \<Rightarrow> pacer" where
  "pacer_penalise now retry_after p =
     (let grown = (if pc_penalty p = 0 then pp_step (pc_policy p) else pc_penalty p * 2)
      in p\<lparr>pc_penalty :=
             min (max grown (case retry_after of None \<Rightarrow> 0 | Some d \<Rightarrow> d)) (pp_max (pc_policy p)),
           pc_next_decay := now + pp_recovery (pc_policy p)\<rparr>)"

text \<open>A pacer in use: the calls its owner makes, at the instants it makes them.\<close>

datatype pacer_call =
    Reserve instant
  | Penalise instant "duration option"
  | Penalty instant

fun pacer_step :: "pacer_call \<Rightarrow> pacer \<times> instant list \<Rightarrow> pacer \<times> instant list" where
  "pacer_step (Reserve now) (p, slots) =
     (let (wait, q) = pacer_reserve now p in (q, slots @ [now + wait]))"
| "pacer_step (Penalise now retry_after) (p, slots) = (pacer_penalise now retry_after p, slots)"
| "pacer_step (Penalty now) (p, slots) = (snd (pacer_penalty now p), slots)"

definition pacer_run :: "pacer_call list \<Rightarrow> pacer \<Rightarrow> pacer \<times> instant list" where
  "pacer_run calls p = fold pacer_step calls (p, [])"

section \<open>What clamping and pacing guarantee\<close>

lemma min_rps_pos: "0 < min_rps" "min_rps \<le> 1 / 999" "min_rps \<le> max_rps"
  by code_simp+

lemma floored_rps_range: "min_rps \<le> floored_rps x" "floored_rps x \<le> max_rps"
  using min_rps_pos by (cases x; simp)+

lemma period_for_range: "from_millis 125 \<le> period_for x \<and> period_for x \<le> from_secs 1000"
proof -
  have top: "round_even (fl 53 (1 / min_rps) * 1000000000) = 1000000000000" by code_simp
  have bot: "round_even (fl 53 (1 / max_rps) * 1000000000) = 125000000" by code_simp
  have pos: "0 < floored_rps x" using floored_rps_range [of x] min_rps_pos by linarith
  have "1 / max_rps \<le> 1 / floored_rps x" "1 / floored_rps x \<le> 1 / min_rps"
    using floored_rps_range [of x] min_rps_pos pos by (simp_all add: frac_le)
  then have "fl 53 (1 / max_rps) \<le> fl 53 (1 / floored_rps x)"
    "fl 53 (1 / floored_rps x) \<le> fl 53 (1 / min_rps)"
    using pos min_rps_pos by (auto intro!: fl_mono simp: max_rps_def)
  then have "round_even (fl 53 (1 / max_rps) * 1000000000) \<le> round_even (fl 53 (1 / floored_rps x) * 1000000000)"
    "round_even (fl 53 (1 / floored_rps x) * 1000000000) \<le> round_even (fl 53 (1 / min_rps) * 1000000000)"
    by (auto intro!: round_even_mono)
  then show ?thesis unfolding top bot
    by (simp add: period_for_def from_secs_f64_def from_millis_def from_secs_def) linarith
qed

text \<open>
  Whatever an operator stores, the clamped politeness asks for a rate between \<open>min_rps\<close> and
  \<open>max_rps\<close> and between one and sixteen concurrent requests, clamping again changes nothing, and the
  period the limiter derives from any rate, clamped or not, lies between 125 ms and 1000 s.
\<close>

lemma crawl_rate_bounded:
  "(\<exists>x. po_rps (clamped p) = Fin x \<and> min_rps \<le> x \<and> x \<le> max_rps) \<and>
   1 \<le> po_concurrency (clamped p) \<and> po_concurrency (clamped p) \<le> max_concurrency \<and>
   clamped (clamped p) = clamped p \<and>
   from_millis 125 \<le> period_for (po_rps q) \<and> period_for (po_rps q) \<le> from_secs 1000"
proof -
  have two: "min_rps \<le> 2" "2 \<le> max_rps" by code_simp+
  obtain x where x: "po_rps (clamped p) = Fin x" "min_rps \<le> x" "x \<le> max_rps"
    using clamp_to_bounds [OF min_rps_pos(3)] two
    by (cases "po_rps p") (auto simp: clamped_def default_rps_def)
  have c: "1 \<le> po_concurrency (clamped p)" "po_concurrency (clamped p) \<le> max_concurrency"
    using clamp_to_bounds [of 1 max_concurrency "po_concurrency p"]
    by (simp_all add: clamped_def max_concurrency_def)
  have "clamped r = r" if "po_rps r = Fin x" "min_rps \<le> x" "x \<le> max_rps"
    "1 \<le> po_concurrency r" "po_concurrency r \<le> max_concurrency" for r
    using that by (simp add: clamped_def)
  from this [OF x c] show ?thesis using x c period_for_range by blast
qed

section \<open>Slots\<close>

definition penalty_ok :: "pacer \<Rightarrow> bool" where
  "penalty_ok p \<longleftrightarrow> pc_penalty p \<le> pp_max (pc_policy p) \<and>
     (pc_penalty p = 0 \<or> min (pp_step (pc_policy p)) (pp_max (pc_policy p)) \<le> pc_penalty p)"

lemma decay_fixed [simp]:
  "pc_min_interval (pacer_decay now p) = pc_min_interval p" "pc_policy (pacer_decay now p) = pc_policy p"
  "pc_next_allowed (pacer_decay now p) = pc_next_allowed p"
  by (simp_all add: pacer_decay_def Let_def)

lemma decay_ok: "penalty_ok p \<Longrightarrow> penalty_ok (pacer_decay now p)"
  by (auto simp: penalty_ok_def pacer_decay_def Let_def)

lemma penalise_ok: "penalty_ok p \<Longrightarrow> penalty_ok (pacer_penalise now r p)"
  by (auto simp: penalty_ok_def pacer_penalise_def Let_def)

lemma penalise_fixed [simp]:
  "pc_min_interval (pacer_penalise now r p) = pc_min_interval p"
  "pc_policy (pacer_penalise now r p) = pc_policy p"
  "pc_next_allowed (pacer_penalise now r p) = pc_next_allowed p"
  by (simp_all add: pacer_penalise_def Let_def)

definition paced :: "pacer \<Rightarrow> pacer \<times> instant list \<Rightarrow> bool" where
  "paced p st \<longleftrightarrow>
     (case st of (q, slots) \<Rightarrow>
       pc_min_interval q = pc_min_interval p \<and> pc_policy q = pc_policy p \<and> penalty_ok q \<and>
       sorted_wrt (\<lambda>a b. a + pc_min_interval p \<le> b) slots \<and>
       (\<forall>s \<in> set slots. \<exists>n. pc_next_allowed q = Some n \<and> s + pc_min_interval p \<le> n))"

lemma paced_step:
  assumes "paced p st"
  shows "paced p (pacer_step call st)"
proof -
  obtain q slots where st: "st = (q, slots)" by (cases st)
  note inv = assms [unfolded paced_def st prod.case]
  show ?thesis
  proof (cases call)
    case (Reserve now)
    define r where "r = pacer_decay now q"
    define slot where "slot = (case pc_next_allowed r of Some s \<Rightarrow> if now < s then s else now | None \<Rightarrow> now)"
    have ge: "now \<le> slot" by (auto simp: slot_def split: option.splits)
    have step: "pacer_step call st =
        (r\<lparr>pc_next_allowed := Some (slot + (pc_min_interval r + pc_penalty r))\<rparr>, slots @ [slot])"
      using ge by (simp add: Reserve st pacer_reserve_def Let_def flip: r_def slot_def)
    have "s + pc_min_interval p \<le> slot" if "s \<in> set slots" for s
      using inv that by (auto simp: slot_def r_def split: option.splits)
    moreover from this have "s \<le> slot" if "s \<in> set slots" for s using that add_leD1 by blast
    moreover have "penalty_ok r" using inv by (simp add: r_def decay_ok)
    ultimately show ?thesis unfolding step paced_def using inv
      by (auto simp: sorted_wrt_append r_def penalty_ok_def intro: trans_le_add1)
  qed (use inv in \<open>auto simp: st paced_def penalise_ok decay_ok pacer_penalty_def Let_def\<close>)
qed

lemma paced_run: "penalty_ok p \<Longrightarrow> paced p (pacer_run calls p)"
proof -
  assume "penalty_ok p"
  then have "paced p (p, [])" by (simp add: paced_def)
  moreover have "paced p st \<Longrightarrow> paced p (fold pacer_step calls st)" for st
    by (induction calls arbitrary: st) (simp_all add: paced_step)
  ultimately show ?thesis by (simp add: pacer_run_def)
qed

text \<open>C27: However reservations and throttle signals interleave, and at whatever instants, the slots a new
  pacer hands out are at least its minimum interval apart, and the added spacing is zero or lies
  between the policy's step and its maximum, whatever a \<open>Retry-After\<close> header asked for.
\<close>

theorem pacer_spaces_slots:
  assumes "pacer_run calls (new_pacer now min_interval policy) = (q, slots)"
  shows "sorted_wrt (\<lambda>a b. a + min_interval \<le> b) slots \<and>
     pc_penalty q \<le> pp_max policy \<and>
     (pc_penalty q = 0 \<or> min (pp_step policy) (pp_max policy) \<le> pc_penalty q)"
proof -
  have "penalty_ok (new_pacer now min_interval policy)" by (simp add: penalty_ok_def new_pacer_def)
  from paced_run [OF this, of calls] show ?thesis
    unfolding assms by (auto simp: paced_def new_pacer_def penalty_ok_def)
qed

theorem pacer_spaces_slots_witness:
  "\<exists>q. pacer_run [Reserve 5, Penalise 6 (Some 100), Reserve 7, Reserve 8, Penalty 70, Reserve 90]
     (new_pacer 0 10 \<lparr>pp_step = 4, pp_max = 20, pp_recovery = 50\<rparr>) = (q, [5, 15, 45, 90]) \<and>
   sorted_wrt (\<lambda>a b. a + 10 \<le> b) [5, 15, 45, 90::nat] \<and> pc_penalty q \<le> 20"
proof -
  obtain q where q: "pacer_run [Reserve 5, Penalise 6 (Some 100), Reserve 7, Reserve 8, Penalty 70, Reserve 90]
     (new_pacer 0 10 \<lparr>pp_step = 4, pp_max = 20, pp_recovery = 50\<rparr>) = (q, [5, 15, 45, 90])"
    by (simp add: pacer_run_def pacer_reserve_def pacer_penalise_def pacer_penalty_def pacer_decay_def
        new_pacer_def Let_def)
  from pacer_spaces_slots [OF q] q show ?thesis by auto
qed

text \<open>
  A penalty dies out: consulted once per recovery window and not renewed, it is gone after as many
  windows as it has doublings over the step.
\<close>

fun quiet :: "instant \<Rightarrow> duration \<Rightarrow> instant list \<Rightarrow> bool" where
  "quiet t d [] = True"
| "quiet t d (u # us) \<longleftrightarrow> t \<le> u \<and> quiet (u + d) d us"

lemma quiet_decay:
  assumes "quiet (pc_next_decay p) (pp_recovery (pc_policy p)) ts"
  shows "pc_penalty (fst (fold pacer_step (map Penalty ts) (p, slots))) * 2 ^ length ts \<le> pc_penalty p"
    (is "?done p ts \<le> _")
  using assms
proof (induction ts arbitrary: p)
  case (Cons t ts)
  define q where "q = pacer_decay t p"
  have half: "pc_penalty q * 2 \<le> pc_penalty p" and
    next_decay: "pc_penalty p \<noteq> 0 \<Longrightarrow> pc_next_decay q = t + pp_recovery (pc_policy p)"
    using Cons.prems by (auto simp: q_def pacer_decay_def Let_def)
  have step: "fold pacer_step (map Penalty (t # ts)) (p, slots) = fold pacer_step (map Penalty ts) (q, slots)"
    by (simp add: q_def pacer_penalty_def Let_def)
  show ?case
  proof (cases "pc_penalty p = 0")
    case True
    have "pc_penalty (fst (fold pacer_step (map Penalty us) (p, slots))) = 0" for us
      using True by (induction us) (simp_all add: pacer_penalty_def pacer_decay_def Let_def)
    then show ?thesis by (simp only: mult_0 le0)
  next
    case False
    then have "quiet (pc_next_decay q) (pp_recovery (pc_policy q)) ts"
      using Cons.prems next_decay by (simp add: q_def)
    from Cons.IH [OF this] half show ?thesis unfolding step by (simp add: mult.assoc)
  qed
qed simp

lemma penalty_dies_out:
  assumes "penalty_ok p" "quiet (pc_next_decay p) (pp_recovery (pc_policy p)) ts"
    and "pc_penalty p < min (pp_step (pc_policy p)) (pp_max (pc_policy p)) * 2 ^ length ts"
  shows "pc_penalty (fst (fold pacer_step (map Penalty ts) (p, slots))) = 0"
proof -
  define q where "q = fst (fold pacer_step (map Penalty ts) (p, slots))"
  have "penalty_ok (fst (fold pacer_step (map Penalty us) st)) \<and>
      pc_policy (fst (fold pacer_step (map Penalty us) st)) = pc_policy (fst st)"
    if "penalty_ok (fst st)" for us st
    using that by (induction us arbitrary: st) (auto simp: pacer_penalty_def Let_def decay_ok)
  from this [of "(p, slots)" ts] have q: "penalty_ok q" "pc_policy q = pc_policy p"
    using assms(1) by (simp_all add: q_def)
  have "pc_penalty q * 2 ^ length ts \<le> pc_penalty p"
    using quiet_decay [OF assms(2), of slots] by (simp add: q_def)
  with assms(3) have "pc_penalty q < min (pp_step (pc_policy q)) (pp_max (pc_policy q))"
    by (metis le_less_trans mult_less_cancel2 q(2))
  with q(1) show ?thesis by (auto simp: penalty_ok_def q_def)
qed

end
