(* ===== verification/Browser_Identity.thy ===== *)
theory Browser_Identity
  imports Crawl_Pacing
begin

text \<open>
  Browser identities: \<open>src/crates/fetch/src/identity.rs\<close>, and the part of \<open>base.rs\<close> that chooses the
  client and the user agent of a request. A client must present the handshake of the browser its user
  agent names.
\<close>

section \<open>Browser identities\<close>

datatype browser_platform = Windows | MacOs | Linux | Android | Ios

record browser_identity =
  bi_family :: browser_emulation
  bi_major :: nat
  bi_platform :: browser_platform

definition family_of :: "utext \<Rightarrow> browser_emulation option" where
  "family_of ua =
     (if starts_with ua (lit ''okhttp/'') then Some OkHttp
      else if contains_text ua (lit ''Edg/'') then Some Edge
      else if contains_text ua (lit ''Firefox/'') \<or> contains_text ua (lit ''Gecko/'') then Some Firefox
      else if contains_text ua (lit ''Chrome/'') \<or> contains_text ua (lit ''Chromium/'') then Some Chrome
      else if contains_text ua (lit ''Safari/'') \<and> contains_text ua (lit ''Version/'') then Some Safari
      else None)"

text \<open>\<open>str::split\<close> at every occurrence of a non-empty pattern, from the left.\<close>

function split_on :: "utext \<Rightarrow> utext \<Rightarrow> utext \<Rightarrow> utext list" where
  "split_on pat cur s =
     (if pat \<noteq> [] \<and> s \<noteq> [] \<and> starts_with s pat then cur # split_on pat [] (drop (length pat) s)
      else (case s of [] \<Rightarrow> [cur] | c # cs \<Rightarrow> split_on pat (cur @ [c]) cs))"
  by pat_completeness auto

termination
  by (relation "measure (\<lambda>(pat, cur, s). length s)") auto

declare split_on.simps [simp del]

definition is_digit :: "nat \<Rightarrow> bool" where
  "is_digit c \<longleftrightarrow> 48 \<le> c \<and> c \<le> 57"

definition digits_value :: "utext \<Rightarrow> nat" where
  "digits_value s = foldl (\<lambda>n c. n * 10 + (c - 48)) 0 s"

text \<open>\<open>str::parse\<close> of an unsigned integer: digits after an optional plus sign, in range.\<close>

definition parse_unsigned :: "nat \<Rightarrow> utext \<Rightarrow> nat option" where
  "parse_unsigned max_value s =
     (let ds = (if take 1 s = [43] then drop 1 s else s)
      in if ds \<noteq> [] \<and> list_all is_digit ds \<and> digits_value ds \<le> max_value
         then Some (digits_value ds) else None)"

definition u32_max :: nat where "u32_max = 4294967295"

definition u64_max :: nat where "u64_max = 18446744073709551615"

fun version_token :: "browser_emulation \<Rightarrow> utext" where
  "version_token Chrome = lit ''Chrome/''"
| "version_token Firefox = lit ''Firefox/''"
| "version_token Safari = lit ''Version/''"
| "version_token Edge = lit ''Edg/''"
| "version_token OkHttp = lit ''okhttp/''"

definition major_of :: "utext \<Rightarrow> browser_emulation \<Rightarrow> nat option" where
  "major_of ua family =
     (case split_on (version_token family) [] ua of
        _ # rest # _ \<Rightarrow> parse_unsigned u32_max (takeWhile is_digit rest)
      | _ \<Rightarrow> None)"

definition platform_of :: "utext \<Rightarrow> browser_platform" where
  "platform_of ua =
     (if contains_text ua (lit ''Android'') then Android
      else if contains_text ua (lit ''iPhone'') \<or> contains_text ua (lit ''iPad'') \<or> contains_text ua (lit ''iPod'')
      then Ios
      else if contains_text ua (lit ''Windows'') then Windows
      else if contains_text ua (lit ''Macintosh'') \<or> contains_text ua (lit ''Mac OS X'') then MacOs
      else Linux)"

definition from_user_agent :: "utext \<Rightarrow> browser_identity option" where
  "from_user_agent ua =
     Option.bind (family_of ua) (\<lambda>family.
       map_option (\<lambda>major. \<lparr>bi_family = family, bi_major = major, bi_platform = platform_of ua\<rparr>)
         (major_of ua family))"

section \<open>Emulation profiles\<close>

text \<open>The builds of the emulation catalogue the code names, and its platforms.\<close>

datatype profile =
    Chrome149 | Chrome148 | Chrome147 | Chrome146 | Chrome145 | Chrome144 | Chrome143
  | Firefox151 | Firefox150 | Firefox149 | Firefox148 | Firefox147 | Firefox146
  | Edge148 | Edge147 | Edge146 | Edge145 | Edge144 | Edge143
  | Safari26_4 | Safari18_5 | OkHttp5

datatype profile_platform = PWindows | PMacOS | PLinux | PAndroid | PIOS

type_synonym emulation = "profile \<times> profile_platform"

fun profile_for :: "browser_emulation \<Rightarrow> emulation" where
  "profile_for Chrome = (Chrome149, PWindows)"
| "profile_for Firefox = (Firefox151, PWindows)"
| "profile_for Safari = (Safari26_4, PMacOS)"
| "profile_for Edge = (Edge148, PWindows)"
| "profile_for OkHttp = (OkHttp5, PAndroid)"

definition profiles :: "(browser_emulation \<times> nat \<times> profile) list" where
  "profiles =
     [(Chrome, 149, Chrome149), (Chrome, 148, Chrome148), (Chrome, 147, Chrome147),
      (Chrome, 146, Chrome146), (Chrome, 145, Chrome145), (Chrome, 144, Chrome144),
      (Chrome, 143, Chrome143), (Firefox, 151, Firefox151), (Firefox, 150, Firefox150),
      (Firefox, 149, Firefox149), (Firefox, 148, Firefox148), (Firefox, 147, Firefox147),
      (Firefox, 146, Firefox146), (Edge, 148, Edge148), (Edge, 147, Edge147), (Edge, 146, Edge146),
      (Edge, 145, Edge145), (Edge, 144, Edge144), (Edge, 143, Edge143), (Safari, 26, Safari26_4),
      (Safari, 18, Safari18_5), (OkHttp, 5, OkHttp5)]"

fun supports :: "browser_emulation \<Rightarrow> browser_platform \<Rightarrow> bool" where
  "supports Chrome p \<longleftrightarrow> p \<in> {Windows, MacOs, Linux, Android}"
| "supports Firefox p \<longleftrightarrow> p \<in> {Windows, MacOs, Linux}"
| "supports Edge p \<longleftrightarrow> p \<in> {Windows, MacOs}"
| "supports Safari p \<longleftrightarrow> p = MacOs"
| "supports OkHttp p \<longleftrightarrow> p = Android"

fun wire_platform :: "browser_platform \<Rightarrow> profile_platform" where
  "wire_platform Windows = PWindows"
| "wire_platform MacOs = PMacOS"
| "wire_platform Linux = PLinux"
| "wire_platform Android = PAndroid"
| "wire_platform Ios = PIOS"

definition emulation_for :: "browser_identity \<Rightarrow> emulation option" where
  "emulation_for i =
     (if \<not> supports (bi_family i) (bi_platform i) then None
      else map_option (\<lambda>(_, _, p). (p, wire_platform (bi_platform i)))
        (find (\<lambda>(family, major, _). family = bi_family i \<and> major = bi_major i) profiles))"

definition can_reproduce :: "utext \<Rightarrow> bool" where
  "can_reproduce ua =
     (case from_user_agent ua of None \<Rightarrow> False | Some i \<Rightarrow> emulation_for i \<noteq> None)"

section \<open>The client a request is sent with\<close>

text \<open>
  A client of the fetch library is the emulation it was built with. Whether it can be built is the
  library's answer, a parameter.
\<close>

record base_fetcher =
  bf_client :: "emulation option"
  bf_bot_user_agent :: "utext option"
  bf_session_clients :: "(browser_identity \<times> emulation) list"

type_synonym client_builds = "emulation option \<Rightarrow> bool"

definition base_new :: "client_builds \<Rightarrow> utext \<Rightarrow> browser_emulation option \<Rightarrow> base_fetcher option" where
  "base_new builds user_agent emulation =
     (let client = map_option profile_for emulation
      in if builds client
         then Some \<lparr>bf_client = client,
           bf_bot_user_agent = (if emulation = None then Some user_agent else None),
           bf_session_clients = []\<rparr>
         else None)"

definition matched_client ::
  "client_builds \<Rightarrow> base_fetcher \<Rightarrow> utext \<Rightarrow> emulation option \<times> base_fetcher" where
  "matched_client builds b ua =
     (case from_user_agent ua of
        None \<Rightarrow> (None, b)
      | Some i \<Rightarrow>
          (case find (\<lambda>(cached, _). cached = i) (bf_session_clients b) of
             Some (_, client) \<Rightarrow> (Some client, b)
           | None \<Rightarrow>
               (case emulation_for i of
                  None \<Rightarrow> (None, b)
                | Some e \<Rightarrow>
                    if builds (Some e)
                    then (Some e, b\<lparr>bf_session_clients := bf_session_clients b @ [(i, e)]\<rparr>)
                    else (None, b))))"

definition client_for ::
  "client_builds \<Rightarrow> base_fetcher \<Rightarrow> utext option \<Rightarrow> (emulation option \<times> utext option) \<times> base_fetcher" where
  "client_for builds b session_user_agent =
     (case session_user_agent of
        None \<Rightarrow> ((bf_client b, bf_bot_user_agent b), b)
      | Some ua \<Rightarrow>
          if bf_bot_user_agent b \<noteq> None then ((bf_client b, Some ua), b)
          else (case matched_client builds b ua of
              (Some client, b') \<Rightarrow> ((Some client, Some ua), b')
            | (None, b') \<Rightarrow> ((bf_client b', None), b')))"

text \<open>
  The handshake and the user agent a request presents never name different browsers: an emulating
  fetcher sends a user agent of its own only over the emulation of the browser it names.
\<close>

definition sessions_ok :: "base_fetcher \<Rightarrow> bool" where
  "sessions_ok b \<longleftrightarrow> (\<forall>(i, e) \<in> set (bf_session_clients b). emulation_for i = Some e)"

lemma matched_client_coherent:
  assumes "sessions_ok b" "matched_client builds b ua = (m, b')"
  shows "sessions_ok b' \<and> bf_client b' = bf_client b \<and> bf_bot_user_agent b' = bf_bot_user_agent b \<and>
     (\<forall>e. m = Some e \<longrightarrow> (\<exists>i. from_user_agent ua = Some i \<and> emulation_for i = Some e))"
proof -
  have cached: "emulation_for i = Some e"
    if "find (\<lambda>(cached, _). cached = i) (bf_session_clients b) = Some (j, e)" for i j e
    using that assms(1) find_Some_mem [OF that] by (fastforce simp: sessions_ok_def find_Some_iff)
  show ?thesis
    using assms cached
    by (auto simp: matched_client_def sessions_ok_def split: option.splits if_splits prod.splits)
qed

lemma client_for_coherent:
  assumes "sessions_ok b" "bf_bot_user_agent b = None" "client_for builds b session = ((client, sent), b')"
  shows "sessions_ok b' \<and> bf_bot_user_agent b' = None \<and> bf_client b' = bf_client b \<and>
     (case sent of
        None \<Rightarrow> client = bf_client b
      | Some ua \<Rightarrow> session = Some ua \<and> (\<exists>i. from_user_agent ua = Some i \<and> emulation_for i = client))"
  using assms matched_client_coherent [OF assms(1), of builds]
  by (auto simp: client_for_def split: option.splits prod.splits)

lemma base_new_ok:
  "base_new builds ua emulation = Some b \<Longrightarrow>
   sessions_ok b \<and> (bf_bot_user_agent b = None \<longleftrightarrow> emulation \<noteq> None)"
  by (auto simp: base_new_def sessions_ok_def Let_def split: if_splits)

end
