(* ===== verification/Fetch_Stack.thy ===== *)
theory Fetch_Stack
  imports Ssrf_Guard Challenge_Detection Browser_Identity
begin

text \<open>
  The fetch stack of a provider, \<open>src/crates/fetch/src\<close>: the base fetcher, retries of transient
  failures, challenge solving with cached sessions, rate limiting, and backoff on a provider's
  request, composed as \<open>builder.rs\<close> composes them. A layer is a function from a request to a
  state-passing action. The transfer itself, decompression, the solver's back-end, random draws,
  latencies and the two waits the rate limiter's crates impose (for a permit of the semaphore and
  for a token of the \<open>governor\<close> limiter) are functions of the environment; both waits are recorded
  with the sleeps of the code itself.
\<close>

section \<open>Requests, responses and errors\<close>

record fetch_request =
  fq_url :: utext
  fq_provider :: utext
  fq_headers :: headers
  fq_user_agent :: "utext option"

record fetch_response =
  fp_status :: nat
  fp_url :: utext
  fp_headers :: headers
  fp_body :: utext
  fp_from_cache :: bool

definition fetch_header :: "fetch_response \<Rightarrow> utext \<Rightarrow> utext option" where
  "fetch_header resp name = header_of (fp_headers resp) name"

definition snippet_cap :: nat where "snippet_cap = 64 * 1024"

definition view_of :: "fetch_response \<Rightarrow> response_view" where
  "view_of resp =
     \<lparr>rv_status = fp_status resp, rv_headers = fp_headers resp,
      rv_snippet = take_bytes snippet_cap (fp_body resp)\<rparr>"

text \<open>\<open>Panicked\<close> is not an error of the code: it stands for a panic, which no layer catches.\<close>

datatype fetch_error =
    Ssrf ssrf_error
  | Status nat
  | Challenge challenge_kind
  | Solver solve_error
  | SolverUnavailable solve_error
  | Timeout
  | TooManyRedirects
  | BodyTooLarge
  | Transport utext
  | InvalidUrl utext
  | Panicked

fun fetch_transient :: "fetch_error \<Rightarrow> bool" where
  "fetch_transient Timeout = True"
| "fetch_transient (Transport _) = True"
| "fetch_transient (Status s) \<longleftrightarrow> 500 \<le> s \<and> s \<le> 599"
| "fetch_transient _ = False"

section \<open>The environment and the state of a stack\<close>

text \<open>
  What a request meets outside the repository. A failed transfer carries the chain of its sources: a
  source is a refusal of the guard or something else. Each answer may depend on how many requests
  were sent before, so the environment can behave differently every time. \<open>fe_permit k n\<close> is how long
  a semaphore of \<open>k\<close> permits keeps the caller after \<open>n\<close> waits, and \<open>fe_ready period n\<close> how long a
  limiter of one token per \<open>period\<close> does.
\<close>

record wire_error =
  we_sources :: "ssrf_error option list"
  we_timeout :: bool
  we_redirect :: bool
  we_text :: utext

record wire_response =
  wr_status :: nat
  wr_uri :: utext
  wr_headers :: "(utext \<times> nat list \<times> utext option) list"
  wr_chunks :: "(wire_error, nat list) result list"

record wire_request =
  wq_client :: "emulation option"
  wq_url :: utext
  wq_headers :: headers

record fetch_env =
  fe_parse :: fetch_parse
  fe_builds :: client_builds
  fe_send :: "nat \<Rightarrow> wire_request \<Rightarrow> (wire_error, wire_response) result"
  fe_gunzip :: "nat list \<Rightarrow> nat list \<times> utext option"
  fe_utf8 :: "nat list \<Rightarrow> utext"
  fe_solve :: "nat \<Rightarrow> solve_request \<Rightarrow> (solve_error, solve_outcome) result"
  fe_random :: "nat \<Rightarrow> nat"
  fe_latency :: "nat \<Rightarrow> duration"
  fe_permit :: "nat \<Rightarrow> nat \<Rightarrow> duration"
  fe_ready :: "duration \<Rightarrow> nat \<Rightarrow> duration"

record solved_session =
  ss_cookies :: headers
  ss_user_agent :: utext
  ss_expires_at :: nat

text \<open>
  The state of a provider's stack: the clock, the clients, the pacer, the solved sessions, and the
  record of what was sent, solved and waited for.
\<close>

record fetch_world =
  fw_now :: nat
  fw_base :: base_fetcher
  fw_pacer :: pacer
  fw_sessions :: "utext \<Rightarrow> solved_session option"
  fw_drawn :: nat
  fw_sent :: "wire_request list"
  fw_solved :: "solve_request list"
  fw_waits :: "duration list"

type_synonym 'a fetch = "(fetch_world, fetch_error, 'a) act"
type_synonym fetcher = "fetch_request \<Rightarrow> fetch_response fetch"

definition sleep :: "duration \<Rightarrow> fetch_world \<Rightarrow> fetch_world" where
  "sleep d w = w\<lparr>fw_now := fw_now w + d, fw_waits := fw_waits w @ [d]\<rparr>"

section \<open>The base fetcher\<close>

definition max_body_bytes :: nat where "max_body_bytes = 16 * 1024 * 1024"

definition ssrf_cause :: "wire_error \<Rightarrow> ssrf_error option" where
  "ssrf_cause e = Option.bind (find (\<lambda>s. s \<noteq> None) (we_sources e)) (\<lambda>s. s)"

definition map_wreq_err :: "wire_error \<Rightarrow> fetch_error" where
  "map_wreq_err e =
     (case ssrf_cause e of
        Some refusal \<Rightarrow> Ssrf refusal
      | None \<Rightarrow>
          if we_timeout e then Timeout
          else if we_redirect e then TooManyRedirects
          else Transport (we_text e))"

fun read_body :: "nat list \<Rightarrow> (wire_error, nat list) result list \<Rightarrow> (fetch_error, nat list) result" where
  "read_body buf [] = Ok buf"
| "read_body buf (Inl e # chunks) = Err (map_wreq_err e)"
| "read_body buf (Inr chunk # chunks) =
     (if max_body_bytes < length buf + length chunk then Err BodyTooLarge
      else read_body (buf @ chunk) chunks)"

definition decode_gzip :: "fetch_env \<Rightarrow> nat list \<Rightarrow> (fetch_error, nat list) result" where
  "decode_gzip env raw =
     (case fe_gunzip env raw of
        (out, failure) \<Rightarrow>
          if failure \<noteq> None \<and> length out < max_body_bytes + 1
          then Err (Transport (lit ''gzip decode failed: '' @ the failure))
          else if max_body_bytes < length (take (max_body_bytes + 1) out) then Err BodyTooLarge
          else Ok (take (max_body_bytes + 1) out))"

definition gzipped :: "wire_response \<Rightarrow> bool" where
  "gzipped r =
     (case find (\<lambda>(k, _). k = lit ''content-encoding'') (wr_headers r) of
        None \<Rightarrow> False
      | Some (_, v, _) \<Rightarrow> eq_ignore_ascii_case v (lit ''gzip'') \<or> eq_ignore_ascii_case v (lit ''x-gzip''))"

definition kept_headers :: "wire_response \<Rightarrow> headers" where
  "kept_headers r =
     (let hs = map (\<lambda>(k, _, v). (k, case v of None \<Rightarrow> [] | Some s \<Rightarrow> s)) (wr_headers r)
      in if gzipped r
         then [(k, v) \<leftarrow> hs. \<not> eq_ignore_ascii_case k (lit ''content-encoding'') \<and>
                            \<not> eq_ignore_ascii_case k (lit ''content-length'')]
         else hs)"

definition receive :: "fetch_env \<Rightarrow> (wire_error, wire_response) result \<Rightarrow> (fetch_error, fetch_response) result" where
  "receive env r =
     (case r of
        Inl e \<Rightarrow> Err (map_wreq_err e)
      | Inr resp \<Rightarrow>
          bind_result (read_body [] (wr_chunks resp)) (\<lambda>buf.
            bind_result (if gzipped resp then decode_gzip env buf else Ok buf) (\<lambda>bytes.
              Ok \<lparr>fp_status = wr_status resp, fp_url = wr_uri resp, fp_headers = kept_headers resp,
                fp_body = fe_utf8 env bytes, fp_from_cache = False\<rparr>)))"

definition bot_headers :: headers where
  "bot_headers =
     [(lit ''accept'',
       lit ''text/html,application/xhtml+xml,application/xml;q=0.9,application/json;q=0.8,*/*;q=0.5''),
      (lit ''accept-language'', lit ''en-US,en;q=0.8''),
      (lit ''accept-encoding'', lit ''gzip, deflate, br, zstd'')]"

definition base_send :: "fetch_env \<Rightarrow> fetcher" where
  "base_send env req w =
     (case fe_parse env (fq_url req) of
        None \<Rightarrow> (Err (InvalidUrl (fq_url req)), w)
      | Some u \<Rightarrow>
          (case validate_url u of
             Inl e \<Rightarrow> (Err (Ssrf e), w)
           | Inr _ \<Rightarrow>
               (case client_for (fe_builds env) (fw_base w) (fq_user_agent req) of
                  ((client, ua), b) \<Rightarrow>
                    let n = length (fw_sent w);
                        out = \<lparr>wq_client = client, wq_url = fu_text u,
                               wq_headers = (case ua of None \<Rightarrow> [] | Some a \<Rightarrow> [(lit ''user-agent'', a)]) @
                                 (if bf_bot_user_agent b \<noteq> None then bot_headers else []) @ fq_headers req\<rparr>
                    in (receive env (fe_send env n out),
                        w\<lparr>fw_base := b, fw_sent := fw_sent w @ [out], fw_now := fw_now w + fe_latency env n\<rparr>))))"

section \<open>Jittered waits\<close>

definition duration_max :: duration where "duration_max = from_secs u64_max + 999999999"

definition backoff_ceiling :: "duration \<Rightarrow> duration \<Rightarrow> nat \<Rightarrow> duration" where
  "backoff_ceiling base max_delay attempt =
     min (min (base * min (2 ^ (attempt - 1)) u32_max) duration_max) max_delay"

definition full_jitter :: "fetch_env \<Rightarrow> duration \<Rightarrow> duration \<Rightarrow> nat \<Rightarrow> fetch_world \<Rightarrow> duration \<times> fetch_world" where
  "full_jitter env base max_delay attempt w =
     (let millis = min (backoff_ceiling base max_delay attempt div 1000000) u64_max
      in (from_millis (fe_random env (fw_drawn w) mod (millis + 1)), w\<lparr>fw_drawn := fw_drawn w + 1\<rparr>))"

section \<open>Retrying\<close>

record retry_limits =
  rl_attempts :: nat
  rl_base :: duration
  rl_max :: duration

definition retry_new :: "nat \<Rightarrow> duration \<Rightarrow> duration \<Rightarrow> retry_limits" where
  "retry_new attempts base max_delay = \<lparr>rl_attempts = max attempts 1, rl_base = base, rl_max = max_delay\<rparr>"

function retry_from :: "fetch_env \<Rightarrow> retry_limits \<Rightarrow> fetcher \<Rightarrow> nat \<Rightarrow> fetcher" where
  "retry_from env lm inner tries req w =
     (let attempt = tries + 1
      in case inner req w of
           (Inr resp, w') \<Rightarrow> (Ok resp, w')
         | (Inl err, w') \<Rightarrow>
             if fetch_transient err \<and> attempt < rl_attempts lm
             then (case full_jitter env (rl_base lm) (rl_max lm) attempt w' of
                 (wait, w'') \<Rightarrow> retry_from env lm inner attempt req (sleep wait w''))
             else (Err err, w'))"
  by pat_completeness auto

termination
  by (relation "measure (\<lambda>(env, lm, inner, tries, req, w). rl_attempts lm - tries)") auto

declare retry_from.simps [simp del]

definition retry_get :: "fetch_env \<Rightarrow> retry_limits \<Rightarrow> fetcher \<Rightarrow> fetcher" where
  "retry_get env lm inner = retry_from env lm inner 0"

section \<open>Solved sessions\<close>

definition max_cookie_header_bytes :: nat where "max_cookie_header_bytes = 4096"

definition essential_prefixes :: "utext list" where
  "essential_prefixes =
     map lit [''cf_clearance'', ''__cf'', ''_cf'', ''phpsessid'', ''laravel_session'', ''xsrf-token'',
       ''wordpress_'', ''session'']"

definition is_essential :: "utext \<Rightarrow> bool" where
  "is_essential name \<longleftrightarrow> list_ex (starts_with (ascii_lowercase name)) essential_prefixes"

fun render_cookies :: "headers \<Rightarrow> utext" where
  "render_cookies [] = []"
| "render_cookies [(k, v)] = k @ [61] @ v"
| "render_cookies ((k, v) # c # cs) = k @ [61] @ v @ [59, 32] @ render_cookies (c # cs)"

fun keep_cookies :: "nat \<Rightarrow> headers \<Rightarrow> headers \<Rightarrow> headers" where
  "keep_cookies budget kept [] = kept"
| "keep_cookies budget kept (c # cs) =
     (let cost = byte_len (fst c) + 1 + byte_len (snd c) + (if kept = [] then 0 else 2)
      in if budget < cost then keep_cookies budget kept cs
         else keep_cookies (budget - cost) (kept @ [c]) cs)"

definition cookie_header :: "solved_session \<Rightarrow> utext" where
  "cookie_header s =
     (let rendered = render_cookies (ss_cookies s)
      in if byte_len rendered \<le> max_cookie_header_bytes then rendered
         else render_cookies (keep_cookies max_cookie_header_bytes []
           (filter (\<lambda>c. is_essential (fst c)) (ss_cookies s) @
            filter (\<lambda>c. \<not> is_essential (fst c)) (ss_cookies s))))"

definition is_replayable :: "solved_session \<Rightarrow> bool" where
  "is_replayable s \<longleftrightarrow> ss_cookies s \<noteq> [] \<and> can_reproduce (ss_user_agent s)"

definition session_get :: "utext \<Rightarrow> fetch_world \<Rightarrow> solved_session option" where
  "session_get provider w =
     (case fw_sessions w provider of
        None \<Rightarrow> None
      | Some s \<Rightarrow> if fw_now w < ss_expires_at s then Some s else None)"

definition session_put :: "utext \<Rightarrow> solved_session \<Rightarrow> fetch_world \<Rightarrow> fetch_world" where
  "session_put provider s w = w\<lparr>fw_sessions := (fw_sessions w)(provider \<mapsto> s)\<rparr>"

definition session_invalidate :: "utext \<Rightarrow> fetch_world \<Rightarrow> fetch_world" where
  "session_invalidate provider w = w\<lparr>fw_sessions := (fw_sessions w)(provider := None)\<rparr>"

definition solved_status :: "nat option \<Rightarrow> utext \<Rightarrow> nat" where
  "solved_status reported html =
     (if is_rate_limit_page html then 429
      else (case reported of
          Some status \<Rightarrow> if 300 \<le> status \<and> status < 400 then 200 else status
        | None \<Rightarrow> 200))"

definition apply_session :: "fetch_request \<Rightarrow> solved_session \<Rightarrow> fetch_request" where
  "apply_session req s =
     req\<lparr>fq_user_agent := Some (ss_user_agent s),
         fq_headers := [h \<leftarrow> fq_headers req. \<not> eq_ignore_ascii_case (fst h) (lit ''cookie'')] @
           (if ss_cookies s = [] then [] else [(lit ''Cookie'', cookie_header s)])\<rparr>"

definition refuses_our_headers :: "fetch_response \<Rightarrow> bool" where
  "refuses_our_headers resp \<longleftrightarrow>
     fp_status resp = 431 \<or>
     (fp_status resp = 400 \<and> default_error_page_server (fp_body resp) \<noteq> None \<and>
      (contains_text (ascii_lowercase (fp_body resp)) (lit ''header or cookie too large'') \<or>
       contains_text (ascii_lowercase (fp_body resp)) (lit ''header fields too large'')))"

section \<open>Solving\<close>

definition solver_call :: "fetch_env \<Rightarrow> solve_request \<Rightarrow> (fetch_world, solve_error, solve_outcome) act" where
  "solver_call env req w =
     (fe_solve env (length (fw_solved w)) req, w\<lparr>fw_solved := fw_solved w @ [req]\<rparr>)"

function solve_from ::
  "fetch_env \<Rightarrow> retry_limits \<Rightarrow> nat \<Rightarrow> solve_request \<Rightarrow> (fetch_world, solve_error, solve_outcome) act" where
  "solve_from env lm tries req w =
     (let attempt = tries + 1
      in case solver_call env req w of
           (Inr outcome, w') \<Rightarrow> (Ok outcome, w')
         | (Inl err, w') \<Rightarrow>
             if solve_transient err \<and> attempt < rl_attempts lm
             then (case full_jitter env (rl_base lm) (rl_max lm) attempt w' of
                 (wait, w'') \<Rightarrow> solve_from env lm attempt req (sleep wait w''))
             else (Err err, w'))"
  by pat_completeness auto

termination
  by (relation "measure (\<lambda>(env, lm, tries, req, w). rl_attempts lm - tries)") auto

declare solve_from.simps [simp del]

definition retrying_solve :: "fetch_env \<Rightarrow> solve_request \<Rightarrow> (fetch_world, solve_error, solve_outcome) act" where
  "retrying_solve env = solve_from env (retry_new 3 (from_millis 500) (from_secs 4)) 0"

text \<open>The last instant of the calendar type the code computes an expiry in; past it the addition panics.\<close>

definition max_instant :: nat where "max_instant = from_secs 253402300800 - 1"

definition session_expiry :: "nat \<Rightarrow> nat \<Rightarrow> nat option" where
  "session_expiry now ttl_secs =
     (let at_ns = now + from_secs (min ttl_secs (2 ^ 63 - 1))
      in if at_ns \<le> max_instant then Some at_ns else None)"

definition solved_page :: "solve_outcome \<Rightarrow> fetch_request \<Rightarrow> utext \<Rightarrow> (fetch_error, fetch_response) result" where
  "solved_page outcome req html =
     (case detect_challenge_body html of
        Some kind \<Rightarrow> Err (Challenge kind)
      | None \<Rightarrow> Ok \<lparr>fp_status = solved_status (sv_status outcome) html, fp_url = fq_url req,
          fp_headers = sv_headers outcome, fp_body = html, fp_from_cache = False\<rparr>)"

definition use_outcome :: "fetcher \<Rightarrow> challenge_kind \<Rightarrow> solve_outcome \<Rightarrow> fetcher" where
  "use_outcome inner kind outcome req w =
     (case session_expiry (fw_now w) (sv_ttl_secs outcome) of
        None \<Rightarrow> (Err Panicked, w)
      | Some expiry \<Rightarrow>
          let session = \<lparr>ss_cookies = sv_cookies outcome, ss_user_agent = sv_user_agent outcome,
                ss_expires_at = expiry\<rparr>;
              w' = (if is_replayable session then session_put (fq_provider req) session w else w)
          in (case sv_html outcome of
              Some html \<Rightarrow> (solved_page outcome req html, w')
            | None \<Rightarrow>
                act_bind (inner (if is_replayable session then apply_session req session else req))
                  (\<lambda>resp. if detect_challenge (view_of resp) \<noteq> None then act_fail (Challenge kind)
                     else act_return resp) w'))"

definition solve_if_challenged :: "fetch_env \<Rightarrow> fetcher \<Rightarrow> fetch_request \<Rightarrow> fetch_response \<Rightarrow> fetch_response fetch" where
  "solve_if_challenged env inner req resp w =
     (case detect_challenge (view_of resp) of
        None \<Rightarrow> (Ok resp, w)
      | Some kind \<Rightarrow>
          (case retrying_solve env
              \<lparr>sq_url = fq_url req, sq_provider = fq_provider req, sq_kind = Some kind\<rparr> w of
             (Inl e, w') \<Rightarrow> (Err (if solve_transient e then SolverUnavailable e else Solver e), w')
           | (Inr outcome, w') \<Rightarrow> use_outcome inner kind outcome req w'))"

definition solving_get :: "fetch_env \<Rightarrow> fetcher \<Rightarrow> fetcher" where
  "solving_get env inner req w =
     (let replayed = session_get (fq_provider req) w;
          prepared = (case replayed of Some s \<Rightarrow> apply_session req s | None \<Rightarrow> req)
      in act_bind (inner prepared) (\<lambda>resp.
           if replayed \<noteq> None \<and> refuses_our_headers resp
           then act_then (act_modify (session_invalidate (fq_provider req)))
             (act_bind (inner req) (\<lambda>clean. solve_if_challenged env inner req clean))
           else solve_if_challenged env inner prepared resp) w)"

section \<open>Rate limiting and backoff\<close>

definition throttle_statuses :: "nat list" where "throttle_statuses = [429, 503]"

definition penalty_now :: "fetch_world \<Rightarrow> duration \<times> fetch_world" where
  "penalty_now w = (case pacer_penalty (fw_now w) (fw_pacer w) of (d, p) \<Rightarrow> (d, w\<lparr>fw_pacer := p\<rparr>))"

record rate_limits =
  rt_period :: duration
  rt_permits :: nat
  rt_crawl_delay :: duration

definition rated_new :: "float_value \<Rightarrow> nat \<Rightarrow> nat \<Rightarrow> rate_limits" where
  "rated_new rps concurrency crawl_delay_ms =
     \<lparr>rt_period = period_for rps, rt_permits = max concurrency 1,
      rt_crawl_delay = from_millis crawl_delay_ms\<rparr>"

definition acquire_permit :: "fetch_env \<Rightarrow> rate_limits \<Rightarrow> fetch_world \<Rightarrow> fetch_world" where
  "acquire_permit env rt w = sleep (fe_permit env (rt_permits rt) (length (fw_waits w))) w"

definition until_ready :: "fetch_env \<Rightarrow> rate_limits \<Rightarrow> fetch_world \<Rightarrow> fetch_world" where
  "until_ready env rt w = sleep (fe_ready env (rt_period rt) (length (fw_waits w))) w"

definition wait_for_permission :: "fetch_env \<Rightarrow> rate_limits \<Rightarrow> fetch_world \<Rightarrow> fetch_world" where
  "wait_for_permission env rt w =
     (case penalty_now (until_ready env rt (acquire_permit env rt w)) of
        (penalty, w') \<Rightarrow>
          let spacing = max (rt_crawl_delay rt) penalty in if spacing = 0 then w' else sleep spacing w')"

definition note_throttle :: "fetch_response \<Rightarrow> fetch_world \<Rightarrow> fetch_world" where
  "note_throttle resp w =
     (if fp_status resp \<in> set throttle_statuses
      then snd (penalty_now (w\<lparr>fw_pacer := pacer_penalise (fw_now w) None (fw_pacer w)\<rparr>))
      else w)"

definition rated_get :: "fetch_env \<Rightarrow> rate_limits \<Rightarrow> fetcher \<Rightarrow> fetcher" where
  "rated_get env rt inner req w =
     (case inner req (wait_for_permission env rt w) of
        (Inr resp, w') \<Rightarrow> (Ok resp, note_throttle resp w')
      | (Inl e, w') \<Rightarrow> (Err e, w'))"

definition backoff_statuses :: "nat list" where "backoff_statuses = [429, 503]"

definition retry_after :: "fetch_response \<Rightarrow> duration option" where
  "retry_after resp =
     Option.bind (fetch_header resp (lit ''retry-after''))
       (\<lambda>raw. map_option from_secs (parse_unsigned u64_max (trim raw)))"

definition wait_for :: "fetch_env \<Rightarrow> retry_limits \<Rightarrow> fetch_response \<Rightarrow> nat \<Rightarrow> fetch_world \<Rightarrow> duration \<times> fetch_world" where
  "wait_for env lm resp attempt w =
     (case retry_after resp of
        None \<Rightarrow> full_jitter env (rl_base lm) (rl_max lm) attempt w
      | Some requested \<Rightarrow> (min requested (rl_max lm), w))"

function backoff_from :: "fetch_env \<Rightarrow> retry_limits \<Rightarrow> fetcher \<Rightarrow> nat \<Rightarrow> fetcher" where
  "backoff_from env lm inner tries req w =
     (let attempt = tries + 1
      in case inner req w of
           (Inl err, w') \<Rightarrow> (Err err, w')
         | (Inr resp, w') \<Rightarrow>
             if fp_status resp \<notin> set backoff_statuses \<or> rl_attempts lm \<le> attempt then (Ok resp, w')
             else (case wait_for env lm resp attempt w' of
                 (wait, w'') \<Rightarrow> backoff_from env lm inner attempt req (sleep wait w'')))"
  by pat_completeness auto

termination
  by (relation "measure (\<lambda>(env, lm, inner, tries, req, w). rl_attempts lm - tries)") auto

declare backoff_from.simps [simp del]

section \<open>The stack of a provider\<close>

record stack_config =
  sc_user_agent :: utext
  sc_emulation :: "browser_emulation option"
  sc_rps :: float_value
  sc_concurrency :: nat
  sc_crawl_delay_ms :: nat
  sc_max_attempts :: nat
  sc_max_backoff_attempts :: nat
  sc_backoff_base :: duration
  sc_backoff_max :: duration
  sc_throttle :: pacing_policy

definition provider_fetch :: "fetch_env \<Rightarrow> stack_config \<Rightarrow> fetcher" where
  "provider_fetch env cfg =
     (let base = base_send env;
          retry = retry_get env (retry_new (sc_max_attempts cfg) (from_millis 500) (from_secs 30)) base;
          solving = solving_get env retry;
          rated = rated_get env (rated_new (sc_rps cfg) (sc_concurrency cfg) (sc_crawl_delay_ms cfg)) solving
      in backoff_from env
           (retry_new (sc_max_backoff_attempts cfg) (sc_backoff_base cfg) (sc_backoff_max cfg)) rated 0)"

definition build_stack :: "fetch_env \<Rightarrow> stack_config \<Rightarrow> nat \<Rightarrow> fetch_world option" where
  "build_stack env cfg now =
     map_option (\<lambda>base.
       \<lparr>fw_now = now, fw_base = base, fw_pacer = new_pacer now 0 (sc_throttle cfg),
        fw_sessions = (\<lambda>_. None), fw_drawn = 0, fw_sent = [], fw_solved = [], fw_waits = []\<rparr>)
       (base_new (fe_builds env) (sc_user_agent cfg) (sc_emulation cfg))"

section \<open>What a layer may spend\<close>

text \<open>
  The contract of a layer: how many transfers, solves and waits one request costs, how long any single
  wait is, and that the pacer stays within its policy.
\<close>

definition steady :: "pacing_policy \<Rightarrow> fetch_world \<Rightarrow> bool" where
  "steady pol w \<longleftrightarrow> penalty_ok (fw_pacer w) \<and> pc_policy (fw_pacer w) = pol"

definition spends ::
  "pacing_policy \<Rightarrow> nat \<Rightarrow> nat \<Rightarrow> nat \<Rightarrow> duration \<Rightarrow> fetch_world \<Rightarrow> fetch_world \<Rightarrow> bool" where
  "spends pol sends solves waits cap w w' \<longleftrightarrow>
     steady pol w' \<and>
     length (fw_sent w') \<le> length (fw_sent w) + sends \<and>
     length (fw_solved w') \<le> length (fw_solved w) + solves \<and>
     (\<exists>ws. fw_waits w' = fw_waits w @ ws \<and> length ws \<le> waits \<and> (\<forall>d \<in> set ws. d \<le> cap))"

lemma spends_steady: "spends pol a b n cap w w' \<Longrightarrow> steady pol w'"
  by (simp add: spends_def)

lemma spends_refl [simp]: "spends pol a b n cap w w \<longleftrightarrow> steady pol w"
  by (auto simp: spends_def)

lemma spends_trans:
  assumes "spends pol a b n cap w w'" "spends pol c d m cap w' w''"
  shows "spends pol (a + c) (b + d) (n + m) cap w w''"
proof -
  obtain us vs where "fw_waits w' = fw_waits w @ us" "length us \<le> n" "\<forall>d \<in> set us. d \<le> cap"
    "fw_waits w'' = fw_waits w' @ vs" "length vs \<le> m" "\<forall>d \<in> set vs. d \<le> cap"
    using assms by (auto simp: spends_def)
  then have "fw_waits w'' = fw_waits w @ (us @ vs) \<and> length (us @ vs) \<le> n + m \<and>
      (\<forall>d \<in> set (us @ vs). d \<le> cap)" by auto
  then show ?thesis using assms unfolding spends_def by (auto intro!: exI [of _ "us @ vs"])
qed

lemma spends_mono:
  "spends pol a b n cap w w' \<Longrightarrow> a \<le> a' \<Longrightarrow> b \<le> b' \<Longrightarrow> n \<le> n' \<Longrightarrow> cap \<le> cap' \<Longrightarrow>
   spends pol a' b' n' cap' w w'"
  unfolding spends_def by (meson add_left_mono order_trans)

lemma steady_frame:
  "steady pol (w\<lparr>fw_now := n\<rparr>) \<longleftrightarrow> steady pol w" "steady pol (w\<lparr>fw_drawn := d\<rparr>) \<longleftrightarrow> steady pol w"
  "steady pol (w\<lparr>fw_sent := r\<rparr>) \<longleftrightarrow> steady pol w" "steady pol (w\<lparr>fw_solved := s\<rparr>) \<longleftrightarrow> steady pol w"
  "steady pol (w\<lparr>fw_sessions := m\<rparr>) \<longleftrightarrow> steady pol w" "steady pol (w\<lparr>fw_base := b\<rparr>) \<longleftrightarrow> steady pol w"
  "steady pol (w\<lparr>fw_waits := ds\<rparr>) \<longleftrightarrow> steady pol w"
  by (simp_all add: steady_def)

lemma spends_sleep: "steady pol w \<Longrightarrow> d \<le> cap \<Longrightarrow> spends pol 0 0 1 cap w (sleep d w)"
  by (auto simp: spends_def sleep_def steady_frame)

lemma spends_sessions: "steady pol w \<Longrightarrow> spends pol 0 0 0 cap w (w\<lparr>fw_sessions := m\<rparr>)"
  by (simp add: spends_def steady_frame)

lemma full_jitter_le:
  assumes "full_jitter env base max_delay attempt w = (d, w')"
  shows "d \<le> max_delay"
proof -
  define m where "m = min (backoff_ceiling base max_delay attempt div 1000000) u64_max"
  have "d = from_millis (fe_random env (fw_drawn w) mod (m + 1))"
    using assms by (simp add: full_jitter_def Let_def flip: m_def)
  moreover have "fe_random env (fw_drawn w) mod (m + 1) \<le> m"
    using mod_less_divisor [of "m + 1"] by (simp add: less_Suc_eq_le)
  moreover have "m \<le> max_delay div 1000000"
    unfolding m_def backoff_ceiling_def by (simp add: div_le_mono min.coboundedI1)
  ultimately have "d \<le> max_delay div 1000000 * 1000000"
    unfolding from_millis_def by (metis mult_le_mono1 order_trans)
  then show ?thesis using div_times_less_eq_dividend order_trans by blast
qed

lemma spends_jitter:
  "steady pol w \<Longrightarrow> full_jitter env base max_delay attempt w = (d, w') \<Longrightarrow> max_delay \<le> cap \<Longrightarrow>
   spends pol 0 0 1 cap w (sleep d w')"
  using full_jitter_le [of env base max_delay attempt w d w']
  by (auto simp: spends_def sleep_def full_jitter_def Let_def steady_frame)

lemma spends_wait_for:
  assumes "steady pol w" "wait_for env lm resp attempt w = (d, w')" "rl_max lm \<le> cap"
  shows "spends pol 0 0 1 cap w (sleep d w')"
proof (cases "retry_after resp")
  case None
  then show ?thesis using assms spends_jitter [OF assms(1)] by (simp add: wait_for_def)
next
  case (Some r)
  then have "w' = w" "d \<le> cap" using assms by (auto simp: wait_for_def intro: order_trans [of _ "rl_max lm"])
  then show ?thesis using spends_sleep [OF assms(1)] by simp
qed

text \<open>A loop that calls an inner layer, waits and calls it again.\<close>

locale fetch_layer =
  fixes get :: fetcher and sends solves waits :: nat and cap :: duration and pol :: pacing_policy
  assumes bounded: "steady pol w \<Longrightarrow> spends pol sends solves waits cap w (snd (get req w))"
begin

lemma calls:
  assumes "get req w = (r, w')" "steady pol w"
  shows "spends pol sends solves waits cap w w'" "steady pol w'"
  using bounded [OF assms(2), of req] assms(1) by (simp_all add: spends_steady)

lemma again:
  assumes "get req w = (r, w1)" "steady pol w" "spends pol 0 0 1 cap w1 w2"
    and "steady pol w2 \<Longrightarrow> spends pol (k * sends) (k * solves) (k * Suc waits) cap w2 w3"
  shows "spends pol (Suc k * sends) (Suc k * solves) (Suc k * Suc waits) cap w w3"
proof -
  have "spends pol sends solves (Suc waits) cap w w2"
    using spends_trans [OF calls(1) [OF assms(1,2)] assms(3)] by simp
  from spends_trans [OF this assms(4)] spends_steady [OF assms(3)] show ?thesis by (simp add: algebra_simps)
qed

lemma once:
  assumes "get req w = (r, w')" "steady pol w" "0 < k"
  shows "spends pol (k * sends) (k * solves) (k * Suc waits) cap w w'"
  using calls(1) [OF assms(1,2)] by (rule spends_mono) (use assms(3) in \<open>cases k; simp\<close>)+

lemma retry_bounded:
  assumes "steady pol w" "rl_max lm \<le> cap" "tries < rl_attempts lm"
  shows "spends pol ((rl_attempts lm - tries) * sends) ((rl_attempts lm - tries) * solves)
    ((rl_attempts lm - tries) * Suc waits) cap w (snd (retry_from env lm get tries req w))"
  using assms(1,3)
proof (induction "rl_attempts lm - tries" arbitrary: tries w)
  case (Suc n)
  obtain r w1 where call: "get req w = (r, w1)" by force
  show ?case
  proof (cases "\<exists>e. r = Err e \<and> fetch_transient e \<and> tries + 1 < rl_attempts lm")
    case True
    then obtain e where e: "r = Err e" "fetch_transient e" "tries + 1 < rl_attempts lm" by blast
    obtain d w2 where jit: "full_jitter env (rl_base lm) (rl_max lm) (tries + 1) w1 = (d, w2)" by force
    have step: "retry_from env lm get tries req w = retry_from env lm get (tries + 1) req (sleep d w2)"
      using e call jit by (subst retry_from.simps) simp
    have n: "n = rl_attempts lm - (tries + 1)" using Suc by simp
    have "spends pol 0 0 1 cap w1 (sleep d w2)"
      using spends_jitter [OF calls(2) [OF call Suc.prems(1)] jit assms(2)] .
    from again [OF call Suc.prems(1) this Suc.hyps(1) [OF n _ e(3)]]
    show ?thesis unfolding step by (simp add: n Suc.hyps(2) [symmetric])
  next
    case False
    then have "snd (retry_from env lm get tries req w) = w1"
      using call by (subst retry_from.simps) (auto split: sum.splits)
    then show ?thesis using once [OF call Suc.prems(1), of "rl_attempts lm - tries"] Suc.prems(2) by simp
  qed
qed simp

lemma backoff_bounded:
  assumes "steady pol w" "rl_max lm \<le> cap" "tries < rl_attempts lm"
  shows "spends pol ((rl_attempts lm - tries) * sends) ((rl_attempts lm - tries) * solves)
    ((rl_attempts lm - tries) * Suc waits) cap w (snd (backoff_from env lm get tries req w))"
  using assms(1,3)
proof (induction "rl_attempts lm - tries" arbitrary: tries w)
  case (Suc n)
  obtain r w1 where call: "get req w = (r, w1)" by force
  show ?case
  proof (cases "\<exists>x. r = Ok x \<and> fp_status x \<in> set backoff_statuses \<and> tries + 1 < rl_attempts lm")
    case True
    then obtain x where x: "r = Ok x" "fp_status x \<in> set backoff_statuses" "tries + 1 < rl_attempts lm"
      by blast
    obtain d w2 where w2: "wait_for env lm x (tries + 1) w1 = (d, w2)" by force
    have step: "backoff_from env lm get tries req w = backoff_from env lm get (tries + 1) req (sleep d w2)"
      using x call w2 by (subst backoff_from.simps) simp
    have n: "n = rl_attempts lm - (tries + 1)" using Suc by simp
    have "spends pol 0 0 1 cap w1 (sleep d w2)"
      using spends_wait_for [OF calls(2) [OF call Suc.prems(1)] w2 assms(2)] .
    from again [OF call Suc.prems(1) this Suc.hyps(1) [OF n _ x(3)]]
    show ?thesis unfolding step by (simp add: n Suc.hyps(2) [symmetric])
  next
    case False
    then have "snd (backoff_from env lm get tries req w) = w1"
      using call by (subst backoff_from.simps) (auto split: sum.splits)
    then show ?thesis using once [OF call Suc.prems(1), of "rl_attempts lm - tries"] Suc.prems(2) by simp
  qed
qed simp

text \<open>A solve is a loop of the same shape over the solver.\<close>

lemma use_outcome_bounded:
  assumes "steady pol w"
  shows "spends pol sends solves waits cap w (snd (use_outcome get kind outcome req w))"
proof (cases "session_expiry (fw_now w) (sv_ttl_secs outcome)")
  case None
  then show ?thesis using spends_mono [of pol 0 0 0 cap w w] assms by (simp add: use_outcome_def)
next
  case (Some expiry)
  define session where "session = \<lparr>ss_cookies = sv_cookies outcome, ss_user_agent = sv_user_agent outcome,
    ss_expires_at = expiry\<rparr>"
  define w1 where "w1 = (if is_replayable session then session_put (fq_provider req) session w else w)"
  have w1: "spends pol 0 0 0 cap w w1" using assms by (simp add: w1_def session_put_def spends_sessions)
  have rest: "spends pol sends solves waits cap w w2" if "spends pol sends solves waits cap w1 w2" for w2
    using spends_trans [OF w1 that] by simp
  have "spends pol sends solves waits cap w1 (snd (act_bind (get r)
      (\<lambda>resp. if detect_challenge (view_of resp) \<noteq> None then act_fail (Challenge kind) else act_return resp) w1))"
    for r
    using bounded [OF spends_steady [OF w1], of r]
    by (cases "get r w1") (auto simp: act_bind_def act_fail_def act_return_def split: sum.splits)
  moreover have "spends pol sends solves waits cap w1 w1"
    using spends_steady [OF w1] by simp
  moreover have "use_outcome get kind outcome req w =
      (case sv_html outcome of
         Some html \<Rightarrow> (solved_page outcome req html, w1)
       | None \<Rightarrow> act_bind (get (if is_replayable session then apply_session req session else req))
           (\<lambda>resp. if detect_challenge (view_of resp) \<noteq> None then act_fail (Challenge kind)
              else act_return resp) w1)"
    by (simp only: use_outcome_def Some Let_def session_def w1_def option.case)
  ultimately show ?thesis using rest by (cases "sv_html outcome") simp_all
qed

end

lemma solve_bounded:
  assumes "steady pol w" "rl_max lm \<le> cap" "tries < rl_attempts lm"
  shows "spends pol 0 (rl_attempts lm - tries) (rl_attempts lm - tries) cap w (snd (solve_from env lm tries req w))"
  using assms(1,3)
proof (induction "rl_attempts lm - tries" arbitrary: tries w)
  case (Suc n)
  obtain r w1 where call: "solver_call env req w = (r, w1)" by force
  have w1: "spends pol 0 1 0 cap w w1"
    using call Suc.prems(1) by (auto simp: solver_call_def spends_def steady_frame)
  show ?case
  proof (cases "\<exists>e. r = Err e \<and> solve_transient e \<and> tries + 1 < rl_attempts lm")
    case True
    then obtain e where e: "r = Err e" "solve_transient e" "tries + 1 < rl_attempts lm" by blast
    obtain d w2 where jit: "full_jitter env (rl_base lm) (rl_max lm) (tries + 1) w1 = (d, w2)" by force
    have step: "solve_from env lm tries req w = solve_from env lm (tries + 1) req (sleep d w2)"
      using e call jit by (subst solve_from.simps) simp
    have n: "n = rl_attempts lm - (tries + 1)" using Suc by simp
    have w2: "spends pol 0 0 1 cap w1 (sleep d w2)"
      using spends_jitter [OF spends_steady [OF w1] jit assms(2)] .
    from spends_trans [OF spends_trans [OF w1 w2] Suc.hyps(1) [OF n spends_steady [OF w2] e(3)]]
    show ?thesis unfolding step by (simp add: n Suc.hyps(2) [symmetric])
  next
    case False
    then have "snd (solve_from env lm tries req w) = w1"
      using call by (subst solve_from.simps) (auto split: sum.splits)
    then show ?thesis using w1 spends_mono [OF w1, of 0 "rl_attempts lm - tries" "rl_attempts lm - tries" cap] Suc by simp
  qed
qed simp

lemma retrying_solve_bounded:
  "steady pol w \<Longrightarrow> from_secs 4 \<le> cap \<Longrightarrow> spends pol 0 3 3 cap w (snd (retrying_solve env req w))"
  using solve_bounded [of pol w "retry_new 3 (from_millis 500) (from_secs 4)" cap 0]
  by (simp add: retrying_solve_def retry_new_def)

context fetch_layer
begin

lemma solve_if_challenged_bounded:
  assumes "steady pol w" "from_secs 4 \<le> cap"
  shows "spends pol sends (3 + solves) (3 + waits) cap w (snd (solve_if_challenged env get req resp w))"
proof (cases "detect_challenge (view_of resp)")
  case None
  then show ?thesis using assms(1) by (simp add: solve_if_challenged_def)
next
  case (Some kind)
  obtain r w1 where solve: "retrying_solve env
      \<lparr>sq_url = fq_url req, sq_provider = fq_provider req, sq_kind = Some kind\<rparr> w = (r, w1)" by force
  have w1: "spends pol 0 3 3 cap w w1"
    using retrying_solve_bounded [OF assms, of env] solve by (metis snd_conv)
  show ?thesis
  proof (cases r)
    case (Inl e)
    then show ?thesis using Some solve spends_mono [OF w1] by (simp add: solve_if_challenged_def)
  next
    case (Inr outcome)
    then show ?thesis
      using Some solve spends_trans [OF w1 use_outcome_bounded [OF spends_steady [OF w1]]]
      by (simp add: solve_if_challenged_def)
  qed
qed

lemma solving_bounded:
  assumes "steady pol w" "from_secs 4 \<le> cap"
  shows "spends pol (3 * sends) (3 + 3 * solves) (3 + 3 * waits) cap w (snd (solving_get env get req w))"
proof -
  define replayed where "replayed = session_get (fq_provider req) w"
  define prepared where "prepared = (case replayed of Some s \<Rightarrow> apply_session req s | None \<Rightarrow> req)"
  obtain r w1 where first: "get prepared w = (r, w1)" by force
  note w1 = calls(1) [OF first assms(1)] calls(2) [OF first assms(1)]
  have get: "solving_get env get req w = (case r of Inl e \<Rightarrow> (Err e, w1)
    | Inr resp \<Rightarrow>
        (if replayed \<noteq> None \<and> refuses_our_headers resp
         then act_then (act_modify (session_invalidate (fq_provider req)))
           (act_bind (get req) (\<lambda>clean. solve_if_challenged env get req clean))
         else solve_if_challenged env get prepared resp) w1)"
    unfolding solving_get_def Let_def act_bind_def replayed_def [symmetric] prepared_def [symmetric] first
    by (simp split: sum.splits)
  have two: "spends pol (3 * sends) (3 + 3 * solves) (3 + 3 * waits) cap w w2" if "spends pol sends (3 + solves) (3 + waits) cap w1 w2" for w2
    using spends_trans [OF w1(1) that] by (rule spends_mono) simp_all
  show ?thesis
  proof (cases r)
    case (Inl e)
    then show ?thesis unfolding get using spends_mono [OF w1(1)] by simp
  next
    case (Inr resp)
    show ?thesis
    proof (cases "replayed \<noteq> None \<and> refuses_our_headers resp")
      case True
      define w2 where "w2 = session_invalidate (fq_provider req) w1"
      have w2: "spends pol 0 0 0 cap w1 w2"
        using w1(2) by (simp add: w2_def session_invalidate_def spends_sessions)
      obtain r3 w3 where second: "get req w2 = (r3, w3)" by force
      note w3 = calls(1) [OF second spends_steady [OF w2]] calls(2) [OF second spends_steady [OF w2]]
      have w13: "spends pol (2 * sends) (2 * solves) (2 * waits) cap w w3"
        using spends_trans [OF w1(1) spends_trans [OF w2 w3(1)]] by (simp add: mult_2)
      have "snd (solving_get env get req w) = (case r3 of Inl e \<Rightarrow> w3
          | Inr clean \<Rightarrow> snd (solve_if_challenged env get req clean w3))"
        unfolding get Inr using True second
        by (simp add: act_then_def act_bind_def act_modify_def flip: w2_def split: sum.splits)
      then show ?thesis
        using spends_mono [OF w13, of "3 * sends" "3 + 3 * solves" "3 + 3 * waits" cap]
          spends_trans [OF w13 solve_if_challenged_bounded [OF w3(2) assms(2)]]
        by (auto simp: add.commute split: sum.splits)
    next
      case False
      then show ?thesis unfolding get Inr
        using two [OF solve_if_challenged_bounded [OF w1(2) assms(2)]] by auto
    qed
  qed
qed

lemma rated_bounded:
  assumes "steady pol w" "rt_crawl_delay rt \<le> cap" "pp_max pol \<le> cap"
    and "\<And>n. fe_permit env (rt_permits rt) n \<le> cap" "\<And>n. fe_ready env (rt_period rt) n \<le> cap"
  shows "spends pol sends solves (3 + waits) cap w (snd (rated_get env rt get req w))"
proof -
  define w0 where "w0 = until_ready env rt (acquire_permit env rt w)"
  note permit = spends_sleep [OF assms(1,4), of "length (fw_waits w)", folded acquire_permit_def]
  have w0: "spends pol 0 0 2 cap w w0"
    using spends_trans [OF permit spends_sleep [OF spends_steady [OF permit] assms(5)]]
    by (simp add: w0_def until_ready_def flip: Suc_1)
  obtain d w1 where pen: "penalty_now w0 = (d, w1)" by force
  have w1: "steady pol w1" "pc_penalty (fw_pacer w1) = d" "fw_sent w1 = fw_sent w0" "fw_solved w1 = fw_solved w0"
    "fw_waits w1 = fw_waits w0"
    using pen spends_steady [OF w0]
    by (auto simp: penalty_now_def pacer_penalty_def Let_def steady_def decay_ok)
  then have "d \<le> pp_max pol" by (auto simp: steady_def penalty_ok_def)
  with w1 have "spends pol 0 0 1 cap w0
      (if max (rt_crawl_delay rt) d = 0 then w1 else sleep (max (rt_crawl_delay rt) d) w1)"
    using assms(2,3) by (auto simp: spends_def sleep_def steady_frame)
  then have w2: "spends pol 0 0 3 cap w (wait_for_permission env rt w)"
    using spends_trans [OF w0] pen by (fastforce simp: wait_for_permission_def Let_def simp flip: w0_def)
  obtain r w3 where call: "get req (wait_for_permission env rt w) = (r, w3)" by force
  have w3: "spends pol sends solves (3 + waits) cap w w3"
    using spends_trans [OF w2 calls(1) [OF call spends_steady [OF w2]]] by simp
  have "spends pol 0 0 0 cap w3 (note_throttle resp w3)" for resp
    using spends_steady [OF w3] penalise_ok decay_ok
    by (auto simp: note_throttle_def spends_def penalty_now_def pacer_penalty_def Let_def steady_def)
  from spends_trans [OF w3 this] show ?thesis
    using call w3 by (cases r) (simp_all add: rated_get_def)
qed

end

lemma base_bounded: "steady pol w \<Longrightarrow> spends pol 1 0 0 cap w (snd (base_send env req w))"
  by (auto simp: base_send_def Let_def spends_def steady_frame steady_def split: option.splits sum.splits prod.splits)

context fetch_layer
begin

lemma retry_layer:
  "m \<le> cap \<Longrightarrow>
   fetch_layer (retry_get env (retry_new n b m) get) (max n 1 * sends) (max n 1 * solves)
     (max n 1 * Suc waits) cap pol"
  using retry_bounded [where lm = "retry_new n b m" and tries = 0]
  by unfold_locales (simp add: retry_get_def retry_new_def)

lemma backoff_layer:
  "m \<le> cap \<Longrightarrow>
   fetch_layer (backoff_from env (retry_new n b m) get 0) (max n 1 * sends) (max n 1 * solves)
     (max n 1 * Suc waits) cap pol"
  using backoff_bounded [where lm = "retry_new n b m" and tries = 0]
  by unfold_locales (simp add: retry_new_def)

lemma solving_layer:
  "from_secs 4 \<le> cap \<Longrightarrow>
   fetch_layer (solving_get env get) (3 * sends) (3 + 3 * solves) (3 + 3 * waits) cap pol"
  using solving_bounded by unfold_locales

lemma rated_layer:
  "rt_crawl_delay rt \<le> cap \<Longrightarrow> pp_max pol \<le> cap \<Longrightarrow> (\<And>n. fe_permit env (rt_permits rt) n \<le> cap) \<Longrightarrow>
   (\<And>n. fe_ready env (rt_period rt) n \<le> cap) \<Longrightarrow>
   fetch_layer (rated_get env rt get) sends solves (3 + waits) cap pol"
  by unfold_locales (rule rated_bounded)

end

interpretation base: fetch_layer "base_send env" 1 0 0 cap pol for env cap pol
  using base_bounded by unfold_locales

definition stack_cap :: "stack_config \<Rightarrow> duration" where
  "stack_cap cfg =
     Max {from_secs 30, sc_backoff_max cfg, from_millis (sc_crawl_delay_ms cfg), pp_max (sc_throttle cfg)}"

definition stack_sends :: "stack_config \<Rightarrow> nat" where
  "stack_sends cfg = max (sc_max_backoff_attempts cfg) 1 * (3 * max (sc_max_attempts cfg) 1)"

definition stack_solves :: "stack_config \<Rightarrow> nat" where
  "stack_solves cfg = max (sc_max_backoff_attempts cfg) 1 * 3"

definition stack_waits :: "stack_config \<Rightarrow> nat" where
  "stack_waits cfg = max (sc_max_backoff_attempts cfg) 1 * (7 + 3 * max (sc_max_attempts cfg) 1)"

text \<open>
  What the two crates of the limiter impose: the longest wait for a permit, and the longest wait for a
  token as a number of the periods the configured rate comes to. A fetch that has its provider to
  itself finds a permit and waits one period at most.
\<close>

definition limiter_grants :: "fetch_env \<Rightarrow> stack_config \<Rightarrow> duration \<Rightarrow> nat \<Rightarrow> bool" where
  "limiter_grants env cfg queue turns \<longleftrightarrow>
     (\<forall>n. fe_permit env (max (sc_concurrency cfg) 1) n \<le> queue) \<and>
     (\<forall>n. fe_ready env (period_for (sc_rps cfg)) n \<le> turns * period_for (sc_rps cfg))"

definition longest_wait :: "stack_config \<Rightarrow> duration \<Rightarrow> nat \<Rightarrow> duration" where
  "longest_wait cfg queue turns = Max {stack_cap cfg, queue, turns * period_for (sc_rps cfg)}"

lemma stack_layer:
  assumes "limiter_grants env cfg queue turns"
  shows "fetch_layer (provider_fetch env cfg) (stack_sends cfg) (stack_solves cfg) (stack_waits cfg)
    (longest_wait cfg queue turns) (sc_throttle cfg)"
proof -
  let ?cap = "longest_wait cfg queue turns" and ?pol = "sc_throttle cfg"
  let ?rt = "rated_new (sc_rps cfg) (sc_concurrency cfg) (sc_crawl_delay_ms cfg)"
  have caps: "from_secs 30 \<le> ?cap" "sc_backoff_max cfg \<le> ?cap" "pp_max ?pol \<le> ?cap" "from_secs 4 \<le> ?cap"
    by (auto simp: longest_wait_def stack_cap_def from_secs_def)
  have rated: "rt_crawl_delay ?rt \<le> ?cap" "fe_permit env (rt_permits ?rt) n \<le> ?cap"
    "fe_ready env (rt_period ?rt) n \<le> ?cap" for n
    using assms
    by (auto simp: rated_new_def longest_wait_def stack_cap_def limiter_grants_def intro: max.coboundedI1 max.coboundedI2)
  note layer = base.retry_layer [OF caps(1), of env "sc_max_attempts cfg" "from_millis 500" env ?pol]
  note layer = fetch_layer.solving_layer [OF layer caps(4), of env]
  note layer = fetch_layer.rated_layer [OF layer rated(1) caps(3) rated(2,3)]
  note layer = fetch_layer.backoff_layer [OF layer caps(2), of env "sc_max_backoff_attempts cfg" "sc_backoff_base cfg"]
  show ?thesis
    using layer
    by (simp add: provider_fetch_def Let_def stack_sends_def stack_solves_def stack_waits_def algebra_simps)
qed

text \<open>A stack in use: the requests of a crawl, one after the other.\<close>

fun serve :: "fetch_env \<Rightarrow> stack_config \<Rightarrow> fetch_request list \<Rightarrow> fetch_world \<Rightarrow> fetch_world" where
  "serve env cfg [] w = w"
| "serve env cfg (req # reqs) w = serve env cfg reqs (snd (provider_fetch env cfg req w))"

lemma serve_steady:
  assumes "limiter_grants env cfg queue turns"
  shows "steady (sc_throttle cfg) w \<Longrightarrow> steady (sc_throttle cfg) (serve env cfg reqs w)"
  by (induction reqs arbitrary: w)
    (auto intro: spends_steady [OF fetch_layer.bounded [OF stack_layer [OF assms]]])

lemma built_steady: "build_stack env cfg now = Some w \<Longrightarrow> steady (sc_throttle cfg) w"
  by (auto simp: build_stack_def steady_def penalty_ok_def new_pacer_def)

lemma token_wait_capped: "longest_wait cfg queue turns \<le> Max {stack_cap cfg, queue, turns * from_secs 1000}"
proof -
  have "Max {a, b, c} \<le> Max {a, b, c'}" if "c \<le> c'" for a b c c' :: duration using that by auto
  then show ?thesis
    unfolding longest_wait_def using period_for_range [of "sc_rps cfg"] by (blast intro: mult_le_mono2)
qed

text \<open>C28: A fetch always comes back. Whatever the provider, the solver and the random draws answer, and
  whatever was fetched before, one request makes at most three rounds of retries per backoff attempt
  and at most three solves per backoff attempt, and it waits a bounded number of times. The waits for
  a permit and for a token of the rate limiter count; they are the limiter's, so given how long it
  keeps a caller (\<open>limiter_grants\<close>: a permit within \<open>queue\<close>, a token within \<open>turns\<close> periods of the
  configured rate, which the clamp keeps at 1000 seconds or less), no single wait exceeds the largest
  of these two and the configured delays, and the whole waiting is at most that times the number of
  waits the configured attempts allow. The time of the transfers themselves is the client's.
\<close>

theorem fetch_returns_within_budget:
  assumes "limiter_grants env cfg queue turns"
    and "build_stack env cfg now = Some w0" "w = serve env cfg reqs w0"
    and "provider_fetch env cfg req w = (result, w')"
  shows "length (fw_sent w') \<le> length (fw_sent w) + stack_sends cfg \<and>
     length (fw_solved w') \<le> length (fw_solved w) + stack_solves cfg \<and>
     (\<exists>ws. fw_waits w' = fw_waits w @ ws \<and> length ws \<le> stack_waits cfg \<and>
        (\<forall>d \<in> set ws. d \<le> longest_wait cfg queue turns) \<and>
        sum_list ws \<le> stack_waits cfg * longest_wait cfg queue turns) \<and>
     longest_wait cfg queue turns \<le> Max {stack_cap cfg, queue, turns * from_secs 1000}"
proof -
  have "steady (sc_throttle cfg) w"
    unfolding assms(3) by (rule serve_steady [OF assms(1) built_steady [OF assms(2)]])
  from fetch_layer.calls(1) [OF stack_layer [OF assms(1)] assms(4) this]
  obtain ws where ws: "fw_waits w' = fw_waits w @ ws" "length ws \<le> stack_waits cfg"
      "\<forall>d \<in> set ws. d \<le> longest_wait cfg queue turns"
    and spent: "length (fw_sent w') \<le> length (fw_sent w) + stack_sends cfg"
      "length (fw_solved w') \<le> length (fw_solved w) + stack_solves cfg"
    by (auto simp: spends_def)
  have "sum_list ws \<le> length ws * longest_wait cfg queue turns"
    using ws(3) by (induction ws) auto
  also have "\<dots> \<le> stack_waits cfg * longest_wait cfg queue turns" using ws(2) by (rule mult_le_mono1)
  finally show ?thesis using ws spent token_wait_capped by blast
qed

section \<open>What a fetch returns\<close>

text \<open>
  A response that leaves the solving layer is a page: it was classified as no challenge, or it is
  the solver's rendering, free of challenge markup, with the status of the page and not of a redirect.
\<close>

definition is_page :: "fetch_response \<Rightarrow> bool" where
  "is_page resp \<longleftrightarrow>
     detect_challenge (view_of resp) = None \<or>
     (detect_challenge_body (fp_body resp) = None \<and>
      \<not> (300 \<le> fp_status resp \<and> fp_status resp < 400) \<and>
      (is_rate_limit_page (fp_body resp) \<longrightarrow> fp_status resp = 429))"

lemma solved_page_is_page: "solved_page outcome req html = Ok resp \<Longrightarrow> is_page resp"
  by (auto simp: solved_page_def is_page_def solved_status_def split: option.splits if_splits)

lemma use_outcome_page:
  assumes "use_outcome inner kind outcome req w = (Ok resp, w')" shows "is_page resp"
  using assms
  by (auto simp: use_outcome_def Let_def act_bind_ok act_fail_def act_return_def is_page_def
      split: option.splits if_splits dest: solved_page_is_page [unfolded is_page_def])

lemma solve_if_challenged_page:
  assumes "solve_if_challenged env inner req resp0 w = (Ok resp, w')" shows "is_page resp"
proof (cases "detect_challenge (view_of resp0)")
  case None
  then show ?thesis using assms by (simp add: solve_if_challenged_def is_page_def)
next
  case (Some kind)
  with assms obtain outcome w1 where "use_outcome inner kind outcome req w1 = (Ok resp, w')"
    by (auto simp: solve_if_challenged_def split: prod.splits sum.splits)
  then show ?thesis by (rule use_outcome_page)
qed

lemma solving_page:
  assumes "solving_get env inner req w = (Ok resp, w')" shows "is_page resp"
  using assms
  by (auto simp: solving_get_def Let_def act_bind_ok act_then_ok split: if_splits
      dest: solve_if_challenged_page)

lemma rated_page:
  assumes "rated_get env rt (solving_get env inner) req w = (Ok resp, w')" shows "is_page resp"
  using assms by (auto simp: rated_get_def split: prod.splits sum.splits dest: solving_page)

lemma backoff_result:
  assumes "\<And>w resp w'. inner req w = (Ok resp, w') \<Longrightarrow> P resp"
    and "backoff_from env lm inner tries req w = (Ok resp, w')"
  shows "P resp"
  using assms(2)
proof (induction "rl_attempts lm - tries" arbitrary: tries w rule: less_induct)
  case less
  obtain r w1 where call: "inner req w = (r, w1)" by force
  show ?case
  proof (cases r)
    case (Inr x)
    show ?thesis
    proof (cases "fp_status x \<notin> set backoff_statuses \<or> rl_attempts lm \<le> tries + 1")
      case True
      then show ?thesis using less.prems call Inr assms(1) by (subst (asm) backoff_from.simps) auto
    next
      case False
      obtain d w2 where w2: "wait_for env lm x (tries + 1) w1 = (d, w2)" by force
      have "backoff_from env lm inner tries req w = backoff_from env lm inner (tries + 1) req (sleep d w2)"
        using False call Inr w2 by (subst backoff_from.simps) simp
      then show ?thesis using less.prems False by (intro less.hyps [of "tries + 1" "sleep d w2"]) auto
    qed
  qed (use less.prems call in \<open>subst (asm) backoff_from.simps, simp\<close>)
qed

text \<open>C29: A fetch never hands a challenge to the adapter as a page: a successful fetch is a response the
  classifier took for an ordinary one, or the solver's rendering without challenge markup, whose
  status is never that of a redirect already followed and is 429 for a throttle notice.
\<close>

theorem fetched_page_is_no_challenge:
  assumes "provider_fetch env cfg req w = (Ok resp, w')"
  shows "detect_challenge (view_of resp) = None \<or>
     (detect_challenge_body (fp_body resp) = None \<and>
      \<not> (300 \<le> fp_status resp \<and> fp_status resp < 400) \<and>
      (is_rate_limit_page (fp_body resp) \<longrightarrow> fp_status resp = 429))"
proof -
  have "is_page resp"
    using assms unfolding provider_fetch_def Let_def
    by (rule backoff_result [rotated]) (rule rated_page)
  then show ?thesis by (simp add: is_page_def)
qed

text \<open>
  A server error is a response to the layers below the solver: no transfer ends in \<open>Status\<close>, so a
  status of the 500s other than 503 is handed up after one attempt.
\<close>

lemma base_never_status: "fst (base_send env req w) \<noteq> Err (Status s)"
proof -
  have wire: "map_wreq_err e \<noteq> Status s" for e
    by (auto simp: map_wreq_err_def split: option.splits)
  have body: "read_body buf chunks \<noteq> Err (Status s)" for buf chunks
    by (induction buf chunks rule: read_body.induct) (auto simp: wire)
  have "receive env r \<noteq> Err (Status s)" for r
    using body [of "[]"] wire
    by (auto simp: receive_def bind_result_def decode_gzip_def split: sum.splits prod.splits if_splits)
  then show ?thesis
    by (auto simp: base_send_def Let_def split: option.splits sum.splits prod.splits)
qed

lemma any_response_ends_the_retries:
  "inner req w = (Ok resp, w') \<Longrightarrow> retry_get env lm inner req w = (Ok resp, w')"
  unfolding retry_get_def by (subst retry_from.simps) simp

definition quiet_env :: fetch_env where
  "quiet_env =
     \<lparr>fe_parse = (\<lambda>s. Some \<lparr>fu_scheme = lit ''https'', fu_host = Some (Domain [97]), fu_text = s\<rparr>),
      fe_builds = (\<lambda>_. True),
      fe_send = (\<lambda>n r. Inr \<lparr>wr_status = (if n = 0 then 503 else 200), wr_uri = wq_url r, wr_headers = [],
        wr_chunks = [Inr [98, 99]]\<rparr>),
      fe_gunzip = (\<lambda>b. (b, None)), fe_utf8 = (\<lambda>b. b), fe_solve = (\<lambda>_ _. Inl SolveTimeout),
      fe_random = (\<lambda>_. 7), fe_latency = (\<lambda>_. 5), fe_permit = (\<lambda>_ _. 0),
      fe_ready = (\<lambda>period n. period - min 3 period)\<rparr>"

definition quiet_config :: stack_config where
  "quiet_config =
     \<lparr>sc_user_agent = [120], sc_emulation = None, sc_rps = Fin 1, sc_concurrency = 2, sc_crawl_delay_ms = 2, sc_max_attempts = 4,
      sc_max_backoff_attempts = 3, sc_backoff_base = from_secs 2, sc_backoff_max = from_secs 60,
      sc_throttle = default_pacing\<rparr>"

definition quiet_request :: fetch_request where
  "quiet_request = \<lparr>fq_url = [100], fq_provider = [112], fq_headers = [], fq_user_agent = None\<rparr>"

lemma quiet_base:
  assumes "bf_bot_user_agent (fw_base w) \<noteq> None"
  shows "\<exists>w1. base_send quiet_env quiet_request w =
     (Ok \<lparr>fp_status = (if fw_sent w = [] then 503 else 200), fp_url = [100], fp_headers = [],
        fp_body = [98, 99], fp_from_cache = False\<rparr>, w1) \<and>
     fw_sessions w1 = fw_sessions w \<and> fw_sent w1 \<noteq> [] \<and> fw_base w1 = fw_base w"
  using assms
  by (simp add: base_send_def quiet_env_def quiet_request_def validate_url_def http_scheme_def client_for_def
      receive_def Let_def gzipped_def kept_headers_def max_body_bytes_def)

lemma quiet_rated:
  assumes "bf_bot_user_agent (fw_base w) \<noteq> None" "fw_sessions w = (\<lambda>_. None)"
  shows "\<exists>w1. rated_get quiet_env rt (solving_get quiet_env (retry_get quiet_env lm (base_send quiet_env))) quiet_request w =
     (Ok \<lparr>fp_status = (if fw_sent w = [] then 503 else 200), fp_url = [100], fp_headers = [],
        fp_body = [98, 99], fp_from_cache = False\<rparr>, w1) \<and>
     fw_sessions w1 = (\<lambda>_. None) \<and> fw_sent w1 \<noteq> [] \<and> bf_bot_user_agent (fw_base w1) \<noteq> None"
proof -
  define w0 where "w0 = wait_for_permission quiet_env rt w"
  have w0: "fw_base w0 = fw_base w" "fw_sessions w0 = (\<lambda>_. None)" "fw_sent w0 = fw_sent w"
    using assms(2)
    by (auto simp: w0_def wait_for_permission_def until_ready_def acquire_permit_def penalty_now_def Let_def sleep_def
        split: prod.splits)
  let ?page = "\<lparr>fp_status = (if fw_sent w = [] then 503 else 200), fp_url = [100], fp_headers = [],
        fp_body = [98, 99], fp_from_cache = False\<rparr>"
  obtain w1 where "base_send quiet_env quiet_request w0 = (Ok ?page, w1)"
    and w1: "fw_sessions w1 = (\<lambda>_. None)" "fw_sent w1 \<noteq> []" "fw_base w1 = fw_base w"
    using quiet_base [of w0] assms w0 by auto
  note first = any_response_ends_the_retries [where inner = "base_send quiet_env", OF this(1), of quiet_env lm]
  have plain: "detect_challenge (view_of ?page) = None"
    by (simp add: detect_challenge_def view_of_def announces_challenge_def server_is_cf_def challenge_status_def
        header_of_def challenge_statuses_def detect_challenge_body_def is_rate_limit_page_def snippet_cap_def
        loads_challenge_orchestration_def lit_def starts_with_def len_utf8_def title_scan_bytes_def)
  have "solving_get quiet_env (retry_get quiet_env lm (base_send quiet_env)) quiet_request w0 = (Ok ?page, w1)"
    using plain w0(2) first
    by (simp add: solving_get_def session_get_def act_bind_def solve_if_challenged_def)
  then show ?thesis
    using w1 assms(1)
    by (auto simp: rated_get_def note_throttle_def penalty_now_def Let_def split: prod.splits simp flip: w0_def)
qed

lemma quiet_built:
  "\<exists>w0. build_stack quiet_env quiet_config 0 = Some w0 \<and> fw_sessions w0 = (\<lambda>_. None) \<and> fw_sent w0 = [] \<and>
     bf_bot_user_agent (fw_base w0) \<noteq> None"
  by (simp add: build_stack_def base_new_def quiet_env_def quiet_config_def Let_def)

lemma quiet_fetch:
  assumes "bf_bot_user_agent (fw_base w) \<noteq> None" "fw_sessions w = (\<lambda>_. None)"
  shows "\<exists>w'. provider_fetch quiet_env quiet_config quiet_request w =
     (Ok \<lparr>fp_status = 200, fp_url = [100], fp_headers = [], fp_body = [98, 99], fp_from_cache = False\<rparr>, w')"
proof -
  define inner where "inner = rated_get quiet_env (rated_new (Fin 1) 2 2)
    (solving_get quiet_env (retry_get quiet_env (retry_new 4 (from_millis 500) (from_secs 30)) (base_send quiet_env)))"
  define lm where "lm = retry_new 3 (from_secs 2) (from_secs 60)"
  let ?page = "\<lambda>s. \<lparr>fp_status = s, fp_url = [100], fp_headers = [], fp_body = [98, 99], fp_from_cache = False\<rparr>"
  have fetch: "provider_fetch quiet_env quiet_config quiet_request w =
      backoff_from quiet_env lm inner 0 quiet_request w"
    by (simp add: provider_fetch_def quiet_config_def Let_def inner_def lm_def)
  have again: "\<exists>w'. backoff_from quiet_env lm inner n quiet_request v = (Ok (?page 200), w')"
    if v: "bf_bot_user_agent (fw_base v) \<noteq> None" "fw_sessions v = (\<lambda>_. None)" "fw_sent v \<noteq> []" for n v
    using quiet_rated [OF v(1,2), of "rated_new (Fin 1) 2 2" "retry_new 4 (from_millis 500) (from_secs 30)", folded inner_def] v(3)
    by (subst backoff_from.simps) (auto simp: backoff_statuses_def)
  show ?thesis
  proof (cases "fw_sent w = []")
    case False
    then show ?thesis unfolding fetch using again assms by blast
  next
    case True
    obtain w1 where w1: "inner quiet_request w = (Ok (?page 503), w1)" "fw_sessions w1 = (\<lambda>_. None)"
      "fw_sent w1 \<noteq> []" "bf_bot_user_agent (fw_base w1) \<noteq> None"
      using quiet_rated [OF assms, of "rated_new (Fin 1) 2 2" "retry_new 4 (from_millis 500) (from_secs 30)", folded inner_def] True
      by auto
    obtain d w2 where w2: "wait_for quiet_env lm (?page 503) 1 w1 = (d, w2)" by force
    have keep: "fw_sessions w2 = fw_sessions w1" "fw_sent w2 = fw_sent w1" "fw_base w2 = fw_base w1"
      using w2 by (auto simp: wait_for_def retry_after_def fetch_header_def header_of_def full_jitter_def Let_def)
    have "backoff_from quiet_env lm inner 0 quiet_request w =
        backoff_from quiet_env lm inner 1 quiet_request (sleep d w2)"
      using w1(1) w2 by (subst backoff_from.simps) (simp add: backoff_statuses_def lm_def retry_new_def)
    then show ?thesis unfolding fetch using again [of "sleep d w2" 1] w1 keep by (simp add: sleep_def)
  qed
qed

lemma quiet_limiter: "limiter_grants quiet_env quiet_config 0 1"
  by (simp add: limiter_grants_def quiet_env_def)

theorem fetch_returns_within_budget_witness:
  "\<exists>w0 result w'. build_stack quiet_env quiet_config 0 = Some w0 \<and>
     provider_fetch quiet_env quiet_config quiet_request w0 = (result, w') \<and> is_ok result \<and>
     length (fw_sent w') \<le> 36 \<and> sum_list (fw_waits w') \<le> 57 * from_secs 1000"
proof -
  obtain w0 where w0: "build_stack quiet_env quiet_config 0 = Some w0" "fw_sessions w0 = (\<lambda>_. None)"
    "fw_sent w0 = []" "bf_bot_user_agent (fw_base w0) \<noteq> None"
    using quiet_built by blast
  have none: "fw_waits w0 = []" using w0(1) by (auto simp: build_stack_def)
  obtain page w' where run: "provider_fetch quiet_env quiet_config quiet_request w0 = (Ok page, w')"
    using quiet_fetch [OF w0(4,2)] by blast
  have sends: "stack_sends quiet_config = 36" "stack_waits quiet_config = 57"
    by (simp_all add: stack_sends_def stack_waits_def quiet_config_def)
  have cap: "Max {stack_cap quiet_config, 0, 1 * from_secs 1000} \<le> from_secs 1000"
    by (simp add: stack_cap_def quiet_config_def default_pacing_def from_secs_def from_millis_def)
  note paid = fetch_returns_within_budget [OF quiet_limiter w0(1) _ run, of "[]"]
  have "length (fw_sent w') \<le> 36" using paid w0(3) sends by simp
  moreover have "sum_list (fw_waits w') \<le> 57 * from_secs 1000"
  proof -
    have "sum_list (fw_waits w') \<le> 57 * longest_wait quiet_config 0 1" using paid none sends by auto
    moreover have "longest_wait quiet_config 0 1 \<le> from_secs 1000" using paid cap by (metis order_trans serve.simps(1))
    ultimately show ?thesis by (meson mult_le_mono2 order_trans)
  qed
  ultimately show ?thesis using w0(1) run by (intro exI [of _ w0] exI [of _ "Ok page"] exI [of _ w']) simp
qed

theorem fetched_page_is_no_challenge_witness:
  "\<exists>w page w'. provider_fetch quiet_env quiet_config quiet_request w = (Ok page, w') \<and> fp_status page = 200 \<and>
     (detect_challenge (view_of page) = None \<or> detect_challenge_body (fp_body page) = None)"
proof -
  obtain w0 where w0: "build_stack quiet_env quiet_config 0 = Some w0" "fw_sessions w0 = (\<lambda>_. None)"
    "bf_bot_user_agent (fw_base w0) \<noteq> None"
    using quiet_built by blast
  obtain w' where run: "provider_fetch quiet_env quiet_config quiet_request w0 =
      (Ok \<lparr>fp_status = 200, fp_url = [100], fp_headers = [], fp_body = [98, 99], fp_from_cache = False\<rparr>, w')"
    using quiet_fetch [OF w0(3,2)] by blast
  from fetched_page_is_no_challenge [OF run] run show ?thesis
    by (intro exI [of _ w0] exI exI [of _ w']) auto
qed

section \<open>The replayed cookies\<close>

lemma byte_len_append [simp]: "byte_len (s @ t) = byte_len s + byte_len t"
  by (simp add: byte_len_def)

lemma render_snoc:
  "byte_len (render_cookies (cs @ [c])) =
     byte_len (render_cookies cs) + (if cs = [] then 0 else 2) + byte_len (fst c) + 1 + byte_len (snd c)"
proof (cases c)
  case (Pair k v)
  then show ?thesis
    by (induction cs rule: render_cookies.induct) (auto simp: byte_len_def len_utf8_def split: prod.splits)
qed

lemma keep_cookies_bounded:
  "byte_len (render_cookies (keep_cookies budget kept cs)) \<le> byte_len (render_cookies kept) + budget"
proof (induction cs arbitrary: budget kept)
  case (Cons c cs)
  show ?case
    using Cons.IH [of budget kept]
      Cons.IH [of "budget - (byte_len (fst c) + 1 + byte_len (snd c) + (if kept = [] then 0 else 2))" "kept @ [c]"]
    by (auto simp: Let_def render_snoc split: if_splits)
qed simp

lemma cookie_header_bounded: "byte_len (cookie_header s) \<le> max_cookie_header_bytes"
  using keep_cookies_bounded [of max_cookie_header_bytes "[]"]
  by (auto simp: cookie_header_def Let_def byte_len_def)

text \<open>
  The loop skips a cookie that does not fit and goes on, so a large clearance cookie is dropped while
  a small one of an advertiser is kept.
\<close>

lemma essential_cookie_dropped:
  "\<exists>s. (lit ''cf_clearance'', replicate 4090 97) \<in> set (ss_cookies s) \<and>
       is_essential (lit ''cf_clearance'') \<and> \<not> is_essential (lit ''ad'') \<and>
       cookie_header s = lit ''ad=1''"
proof -
  define big where "big = (lit ''cf_clearance'', replicate 4090 (97::nat))"
  define s where "s = \<lparr>ss_cookies = [(lit ''ad'', lit ''1''), big], ss_user_agent = [], ss_expires_at = 0\<rparr>"
  have ess: "is_essential (lit ''cf_clearance'')" "\<not> is_essential (lit ''ad'')"
    by (simp_all add: is_essential_def essential_prefixes_def lit_def starts_with_def ascii_lowercase_def
        to_ascii_lowercase_def)
  have len: "byte_len (snd big) = 4090" "byte_len (fst big) = 12"
    by (simp_all add: big_def byte_len_def len_utf8_def lit_def sum_list_replicate)
  have keep: "keep_cookies 4096 [] [big, (lit ''ad'', lit ''1'')] = [(lit ''ad'', lit ''1'')]"
    using len by (simp add: byte_len_def len_utf8_def lit_def)
  have "4096 < byte_len (render_cookies [(lit ''ad'', lit ''1''), big])"
    using len by (cases big) (simp add: byte_len_def)
  then have "cookie_header s = render_cookies [(lit ''ad'', lit ''1'')]"
    using keep ess by (simp add: cookie_header_def Let_def s_def max_cookie_header_bytes_def big_def)
  then show ?thesis using ess by (auto simp: s_def big_def lit_def intro!: exI [of _ s])
qed

end
