(* ===== verification/Match_Similarity.thy ===== *)
theory Match_Similarity
  imports Title_Text Rust_Float
begin

text \<open>
  The string and number comparisons of the matcher, \<open>src/crates/matcher/src/similarity.rs\<close> and
  \<open>edition.rs\<close>: the edit distance over two rows, the numbers and the edition markers a title carries,
  the overlap of words and of names. \<open>edit_step\<close> and \<open>lev\<close> say what the distance means.
\<close>

section \<open>Edit distance\<close>

definition min_edit_len :: nat where "min_edit_len = 12"

definition max_edit_len :: nat where "max_edit_len = 160"

definition edit_length_slack :: nat where "edit_length_slack = 6"

definition edit_cell :: "nat list \<Rightarrow> nat \<Rightarrow> nat \<times> nat \<Rightarrow> nat list \<Rightarrow> nat list" where
  "edit_cell previous ca jcb current =
     (let j = fst jcb;
          substitution = previous ! j + (if ca = snd jcb then 0 else 1);
          deletion = previous ! (j + 1) + 1;
          insertion = current ! j + 1
      in current[j + 1 := min (min substitution deletion) insertion])"

definition edit_row :: "utext \<Rightarrow> nat \<times> nat \<Rightarrow> nat list \<times> nat list \<Rightarrow> nat list \<times> nat list" where
  "edit_row b ica rows =
     (let previous = fst rows;
          current = fold (edit_cell previous (snd ica)) (enumerate 0 b) ((snd rows)[0 := fst ica + 1])
      in (current, previous))"

definition edit_distance :: "utext \<Rightarrow> utext \<Rightarrow> nat" where
  "edit_distance a b =
     fst (fold (edit_row b) (enumerate 0 a)
       ([0..<length b + 1], replicate (length b + 1) 0)) ! length b"

definition edit_ratio :: "utext \<Rightarrow> utext \<Rightarrow> rat" where
  "edit_ratio a b =
     (let la = length a; lb = length b; short = min la lb; long = max la lb
      in if short < min_edit_len \<or> max_edit_len < long then 0
         else if long div edit_length_slack < long - short then 0
         else f32 (1 - f32 (of_nat (edit_distance a b) / of_nat long)))"

text \<open>What the distance means: the fewest insertions, deletions and substitutions of one character.\<close>

inductive edit_step :: "utext \<Rightarrow> utext \<Rightarrow> bool" where
  insertion: "edit_step (u @ v) (u @ c # v)"
| deletion: "edit_step (u @ c # v) (u @ v)"
| substitution: "edit_step (u @ c # v) (u @ d # v)"

fun lev :: "utext \<Rightarrow> utext \<Rightarrow> nat" where
  "lev [] ys = length ys"
| "lev (x # xs) [] = length (x # xs)"
| "lev (x # xs) (y # ys) =
     min (min (lev xs ys + (if x = y then 0 else 1)) (lev xs (y # ys) + 1)) (lev (x # xs) ys + 1)"

lemma lev_Nil2 [simp]: "lev xs [] = length xs"
  by (cases xs) auto

lemma lev_refl [simp]: "lev xs xs = 0"
  by (induction xs) auto

lemma lev_ins_left: "lev (x # xs) ys \<le> lev xs ys + 1"
  by (cases ys) auto

lemma lev_ins_right: "lev xs (y # ys) \<le> lev xs ys + 1"
  by (cases xs) auto

lemma lev_del_left: "lev xs ys \<le> lev (x # xs) ys + 1"
proof (induction ys)
  case (Cons y ys)
  show ?case using Cons lev_ins_right [of xs y ys] by (auto simp: min_def)
qed simp

lemma lev_subst_left: "lev (x # xs) ys \<le> lev (y # xs) ys + 1"
  by (induction ys) (auto simp: min_def)

lemma lev_cong_prefix:
  assumes "\<And>c. lev a c \<le> lev b c + 1"
  shows "lev (u @ a) c \<le> lev (u @ b) c + 1"
proof (induction u arbitrary: c)
  case (Cons z u)
  show ?case
  proof (induction c)
    case Nil
    show ?case using assms [of "[]"] by simp
  next
    case (Cons y ys)
    show ?case using Cons Cons.prems \<open>\<And>c. lev (u @ a) c \<le> lev (u @ b) c + 1\<close> [of ys]
        \<open>\<And>c. lev (u @ a) c \<le> lev (u @ b) c + 1\<close> [of "y # ys"]
      by (auto simp: min_def)
  qed
qed (use assms in simp)

lemma edit_step_lev: "edit_step a b \<Longrightarrow> lev a c \<le> lev b c + 1"
  by (induction rule: edit_step.induct)
    (rule lev_cong_prefix; rule lev_del_left lev_ins_left lev_subst_left)+

lemma edit_steps_lev: "(edit_step ^^ n) a b \<Longrightarrow> lev a b \<le> n"
proof (induction n arbitrary: a)
  case (Suc n)
  from Suc.prems obtain m where "edit_step a m" "(edit_step ^^ n) m b" by (rule relpowp_Suc_E2)
  then show ?case using edit_step_lev [of a m b] Suc.IH by fastforce
qed simp

lemma edit_step_Cons: "edit_step a b \<Longrightarrow> edit_step (z # a) (z # b)"
  by (induction rule: edit_step.induct) (metis append_Cons edit_step.intros)+

lemma edit_steps_Cons: "(edit_step ^^ n) a b \<Longrightarrow> (edit_step ^^ n) (z # a) (z # b)"
proof (induction n arbitrary: b)
  case (Suc n)
  then show ?case using edit_step_Cons by (metis relpowp_Suc_E relpowp_Suc_I)
qed simp

lemma edit_step_head:
  "edit_step xs (y # xs)" "edit_step (x # xs) xs" "edit_step (x # xs) (y # xs)"
  using edit_step.intros [of "[]"] by simp_all

lemma lev_attained: "(edit_step ^^ lev a b) a b"
proof (induction a b rule: lev.induct)
  case (1 ys)
  show ?case by (induction ys) (use edit_step_head(1) relpowp_Suc_I in fastforce)+
next
  case (2 x xs)
  have "(edit_step ^^ length zs) zs []" for zs
    by (induction zs) (use edit_step_head(2) relpowp_Suc_I2 in fastforce)+
  from this [of "x # xs"] show ?case by simp
next
  case (3 x xs y ys)
  have "m = min (min (p + (if P then 0 else 1)) (q + 1)) (r + 1) \<Longrightarrow>
      m = p \<and> P \<or> m = Suc p \<or> m = Suc q \<or> m = Suc r" for m p q r :: nat and P
    by (auto simp: min_def split: if_splits)
  from this [OF lev.simps(3)]
  consider "lev (x # xs) (y # ys) = lev xs ys" "x = y"
    | "lev (x # xs) (y # ys) = Suc (lev xs ys)"
    | "lev (x # xs) (y # ys) = Suc (lev xs (y # ys))"
    | "lev (x # xs) (y # ys) = Suc (lev (x # xs) ys)"
    by blast
  then show ?case
  proof cases
    case 1 then show ?thesis using edit_steps_Cons [OF 3(1)] by simp
  next
    case 2
    show ?thesis unfolding 2
      using edit_steps_Cons [OF 3(1), of x] edit_step_head(3) relpowp_Suc_I by metis
  next
    case 3
    show ?thesis unfolding 3 using \<open>(edit_step ^^ lev xs (y # ys)) xs (y # ys)\<close> edit_step_head(2)
      by (metis relpowp_Suc_I2)
  next
    case 4
    show ?thesis unfolding 4 using \<open>(edit_step ^^ lev (x # xs) ys) (x # xs) ys\<close> edit_step_head(1)
      by (metis relpowp_Suc_I)
  qed
qed

text \<open>The two-row table: after row \<open>i\<close>, entry \<open>k\<close> is the distance of the two prefixes.\<close>

definition row_of :: "utext \<Rightarrow> utext \<Rightarrow> nat list" where
  "row_of pre b = map (\<lambda>k. lev pre (rev (take k b))) [0..<length b + 1]"

lemma row_of_nth: "k \<le> length b \<Longrightarrow> row_of pre b ! k = lev pre (rev (take k b))"
  by (simp add: row_of_def del: upt_Suc)

lemma edit_cells:
  assumes "length cur = length b + 1" "j \<le> length b" "cur ! 0 = length pre + 1"
  shows "length (fold (edit_cell (row_of pre b) c) (enumerate 0 (take j b)) cur) = length b + 1 \<and>
    (\<forall>k \<le> j. fold (edit_cell (row_of pre b) c) (enumerate 0 (take j b)) cur ! k =
       lev (c # pre) (rev (take k b)))"
  using assms(2)
proof (induction j)
  case 0
  then show ?case using assms by simp
next
  case (Suc j)
  let ?cur = "fold (edit_cell (row_of pre b) c) (enumerate 0 (take j b)) cur"
  have IH: "length ?cur = length b + 1" "\<forall>k \<le> j. ?cur ! k = lev (c # pre) (rev (take k b))"
    using Suc by auto
  have t: "take (Suc j) b = take j b @ [b ! j]" using Suc.prems by (simp add: take_Suc_conv_app_nth)
  have step: "fold (edit_cell (row_of pre b) c) (enumerate 0 (take (Suc j) b)) cur =
      edit_cell (row_of pre b) c (j, b ! j) ?cur"
    using Suc.prems by (simp add: t enumerate_append_eq)
  have "edit_cell (row_of pre b) c (j, b ! j) ?cur ! Suc j = lev (c # pre) (rev (take (Suc j) b))"
    using Suc.prems IH by (simp add: edit_cell_def row_of_nth t)
  moreover have "edit_cell (row_of pre b) c (j, b ! j) ?cur ! k = ?cur ! k" if "k \<le> j" for k
    using that by (simp add: edit_cell_def)
  ultimately show ?case
    unfolding step using IH by (auto simp: edit_cell_def le_Suc_eq)
qed

lemma edit_row_step:
  assumes "length cur = length b + 1"
  shows "edit_row b (length pre, c) (row_of pre b, cur) = (row_of (c # pre) b, row_of pre b)"
proof -
  let ?new = "fold (edit_cell (row_of pre b) c) (enumerate 0 b) (cur[0 := length pre + 1])"
  have "length ?new = length b + 1" "\<forall>k \<le> length b. ?new ! k = lev (c # pre) (rev (take k b))"
    using edit_cells [of "cur[0 := length pre + 1]" b "length b" pre c] assms by auto
  then have "?new = row_of (c # pre) b"
    by (intro nth_equalityI) (auto simp: row_of_def simp del: upt_Suc)
  then show ?thesis by (simp add: edit_row_def)
qed

lemma edit_rows:
  assumes "length cur = length b + 1"
  shows "fst (fold (edit_row b) (enumerate (length pre) a) (row_of pre b, cur)) = row_of (rev a @ pre) b"
  using assms
proof (induction a arbitrary: pre cur)
  case (Cons c a)
  have "length (row_of pre b) = length b + 1" by (simp add: row_of_def)
  from Cons.IH [OF this, of "c # pre"] show ?case
    using edit_row_step [OF Cons.prems, of pre c] by simp
qed simp

lemma edit_distance_lev: "edit_distance a b = lev (rev a) (rev b)"
proof -
  have "row_of [] b = [0..<length b + 1]"
    by (intro nth_equalityI) (auto simp: row_of_def simp del: upt_Suc)
  then show ?thesis
    using edit_rows [of "replicate (length b + 1) 0" b "[]" a]
    by (simp add: edit_distance_def row_of_nth del: upt_Suc)
qed

lemma edit_step_rev: "edit_step a b \<Longrightarrow> edit_step (rev a) (rev b)"
  by (induction rule: edit_step.induct) (metis append.assoc append_Cons append_Nil rev.simps(2) rev_append edit_step.intros)+

lemma edit_steps_rev: "(edit_step ^^ n) a b \<Longrightarrow> (edit_step ^^ n) (rev a) (rev b)"
proof (induction n arbitrary: b)
  case (Suc n)
  then show ?case using edit_step_rev by (metis relpowp_Suc_E relpowp_Suc_I)
qed simp

text \<open>C31: the edit distance that the two-row table computes is the least number of single-character
  insertions, deletions and substitutions that turns one title into the other, and that many
  suffice. The similarity that the matcher derives from it therefore measures what it claims to.\<close>

theorem edit_distance_least:
  "(edit_step ^^ edit_distance a b) a b \<and>
   edit_distance a b = (LEAST n. (edit_step ^^ n) a b)"
proof -
  have at: "(edit_step ^^ edit_distance a b) a b"
    using edit_steps_rev [OF lev_attained [of "rev a" "rev b"]] by (simp add: edit_distance_lev)
  moreover have "edit_distance a b \<le> n" if "(edit_step ^^ n) a b" for n
    using edit_steps_lev [OF edit_steps_rev [OF that]] by (simp add: edit_distance_lev)
  ultimately have "(LEAST n. (edit_step ^^ n) a b) = edit_distance a b" by (rule Least_equality)
  with at show ?thesis by simp
qed


section \<open>Numbers in a title\<close>

definition u64_max :: nat where "u64_max = 2 ^ 64 - 1"

definition roman_numerals :: "(string \<times> nat) list" where
  "roman_numerals =
     [(''ii'', 2), (''iii'', 3), (''iv'', 4), (''vi'', 6), (''vii'', 7), (''viii'', 8), (''ix'', 9)]"

definition ordinals :: "(string \<times> nat) list" where
  "ordinals =
     [(''second'', 2), (''third'', 3), (''fourth'', 4), (''fifth'', 5), (''sixth'', 6),
      (''seventh'', 7), (''eighth'', 8), (''ninth'', 9), (''tenth'', 10)]"

definition number_word :: "utext \<Rightarrow> nat option" where
  "number_word token =
     map_option snd (find (\<lambda>wn. lit (fst wn) = token) (roman_numerals @ ordinals))"

definition to_digit :: "nat \<Rightarrow> nat option" where
  "to_digit c = (if 48 \<le> c \<and> c \<le> 57 then Some (c - 48) else None)"

definition saturate :: "nat \<Rightarrow> nat" where
  "saturate n = min n u64_max"

definition push_digit :: "nat option \<Rightarrow> nat \<Rightarrow> nat" where
  "push_digit current digit =
     saturate (saturate ((case current of None \<Rightarrow> 0 | Some acc \<Rightarrow> acc) * 10) + digit)"

definition opt_list :: "'a option \<Rightarrow> 'a list" where
  "opt_list x = (case x of None \<Rightarrow> [] | Some y \<Rightarrow> [y])"

definition scan_char :: "nat \<Rightarrow> nat list \<times> nat option \<Rightarrow> nat list \<times> nat option" where
  "scan_char c st =
     (case to_digit c of
        Some digit \<Rightarrow> (fst st, Some (push_digit (snd st) digit))
      | None \<Rightarrow> (fst st @ opt_list (snd st), None))"

definition scan_token :: "utext \<Rightarrow> nat list \<times> nat option \<Rightarrow> nat list \<times> nat option" where
  "scan_token token st =
     (case number_word token of
        Some value \<Rightarrow> (fst st @ opt_list (snd st) @ [value], None)
      | None \<Rightarrow> fold scan_char token st)"

definition numeric_signature :: "utext \<Rightarrow> nat list" where
  "numeric_signature normalized =
     (let st = fold scan_token (split_whitespace normalized) ([], None)
      in fst st @ opt_list (snd st))"

definition numbers_conflict :: "utext \<Rightarrow> utext list \<Rightarrow> bool" where
  "numbers_conflict query titles =
     (let signature = numeric_signature query
      in list_ex (\<lambda>t. numeric_signature t \<noteq> signature) titles)"

section \<open>Names and words\<close>

definition ratio_of :: "nat \<Rightarrow> nat \<Rightarrow> rat" where
  "ratio_of part whole = f32 (of_nat part / of_nat whole)"

text \<open>\<open>str::to_lowercase\<close> is a table of the Unicode standard, and a parameter.\<close>

definition name_set_overlap :: "(utext \<Rightarrow> utext) \<Rightarrow> utext list \<Rightarrow> utext list \<Rightarrow> rat option" where
  "name_set_overlap lower a b =
     (if a = [] \<or> b = [] then None
      else
        let sa = set (map lower a); sb = set (map lower b)
        in Some (ratio_of (card (sa \<inter> sb)) (card (sa \<union> sb))))"

definition shares_a_name :: "utext list \<Rightarrow> utext list \<Rightarrow> bool" where
  "shares_a_name a b = list_ex (\<lambda>x. list_ex (\<lambda>y. eq_ignore_ascii_case x y) b) a"

definition token_set_ratio :: "utext \<Rightarrow> utext \<Rightarrow> rat" where
  "token_set_ratio a b =
     (let sa = set (split_whitespace a); sb = set (split_whitespace b); union = card (sa \<union> sb)
      in if union = 0 then 0 else ratio_of (card (sa \<inter> sb)) union)"

definition is_token_subset :: "utext \<Rightarrow> utext \<Rightarrow> bool" where
  "is_token_subset needle haystack =
     (let sn = set (split_whitespace needle); sh = set (split_whitespace haystack)
      in if card sn < 2 then False else sn \<subseteq> sh)"

definition is_strict_token_subset :: "utext \<Rightarrow> utext \<Rightarrow> bool" where
  "is_strict_token_subset needle haystack =
     (let sn = set (split_whitespace needle); sh = set (split_whitespace haystack)
      in sn \<noteq> {} \<and> card sn < card sh \<and> sn \<subseteq> sh)"

section \<open>Editions and arcs\<close>

definition edition_markers :: "(string list \<times> string) list" where
  "edition_markers =
     [([''gaiden''], ''gaiden''),
      ([''side'', ''story''], ''side story''),
      ([''after'', ''story''], ''after story''),
      ([''extra''], ''extra''),
      ([''anthology''], ''anthology''),
      ([''4'', ''koma''], ''4koma''),
      ([''4koma''], ''4koma''),
      ([''yonkoma''], ''4koma''),
      ([''oneshot''], ''oneshot''),
      ([''one'', ''shot''], ''oneshot''),
      ([''pilot''], ''pilot''),
      ([''colored''], ''colored''),
      ([''coloured''], ''colored''),
      ([''remake''], ''remake''),
      ([''re''], ''re''),
      ([''zero''], ''zero''),
      ([''ova''], ''ova''),
      ([''movie''], ''movie''),
      ([''doujinshi''], ''doujinshi''),
      ([''part''], ''part''),
      ([''arc''], ''arc''),
      ([''season''], ''season'')]"

datatype marker = Word string | Arc utext | Letter utext

definition is_ascii_alphabetic :: "nat \<Rightarrow> bool" where
  "is_ascii_alphabetic c \<longleftrightarrow> (65 \<le> c \<and> c \<le> 90) \<or> (97 \<le> c \<and> c \<le> 122)"

definition markers_at :: "utext list \<Rightarrow> nat \<Rightarrow> marker list" where
  "markers_at tokens i =
     [Word (snd pm). pm \<leftarrow> edition_markers,
        take (length (fst pm)) (drop i tokens) = map lit (fst pm)] @
     (if tokens ! i = lit ''hen'' then [Arc (if i = 0 then [] else tokens ! (i - 1))] else [])"

definition letter_marker :: "utext list \<Rightarrow> marker list" where
  "letter_marker tokens =
     (if 1 < length tokens \<and> byte_len (last tokens) = 1 \<and> list_all is_ascii_alphabetic (last tokens)
      then [Letter (last tokens)] else [])"

definition markers :: "utext \<Rightarrow> marker set" where
  "markers normalized =
     (let tokens = split_whitespace normalized
      in set (concat (map (markers_at tokens) [0..<length tokens]) @ letter_marker tokens))"

definition editions_conflict :: "utext \<Rightarrow> utext \<Rightarrow> bool" where
  "editions_conflict a b \<longleftrightarrow> markers a \<noteq> markers b"

section \<open>Laws\<close>

lemma numbers_conflict_iff:
  "numbers_conflict q ts \<longleftrightarrow> (\<exists>t \<in> set ts. numeric_signature t \<noteq> numeric_signature q)"
  by (auto simp: numbers_conflict_def list_ex_iff)

lemma numbers_conflict_sym: "numbers_conflict a [b] = numbers_conflict b [a]"
  by (auto simp: numbers_conflict_iff)

lemma editions_conflict_sym: "editions_conflict a b = editions_conflict b a"
  by (auto simp: editions_conflict_def)

lemma f32_one [simp]: "f32 1 = 1"
  using fl_of_int [of 1 24] by simp

lemma f32_unit: "0 \<le> x \<Longrightarrow> x \<le> 1 \<Longrightarrow> 0 \<le> f32 x \<and> f32 x \<le> 1"
  using fl_mono [of 0 x 24] fl_mono [of x 1 24] f32_one by simp

lemma ratio_of_unit: "p \<le> w \<Longrightarrow> 0 \<le> ratio_of p w \<and> ratio_of p w \<le> 1"
  unfolding ratio_of_def by (intro f32_unit) (auto simp: divide_le_eq_1)

lemma card_Int_le_Un: "finite A \<Longrightarrow> finite B \<Longrightarrow> card (A \<inter> B) \<le> card (A \<union> B)"
  by (rule card_mono) auto

lemma token_set_ratio_unit: "0 \<le> token_set_ratio a b \<and> token_set_ratio a b \<le> 1"
  unfolding token_set_ratio_def Let_def
  using ratio_of_unit [OF card_Int_le_Un, of "set (split_whitespace a)" "set (split_whitespace b)"]
  by simp

lemma name_set_overlap_unit: "name_set_overlap L a b = Some r \<Longrightarrow> 0 \<le> r \<and> r \<le> 1"
  unfolding name_set_overlap_def Let_def
  using ratio_of_unit [OF card_Int_le_Un, of "set (map L a)" "set (map L b)"]
  by (auto split: if_splits)

lemma lev_le_max: "lev a b \<le> max (length a) (length b)"
  by (induction a b rule: lev.induct) auto

lemma lev_ge_gap: "length b \<le> lev a b + length a \<and> length a \<le> lev a b + length b"
  by (induction a b rule: lev.induct) auto

text \<open>
  The edit ratio is a number in the unit interval, and skipping a pair whose lengths are far apart
  loses nothing: the distance is at least the gap.
\<close>

lemma edit_distance_bounds:
  "edit_distance a b \<le> max (length a) (length b)"
  "max (length a) (length b) - min (length a) (length b) \<le> edit_distance a b"
  using lev_le_max [of "rev a" "rev b"] lev_ge_gap [where a = "rev a" and b = "rev b"]
  by (auto simp: edit_distance_lev)

lemma edit_ratio_unit: "0 \<le> edit_ratio a b \<and> edit_ratio a b \<le> 1"
proof -
  let ?d = "of_nat (edit_distance a b) / of_nat (max (length a) (length b)) :: rat"
  have "0 \<le> f32 ?d \<and> f32 ?d \<le> 1"
    using edit_distance_bounds(1) [of a b]
    by (intro f32_unit) (auto simp: divide_le_eq_1 simp flip: of_nat_max)
  then have "0 \<le> f32 (1 - f32 ?d) \<and> f32 (1 - f32 ?d) \<le> 1" by (intro f32_unit) auto
  then show ?thesis by (simp add: edit_ratio_def Let_def)
qed

lemma edit_ratio_short: "length a < min_edit_len \<Longrightarrow> edit_ratio a b = 0"
  by (auto simp: edit_ratio_def Let_def min_less_iff_disj)

end
