(* ===== verification/Match_Score.thy ===== *)
theory Match_Score
  imports Match_Similarity Domain_Enums
begin

text \<open>
  The scorer of the matcher, \<open>src/crates/matcher/src/title.rs\<close>, \<open>assess.rs\<close>, \<open>external.rs\<close> and the
  signals of \<open>src/crates/domain/src/matching.rs\<close>. A score is an \<open>f32\<close>: every sum and product is rounded
  to single precision. The scorer and its explanation are one function with a ledger that either
  collects the terms or discards them.
\<close>

section \<open>The two sides and the signals\<close>

type_synonym series_key = nat

record candidate =
  ca_series_id :: series_key
  ca_normalized_title :: utext
  ca_similarity :: rat
  ca_alt_normalized_titles :: "utext list"
  ca_source_titles :: "utext list"
  ca_content_type :: content_type
  ca_release_year :: "int option"
  ca_tags :: "utext list"
  ca_authors :: "utext list"

record match_query =
  qu_normalized_title :: utext
  qu_content_type :: content_type
  qu_release_year :: "int option"
  qu_tags :: "utext list"
  qu_authors :: "utext list"

record match_signals =
  exact_title :: bool
  compact_identity :: bool
  alias_identity :: bool
  near_identical :: bool
  containment :: bool
  type_agreement :: bool
  type_conflict :: bool
  year_agreement :: bool
  year_conflict :: bool
  shared_author :: bool
  author_conflict :: bool
  tag_overlap :: bool
  numeric_conflict :: bool
  source_title_identity :: bool
  edition_conflict :: bool
  external_id_agreement :: bool
  external_id_conflict :: bool
  live_timing_agreement :: bool
  live_timing_conflict :: bool

definition no_signals :: match_signals where
  "no_signals =
     \<lparr>exact_title = False, compact_identity = False, alias_identity = False, near_identical = False,
      containment = False, type_agreement = False, type_conflict = False, year_agreement = False,
      year_conflict = False, shared_author = False, author_conflict = False, tag_overlap = False,
      numeric_conflict = False, source_title_identity = False, edition_conflict = False,
      external_id_agreement = False, external_id_conflict = False, live_timing_agreement = False,
      live_timing_conflict = False\<rparr>"

definition is_primary_identity :: "match_signals \<Rightarrow> bool" where
  "is_primary_identity s \<longleftrightarrow> exact_title s \<or> compact_identity s \<or> source_title_identity s"

definition is_corroborated_alias :: "match_signals \<Rightarrow> bool" where
  "is_corroborated_alias s \<longleftrightarrow>
     alias_identity s \<and> (external_id_agreement s \<or> live_timing_agreement s)"

definition signal_table :: "((match_signals \<Rightarrow> bool) \<times> string) list" where
  "signal_table =
     [(exact_title, ''exact_title''), (compact_identity, ''compact_identity''),
      (alias_identity, ''alias_identity''), (near_identical, ''near_identical''),
      (containment, ''containment''), (type_agreement, ''type_agreement''),
      (type_conflict, ''type_conflict''), (year_agreement, ''year_agreement''),
      (year_conflict, ''year_conflict''), (shared_author, ''shared_author''),
      (author_conflict, ''author_conflict''), (tag_overlap, ''tag_overlap''),
      (numeric_conflict, ''numeric_conflict''),
      (source_title_identity, ''source_title_identity''),
      (edition_conflict, ''edition_conflict''),
      (external_id_agreement, ''external_id_agreement''),
      (external_id_conflict, ''external_id_conflict''),
      (live_timing_agreement, ''live_timing_agreement''),
      (live_timing_conflict, ''live_timing_conflict'')]"

definition labels :: "match_signals \<Rightarrow> string list" where
  "labels s = [snd rule. rule \<leftarrow> signal_table, fst rule s]"

section \<open>The best of the candidate's titles\<close>

datatype title_kind = Canonical | Source | Alias

record title_match =
  tm_ratio :: rat
  tm_edit_ratio :: rat
  tm_exact :: bool
  tm_compact_equal :: bool
  tm_containment :: bool
  tm_via_alias :: bool
  tm_via_source :: bool
  tm_primary_ratio :: rat
  tm_matched :: utext

definition no_match :: "utext \<Rightarrow> title_match" where
  "no_match title =
     \<lparr>tm_ratio = 0, tm_edit_ratio = 0, tm_exact = False, tm_compact_equal = False,
      tm_containment = False, tm_via_alias = False, tm_via_source = False, tm_primary_ratio = 0,
      tm_matched = title\<rparr>"

definition candidate_titles :: "candidate \<Rightarrow> (utext \<times> title_kind) list" where
  "candidate_titles c =
     (ca_normalized_title c, Canonical) # map (\<lambda>t. (t, Source)) (ca_source_titles c) @
     map (\<lambda>t. (t, Alias)) (ca_alt_normalized_titles c)"

definition same_title :: "utext \<Rightarrow> utext \<Rightarrow> bool" where
  "same_title query title \<longleftrightarrow> query \<noteq> [] \<and> query = title"

definition title_edit :: "utext \<Rightarrow> utext \<Rightarrow> utext \<Rightarrow> rat" where
  "title_edit query query_compact title =
     (if same_title query title \<or> same_title query_compact (compact_key title) then 1
      else edit_ratio query_compact (compact_key title))"

definition title_ratio :: "utext \<Rightarrow> utext \<Rightarrow> utext \<Rightarrow> rat" where
  "title_ratio query query_compact title =
     (if same_title query title \<or> same_title query_compact (compact_key title) then 1
      else max (token_set_ratio query title) (title_edit query query_compact title))"

definition match_title ::
  "utext \<Rightarrow> utext \<Rightarrow> utext \<times> title_kind \<Rightarrow> title_match \<Rightarrow> title_match" where
  "match_title query query_compact titled best =
     (let title = fst titled; kind = snd titled;
          ratio = title_ratio query query_compact title;
          best1 = (if kind \<noteq> Alias then best\<lparr>tm_primary_ratio := max (tm_primary_ratio best) ratio\<rparr>
                   else best);
          best2 = (if tm_ratio best1 < ratio
                   then best1\<lparr>tm_ratio := ratio,
                              tm_edit_ratio := title_edit query query_compact title,
                              tm_exact := same_title query title,
                              tm_compact_equal := same_title query_compact (compact_key title),
                              tm_via_alias := (kind = Alias), tm_via_source := (kind = Source),
                              tm_matched := title\<rparr>
                   else best1)
      in best2\<lparr>tm_containment :=
           tm_containment best2 \<or> is_token_subset query title \<or> is_token_subset title query\<rparr>)"

definition best_title_match :: "utext \<Rightarrow> utext \<Rightarrow> candidate \<Rightarrow> title_match" where
  "best_title_match query query_compact c =
     fold (match_title query query_compact) (candidate_titles c) (no_match (ca_normalized_title c))"

section \<open>The scorer\<close>

definition alias_evidence_weight :: rat where "alias_evidence_weight = 0.75"

definition numeric_conflict_penalty :: rat where "numeric_conflict_penalty = f32 0.3"

definition max_franchise_words :: nat where "max_franchise_words = 4"

definition is_franchise_name :: "utext \<Rightarrow> utext \<Rightarrow> bool" where
  "is_franchise_name alias canonical \<longleftrightarrow>
     length (split_whitespace alias) \<le> max_franchise_words \<and> is_strict_token_subset alias canonical"

definition alias_counts_as_identity :: "utext \<Rightarrow> utext list \<Rightarrow> bool" where
  "alias_counts_as_identity alias canonicals \<longleftrightarrow>
     alias_is_distinctive alias \<and> \<not> list_ex (is_franchise_name alias) canonicals"

text \<open>
  The ledger either collects the terms of a score or discards them. A term is its rule and its
  delta; the phrase that explains it to an operator is left out.
\<close>

type_synonym score_term = "string \<times> rat"
type_synonym ledger = "score_term list option"

definition ledger_term :: "string \<Rightarrow> rat \<Rightarrow> ledger \<Rightarrow> ledger" where
  "ledger_term rule delta = map_option (\<lambda>ts. ts @ [(rule, delta)])"

definition ledger_term_if :: "bool \<Rightarrow> string \<Rightarrow> rat \<Rightarrow> ledger \<Rightarrow> ledger" where
  "ledger_term_if fired rule delta l = (if fired then ledger_term rule delta l else l)"

definition title_signals :: "match_query \<Rightarrow> candidate \<Rightarrow> title_match \<Rightarrow> match_signals" where
  "title_signals q c tm =
     (let canonical_hit = (\<not> tm_via_alias tm \<and> \<not> tm_via_source tm);
          identical = (tm_exact tm \<or> tm_compact_equal tm);
          alias_hit = (identical \<and> tm_via_alias tm);
          own_titles = [tm_matched tm, ca_normalized_title c]
      in no_signals
        \<lparr>exact_title := tm_exact tm \<and> canonical_hit,
         compact_identity := tm_compact_equal tm \<and> canonical_hit,
         source_title_identity := identical \<and> tm_via_source tm,
         alias_identity := alias_hit \<and> alias_counts_as_identity (tm_matched tm) [ca_normalized_title c],
         near_identical := \<not> tm_exact tm \<and> \<not> tm_compact_equal tm \<and> f32 0.9 \<le> tm_edit_ratio tm,
         containment := tm_containment tm \<or>
           (alias_hit \<and> is_franchise_name (tm_matched tm) (ca_normalized_title c)),
         numeric_conflict := numbers_conflict (qu_normalized_title q) own_titles,
         edition_conflict := list_ex (editions_conflict (qu_normalized_title q)) own_titles\<rparr>)"

definition base_similarity :: "candidate \<Rightarrow> title_match \<Rightarrow> ledger \<Rightarrow> rat \<times> ledger" where
  "base_similarity c tm l =
     (let textual = max (ca_similarity c) (tm_ratio tm);
          base = (if tm_via_alias tm
                  then max (f32 (textual * alias_evidence_weight)) (tm_primary_ratio tm) else textual)
      in (base, ledger_term ''base_similarity'' base l))"

definition i32_min :: int where "i32_min = - (2 ^ 31)"
definition i32_max :: int where "i32_max = 2 ^ 31 - 1"

definition saturating_gap :: "int \<Rightarrow> int \<Rightarrow> int" where
  "saturating_gap a b =
     (let d = clamp_to i32_min i32_max (a - b) in clamp_to i32_min i32_max \<bar>d\<bar>)"

definition record_type :: "match_query \<Rightarrow> candidate \<Rightarrow> match_signals \<times> ledger \<Rightarrow> match_signals \<times> ledger" where
  "record_type q c sl =
     (if qu_content_type q \<noteq> content_type.Unknown \<and> ca_content_type c \<noteq> content_type.Unknown then
        if qu_content_type q = ca_content_type c
        then ((fst sl)\<lparr>type_agreement := True\<rparr>, ledger_term ''type_agreement'' 0 (snd sl))
        else ((fst sl)\<lparr>type_conflict := True\<rparr>, ledger_term ''type_conflict'' 0 (snd sl))
      else sl)"

definition record_year :: "match_query \<Rightarrow> candidate \<Rightarrow> match_signals \<times> ledger \<Rightarrow> match_signals \<times> ledger" where
  "record_year q c sl =
     (case (qu_release_year q, ca_release_year c) of
        (Some a, Some b) \<Rightarrow>
          (let gap = saturating_gap a b
           in if gap \<le> 1 then ((fst sl)\<lparr>year_agreement := True\<rparr>, ledger_term ''year_agreement'' 0 (snd sl))
              else if 3 \<le> gap then ((fst sl)\<lparr>year_conflict := True\<rparr>, ledger_term ''year_conflict'' 0 (snd sl))
              else sl)
      | _ \<Rightarrow> sl)"

definition record_medium_and_year ::
  "match_query \<Rightarrow> candidate \<Rightarrow> match_signals \<times> ledger \<Rightarrow> match_signals \<times> ledger" where
  "record_medium_and_year q c sl = record_year q c (record_type q c sl)"

definition title_bonus :: "title_match \<Rightarrow> ledger \<Rightarrow> rat \<times> ledger" where
  "title_bonus tm l =
     (if tm_exact tm \<or> tm_compact_equal tm then
        (let bonus = (if tm_via_alias tm then f32 0.05 else f32 0.1)
         in (bonus, ledger_term ''title_identity'' bonus l))
      else if tm_containment tm then (f32 0.05, ledger_term ''containment'' (f32 0.05) l)
      else (0, l))"

definition record_tags_and_credits ::
  "(utext \<Rightarrow> utext) \<Rightarrow> match_query \<Rightarrow> candidate \<Rightarrow> match_signals \<times> ledger \<Rightarrow> match_signals \<times> ledger" where
  "record_tags_and_credits lower q c sl =
     (let sl1 = (case name_set_overlap lower (qu_tags q) (ca_tags c) of
                   Some overlap \<Rightarrow>
                     ((fst sl)\<lparr>tag_overlap := (0 < overlap)\<rparr>, ledger_term ''tag_overlap'' 0 (snd sl))
                 | None \<Rightarrow> sl)
      in if shares_a_name (qu_authors q) (ca_authors c)
         then ((fst sl1)\<lparr>shared_author := True\<rparr>, ledger_term ''shared_author'' 0 (snd sl1))
         else if qu_authors q \<noteq> [] \<and> ca_authors c \<noteq> []
         then ((fst sl1)\<lparr>author_conflict := True\<rparr>, ledger_term ''author_conflict'' 0 (snd sl1))
         else sl1)"

definition record_conflicts :: "match_signals \<Rightarrow> ledger \<Rightarrow> bool \<times> ledger" where
  "record_conflicts s l =
     (numeric_conflict s,
      ledger_term_if (numeric_conflict s) ''numeric_conflict'' (- numeric_conflict_penalty)
        (ledger_term_if (edition_conflict s) ''edition_conflict'' 0 l))"

record assessment =
  as_score :: rat
  as_signals :: match_signals

record scored =
  sc_assessment :: assessment
  sc_base :: rat
  sc_matched :: utext
  sc_via_alias :: bool

definition assess_with :: "(utext \<Rightarrow> utext) \<Rightarrow> match_query \<Rightarrow> candidate \<Rightarrow> ledger \<Rightarrow> scored \<times> ledger" where
  "assess_with lower q c l0 =
     (let query_compact = compact_key (qu_normalized_title q);
          tm = best_title_match (qu_normalized_title q) query_compact c;
          signals0 = title_signals q c tm;
          (base, l1) = base_similarity c tm l0;
          (signals1, l2) = record_medium_and_year q c (signals0, l1);
          (bonus, l3) = title_bonus tm l2;
          s1 = f32 (base + bonus);
          (signals2, l4) = record_tags_and_credits lower q c (signals1, l3);
          (conflict, l5) = record_conflicts signals2 l4;
          s2 = (if conflict then f32 (s1 - numeric_conflict_penalty) else s1)
      in (\<lparr>sc_assessment = \<lparr>as_score = clamp_to 0 1 s2, as_signals = signals2\<rparr>, sc_base = base,
            sc_matched = tm_matched tm, sc_via_alias = tm_via_alias tm\<rparr>, l5))"

definition assess :: "(utext \<Rightarrow> utext) \<Rightarrow> match_query \<Rightarrow> candidate \<Rightarrow> assessment" where
  "assess lower q c = sc_assessment (fst (assess_with lower q c None))"

definition score :: "(utext \<Rightarrow> utext) \<Rightarrow> match_query \<Rightarrow> candidate \<Rightarrow> rat" where
  "score lower q c = as_score (assess lower q c)"

record explanation =
  ex_assessment :: assessment
  ex_base :: rat
  ex_terms :: "score_term list"
  ex_matched_query_title :: utext
  ex_matched_candidate_title :: utext
  ex_via_alias :: bool

definition explain :: "(utext \<Rightarrow> utext) \<Rightarrow> match_query \<Rightarrow> candidate \<Rightarrow> explanation" where
  "explain lower q c =
     (let (sc, l) = assess_with lower q c (Some [])
      in \<lparr>ex_assessment = sc_assessment sc, ex_base = sc_base sc,
          ex_terms = (case l of None \<Rightarrow> [] | Some ts \<Rightarrow> ts),
          ex_matched_query_title = qu_normalized_title q, ex_matched_candidate_title = sc_matched sc,
          ex_via_alias = sc_via_alias sc\<rparr>)"

section \<open>A record of an external catalogue\<close>

definition titles_identify ::
  "unicode \<Rightarrow> (utext \<Rightarrow> utext) \<Rightarrow> utext \<Rightarrow> utext list \<Rightarrow> utext list \<Rightarrow> bool" where
  "titles_identify U lower normalized_title listing_titles remote_titles =
     (let local = \<lparr>ca_series_id = 0, ca_normalized_title = normalized_title, ca_similarity = 0,
                   ca_alt_normalized_titles = [], ca_source_titles = listing_titles,
                   ca_content_type = content_type.Unknown, ca_release_year = None, ca_tags = [],
                   ca_authors = []\<rparr>
      in list_ex (\<lambda>title.
           let normalized = normalize_title U title
           in normalized \<noteq> [] \<and>
              is_primary_identity (as_signals (assess lower
                \<lparr>qu_normalized_title = normalized, qu_content_type = content_type.Unknown,
                 qu_release_year = None, qu_tags = [], qu_authors = []\<rparr> local))) remote_titles)"


section \<open>What the winning title says\<close>

definition match_kind :: "title_match \<Rightarrow> title_kind" where
  "match_kind tm = (if tm_via_alias tm then Alias else if tm_via_source tm then Source else Canonical)"

definition match_ok :: "utext \<Rightarrow> candidate \<Rightarrow> title_match \<Rightarrow> bool" where
  "match_ok query c tm \<longleftrightarrow>
     (tm_exact tm \<or> tm_compact_equal tm \<longrightarrow> compact_key (tm_matched tm) = compact_key query) \<and>
     (tm_matched tm, match_kind tm) \<in> set (candidate_titles c) \<and>
     0 \<le> tm_ratio tm \<and> tm_ratio tm \<le> 1 \<and> 0 \<le> tm_primary_ratio tm \<and> tm_primary_ratio tm \<le> 1 \<and>
     f32 (tm_ratio tm) = tm_ratio tm \<and> f32 (tm_primary_ratio tm) = tm_primary_ratio tm \<and>
     \<not> (tm_via_alias tm \<and> tm_via_source tm)"

lemma match_title_fields:
  fixes query qc title kind best
  defines "new \<equiv> match_title query qc (title, kind) best"
    and "better \<equiv> tm_ratio best < title_ratio query qc title"
  shows "tm_ratio new = (if better then title_ratio query qc title else tm_ratio best)"
    and "tm_exact new = (if better then same_title query title else tm_exact best)"
    and "tm_compact_equal new = (if better then same_title qc (compact_key title) else tm_compact_equal best)"
    and "tm_via_alias new = (if better then kind = Alias else tm_via_alias best)"
    and "tm_via_source new = (if better then kind = Source else tm_via_source best)"
    and "tm_matched new = (if better then title else tm_matched best)"
    and "tm_primary_ratio new = (if kind = Alias then tm_primary_ratio best
           else max (tm_primary_ratio best) (title_ratio query qc title))"
  by (simp_all add: new_def better_def match_title_def Let_def)

lemma title_ratio_unit: "0 \<le> title_ratio q qc t \<and> title_ratio q qc t \<le> 1"
  using token_set_ratio_unit [of q t] edit_ratio_unit [of qc "compact_key t"]
  by (auto simp: title_ratio_def title_edit_def max_def)

lemma f32_token_ratio: "f32 (token_set_ratio a b) = token_set_ratio a b"
  by (simp add: token_set_ratio_def ratio_of_def Let_def)

lemma f32_edit_ratio: "f32 (edit_ratio a b) = edit_ratio a b"
  by (simp add: edit_ratio_def Let_def)

lemma title_ratio_f32: "f32 (title_ratio q qc t) = title_ratio q qc t"
  by (simp add: title_ratio_def title_edit_def max_def f32_token_ratio f32_edit_ratio)

lemma same_title_compact:
  "same_title q t \<or> same_title (compact_key q) (compact_key t) \<Longrightarrow> compact_key t = compact_key q"
  by (auto simp: same_title_def)

lemma match_title_ok:
  assumes ok: "match_ok query c best" and "titled \<in> set (candidate_titles c)"
  shows "match_ok query c (match_title query (compact_key query) titled best)"
proof -
  obtain title kind where t: "titled = (title, kind)" by (cases titled)
  let ?new = "match_title query (compact_key query) (title, kind) best"
  have mem: "(title, kind) \<in> set (candidate_titles c)" using assms(2) t by simp
  have unit: "0 \<le> tm_ratio ?new \<and> tm_ratio ?new \<le> 1 \<and>
      0 \<le> tm_primary_ratio ?new \<and> tm_primary_ratio ?new \<le> 1 \<and>
      f32 (tm_ratio ?new) = tm_ratio ?new \<and> f32 (tm_primary_ratio ?new) = tm_primary_ratio ?new"
    using ok title_ratio_unit [of query "compact_key query" title]
      title_ratio_f32 [of query "compact_key query" title]
    unfolding match_ok_def match_title_fields by (simp add: max_def)
  show ?thesis
  proof (cases "tm_ratio best < title_ratio query (compact_key query) title")
    case True
    then have "tm_exact ?new \<or> tm_compact_equal ?new \<longrightarrow> compact_key (tm_matched ?new) = compact_key query"
      using same_title_compact by (simp add: match_title_fields)
    moreover have "(tm_matched ?new, match_kind ?new) \<in> set (candidate_titles c)"
      using True mem by (cases kind) (simp_all add: match_title_fields match_kind_def)
    moreover have "\<not> (tm_via_alias ?new \<and> tm_via_source ?new)"
      using True by (simp add: match_title_fields)
    ultimately show ?thesis unfolding t match_ok_def using unit by blast
  next
    case False
    then have "match_kind ?new = match_kind best" by (simp add: match_kind_def match_title_fields)
    then show ?thesis using False ok unit unfolding t match_ok_def by (simp add: match_title_fields)
  qed
qed

lemma match_fold_ok:
  "match_ok query c best \<Longrightarrow> set ts \<subseteq> set (candidate_titles c) \<Longrightarrow>
     match_ok query c (fold (match_title query (compact_key query)) ts best)"
  by (induction ts arbitrary: best) (auto simp: match_title_ok)

lemma best_title_match_ok: "match_ok query c (best_title_match query (compact_key query) c)"
  unfolding best_title_match_def
  by (rule match_fold_ok) (auto simp: match_ok_def no_match_def match_kind_def candidate_titles_def)

section \<open>The signals of an assessment\<close>

definition scored_match :: "match_query \<Rightarrow> candidate \<Rightarrow> title_match" where
  "scored_match q c = best_title_match (qu_normalized_title q) (compact_key (qu_normalized_title q)) c"

lemma record_medium_frame [simp]:
  "exact_title (fst (record_medium_and_year q c sl)) = exact_title (fst sl)"
  "compact_identity (fst (record_medium_and_year q c sl)) = compact_identity (fst sl)"
  "alias_identity (fst (record_medium_and_year q c sl)) = alias_identity (fst sl)"
  "source_title_identity (fst (record_medium_and_year q c sl)) = source_title_identity (fst sl)"
  "numeric_conflict (fst (record_medium_and_year q c sl)) = numeric_conflict (fst sl)"
  "edition_conflict (fst (record_medium_and_year q c sl)) = edition_conflict (fst sl)"
  "external_id_agreement (fst (record_medium_and_year q c sl)) = external_id_agreement (fst sl)"
  "external_id_conflict (fst (record_medium_and_year q c sl)) = external_id_conflict (fst sl)"
  "live_timing_agreement (fst (record_medium_and_year q c sl)) = live_timing_agreement (fst sl)"
  "live_timing_conflict (fst (record_medium_and_year q c sl)) = live_timing_conflict (fst sl)"
  by (simp_all add: record_medium_and_year_def record_type_def record_year_def Let_def split: option.splits)

lemma record_tags_frame [simp]:
  "exact_title (fst (record_tags_and_credits L q c sl)) = exact_title (fst sl)"
  "compact_identity (fst (record_tags_and_credits L q c sl)) = compact_identity (fst sl)"
  "alias_identity (fst (record_tags_and_credits L q c sl)) = alias_identity (fst sl)"
  "source_title_identity (fst (record_tags_and_credits L q c sl)) = source_title_identity (fst sl)"
  "numeric_conflict (fst (record_tags_and_credits L q c sl)) = numeric_conflict (fst sl)"
  "edition_conflict (fst (record_tags_and_credits L q c sl)) = edition_conflict (fst sl)"
  "external_id_agreement (fst (record_tags_and_credits L q c sl)) = external_id_agreement (fst sl)"
  "external_id_conflict (fst (record_tags_and_credits L q c sl)) = external_id_conflict (fst sl)"
  "live_timing_agreement (fst (record_tags_and_credits L q c sl)) = live_timing_agreement (fst sl)"
  "live_timing_conflict (fst (record_tags_and_credits L q c sl)) = live_timing_conflict (fst sl)"
  by (simp_all add: record_tags_and_credits_def Let_def split: option.splits)

lemma record_medium_signals:
  "fst (record_medium_and_year q c (s, l)) = fst (record_medium_and_year q c (s, None))"
  by (simp add: record_medium_and_year_def record_type_def record_year_def Let_def split: option.splits)

lemma record_tags_signals:
  "fst (record_tags_and_credits L q c (s, l)) = fst (record_tags_and_credits L q c (s, None))"
  by (simp add: record_tags_and_credits_def Let_def split: option.splits)

lemma fst_title_bonus: "fst (title_bonus tm l) = fst (title_bonus tm None)"
  by (simp add: title_bonus_def Let_def)

lemma fst_base_similarity: "fst (base_similarity c tm l) = fst (base_similarity c tm None)"
  by (simp add: base_similarity_def Let_def)

definition signals_of :: "(utext \<Rightarrow> utext) \<Rightarrow> match_query \<Rightarrow> candidate \<Rightarrow> match_signals" where
  "signals_of L q c = fst (record_tags_and_credits L q c
     (fst (record_medium_and_year q c (title_signals q c (scored_match q c), None)), None))"

definition base_of :: "match_query \<Rightarrow> candidate \<Rightarrow> rat" where
  "base_of q c = fst (base_similarity c (scored_match q c) None)"

definition bonus_of :: "match_query \<Rightarrow> candidate \<Rightarrow> rat" where
  "bonus_of q c = fst (title_bonus (scored_match q c) None)"

definition raw_score :: "match_query \<Rightarrow> candidate \<Rightarrow> bool \<Rightarrow> rat" where
  "raw_score q c conflict =
     (let s = f32 (base_of q c + bonus_of q c)
      in if conflict then f32 (s - numeric_conflict_penalty) else s)"

text \<open>The result of the scorer, whatever the ledger does.\<close>

lemma assess_with_result:
  "fst (assess_with L q c l) =
     \<lparr>sc_assessment = \<lparr>as_score = clamp_to 0 1 (raw_score q c (numeric_conflict (signals_of L q c))),
        as_signals = signals_of L q c\<rparr>,
      sc_base = base_of q c, sc_matched = tm_matched (scored_match q c),
      sc_via_alias = tm_via_alias (scored_match q c)\<rparr>"
proof -
  let ?tm = "scored_match q c"
  obtain base l1 where b: "base_similarity c ?tm l = (base, l1)" by fastforce
  obtain s1 l2 where m: "record_medium_and_year q c (title_signals q c ?tm, l1) = (s1, l2)" by fastforce
  obtain bonus l3 where t: "title_bonus ?tm l2 = (bonus, l3)" by fastforce
  obtain s2 l4 where r: "record_tags_and_credits L q c (s1, l3) = (s2, l4)" by fastforce
  have "base = base_of q c" using fst_base_similarity [of c ?tm l] b by (simp add: base_of_def)
  moreover have "bonus = bonus_of q c" using fst_title_bonus [of ?tm l2] t by (simp add: bonus_of_def)
  moreover have "s2 = signals_of L q c"
    using record_tags_signals [of L q c s1 l3] record_medium_signals [of q c "title_signals q c ?tm" l1] r m
    by (simp add: signals_of_def)
  ultimately show ?thesis
    by (simp add: assess_with_def scored_match_def [symmetric] b m t r record_conflicts_def raw_score_def Let_def)
qed

lemma assess_eq:
  "assess L q c = \<lparr>as_score = clamp_to 0 1 (raw_score q c (numeric_conflict (signals_of L q c))),
     as_signals = signals_of L q c\<rparr>"
  by (simp add: assess_def assess_with_result)

lemma signals_of_titles [simp]:
  "exact_title (signals_of L q c) = exact_title (title_signals q c (scored_match q c))"
  "compact_identity (signals_of L q c) = compact_identity (title_signals q c (scored_match q c))"
  "alias_identity (signals_of L q c) = alias_identity (title_signals q c (scored_match q c))"
  "source_title_identity (signals_of L q c) = source_title_identity (title_signals q c (scored_match q c))"
  "numeric_conflict (signals_of L q c) = numeric_conflict (title_signals q c (scored_match q c))"
  "edition_conflict (signals_of L q c) = edition_conflict (title_signals q c (scored_match q c))"
  "\<not> external_id_agreement (signals_of L q c)"
  "\<not> external_id_conflict (signals_of L q c)"
  "\<not> live_timing_agreement (signals_of L q c)"
  "\<not> live_timing_conflict (signals_of L q c)"
  by (simp_all add: signals_of_def title_signals_def no_signals_def Let_def)

lemma score_unit: "0 \<le> as_score (assess L q c) \<and> as_score (assess L q c) \<le> 1"
  by (simp add: assess_eq clamp_to_bounds)

section \<open>What an identity means\<close>


lemma scored_match_ok: "match_ok (qu_normalized_title q) c (scored_match q c)"
  unfolding scored_match_def by (rule best_title_match_ok)

lemma in_candidate_titles:
  "(t, Canonical) \<in> set (candidate_titles c) \<longleftrightarrow> t = ca_normalized_title c"
  "(t, Source) \<in> set (candidate_titles c) \<longleftrightarrow> t \<in> set (ca_source_titles c)"
  "(t, Alias) \<in> set (candidate_titles c) \<longleftrightarrow> t \<in> set (ca_alt_normalized_titles c)"
  by (auto simp: candidate_titles_def)

text \<open>A primary identity is a primary title that is the same string, spaces aside.\<close>

lemma primary_identity_title:
  assumes "is_primary_identity (as_signals (assess L q c))"
  shows "\<exists>t \<in> set (ca_normalized_title c # ca_source_titles c).
    compact_key t = compact_key (qu_normalized_title q)"
proof -
  let ?tm = "scored_match q c"
  have hit: "(tm_exact ?tm \<or> tm_compact_equal ?tm) \<and> (\<not> tm_via_alias ?tm \<or> tm_via_source ?tm)"
    using assms by (auto simp: is_primary_identity_def assess_eq title_signals_def Let_def)
  then have "match_kind ?tm \<noteq> Alias" "compact_key (tm_matched ?tm) = compact_key (qu_normalized_title q)"
    and "(tm_matched ?tm, match_kind ?tm) \<in> set (candidate_titles c)"
    using scored_match_ok [of q c] by (auto simp: match_ok_def match_kind_def)
  then show ?thesis by (cases "match_kind ?tm") (auto simp: in_candidate_titles)
qed

lemma exact_identity_canonical:
  assumes "exact_title (as_signals (assess L q c)) \<or> compact_identity (as_signals (assess L q c))"
  shows "compact_key (ca_normalized_title c) = compact_key (qu_normalized_title q)"
proof -
  let ?tm = "scored_match q c"
  have hit: "(tm_exact ?tm \<or> tm_compact_equal ?tm) \<and> match_kind ?tm = Canonical"
    using assms by (auto simp: assess_eq title_signals_def match_kind_def Let_def)
  then show ?thesis
    using scored_match_ok [of q c] by (auto simp: match_ok_def in_candidate_titles)
qed

lemma alias_identity_title:
  assumes "alias_identity (as_signals (assess L q c))"
  shows "\<exists>t \<in> set (ca_alt_normalized_titles c).
    compact_key t = compact_key (qu_normalized_title q) \<and> alias_is_distinctive t \<and>
    \<not> is_franchise_name t (ca_normalized_title c)"
proof -
  let ?tm = "scored_match q c"
  have "(tm_exact ?tm \<or> tm_compact_equal ?tm) \<and> match_kind ?tm = Alias \<and>
      alias_counts_as_identity (tm_matched ?tm) [ca_normalized_title c]"
    using assms by (auto simp: assess_eq title_signals_def match_kind_def Let_def)
  then show ?thesis
    using scored_match_ok [of q c]
    by (auto simp: match_ok_def in_candidate_titles alias_counts_as_identity_def)
qed

lemma agreeing_numbers:
  assumes "\<not> numeric_conflict (as_signals (assess L q c))"
  shows "numeric_signature (ca_normalized_title c) = numeric_signature (qu_normalized_title q)"
  using assms by (simp add: assess_eq title_signals_def Let_def numbers_conflict_iff)

lemma agreeing_markers:
  assumes "\<not> edition_conflict (as_signals (assess L q c))"
  shows "markers (ca_normalized_title c) = markers (qu_normalized_title q)"
  using assms by (simp add: assess_eq title_signals_def Let_def editions_conflict_def)

section \<open>The itemised account\<close>

definition running :: "rat \<Rightarrow> score_term list \<Rightarrow> rat" where
  "running = foldl (\<lambda>s t. f32 (s + snd t))"

lemma running_simps [simp]:
  "running s [] = s"
  "running s (t # ts) = running (f32 (s + snd t)) ts"
  "running s (ts @ us) = running (running s ts) us"
  by (simp_all add: running_def)

lemma running_zero: "f32 s = s \<Longrightarrow> \<forall>t \<in> set ts. snd t = 0 \<Longrightarrow> running s ts = s"
  by (induction ts) auto

definition posts :: "rat \<Rightarrow> rat \<Rightarrow> ledger \<Rightarrow> ledger \<Rightarrow> bool" where
  "posts s s' l l' \<longleftrightarrow> (\<forall>ts. l = Some ts \<longrightarrow> (\<exists>us. l' = Some (ts @ us) \<and> running s us = s'))"

lemma posts_trans: "posts s s' l l' \<Longrightarrow> posts s' s'' l' l'' \<Longrightarrow> posts s s'' l l''"
  by (fastforce simp: posts_def)

lemma posts_refl: "posts s s l l"
  by (simp add: posts_def)

lemma posts_term: "posts s (f32 (s + d)) l (ledger_term r d l)"
  by (auto simp: posts_def ledger_term_def)

lemma posts_zero: "f32 s = s \<Longrightarrow> posts s s l (ledger_term r 0 l)"
  using posts_term [of s 0 l r] by simp

lemma posts_medium: "f32 s = s \<Longrightarrow> posts s s (snd sl) (snd (record_medium_and_year q c sl))"
  unfolding record_medium_and_year_def record_type_def record_year_def Let_def
  by (auto split: option.splits intro: posts_refl posts_zero posts_trans [OF posts_zero posts_zero])

lemma posts_tags: "f32 s = s \<Longrightarrow> posts s s (snd sl) (snd (record_tags_and_credits L q c sl))"
  unfolding record_tags_and_credits_def Let_def
  by (auto split: option.splits intro: posts_refl posts_zero posts_trans [OF posts_zero posts_zero])

lemma posts_bonus:
  "f32 s = s \<Longrightarrow> posts s (f32 (s + fst (title_bonus tm l))) l (snd (title_bonus tm l))"
  by (auto simp: title_bonus_def Let_def posts_refl intro: posts_term)

lemma posts_conflicts:
  "f32 s = s \<Longrightarrow>
     posts s (if numeric_conflict sg then f32 (s - numeric_conflict_penalty) else s) l
       (snd (record_conflicts sg l))"
  using posts_term [of s "- numeric_conflict_penalty"]
  by (auto simp: record_conflicts_def ledger_term_if_def
      intro: posts_refl posts_zero posts_trans [OF posts_zero])

lemma posts_base:
  assumes "f32 (ca_similarity c) = ca_similarity c"
  shows "posts 0 (base_of q c) l (snd (base_similarity c (scored_match q c) l))"
    and "f32 (base_of q c) = base_of q c"
proof -
  have r: "f32 (tm_ratio (scored_match q c)) = tm_ratio (scored_match q c)"
      "f32 (tm_primary_ratio (scored_match q c)) = tm_primary_ratio (scored_match q c)"
    using scored_match_ok [of q c] by (simp_all add: match_ok_def)
  show f: "f32 (base_of q c) = base_of q c"
    by (simp add: base_of_def base_similarity_def Let_def max_def r assms)
  have "snd (base_similarity c (scored_match q c) l) = ledger_term ''base_similarity'' (base_of q c) l"
    by (simp add: base_of_def base_similarity_def Let_def)
  then show "posts 0 (base_of q c) l (snd (base_similarity c (scored_match q c) l))"
    using posts_term [of 0 "base_of q c" l] f by simp
qed

lemma assess_with_posts:
  assumes "f32 (ca_similarity c) = ca_similarity c"
  shows "posts 0 (raw_score q c (numeric_conflict (signals_of L q c))) l (snd (assess_with L q c l))"
proof -
  let ?tm = "scored_match q c"
  obtain base l1 where b: "base_similarity c ?tm l = (base, l1)" by fastforce
  obtain s1 l2 where m: "record_medium_and_year q c (title_signals q c ?tm, l1) = (s1, l2)" by fastforce
  obtain bonus l3 where t: "title_bonus ?tm l2 = (bonus, l3)" by fastforce
  obtain s2 l4 where r: "record_tags_and_credits L q c (s1, l3) = (s2, l4)" by fastforce
  have s2: "s2 = signals_of L q c"
    using record_tags_signals [of L q c s1 l3] record_medium_signals [of q c "title_signals q c ?tm" l1] r m
    by (simp add: signals_of_def)
  have bonus: "bonus = bonus_of q c" using fst_title_bonus [of ?tm l2] t by (simp add: bonus_of_def)
  let ?s = "f32 (base_of q c + bonus)"
  have "posts 0 (base_of q c) l l1" using posts_base(1) [OF assms, of q l] b by simp
  moreover have "posts (base_of q c) (base_of q c) l1 l2"
    using posts_medium [OF posts_base(2) [OF assms], of q "(title_signals q c ?tm, l1)" q c] m by simp
  moreover have "posts (base_of q c) ?s l2 l3"
    using posts_bonus [OF posts_base(2) [OF assms], of q ?tm l2] t by simp
  moreover have "posts ?s ?s l3 l4"
    using posts_tags [of ?s "(s1, l3)" L q c] r by simp
  moreover have "posts ?s (raw_score q c (numeric_conflict s2)) l4 (snd (record_conflicts s2 l4))"
    using posts_conflicts [of ?s s2 l4] unfolding raw_score_def Let_def bonus [symmetric]
    by (simp split del: if_split)
  ultimately have "posts 0 (raw_score q c (numeric_conflict s2)) l (snd (record_conflicts s2 l4))"
    by (meson posts_trans)
  moreover have "snd (assess_with L q c l) = snd (record_conflicts s2 l4)"
    by (simp add: assess_with_def scored_match_def [symmetric] b m t r Let_def case_prod_beta)
  ultimately show ?thesis unfolding s2 by simp
qed

lemma explain_assessment: "ex_assessment (explain L q c) = assess L q c"
  using assess_with_result [of L q c "Some []"] assess_with_result [of L q c None]
  by (simp add: explain_def assess_def case_prod_beta)

text \<open>C32: the account that the matcher stores with a decision is the account of that decision: explaining
  a pair gives the very assessment that decided it, and adding its terms in order, with the rounding
  of single precision after each, and clamping the sum gives the score. The candidate's trigram
  similarity is a single-precision number, as it is in the code.\<close>

theorem explanation_adds_up:
  assumes "f32 (ca_similarity c) = ca_similarity c"
  shows "ex_assessment (explain L q c) = assess L q c \<and>
    as_score (assess L q c) = clamp_to 0 1 (running 0 (ex_terms (explain L q c)))"
proof -
  obtain sc l where e: "assess_with L q c (Some []) = (sc, l)" by fastforce
  have sc: "sc = fst (assess_with L q c None)"
    using assess_with_result [of L q c "Some []"] assess_with_result [of L q c None] e by simp
  obtain us where "l = Some us" "running 0 us = raw_score q c (numeric_conflict (signals_of L q c))"
    using assess_with_posts [OF assms, of q L "Some []"] e by (auto simp: posts_def)
  then show ?thesis
    by (simp add: explain_def e sc assess_def [symmetric]) (simp add: assess_eq)
qed

text \<open>
  A listing title that is identical to the query goes unnoticed when the canonical title has the same
  words in another order: the canonical title already reaches the ratio of one, and a tie keeps it.
\<close>

definition plain_query :: "utext \<Rightarrow> match_query" where
  "plain_query t =
     \<lparr>qu_normalized_title = t, qu_content_type = content_type.Unknown, qu_release_year = None,
      qu_tags = [], qu_authors = []\<rparr>"

definition plain_candidate :: "series_key \<Rightarrow> utext \<Rightarrow> utext list \<Rightarrow> utext list \<Rightarrow> candidate" where
  "plain_candidate i t alts listings =
     \<lparr>ca_series_id = i, ca_normalized_title = t, ca_similarity = 0, ca_alt_normalized_titles = alts,
      ca_source_titles = listings, ca_content_type = content_type.Unknown, ca_release_year = None,
      ca_tags = [], ca_authors = []\<rparr>"

lemmas text_eval = lit_def split_whitespace_def is_whitespace_def compact_key_def

lemma reordered_canonical_hides_listing:
  "\<not> is_primary_identity (as_signals (assess L (plain_query (lit ''a b''))
       (plain_candidate 1 (lit ''b a'') [] [lit ''a b''])))"
proof -
  have "title_ratio (lit ''a b'') (lit ''ab'') (lit ''b a'') = 1"
    by (simp add: title_ratio_def title_edit_def same_title_def edit_ratio_def min_edit_len_def
        token_set_ratio_def ratio_of_def text_eval insert_commute)
  moreover have "\<not> same_title (lit ''a b'') (lit ''b a'')"
    "\<not> same_title (lit ''ab'') (compact_key (lit ''b a''))"
    "title_ratio (lit ''a b'') (lit ''ab'') (lit ''a b'') = 1"
    by (simp_all add: same_title_def title_ratio_def text_eval)
  moreover have "compact_key (lit ''a b'') = lit ''ab''" by (simp add: text_eval)
  ultimately show ?thesis
    by (simp add: is_primary_identity_def assess_eq title_signals_def Let_def scored_match_def
        best_title_match_def candidate_titles_def plain_query_def plain_candidate_def
        match_title_fields no_match_def)
qed

theorem explanation_adds_up_witness:
  "f32 (ca_similarity (plain_candidate 1 (lit ''a b'') [] [])) = 0 \<and>
   as_score (assess id (plain_query (lit ''a b'')) (plain_candidate 1 (lit ''a b'') [] [])) =
     clamp_to 0 1 (running 0 (ex_terms (explain id (plain_query (lit ''a b''))
       (plain_candidate 1 (lit ''a b'') [] []))))"
  using explanation_adds_up [of "plain_candidate 1 (lit ''a b'') [] []" id "plain_query (lit ''a b'')"]
  by (simp add: plain_candidate_def)

end
