(* ===== verification/Match_Decide.thy ===== *)
theory Match_Decide
  imports Match_Score "HOL-Library.Product_Lexorder"
begin

text \<open>
  The decisions of the matcher, \<open>src/crates/matcher/src/decide.rs\<close>, \<open>pair.rs\<close>, \<open>types.rs\<close> and the policy
  of \<open>src/crates/config/src/matching.rs\<close>: where an incoming source belongs, and whether two series
  that already exist are one work. \<open>judge_pair\<close> is what the duplicate sweep does with one pair.
\<close>

section \<open>Thresholds and verdicts\<close>

record merge_guards =
  gd_numeric_conflict :: bool
  gd_author_conflict :: bool
  gd_year_conflict :: bool
  gd_type_conflict :: bool

definition default_guards :: merge_guards where
  "default_guards =
     \<lparr>gd_numeric_conflict = True, gd_author_conflict = True, gd_year_conflict = True,
      gd_type_conflict = True\<rparr>"

definition blocking :: "merge_guards \<Rightarrow> match_signals \<Rightarrow> string list" where
  "blocking g s =
     [label. (blocks, fired, label) \<leftarrow>
        [(gd_author_conflict g, author_conflict s, ''author_conflict''),
         (gd_year_conflict g, year_conflict s, ''year_conflict''),
         (gd_type_conflict g, type_conflict s, ''type_conflict'')], blocks \<and> fired]"

record thresholds =
  th_high :: rat
  th_low :: rat
  th_auto_merge :: rat
  th_guards :: merge_guards

definition default_thresholds :: thresholds where
  "default_thresholds =
     \<lparr>th_high = f32 0.85, th_low = f32 0.6, th_auto_merge = f32 0.97, th_guards = default_guards\<rparr>"

record matching_config =
  mc_high :: rat
  mc_low :: rat
  mc_auto_merge :: rat
  mc_candidate_limit :: int
  mc_block_numeric :: bool
  mc_block_author :: bool
  mc_block_year :: bool
  mc_block_type :: bool

definition config_thresholds :: "matching_config \<Rightarrow> thresholds" where
  "config_thresholds c =
     \<lparr>th_high = mc_high c, th_low = mc_low c, th_auto_merge = mc_auto_merge c,
      th_guards = \<lparr>gd_numeric_conflict = mc_block_numeric c, gd_author_conflict = mc_block_author c,
                   gd_year_conflict = mc_block_year c, gd_type_conflict = mc_block_type c\<rparr>\<rparr>"

datatype merge_verdict = Auto | Review | Distinct

fun merge_verdict_as_str :: "merge_verdict \<Rightarrow> string" where
  "merge_verdict_as_str Auto = ''auto''"
| "merge_verdict_as_str Review = ''review''"
| "merge_verdict_as_str Distinct = ''distinct''"

record adjudication =
  aj_verdict :: merge_verdict
  aj_reason :: string
  aj_blocked_by :: "string list"

definition adjudged :: "string list \<Rightarrow> merge_verdict \<Rightarrow> string \<Rightarrow> adjudication" where
  "adjudged blocked v reason = \<lparr>aj_verdict = v, aj_reason = reason, aj_blocked_by = blocked\<rparr>"

section \<open>Placing an incoming source\<close>

definition assessment_key :: "series_key \<times> assessment \<Rightarrow> bool \<times> rat" where
  "assessment_key x = (is_primary_identity (as_signals (snd x)), as_score (snd x))"

definition best_assessment ::
  "(utext \<Rightarrow> utext) \<Rightarrow> match_query \<Rightarrow> candidate list \<Rightarrow> (series_key \<times> assessment) option" where
  "best_assessment L q cs =
     max_by_key_last assessment_key (map (\<lambda>c. (ca_series_id c, assess L q c)) cs)"

definition best_match ::
  "(utext \<Rightarrow> utext) \<Rightarrow> match_query \<Rightarrow> candidate list \<Rightarrow> (series_key \<times> rat) option" where
  "best_match L q cs = map_option (\<lambda>(i, a). (i, as_score a)) (best_assessment L q cs)"

definition has_veto :: "match_signals \<Rightarrow> bool" where
  "has_veto s \<longleftrightarrow> numeric_conflict s \<or> edition_conflict s \<or> external_id_conflict s \<or> live_timing_conflict s"

datatype match_decision = Attach series_key | Ambiguous series_key rat match_signals | Create

definition decide ::
  "(utext \<Rightarrow> utext) \<Rightarrow> match_query \<Rightarrow> candidate list \<Rightarrow> thresholds \<Rightarrow> match_decision" where
  "decide L q cs t =
     (case best_assessment L q cs of
        None \<Rightarrow> Create
      | Some (i, a) \<Rightarrow>
          if numeric_conflict (as_signals a) then Create
          else if is_primary_identity (as_signals a) \<and> \<not> has_veto (as_signals a) \<and> th_high t \<le> as_score a
          then Attach i
          else if th_low t \<le> as_score a then Ambiguous i (as_score a) (as_signals a)
          else Create)"

definition canonicalise ::
  "(utext \<Rightarrow> utext) \<Rightarrow> matching_config \<Rightarrow> match_query \<Rightarrow> candidate list \<Rightarrow> match_decision" where
  "canonicalise L config q cs = decide L q cs (config_thresholds config)"

section \<open>Adjudicating two series\<close>

definition adjudicate :: "assessment \<Rightarrow> thresholds \<Rightarrow> adjudication" where
  "adjudicate a t =
     (let s = as_signals a; blocked_by = blocking (th_guards t) s
      in if gd_numeric_conflict (th_guards t) \<and> numeric_conflict s
         then adjudged [''numeric_conflict''] Distinct ''numeric_conflict''
         else if edition_conflict s then adjudged [''edition_conflict''] Distinct ''edition_conflict''
         else if as_score a < th_low t then adjudged blocked_by Distinct ''below_review_floor''
         else if external_id_conflict s
         then adjudged (''external_id_conflict'' # blocked_by) Review ''external_id_conflict''
         else if live_timing_conflict s
         then adjudged (''live_timing_conflict'' # blocked_by) Review ''live_timing_conflict''
         else if is_primary_identity s \<and> as_score a < th_auto_merge t
         then adjudged blocked_by Review ''below_auto_merge_threshold''
         else if \<not> is_primary_identity s \<and> \<not> is_corroborated_alias s
         then adjudged blocked_by Review
                (if alias_identity s then ''alias_uncorroborated'' else ''no_structural_identity'')
         else (case blocked_by of
                 guard # _ \<Rightarrow> adjudged blocked_by Review guard
               | [] \<Rightarrow> adjudged blocked_by Auto
                   (if is_primary_identity s then ''structural_identity_above_threshold''
                    else ''corroborated_alias'')))"

record pair_side =
  ps_series_id :: series_key
  ps_normalized_title :: utext
  ps_alt_normalized_titles :: "utext list"
  ps_source_titles :: "utext list"
  ps_anilist_id :: "utext option"
  ps_content_type :: content_type
  ps_release_year :: "int option"
  ps_tags :: "utext list"
  ps_authors :: "utext list"

definition query_of :: "pair_side \<Rightarrow> utext \<Rightarrow> match_query" where
  "query_of s title =
     \<lparr>qu_normalized_title = title, qu_content_type = ps_content_type s,
      qu_release_year = ps_release_year s, qu_tags = ps_tags s, qu_authors = ps_authors s\<rparr>"

definition candidate_of :: "pair_side \<Rightarrow> rat \<Rightarrow> candidate" where
  "candidate_of s similarity =
     \<lparr>ca_series_id = ps_series_id s, ca_normalized_title = ps_normalized_title s,
      ca_similarity = similarity, ca_alt_normalized_titles = ps_alt_normalized_titles s,
      ca_source_titles = ps_source_titles s, ca_content_type = ps_content_type s,
      ca_release_year = ps_release_year s, ca_tags = ps_tags s, ca_authors = ps_authors s\<rparr>"

definition reading_class :: "match_signals \<Rightarrow> nat" where
  "reading_class s =
     (if is_primary_identity s then 3 else if is_corroborated_alias s then 2
      else if alias_identity s then 1 else 0)"

text \<open>The relabelling of an identity hit by the title it came through, and what only a pair knows.\<close>

definition relabel :: "title_kind \<Rightarrow> match_signals \<Rightarrow> match_signals \<times> bool" where
  "relabel origin s =
     (let primary_hit = (exact_title s \<or> compact_identity s)
      in if origin = Alias \<and> (primary_hit \<or> source_title_identity s)
         then (s\<lparr>exact_title := False, compact_identity := False, source_title_identity := False\<rparr>, True)
         else if origin = Source \<and> primary_hit
         then (s\<lparr>exact_title := False, compact_identity := False, source_title_identity := True\<rparr>,
               alias_identity s)
         else (s, alias_identity s))"

definition pair_rules ::
  "match_signals \<Rightarrow> pair_side \<Rightarrow> pair_side \<Rightarrow> utext \<Rightarrow> title_kind \<Rightarrow> match_signals" where
  "pair_rules s query_side candidate_side query_title origin =
     (let qt = ps_normalized_title query_side; ct = ps_normalized_title candidate_side;
          canonicals = [qt, ct];
          (s1, alias_hit) = relabel origin s;
          s2 = (if alias_hit then
                  s1\<lparr>alias_identity := alias_counts_as_identity query_title canonicals,
                     containment := containment s1 \<or> list_ex (is_franchise_name query_title) canonicals\<rparr>
                else s1);
          s3 = s2\<lparr>numeric_conflict := numeric_conflict s2 \<or> numbers_conflict qt [ct],
                  edition_conflict := edition_conflict s2 \<or> editions_conflict qt ct\<rparr>
      in case (ps_anilist_id query_side, ps_anilist_id candidate_side) of
           (Some a, Some b) \<Rightarrow> s3\<lparr>external_id_agreement := (a = b), external_id_conflict := (a \<noteq> b)\<rparr>
         | _ \<Rightarrow> s3)"

definition side_titles :: "pair_side \<Rightarrow> (utext \<times> title_kind) list" where
  "side_titles s =
     (ps_normalized_title s, Canonical) # map (\<lambda>t. (t, Source)) (ps_source_titles s) @
     map (\<lambda>t. (t, Alias)) (ps_alt_normalized_titles s)"

type_synonym reading_id = "bool \<times> utext \<times> title_kind"

definition reading_sides :: "pair_side \<Rightarrow> pair_side \<Rightarrow> bool \<Rightarrow> pair_side \<times> pair_side" where
  "reading_sides left right query_is_left = (if query_is_left then (left, right) else (right, left))"

definition reading_rank ::
  "(utext \<Rightarrow> utext) \<Rightarrow> pair_side \<Rightarrow> pair_side \<Rightarrow> rat \<Rightarrow> reading_id \<Rightarrow> nat \<times> rat" where
  "reading_rank L left right trigram r =
     (let (query_is_left, title, origin) = r;
          (query_side, candidate_side) = reading_sides left right query_is_left;
          a = assess L (query_of query_side title) (candidate_of candidate_side trigram);
          s = pair_rules (as_signals a) query_side candidate_side title origin
      in (reading_class s, as_score a))"

definition readings :: "pair_side \<Rightarrow> pair_side \<Rightarrow> reading_id list" where
  "readings left right = map (Pair True) (side_titles left) @ map (Pair False) (side_titles right)"

definition better_reading ::
  "(utext \<Rightarrow> utext) \<Rightarrow> pair_side \<Rightarrow> pair_side \<Rightarrow> rat \<Rightarrow> reading_id \<Rightarrow>
     ((nat \<times> rat) \<times> reading_id) option \<Rightarrow> ((nat \<times> rat) \<times> reading_id) option" where
  "better_reading L left right trigram r best =
     (let rank = reading_rank L left right trigram r
      in case best of
           None \<Rightarrow> Some (rank, r)
         | Some (best_rank, _) \<Rightarrow> if best_rank < rank then Some (rank, r) else best)"

definition best_reading_id ::
  "(utext \<Rightarrow> utext) \<Rightarrow> pair_side \<Rightarrow> pair_side \<Rightarrow> rat \<Rightarrow> ((nat \<times> rat) \<times> reading_id) option" where
  "best_reading_id L left right trigram =
     fold (better_reading L left right trigram) (readings left right) None"

record pair_reading =
  pr_assessment :: assessment
  pr_base :: rat
  pr_terms :: "score_term list"
  pr_matched_query_title :: utext
  pr_matched_candidate_title :: utext
  pr_via_alias :: bool
  pr_query_is_left :: bool

definition pair_terms :: "match_signals \<Rightarrow> match_signals \<Rightarrow> score_term list" where
  "pair_terms scored_signals s =
     (if numeric_conflict s \<and> \<not> numeric_conflict scored_signals then [(''numeric_conflict'', 0)] else []) @
     (if edition_conflict s \<and> \<not> edition_conflict scored_signals then [(''edition_conflict'', 0)] else []) @
     (if external_id_agreement s then [(''external_id_agreement'', 0)]
      else if external_id_conflict s then [(''external_id_conflict'', 0)] else [])"

definition reading_of ::
  "(utext \<Rightarrow> utext) \<Rightarrow> pair_side \<Rightarrow> pair_side \<Rightarrow> rat \<Rightarrow> reading_id \<Rightarrow> pair_reading" where
  "reading_of L left right trigram r =
     (let (query_is_left, title, origin) = r;
          (query_side, candidate_side) = reading_sides left right query_is_left;
          e = explain L (query_of query_side title) (candidate_of candidate_side trigram);
          scored_signals = as_signals (ex_assessment e);
          s = pair_rules scored_signals query_side candidate_side title origin
      in \<lparr>pr_assessment = (ex_assessment e)\<lparr>as_signals := s\<rparr>, pr_base = ex_base e,
          pr_terms = ex_terms e @ pair_terms scored_signals s, pr_matched_query_title = title,
          pr_matched_candidate_title = ex_matched_candidate_title e, pr_via_alias = ex_via_alias e,
          pr_query_is_left = query_is_left\<rparr>)"

definition read_pair :: "(utext \<Rightarrow> utext) \<Rightarrow> pair_side \<Rightarrow> pair_side \<Rightarrow> rat \<Rightarrow> pair_reading option" where
  "read_pair L left right trigram =
     map_option (\<lambda>b. reading_of L left right trigram (snd b)) (best_reading_id L left right trigram)"

definition adjudicate_pair ::
  "(utext \<Rightarrow> utext) \<Rightarrow> pair_side \<Rightarrow> pair_side \<Rightarrow> rat \<Rightarrow> thresholds \<Rightarrow>
     (pair_reading \<times> adjudication) option" where
  "adjudicate_pair L left right trigram t =
     map_option (\<lambda>r. (r, adjudicate (pr_assessment r) t)) (read_pair L left right trigram)"

section \<open>Live timing\<close>

definition live_agreement_hours :: rat where "live_agreement_hours = 72"

definition live_conflict_hours :: rat where "live_conflict_hours = 24 * 14"

record live_timing =
  lt_shared_live_chapters :: int
  lt_median_gap_hours :: "rat option"

definition wants_live_timing :: "pair_reading \<Rightarrow> adjudication \<Rightarrow> bool" where
  "wants_live_timing r v \<longleftrightarrow>
     alias_identity (as_signals (pr_assessment r)) \<or> aj_verdict v = Review"

definition set_signals :: "(match_signals \<Rightarrow> match_signals) \<Rightarrow> string \<Rightarrow> pair_reading \<Rightarrow> pair_reading" where
  "set_signals f rule r =
     r\<lparr>pr_assessment := (pr_assessment r)\<lparr>as_signals := f (as_signals (pr_assessment r))\<rparr>,
       pr_terms := pr_terms r @ [(rule, 0)]\<rparr>"

definition apply_live_timing :: "pair_reading \<Rightarrow> live_timing \<Rightarrow> pair_reading" where
  "apply_live_timing r timing =
     (case lt_median_gap_hours timing of
        None \<Rightarrow> r
      | Some gap \<Rightarrow>
          if gap \<le> live_agreement_hours
          then set_signals (\<lambda>s. s\<lparr>live_timing_agreement := True\<rparr>) ''live_timing_agreement'' r
          else if live_conflict_hours < gap
          then set_signals (\<lambda>s. s\<lparr>live_timing_conflict := True\<rparr>) ''live_timing_conflict'' r
          else r)"

text \<open>One pair of the duplicate sweep: read, adjudicated, and again when the timing was asked for.\<close>

definition judge_pair ::
  "(utext \<Rightarrow> utext) \<Rightarrow> pair_side \<Rightarrow> pair_side \<Rightarrow> rat \<Rightarrow> thresholds \<Rightarrow> live_timing \<Rightarrow>
     (pair_reading \<times> adjudication \<times> live_timing option) option" where
  "judge_pair L left right trigram t timing =
     (case adjudicate_pair L left right trigram t of
        None \<Rightarrow> None
      | Some (reading, verdict) \<Rightarrow>
          if wants_live_timing reading verdict
          then (let reading' = apply_live_timing reading timing
                in Some (reading', adjudicate (pr_assessment reading') t, Some timing))
          else Some (reading, verdict, None))"


section \<open>What attaches\<close>

lemma best_assessment_mem:
  assumes "best_assessment L q cs = Some (i, a)"
  shows "\<exists>c \<in> set cs. i = ca_series_id c \<and> a = assess L q c"
  using max_by_key_last_mem [OF assms [unfolded best_assessment_def]] by auto

text \<open>C33: a scanned title is filed under an existing series only when it is that series' own title. The
  series is one of the candidates, the title equals its canonical title or a provider's listing title
  up to spaces, its canonical title carries the same numbers and the same edition markers, and the
  score reaches the threshold. A fuzzy score, an alternative title, a sequel or a side story never
  attaches.\<close>

theorem attach_is_own_title:
  assumes "decide L q cs t = Attach i"
  shows "\<exists>c \<in> set cs. ca_series_id c = i \<and> th_high t \<le> as_score (assess L q c) \<and>
    (\<exists>title \<in> set (ca_normalized_title c # ca_source_titles c).
       compact_key title = compact_key (qu_normalized_title q)) \<and>
    numeric_signature (ca_normalized_title c) = numeric_signature (qu_normalized_title q) \<and>
    markers (ca_normalized_title c) = markers (qu_normalized_title q)"
proof -
  obtain a where best: "best_assessment L q cs = Some (i, a)"
    and p: "is_primary_identity (as_signals a)" and v: "\<not> has_veto (as_signals a)"
    and h: "th_high t \<le> as_score a"
    using assms by (auto simp: decide_def split: option.splits if_splits)
  obtain c where c: "c \<in> set cs" "i = ca_series_id c" "a = assess L q c"
    using best_assessment_mem [OF best] by blast
  have "\<not> numeric_conflict (as_signals a)" "\<not> edition_conflict (as_signals a)"
    using v by (simp_all add: has_veto_def)
  then show ?thesis
    using c h primary_identity_title [of L q c] agreeing_numbers [of L q c] agreeing_markers [of L q c] p
    by blast
qed

lemma decide_create: "decide L q [] t = Create"
  by (simp add: decide_def best_assessment_def)

lemma ambiguous_in_band:
  "decide L q cs t = Ambiguous i s g \<Longrightarrow>
     th_low t \<le> s \<and> \<not> numeric_conflict g \<and> 
     (\<exists>c \<in> set cs. ca_series_id c = i \<and> as_score (assess L q c) = s \<and> as_signals (assess L q c) = g)"
  using best_assessment_mem [of L q cs i]
  by (auto simp: decide_def split: option.splits if_splits)

section \<open>What merges without asking\<close>

lemma adjudicate_auto_iff:
  "aj_verdict (adjudicate a t) = Auto \<longleftrightarrow>
     \<not> (gd_numeric_conflict (th_guards t) \<and> numeric_conflict (as_signals a)) \<and>
     \<not> edition_conflict (as_signals a) \<and> th_low t \<le> as_score a \<and>
     \<not> external_id_conflict (as_signals a) \<and> \<not> live_timing_conflict (as_signals a) \<and>
     (is_primary_identity (as_signals a) \<and> th_auto_merge t \<le> as_score a \<or>
      \<not> is_primary_identity (as_signals a) \<and> is_corroborated_alias (as_signals a)) \<and>
     blocking (th_guards t) (as_signals a) = []"
  by (cases "blocking (th_guards t) (as_signals a)")
    (auto simp: adjudicate_def Let_def adjudged_def)

lemma relabel_facts:
  "is_primary_identity (fst (relabel origin s)) \<longleftrightarrow> origin \<noteq> Alias \<and> is_primary_identity s"
  "snd (relabel origin s) \<Longrightarrow> alias_identity s \<or> is_primary_identity s"
  "alias_identity (fst (relabel origin s)) = alias_identity s"
  "numeric_conflict (fst (relabel origin s)) = numeric_conflict s"
  "edition_conflict (fst (relabel origin s)) = edition_conflict s"
  "live_timing_agreement (fst (relabel origin s)) = live_timing_agreement s"
  "external_id_agreement (fst (relabel origin s)) = external_id_agreement s"
  "alias_identity s \<Longrightarrow> snd (relabel origin s)"
  by (auto simp: relabel_def is_primary_identity_def Let_def split: if_splits)

lemma pair_rules_fields:
  fixes s qs cs title origin
  defines "new \<equiv> pair_rules s qs cs title origin" and "r \<equiv> relabel origin s"
  shows "is_primary_identity new \<longleftrightarrow> is_primary_identity (fst r)"
    and "alias_identity new \<longleftrightarrow> (if snd r then alias_counts_as_identity title
           [ps_normalized_title qs, ps_normalized_title cs] else alias_identity (fst r))"
    and "numeric_conflict new \<longleftrightarrow> numeric_conflict (fst r) \<or>
           numbers_conflict (ps_normalized_title qs) [ps_normalized_title cs]"
    and "edition_conflict new \<longleftrightarrow> edition_conflict (fst r) \<or>
           editions_conflict (ps_normalized_title qs) (ps_normalized_title cs)"
    and "live_timing_agreement new = live_timing_agreement (fst r)"
    and "external_id_agreement new \<longleftrightarrow> (case (ps_anilist_id qs, ps_anilist_id cs) of
           (Some a, Some b) \<Rightarrow> a = b | _ \<Rightarrow> external_id_agreement (fst r))"
    and "external_id_conflict new \<longleftrightarrow> (case (ps_anilist_id qs, ps_anilist_id cs) of
           (Some a, Some b) \<Rightarrow> a \<noteq> b | _ \<Rightarrow> external_id_conflict (fst r))"
  unfolding new_def r_def pair_rules_def Let_def case_prod_beta
  by (simp_all add: is_primary_identity_def split: option.split)

definition primary_titles :: "pair_side \<Rightarrow> utext list" where
  "primary_titles s = ps_normalized_title s # ps_source_titles s"

definition all_titles :: "pair_side \<Rightarrow> utext list" where
  "all_titles s = primary_titles s @ ps_alt_normalized_titles s"

definition reading_signals ::
  "(utext \<Rightarrow> utext) \<Rightarrow> pair_side \<Rightarrow> pair_side \<Rightarrow> rat \<Rightarrow> utext \<Rightarrow> title_kind \<Rightarrow> match_signals" where
  "reading_signals L qs cs trigram title origin =
     pair_rules (as_signals (assess L (query_of qs title) (candidate_of cs trigram))) qs cs title origin"

lemma side_sel [simp]:
  "qu_normalized_title (query_of s t) = t"
  "ca_normalized_title (candidate_of s x) = ps_normalized_title s"
  "ca_source_titles (candidate_of s x) = ps_source_titles s"
  "ca_alt_normalized_titles (candidate_of s x) = ps_alt_normalized_titles s"
  by (simp_all add: query_of_def candidate_of_def)

lemma in_side_titles:
  "(t, k) \<in> set (side_titles s) \<Longrightarrow> t \<in> set (all_titles s) \<and> (k \<noteq> Alias \<longrightarrow> t \<in> set (primary_titles s))"
  by (auto simp: side_titles_def all_titles_def primary_titles_def)

lemma reading_primary:
  assumes "(title, origin) \<in> set (side_titles qs)"
    and "is_primary_identity (reading_signals L qs cs trigram title origin)"
  shows "\<exists>tl \<in> set (primary_titles qs). \<exists>tr \<in> set (primary_titles cs). compact_key tl = compact_key tr"
  using assms primary_identity_title [of L "query_of qs title" "candidate_of cs trigram"]
    in_side_titles [OF assms(1)]
  by (auto simp: reading_signals_def pair_rules_fields relabel_facts primary_titles_def) metis+

lemma reading_alias:
  assumes t: "(title, origin) \<in> set (side_titles qs)"
    and a: "alias_identity (reading_signals L qs cs trigram title origin)"
  shows "alias_is_distinctive title \<and> title \<in> set (all_titles qs) \<and>
    (\<exists>tr \<in> set (all_titles cs). compact_key title = compact_key tr)"
proof -
  let ?a = "as_signals (assess L (query_of qs title) (candidate_of cs trigram))"
  have hit: "snd (relabel origin ?a)" and d: "alias_is_distinctive title"
    using a relabel_facts(3,8) [where origin = origin and s = ?a]
    by (auto simp: reading_signals_def pair_rules_fields alias_counts_as_identity_def split: if_splits)
  from relabel_facts(2) [OF hit]
  have "\<exists>tr \<in> set (all_titles cs). compact_key title = compact_key tr"
  proof
    assume "alias_identity ?a"
    from alias_identity_title [OF this]
    obtain t where "t \<in> set (ps_alt_normalized_titles cs)" "compact_key t = compact_key title" by auto
    then show ?thesis by (intro bexI [of _ t]) (simp_all add: all_titles_def)
  next
    assume "is_primary_identity ?a"
    from primary_identity_title [OF this]
    obtain t where "t \<in> set (primary_titles cs)" "compact_key t = compact_key title"
      by (auto simp: primary_titles_def)
    then show ?thesis by (intro bexI [of _ t]) (simp_all add: all_titles_def)
  qed
  with d in_side_titles [OF t] show ?thesis by simp
qed

lemma reading_vetoes:
  fixes L qs cs trigram title origin
  defines "s \<equiv> reading_signals L qs cs trigram title origin"
  shows "\<not> numeric_conflict s \<Longrightarrow>
      numeric_signature (ps_normalized_title cs) = numeric_signature (ps_normalized_title qs)"
    and "\<not> edition_conflict s \<Longrightarrow> markers (ps_normalized_title cs) = markers (ps_normalized_title qs)"
    and "\<not> external_id_conflict s \<Longrightarrow> ps_anilist_id qs = Some a \<Longrightarrow> ps_anilist_id cs = Some b \<Longrightarrow> a = b"
    and "external_id_agreement s \<Longrightarrow> \<exists>a. ps_anilist_id qs = Some a \<and> ps_anilist_id cs = Some a"
    and "\<not> live_timing_agreement s"
  unfolding s_def reading_signals_def pair_rules_fields relabel_facts
  by (auto simp: numbers_conflict_iff editions_conflict_def assess_eq split: option.splits)

lemma best_reading_fold:
  "fold (better_reading L left right trigram) rs best = Some (rank, r) \<Longrightarrow>
     best = Some (rank, r) \<or> r \<in> set rs"
proof (induction rs arbitrary: best)
  case (Cons x rs)
  from Cons.IH [OF Cons.prems [simplified]] show ?case
    by (auto simp: better_reading_def Let_def split: option.splits if_splits)
qed simp

lemma better_reading_some: "better_reading L left right trigram r best \<noteq> None"
  by (cases best) (simp_all add: better_reading_def Let_def case_prod_beta del: not_None_eq)

lemma best_reading_some:
  "best \<noteq> None \<Longrightarrow> fold (better_reading L left right trigram) rs best \<noteq> None"
proof (induction rs arbitrary: best)
  case (Cons r rs)
  show ?case using Cons.IH [OF better_reading_some] by simp
qed simp

text \<open>A pair always has a reading, and it is one of the titles of one of the sides.\<close>

lemma read_pair_total: "read_pair L left right trigram \<noteq> None"
proof -
  obtain r rs where "readings left right = r # rs" by (simp add: readings_def side_titles_def)
  then show ?thesis
    using best_reading_some [of "better_reading L left right trigram r None" L left right trigram rs]
    by (simp add: read_pair_def best_reading_id_def better_reading_def Let_def)
qed

lemma read_pair_reading:
  assumes "read_pair L left right trigram = Some rd"
  obtains qs cs title origin where
    "(qs, cs) = (left, right) \<or> (qs, cs) = (right, left)"
    and "(title, origin) \<in> set (side_titles qs)"
    and "as_signals (pr_assessment rd) = reading_signals L qs cs trigram title origin"
    and "as_score (pr_assessment rd) = as_score (assess L (query_of qs title) (candidate_of cs trigram))"
proof -
  obtain rank r where b: "best_reading_id L left right trigram = Some (rank, r)"
    and rd: "rd = reading_of L left right trigram r"
    using assms by (auto simp: read_pair_def)
  obtain qil title origin where r: "r = (qil, title, origin)" by (cases r)
  have mem: "r \<in> set (readings left right)"
    using best_reading_fold [of L left right trigram "readings left right" None] b
    by (auto simp: best_reading_id_def)
  obtain qs cs where sides: "reading_sides left right qil = (qs, cs)" by fastforce
  show thesis
  proof (rule that)
    show "(qs, cs) = (left, right) \<or> (qs, cs) = (right, left)"
      using sides by (auto simp: reading_sides_def split: if_splits)
    show "(title, origin) \<in> set (side_titles qs)"
      using mem sides by (auto simp: r readings_def reading_sides_def)
  qed (simp_all add: r rd sides reading_of_def reading_signals_def explain_assessment Let_def)
qed


definition share_title :: "utext list \<Rightarrow> utext list \<Rightarrow> bool" where
  "share_title ls rs \<longleftrightarrow> (\<exists>tl \<in> set ls. \<exists>tr \<in> set rs. compact_key tl = compact_key tr)"

definition share_distinctive :: "utext list \<Rightarrow> utext list \<Rightarrow> bool" where
  "share_distinctive ls rs \<longleftrightarrow>
     (\<exists>tl \<in> set ls. \<exists>tr \<in> set rs.
        compact_key tl = compact_key tr \<and> (alias_is_distinctive tl \<or> alias_is_distinctive tr))"

definition same_work ::
  "pair_side \<Rightarrow> pair_side \<Rightarrow> thresholds \<Rightarrow> live_timing \<Rightarrow> bool" where
  "same_work left right t timing \<longleftrightarrow>
     (gd_numeric_conflict (th_guards t) \<longrightarrow>
        numeric_signature (ps_normalized_title left) = numeric_signature (ps_normalized_title right)) \<and>
     markers (ps_normalized_title left) = markers (ps_normalized_title right) \<and>
     (\<forall>a b. ps_anilist_id left = Some a \<longrightarrow> ps_anilist_id right = Some b \<longrightarrow> a = b) \<and>
     (share_title (primary_titles left) (primary_titles right) \<or>
      share_distinctive (all_titles left) (all_titles right) \<and>
      ((\<exists>a. ps_anilist_id left = Some a \<and> ps_anilist_id right = Some a) \<or>
       (\<exists>gap. lt_median_gap_hours timing = Some gap \<and> gap \<le> live_agreement_hours)))"

lemma share_swap: "share_title a b = share_title b a" "share_distinctive a b = share_distinctive b a"
  by (metis share_title_def, metis share_distinctive_def)

lemma same_work_swap: "same_work left right t timing \<Longrightarrow> same_work right left t timing"
  unfolding same_work_def share_swap [of "_ right"] by auto

lemma set_signals_sel [simp]:
  "as_signals (pr_assessment (set_signals f rule r)) = f (as_signals (pr_assessment r))"
  "as_score (pr_assessment (set_signals f rule r)) = as_score (pr_assessment r)"
  by (simp_all add: set_signals_def)

definition timed :: "live_timing \<Rightarrow> match_signals \<Rightarrow> match_signals" where
  "timed timing s =
     (case lt_median_gap_hours timing of
        None \<Rightarrow> s
      | Some gap \<Rightarrow>
          if gap \<le> live_agreement_hours then s\<lparr>live_timing_agreement := True\<rparr>
          else if live_conflict_hours < gap then s\<lparr>live_timing_conflict := True\<rparr> else s)"

lemma apply_live_timing_sel:
  "as_signals (pr_assessment (apply_live_timing r timing)) = timed timing (as_signals (pr_assessment r))"
  "as_score (pr_assessment (apply_live_timing r timing)) = as_score (pr_assessment r)"
  by (simp_all add: apply_live_timing_def timed_def split: option.split)

lemma timed_fields:
  "is_primary_identity (timed timing s) = is_primary_identity s"
  "alias_identity (timed timing s) = alias_identity s"
  "numeric_conflict (timed timing s) = numeric_conflict s"
  "edition_conflict (timed timing s) = edition_conflict s"
  "external_id_agreement (timed timing s) = external_id_agreement s"
  "external_id_conflict (timed timing s) = external_id_conflict s"
  by (simp_all add: timed_def is_primary_identity_def split: option.split)

lemma timed_agreement:
  "live_timing_agreement (timed timing s) \<Longrightarrow> live_timing_agreement s \<or>
     (\<exists>gap. lt_median_gap_hours timing = Some gap \<and> gap \<le> live_agreement_hours)"
  by (auto simp: timed_def split: option.splits if_splits)

lemma auto_same_work:
  assumes read: "read_pair L left right trigram = Some rd"
    and s: "s = as_signals (pr_assessment rd) \<or> s = as_signals (pr_assessment (apply_live_timing rd timing))"
    and auto: "aj_verdict (adjudicate \<lparr>as_score = x, as_signals = s\<rparr> t) = Auto"
  shows "same_work left right t timing"
proof -
  obtain qs cs title origin where sides: "(qs, cs) = (left, right) \<or> (qs, cs) = (right, left)"
    and mem: "(title, origin) \<in> set (side_titles qs)"
    and sig: "as_signals (pr_assessment rd) = reading_signals L qs cs trigram title origin"
    using read_pair_reading [OF read] by metis
  let ?r = "reading_signals L qs cs trigram title origin"
  have frame: "is_primary_identity s = is_primary_identity ?r" "alias_identity s = alias_identity ?r"
    "numeric_conflict s = numeric_conflict ?r" "edition_conflict s = edition_conflict ?r"
    "external_id_agreement s = external_id_agreement ?r"
    "external_id_conflict s = external_id_conflict ?r"
    and live: "live_timing_agreement s \<Longrightarrow>
      \<exists>gap. lt_median_gap_hours timing = Some gap \<and> gap \<le> live_agreement_hours"
    using s reading_vetoes(5) [of L qs cs trigram title origin] timed_agreement [of timing ?r]
    by (auto simp: apply_live_timing_sel timed_fields sig)
  note v = reading_vetoes [of L qs cs trigram title origin]
  have "same_work qs cs t timing"
    unfolding same_work_def
  proof (intro conjI impI allI)
    show "numeric_signature (ps_normalized_title qs) = numeric_signature (ps_normalized_title cs)"
      if "gd_numeric_conflict (th_guards t)"
      using auto that v(1) frame(3) by (simp add: adjudicate_auto_iff)
    show "markers (ps_normalized_title qs) = markers (ps_normalized_title cs)"
      using auto v(2) frame(4) by (simp add: adjudicate_auto_iff)
    show "a = b" if "ps_anilist_id qs = Some a" "ps_anilist_id cs = Some b" for a b
      using auto v(3) that frame(6) by (simp add: adjudicate_auto_iff)
    show "share_title (primary_titles qs) (primary_titles cs) \<or>
      share_distinctive (all_titles qs) (all_titles cs) \<and>
      ((\<exists>a. ps_anilist_id qs = Some a \<and> ps_anilist_id cs = Some a) \<or>
       (\<exists>gap. lt_median_gap_hours timing = Some gap \<and> gap \<le> live_agreement_hours))"
    proof (cases "is_primary_identity ?r")
      case True
      then show ?thesis using reading_primary [OF mem] unfolding share_title_def by blast
    next
      case False
      then have c: "is_corroborated_alias s"
        using auto frame(1) by (simp add: adjudicate_auto_iff)
      then have "alias_identity ?r" using frame(2) by (simp add: is_corroborated_alias_def)
      from reading_alias [OF mem this] have "share_distinctive (all_titles qs) (all_titles cs)"
        unfolding share_distinctive_def by blast
      then show ?thesis
        using c v(4) frame(5) live by (auto simp: is_corroborated_alias_def)
    qed
  qed
  then show ?thesis using sides same_work_swap by auto
qed

text \<open>C34: an automatic merge, which deletes a series, is justified by more than a score. The canonical
  titles of the two series carry the same edition markers and (with its guard on) the same numbers,
  their tracker ids do not differ, the score reaches the floor, no enabled guard fired, and either two
  of their own titles are the same string up to spaces, or some title of each is, one of them
  distinctive, and it is corroborated by one shared tracker id or by live chapters of both arriving
  within three days.\<close>

theorem auto_merge_justified:
  assumes "judge_pair L left right trigram t timing = Some (reading, verdict, used)"
    and "aj_verdict verdict = Auto"
  shows "same_work left right t timing \<and> th_low t \<le> as_score (pr_assessment reading) \<and>
    blocking (th_guards t) (as_signals (pr_assessment reading)) = []"
proof -
  obtain rd where rd: "read_pair L left right trigram = Some rd"
    and cases: "reading = rd \<or> reading = apply_live_timing rd timing"
    and v: "verdict = adjudicate (pr_assessment reading) t"
    using assms(1) by (auto simp: judge_pair_def adjudicate_pair_def Let_def split: option.splits if_splits)
  have auto: "aj_verdict (adjudicate (pr_assessment reading) t) = Auto" using assms(2) v by simp
  then have "aj_verdict (adjudicate \<lparr>as_score = as_score (pr_assessment reading),
      as_signals = as_signals (pr_assessment reading)\<rparr> t) = Auto"
    by (cases "pr_assessment reading") simp
  from auto_same_work [OF rd _ this, of timing] cases have "same_work left right t timing" by auto
  with auto show ?thesis by (simp add: adjudicate_auto_iff)
qed


section \<open>Concrete pairs\<close>

definition plain_side :: "series_key \<Rightarrow> utext \<Rightarrow> pair_side" where
  "plain_side i t =
     \<lparr>ps_series_id = i, ps_normalized_title = t, ps_alt_normalized_titles = [], ps_source_titles = [],
      ps_anilist_id = None, ps_content_type = content_type.Unknown, ps_release_year = None,
      ps_tags = [], ps_authors = []\<rparr>"

definition own_signals :: "utext \<Rightarrow> match_signals" where
  "own_signals t =
     no_signals\<lparr>exact_title := True, compact_identity := True, containment := is_token_subset t t\<rparr>"

lemma own_score: "clamp_to 0 1 (f32 (1 + f32 0.1)) = 1"
  by code_simp

lemma own_match:
  assumes "t \<noteq> []" "compact_key t \<noteq> []"
  shows "scored_match (plain_query t) (plain_candidate i t [] []) =
    \<lparr>tm_ratio = 1, tm_edit_ratio = 1, tm_exact = True, tm_compact_equal = True,
     tm_containment = is_token_subset t t, tm_via_alias = False, tm_via_source = False,
     tm_primary_ratio = 1, tm_matched = t\<rparr>"
  using assms
  by (simp add: scored_match_def best_title_match_def candidate_titles_def plain_query_def
      plain_candidate_def match_title_def no_match_def title_ratio_def title_edit_def same_title_def Let_def)

lemma own_assess:
  assumes "t \<noteq> []" "compact_key t \<noteq> []"
  shows "assess L (plain_query t) (plain_candidate i t [] []) = \<lparr>as_score = 1, as_signals = own_signals t\<rparr>"
proof -
  have "signals_of L (plain_query t) (plain_candidate i t [] []) = own_signals t"
    by (simp add: signals_of_def own_match [OF assms] title_signals_def Let_def)
      (simp add: own_signals_def record_tags_and_credits_def record_medium_and_year_def record_type_def
        record_year_def name_set_overlap_def shares_a_name_def plain_query_def plain_candidate_def
        numbers_conflict_def editions_conflict_def no_signals_def)
  then show ?thesis
    by (simp add: assess_eq raw_score_def base_of_def bonus_of_def base_similarity_def title_bonus_def
        own_match [OF assms] Let_def own_signals_def no_signals_def)
      (simp add: plain_candidate_def own_score)
qed

theorem attach_is_own_title_witness:
  "decide id (plain_query (lit ''a b'')) [plain_candidate 7 (lit ''a b'') [] []] default_thresholds = Attach 7 \<and>
   (\<exists>c \<in> set [plain_candidate 7 (lit ''a b'') [] []].
      ca_series_id c = 7 \<and> compact_key (ca_normalized_title c) = lit ''ab'')"
proof -
  have t: "lit ''a b'' \<noteq> []" "compact_key (lit ''a b'') = lit ''ab''" by (simp_all add: text_eval)
  have "f32 0.85 \<le> 1" by code_simp
  then have d: "decide id (plain_query (lit ''a b'')) [plain_candidate 7 (lit ''a b'') [] []] default_thresholds
      = Attach 7"
    using own_assess [of "lit ''a b''" id 7] t
    by (simp add: decide_def best_assessment_def lit_def)
      (simp add: plain_candidate_def own_signals_def no_signals_def is_primary_identity_def has_veto_def
        default_thresholds_def)
  have "\<exists>c \<in> set [plain_candidate 7 (lit ''a b'') [] []].
      ca_series_id c = 7 \<and> compact_key (ca_normalized_title c) = lit ''ab''"
    using attach_is_own_title [OF d] t by (simp add: plain_query_def) (simp add: plain_candidate_def)
  with d show ?thesis by blast
qed

lemma own_sides:
  "query_of (plain_side i t) t = plain_query t"
  "candidate_of (plain_side i t) 0 = plain_candidate i t [] []"
  by (simp_all add: query_of_def candidate_of_def plain_side_def plain_query_def plain_candidate_def)

lemma own_pair_rules:
  "pair_rules (own_signals t) (plain_side i t) (plain_side j t) t Canonical = own_signals t"
  by (simp add: pair_rules_def relabel_def own_signals_def no_signals_def plain_side_def
      numbers_conflict_def editions_conflict_def)

lemma own_reading:
  assumes "t \<noteq> []" "compact_key t \<noteq> []"
  shows "\<exists>rd. read_pair L (plain_side i t) (plain_side j t) 0 = Some rd \<and>
    pr_assessment rd = \<lparr>as_score = 1, as_signals = own_signals t\<rparr>"
proof -
  have titles: "side_titles (plain_side k t) = [(t, Canonical)]" for k
    by (simp add: side_titles_def plain_side_def)
  obtain rank r where b: "best_reading_id L (plain_side i t) (plain_side j t) 0 = Some (rank, r)"
    using read_pair_total [of L "plain_side i t" "plain_side j t" 0] by (auto simp: read_pair_def)
  have "r \<in> {(True, t, Canonical), (False, t, Canonical)}"
    using best_reading_fold [of L "plain_side i t" "plain_side j t" 0
        "readings (plain_side i t) (plain_side j t)" None] b
    by (auto simp: best_reading_id_def readings_def titles)
  then show ?thesis
    using b by (auto simp: read_pair_def reading_of_def reading_sides_def own_sides own_pair_rules
        own_assess [OF assms] explain_assessment Let_def)
qed

theorem auto_merge_justified_witness:
  "\<exists>reading verdict. judge_pair id (plain_side 3 (lit ''a b'')) (plain_side 4 (lit ''a b'')) 0
       default_thresholds \<lparr>lt_shared_live_chapters = 0, lt_median_gap_hours = None\<rparr> =
       Some (reading, verdict, None) \<and> aj_verdict verdict = Auto \<and>
     same_work (plain_side 3 (lit ''a b'')) (plain_side 4 (lit ''a b'')) default_thresholds
       \<lparr>lt_shared_live_chapters = 0, lt_median_gap_hours = None\<rparr>"
proof -
  have "lit ''a b'' \<noteq> []" "compact_key (lit ''a b'') \<noteq> []" by (simp_all add: text_eval)
  from own_reading [OF this, of id 3 4] obtain rd
    where rd: "read_pair id (plain_side 3 (lit ''a b'')) (plain_side 4 (lit ''a b'')) 0 = Some rd"
      "pr_assessment rd = \<lparr>as_score = 1, as_signals = own_signals (lit ''a b'')\<rparr>" by blast
  let ?v = "adjudicate (pr_assessment rd) default_thresholds"
  have le: "f32 0.97 \<le> 1" "f32 0.6 \<le> 1" by code_simp+
  have v: "aj_verdict ?v = Auto"
    using le by (simp add: adjudicate_auto_iff rd)
      (simp add: own_signals_def no_signals_def is_primary_identity_def default_thresholds_def
        default_guards_def blocking_def)
  have "judge_pair id (plain_side 3 (lit ''a b'')) (plain_side 4 (lit ''a b'')) 0 default_thresholds
      \<lparr>lt_shared_live_chapters = 0, lt_median_gap_hours = None\<rparr> = Some (rd, ?v, None)"
    using v by (simp add: judge_pair_def adjudicate_pair_def rd wants_live_timing_def)
      (simp add: own_signals_def no_signals_def)
  from this v auto_merge_justified [OF this v] show ?thesis by blast
qed

end
