(* ===== verification/Series_Merge.thy ===== *)
theory Series_Merge
  imports Title_Text Sync_Store
begin

text \<open>
  Merging two series and taking a merge back (\<open>crates/db/src/repo/matching/merge.rs\<close> and \<open>undo.rs\<close>).
  One definition per statement group of the code, each a function of the undo journal and the tables.
  The foreign keys of the rows a revert re-inserts (their readers, tags and authors) are taken to hold,
  as the deletion of a series is taken to cascade. The theorems: a merge followed by its revert
  restores every journalled table, no reader loses state in a merge, and forwarding stays one
  lookup deep.
\<close>

section \<open>The tables a merge touches\<close>

text \<open>
  A table keyed by a series and something else is a partial map for each series; a table whose rows
  only change their series is a partial map from the row's id to that series. The three tables a
  statement searches, the conflicts, the match blocks and the merge candidates, are lists.
\<close>

type_synonym ('k, 'r) child = "series_id \<Rightarrow> 'k \<rightharpoonup> 'r"

record series_row =
  se_canonical_title :: utext
  se_normalized_title :: utext
  se_description :: "utext option"
  se_cover_url :: "utext option"
  se_content_type :: content_type
  se_status :: series_status
  se_release_year :: "int option"
  se_created_at :: timestamp
  se_updated_at :: timestamp
  se_metadata_checked_at :: "timestamp option"
  se_is_adult :: "bool option"
  se_external_score :: "rat option"
  se_external_popularity :: "int option"
  se_external_source :: "utext option"
  se_title_source :: "utext option"
  se_description_source :: "utext option"
  se_cover_source :: "utext option"
  se_content_type_source :: "utext option"
  se_status_source :: "utext option"
  se_release_year_source :: "utext option"

record title_row =
  ti_title :: utext
  ti_origin :: string

record tag_row =
  tg_weight :: rat
  tg_source :: string

record pinned_watch_row = watch_row +
  wr_pinned_source_id :: "nat option"

record feedback_row =
  fb_verdict :: string
  fb_created_at :: timestamp

record candidate_row =
  mc_id :: nat
  mc_series_id :: series_id
  mc_candidate_id :: series_id
  mc_score :: rat
  mc_signals :: "string list"
  mc_reason :: "string option"
  mc_resolved :: bool
  mc_outcome :: "string option"
  mc_resolved_by :: "user_id option"
  mc_resolved_at :: "timestamp option"
  mc_created_at :: timestamp
  mc_updated_at :: timestamp

record forward_row =
  fw_survivor_id :: series_id
  fw_merged_at :: timestamp
  fw_merged_by :: "user_id option"

record merge_db =
  md_series :: "series_id \<rightharpoonup> series_row"
  md_titles :: "(utext, title_row) child"
  md_tags :: "(nat, tag_row) child"
  md_authors :: "(nat, unit) child"
  md_watchlist :: "(user_id, pinned_watch_row) child"
  md_progress :: "(user_id, progress_row) child"
  md_mappings :: "(string, mapping_row) child"
  md_overrides :: "(user_id \<times> string, bool) child"
  md_dedup :: "(user_id \<times> int, timestamp) child"
  md_feedback :: "(user_id, feedback_row) child"
  md_sources :: "nat \<rightharpoonup> series_id"
  md_history :: "nat \<rightharpoonup> series_id"
  md_decisions :: "nat \<rightharpoonup> series_id option"
  md_remote :: "(user_id \<times> string \<times> string) \<rightharpoonup> series_id option"
  md_blocks :: "((string \<times> string \<times> series_id) \<times> string) list"
  md_conflicts :: "conflict_row list"
  md_candidates :: "candidate_row list"
  md_merges :: "series_id \<rightharpoonup> forward_row"
  md_affinity :: "user_id \<Rightarrow> series_id \<Rightarrow> bool"
  md_taste :: "user_id \<rightharpoonup> bool"
  md_repair :: "series_id \<rightharpoonup> string"
  md_now :: timestamp

datatype merge_error =
    ConflictError string
  | SurvivorMergedInto series_id
  | NotFoundError
  | SqlError db_error

section \<open>The undo journal\<close>

definition undo_version :: nat where "undo_version = 1"

record merge_undo =
  mu_version :: nat
  mu_survivor_id :: series_id
  mu_absorbed_id :: series_id
  mu_series :: "series_row option"
  mu_titles :: "utext \<rightharpoonup> title_row"
  mu_tags :: "nat \<rightharpoonup> tag_row"
  mu_authors :: "nat \<rightharpoonup> unit"
  mu_watchlist :: "user_id \<rightharpoonup> pinned_watch_row"
  mu_progress :: "user_id \<rightharpoonup> progress_row"
  mu_mappings :: "string \<rightharpoonup> mapping_row"
  mu_overrides :: "(user_id \<times> string) \<rightharpoonup> bool"
  mu_dedup :: "(user_id \<times> int) \<rightharpoonup> timestamp"
  mu_feedback :: "user_id \<rightharpoonup> feedback_row"
  mu_survivor_progress :: "user_id \<rightharpoonup> progress_row"
  mu_survivor_overrides :: "(user_id \<times> string) \<rightharpoonup> bool"
  mu_survivor_feedback :: "user_id \<rightharpoonup> feedback_row"
  mu_inserted_titles :: "utext \<rightharpoonup> title_row"
  mu_inserted_tags :: "nat \<rightharpoonup> tag_row"
  mu_inserted_authors :: "nat \<rightharpoonup> unit"
  mu_inserted_watchlist :: "user_id \<rightharpoonup> pinned_watch_row"
  mu_inserted_mappings :: "string \<rightharpoonup> mapping_row"
  mu_inserted_dedup :: "(user_id \<times> int) \<rightharpoonup> timestamp"
  mu_moved_sources :: "nat \<Rightarrow> bool"
  mu_moved_history :: "nat \<Rightarrow> bool"
  mu_moved_conflicts :: "nat list"
  mu_moved_decisions :: "nat \<Rightarrow> bool"
  mu_moved_remote_entries :: "(user_id \<times> string \<times> string) \<Rightarrow> bool"
  mu_moved_match_blocks :: "(string \<times> string) list"
  mu_resolved_candidates :: "nat list"
  mu_recompressed :: "series_id \<Rightarrow> bool"

definition new_undo :: "series_id \<Rightarrow> series_id \<Rightarrow> merge_undo" where
  "new_undo keep absorbed =
     \<lparr>mu_version = undo_version, mu_survivor_id = keep, mu_absorbed_id = absorbed, mu_series = None,
      mu_titles = Map.empty, mu_tags = Map.empty, mu_authors = Map.empty, mu_watchlist = Map.empty,
      mu_progress = Map.empty, mu_mappings = Map.empty, mu_overrides = Map.empty,
      mu_dedup = Map.empty, mu_feedback = Map.empty, mu_survivor_progress = Map.empty,
      mu_survivor_overrides = Map.empty, mu_survivor_feedback = Map.empty,
      mu_inserted_titles = Map.empty, mu_inserted_tags = Map.empty,
      mu_inserted_authors = Map.empty, mu_inserted_watchlist = Map.empty,
      mu_inserted_mappings = Map.empty, mu_inserted_dedup = Map.empty,
      mu_moved_sources = (\<lambda>_. False), mu_moved_history = (\<lambda>_. False), mu_moved_conflicts = [],
      mu_moved_decisions = (\<lambda>_. False), mu_moved_remote_entries = (\<lambda>_. False),
      mu_moved_match_blocks = [], mu_resolved_candidates = [],
      mu_recompressed = (\<lambda>_. False)\<rparr>"

text \<open>The survivor's rows at the keys the absorbed side carries.\<close>

definition at_keys :: "('k \<rightharpoonup> 'r) \<Rightarrow> ('k \<rightharpoonup> 'r) \<Rightarrow> 'k \<rightharpoonup> 'r" where
  "at_keys other own = (\<lambda>k. case other k of None \<Rightarrow> None | Some _ \<Rightarrow> own k)"

definition capture :: "merge_undo \<Rightarrow> merge_db \<Rightarrow> merge_undo" where
  "capture u db =
     (let keep = mu_survivor_id u; absorbed = mu_absorbed_id u
      in u\<lparr>mu_series := md_series db absorbed, mu_titles := md_titles db absorbed,
           mu_tags := md_tags db absorbed, mu_authors := md_authors db absorbed,
           mu_watchlist := md_watchlist db absorbed, mu_progress := md_progress db absorbed,
           mu_mappings := md_mappings db absorbed, mu_overrides := md_overrides db absorbed,
           mu_dedup := md_dedup db absorbed, mu_feedback := md_feedback db absorbed,
           mu_survivor_progress := at_keys (md_progress db absorbed) (md_progress db keep),
           mu_survivor_overrides := at_keys (md_overrides db absorbed) (md_overrides db keep),
           mu_survivor_feedback := at_keys (md_feedback db absorbed) (md_feedback db keep)\<rparr>)"

section \<open>The statements of a merge\<close>

text \<open>\<open>INSERT ... SELECT ... ON CONFLICT DO NOTHING RETURNING\<close>: the new table and the created rows.\<close>

definition created :: "('r \<Rightarrow> 'r) \<Rightarrow> ('k \<rightharpoonup> 'r) \<Rightarrow> ('k \<rightharpoonup> 'r) \<Rightarrow> 'k \<rightharpoonup> 'r" where
  "created conv from into = (\<lambda>k. case into k of None \<Rightarrow> map_option conv (from k) | Some _ \<Rightarrow> None)"

definition union_nothing ::
  "series_id \<Rightarrow> series_id \<Rightarrow> ('r \<Rightarrow> 'r) \<Rightarrow> ('k, 'r) child \<Rightarrow> ('k, 'r) child" where
  "union_nothing keep absorbed conv t =
     t(keep := t keep ++ created conv (t absorbed) (t keep))"

text \<open>\<open>ON CONFLICT DO UPDATE\<close>: the combination \<open>f\<close> of the stored and the incoming row.\<close>

definition union_update ::
  "series_id \<Rightarrow> series_id \<Rightarrow> ('r \<Rightarrow> 'r \<Rightarrow> 'r) \<Rightarrow> ('k, 'r) child \<Rightarrow> ('k, 'r) child" where
  "union_update keep absorbed f t =
     t(keep := (\<lambda>k. case t absorbed k of
                      None \<Rightarrow> t keep k
                    | Some e \<Rightarrow> Some (case t keep k of None \<Rightarrow> e | Some r \<Rightarrow> f r e)))"

definition repoint_rows :: "'s \<Rightarrow> 's \<Rightarrow> ('k \<rightharpoonup> 's) \<Rightarrow> 'k \<rightharpoonup> 's" where
  "repoint_rows keep absorbed t = (\<lambda>i. if t i = Some absorbed then Some keep else t i)"

definition pointing :: "'s \<Rightarrow> ('k \<rightharpoonup> 's) \<Rightarrow> 'k \<Rightarrow> bool" where
  "pointing absorbed t = (\<lambda>i. t i = Some absorbed)"

definition merge_title :: "title_row \<Rightarrow> title_row" where
  "merge_title r = r\<lparr>ti_origin := ''merge''\<rparr>"

definition canonical_title :: "series_row option \<Rightarrow> utext \<rightharpoonup> title_row" where
  "canonical_title s =
     (case s of
        None \<Rightarrow> Map.empty
      | Some r \<Rightarrow> [se_normalized_title r \<mapsto> \<lparr>ti_title = se_canonical_title r, ti_origin = ''merge''\<rparr>])"

definition default_tag :: "tag_row \<Rightarrow> tag_row" where
  "default_tag _ = \<lparr>tg_weight = 1, tg_source = ''provider''\<rparr>"

definition move_catalogue :: "merge_undo \<times> merge_db \<Rightarrow> merge_undo \<times> merge_db" where
  "move_catalogue st =
     (let u = fst st; db = snd st; keep = mu_survivor_id u; absorbed = mu_absorbed_id u;
          t0 = md_titles db;
          canonical = created id (canonical_title (md_series db absorbed)) (t0 keep);
          t1 = t0(keep := t0 keep ++ canonical);
          alternatives = created merge_title (t1 absorbed) (t1 keep)
      in (u\<lparr>mu_moved_sources := pointing absorbed (md_sources db),
            mu_inserted_titles := canonical ++ alternatives,
            mu_inserted_tags := created default_tag (md_tags db absorbed) (md_tags db keep),
            mu_inserted_authors := created id (md_authors db absorbed) (md_authors db keep)\<rparr>,
          db\<lparr>md_sources := repoint_rows keep absorbed (md_sources db),
             md_titles := union_nothing keep absorbed merge_title t1,
             md_tags := union_nothing keep absorbed default_tag (md_tags db),
             md_authors := union_nothing keep absorbed id (md_authors db)\<rparr>))"

definition part_or_zero :: "progress_row \<Rightarrow> int" where
  "part_or_zero r = (case pr_part r of None \<Rightarrow> 0 | Some p \<Rightarrow> p)"

definition merge_progress_rows :: "timestamp \<Rightarrow> progress_row \<Rightarrow> progress_row \<Rightarrow> progress_row" where
  "merge_progress_rows now r e =
     (let whole = max (pr_whole r) (pr_whole e); part = max (part_or_zero r) (part_or_zero e)
      in \<lparr>pr_whole = whole, pr_part = (if part div 10000 * 10000 \<le> whole then None else Some part),
          pr_updated_at = now\<rparr>)"

definition unpinned :: "pinned_watch_row \<Rightarrow> pinned_watch_row" where
  "unpinned r = r\<lparr>wr_pinned_source_id := None\<rparr>"

definition fold_reader_state :: "merge_undo \<times> merge_db \<Rightarrow> merge_undo \<times> merge_db" where
  "fold_reader_state st =
     (let u = fst st; db = snd st; keep = mu_survivor_id u; absorbed = mu_absorbed_id u
      in (u\<lparr>mu_inserted_watchlist := created unpinned (md_watchlist db absorbed) (md_watchlist db keep)\<rparr>,
          db\<lparr>md_watchlist := union_nothing keep absorbed unpinned (md_watchlist db),
             md_progress := union_update keep absorbed (merge_progress_rows (md_now db)) (md_progress db)\<rparr>))"

definition bare_mapping :: "timestamp \<Rightarrow> mapping_row \<Rightarrow> mapping_row" where
  "bare_mapping now m = fresh_mapping (mr_external_id m) now"

definition block_key :: "(string \<times> string \<times> series_id) \<times> string \<Rightarrow> string \<times> string" where
  "block_key b = (fst (fst b), fst (snd (fst b)))"

definition block_series :: "(string \<times> string \<times> series_id) \<times> string \<Rightarrow> series_id" where
  "block_series b = snd (snd (fst b))"

definition set_block_series ::
  "series_id \<Rightarrow> (string \<times> string \<times> series_id) \<times> string \<Rightarrow> (string \<times> string \<times> series_id) \<times> string" where
  "set_block_series s b = ((fst (fst b), fst (snd (fst b)), s), snd b)"

definition blocks_of ::
  "series_id \<Rightarrow> ((string \<times> string \<times> series_id) \<times> string) list \<Rightarrow> (string \<times> string) list" where
  "blocks_of s bs = map block_key (filter (\<lambda>b. block_series b = s) bs)"

definition same_conflict :: "series_id \<Rightarrow> conflict_row \<Rightarrow> conflict_row \<Rightarrow> bool" where
  "same_conflict keep c c2 \<longleftrightarrow>
     cf_user c2 = cf_user c \<and> cf_series c2 = keep \<and> cf_provider c2 = cf_provider c \<and>
     cf_field c2 = cf_field c \<and> cf_resolved_at c2 = None"

definition movable_conflict ::
  "series_id \<Rightarrow> series_id \<Rightarrow> conflict_row list \<Rightarrow> conflict_row \<Rightarrow> bool" where
  "movable_conflict keep absorbed cs c \<longleftrightarrow>
     cf_series c = absorbed \<and>
     (cf_resolved_at c \<noteq> None \<or> \<not> list_ex (same_conflict keep c) cs)"

definition move_conflicts :: "series_id \<Rightarrow> series_id \<Rightarrow> conflict_row list \<Rightarrow> conflict_row list" where
  "move_conflicts keep absorbed cs =
     map (\<lambda>c. if movable_conflict keep absorbed cs c then c\<lparr>cf_series := keep\<rparr> else c) cs"

definition move_blocks ::
  "series_id \<Rightarrow> series_id \<Rightarrow> ((string \<times> string \<times> series_id) \<times> string) list \<Rightarrow>
     ((string \<times> string \<times> series_id) \<times> string) list" where
  "move_blocks keep absorbed bs =
     map (\<lambda>b. if block_series b = absorbed then set_block_series keep b else b) bs"

definition move_sync_state ::
  "merge_undo \<times> merge_db \<Rightarrow> (merge_error, merge_undo \<times> merge_db) result" where
  "move_sync_state st =
     (let u = fst st; db = snd st; keep = mu_survivor_id u; absorbed = mu_absorbed_id u
      in if list_ex (\<lambda>k. k \<in> set (blocks_of keep (md_blocks db))) (blocks_of absorbed (md_blocks db))
         then Err (SqlError UniqueViolation)
         else Ok
          (u\<lparr>mu_inserted_mappings :=
               created (bare_mapping (md_now db)) (md_mappings db absorbed) (md_mappings db keep),
             mu_moved_history := pointing absorbed (md_history db),
             mu_moved_decisions := pointing (Some absorbed) (md_decisions db),
             mu_moved_match_blocks := blocks_of absorbed (md_blocks db),
             mu_moved_remote_entries := pointing (Some absorbed) (md_remote db),
             mu_moved_conflicts := map cf_id (filter (movable_conflict keep absorbed (md_conflicts db)) (md_conflicts db))\<rparr>,
           db\<lparr>md_mappings := union_nothing keep absorbed (bare_mapping (md_now db)) (md_mappings db),
              md_overrides := union_update keep absorbed (\<or>) (md_overrides db),
              md_history := repoint_rows keep absorbed (md_history db),
              md_decisions := repoint_rows (Some keep) (Some absorbed) (md_decisions db),
              md_blocks := move_blocks keep absorbed (md_blocks db),
              md_remote := repoint_rows (Some keep) (Some absorbed) (md_remote db),
              md_conflicts := move_conflicts keep absorbed (md_conflicts db)\<rparr>))"

definition move_notification_dedup :: "merge_undo \<times> merge_db \<Rightarrow> merge_undo \<times> merge_db" where
  "move_notification_dedup st =
     (let u = fst st; db = snd st; keep = mu_survivor_id u; absorbed = mu_absorbed_id u
      in (u\<lparr>mu_inserted_dedup := created id (md_dedup db absorbed) (md_dedup db keep)\<rparr>,
          db\<lparr>md_dedup := union_nothing keep absorbed id (md_dedup db)\<rparr>))"

definition open_naming :: "series_id \<Rightarrow> candidate_row \<Rightarrow> bool" where
  "open_naming s c \<longleftrightarrow> (mc_series_id c = s \<or> mc_candidate_id c = s) \<and> \<not> mc_resolved c"

definition resolve_naming ::
  "user_id option \<Rightarrow> string \<Rightarrow> timestamp \<Rightarrow> series_id \<Rightarrow> candidate_row \<Rightarrow> candidate_row" where
  "resolve_naming actor outcome now s c =
     (if open_naming s c
      then c\<lparr>mc_resolved := True, mc_outcome := Some outcome, mc_resolved_by := actor,
             mc_resolved_at := Some now, mc_updated_at := now\<rparr>
      else c)"

definition resolve_candidates ::
  "user_id option \<Rightarrow> string \<Rightarrow> merge_undo \<times> merge_db \<Rightarrow> merge_undo \<times> merge_db" where
  "resolve_candidates actor outcome st =
     (let u = fst st; db = snd st; absorbed = mu_absorbed_id u
      in (u\<lparr>mu_resolved_candidates :=
              map mc_id (filter (open_naming absorbed) (md_candidates db))\<rparr>,
          db\<lparr>md_candidates := map (resolve_naming actor outcome (md_now db) absorbed) (md_candidates db)\<rparr>))"

definition merge_feedback :: "feedback_row \<Rightarrow> feedback_row \<Rightarrow> feedback_row" where
  "merge_feedback r e =
     r\<lparr>fb_verdict := (if fb_verdict r = ''hide_forever'' \<or> fb_verdict e = ''hide_forever''
                      then ''hide_forever'' else fb_verdict e)\<rparr>"

definition queue_repair :: "string \<Rightarrow> series_id \<Rightarrow> (series_id \<rightharpoonup> string) \<Rightarrow> series_id \<rightharpoonup> string" where
  "queue_repair reason s q = (case q s of None \<Rightarrow> q(s \<mapsto> reason) | Some _ \<Rightarrow> q)"

definition mark_stale :: "(user_id \<Rightarrow> bool) \<Rightarrow> (user_id \<rightharpoonup> bool) \<Rightarrow> user_id \<rightharpoonup> bool" where
  "mark_stale p t = (\<lambda>r. map_option (\<lambda>stale. stale \<or> p r) (t r))"

definition fold_recommendations :: "merge_undo \<times> merge_db \<Rightarrow> merge_undo \<times> merge_db" where
  "fold_recommendations st =
     (let u = fst st; db = snd st; keep = mu_survivor_id u; absorbed = mu_absorbed_id u
      in (u, db\<lparr>md_feedback := union_update keep absorbed merge_feedback (md_feedback db),
                md_taste := mark_stale (\<lambda>r. md_affinity db r keep \<or> md_affinity db r absorbed) (md_taste db),
                md_repair := queue_repair ''merged'' keep (md_repair db)\<rparr>))"

definition aliases_of :: "series_id \<Rightarrow> (series_id \<rightharpoonup> forward_row) \<Rightarrow> series_id \<Rightarrow> bool" where
  "aliases_of s t i \<longleftrightarrow> map_option fw_survivor_id (t i) = Some s"

definition compress_aliases ::
  "series_id \<Rightarrow> (series_id \<Rightarrow> bool) \<Rightarrow> (series_id \<rightharpoonup> forward_row) \<Rightarrow> series_id \<rightharpoonup> forward_row" where
  "compress_aliases s listed t =
     (\<lambda>i. if listed i then map_option (fw_survivor_id_update (\<lambda>_. s)) (t i) else t i)"

definition forward_merged_id :: "user_id option \<Rightarrow> merge_undo \<times> merge_db \<Rightarrow> merge_undo \<times> merge_db" where
  "forward_merged_id actor st =
     (let u = fst st; db = snd st; keep = mu_survivor_id u; absorbed = mu_absorbed_id u
      in (u\<lparr>mu_recompressed := aliases_of absorbed (md_merges db)\<rparr>,
          db\<lparr>md_merges := (compress_aliases keep (aliases_of absorbed (md_merges db)) (md_merges db))
               (absorbed \<mapsto> \<lparr>fw_survivor_id = keep, fw_merged_at = md_now db, fw_merged_by = actor\<rparr>)\<rparr>))"

text \<open>Deleting the row of a series, with the cascades and the \<open>SET NULL\<close> of its foreign keys.\<close>

definition drop_pointing :: "'s \<Rightarrow> ('k \<rightharpoonup> 's) \<Rightarrow> 'k \<rightharpoonup> 's" where
  "drop_pointing s t = (\<lambda>i. if t i = Some s then None else t i)"

definition drop_aliases :: "series_id \<Rightarrow> (series_id \<rightharpoonup> forward_row) \<Rightarrow> series_id \<rightharpoonup> forward_row" where
  "drop_aliases s t = (\<lambda>i. if aliases_of s t i then None else t i)"

definition delete_series :: "series_id \<Rightarrow> merge_db \<Rightarrow> merge_db" where
  "delete_series s db =
     db\<lparr>md_series := (md_series db)(s := None),
        md_titles := (md_titles db)(s := Map.empty), md_tags := (md_tags db)(s := Map.empty),
        md_authors := (md_authors db)(s := Map.empty), md_watchlist := (md_watchlist db)(s := Map.empty),
        md_progress := (md_progress db)(s := Map.empty), md_mappings := (md_mappings db)(s := Map.empty),
        md_overrides := (md_overrides db)(s := Map.empty), md_dedup := (md_dedup db)(s := Map.empty),
        md_feedback := (md_feedback db)(s := Map.empty),
        md_sources := drop_pointing s (md_sources db),
        md_history := drop_pointing s (md_history db),
        md_decisions := repoint_rows None (Some s) (md_decisions db),
        md_remote := repoint_rows None (Some s) (md_remote db),
        md_blocks := filter (\<lambda>b. block_series b \<noteq> s) (md_blocks db),
        md_conflicts := filter (\<lambda>c. cf_series c \<noteq> s) (md_conflicts db),
        md_candidates := filter (\<lambda>c. mc_series_id c \<noteq> s \<and> mc_candidate_id c \<noteq> s) (md_candidates db),
        md_merges := drop_aliases s (md_merges db),
        md_affinity := (\<lambda>r i. i \<noteq> s \<and> md_affinity db r i),
        md_repair := (md_repair db)(s := None)\<rparr>"

definition merge_series ::
  "series_id \<Rightarrow> series_id \<Rightarrow> user_id option \<Rightarrow> string \<Rightarrow> merge_db \<Rightarrow>
     (merge_error, merge_undo) result \<times> merge_db" where
  "merge_series keep absorbed actor outcome db =
     (if keep = absorbed then (Err (ConflictError ''cannot merge a series into itself''), db)
      else if md_series db keep = None \<or> md_series db absorbed = None then (Err NotFoundError, db)
      else
        case move_sync_state (fold_reader_state (move_catalogue (capture (new_undo keep absorbed) db, db))) of
          Inl e \<Rightarrow> (Err e, db)
        | Inr st \<Rightarrow>
            (let st' = forward_merged_id actor (fold_recommendations (resolve_candidates actor outcome
                         (move_notification_dedup st)))
             in (Ok (fst st'), delete_series absorbed (snd st'))))"

definition resolve_merged_series :: "merge_db \<Rightarrow> series_id \<Rightarrow> series_id option" where
  "resolve_merged_series db i = map_option fw_survivor_id (md_merges db i)"

definition resolve_merged_series_batch :: "merge_db \<Rightarrow> series_id list \<Rightarrow> (series_id \<times> series_id) list" where
  "resolve_merged_series_batch db ids =
     [(i, s). i \<leftarrow> ids, s \<leftarrow> (case resolve_merged_series db i of None \<Rightarrow> [] | Some s \<Rightarrow> [s])]"

section \<open>Taking a merge back\<close>

text \<open>How many rows the console announces for a revert, and what it refuses.\<close>

definition rows_in :: "('k \<rightharpoonup> 'r) \<Rightarrow> nat" where
  "rows_in t = card (dom t)"

definition row_count :: "merge_undo \<Rightarrow> nat" where
  "row_count u =
     rows_in (mu_titles u) + rows_in (mu_tags u) + rows_in (mu_authors u) + rows_in (mu_watchlist u) +
     rows_in (mu_progress u) + rows_in (mu_mappings u) + rows_in (mu_overrides u) + rows_in (mu_dedup u) +
     rows_in (mu_feedback u) + card (Collect (mu_moved_remote_entries u)) +
     card (Collect (mu_moved_sources u)) + card (Collect (mu_moved_history u)) +
     length (mu_moved_conflicts u) + card (Collect (mu_moved_decisions u))"

definition check_revertible :: "merge_undo \<Rightarrow> merge_db \<Rightarrow> (merge_error, series_row) result" where
  "check_revertible u db =
     (let keep = mu_survivor_id u; absorbed = mu_absorbed_id u
      in if mu_version u \<noteq> undo_version
         then Err (ConflictError ''undo journal version cannot be applied by this build'')
         else case mu_series u of
             None \<Rightarrow> Err (ConflictError ''undo journal carries no absorbed series row'')
           | Some row \<Rightarrow>
               if md_series db absorbed \<noteq> None
               then Err (ConflictError ''the absorbed series already exists; this merge has already been reverted'')
               else if md_series db keep = None
               then Err (case resolve_merged_series db keep of
                           None \<Rightarrow> ConflictError ''the surviving series no longer exists''
                         | Some at_id \<Rightarrow> SurvivorMergedInto at_id)
               else Ok row)"

definition restore_absorbed_series :: "merge_undo \<Rightarrow> series_row \<Rightarrow> merge_db \<Rightarrow> merge_db" where
  "restore_absorbed_series u row db = db\<lparr>md_series := (md_series db)(mu_absorbed_id u \<mapsto> row)\<rparr>"

text \<open>Rows that still exist are re-pointed by key; a key whose row is gone updates nothing.\<close>

definition repoint_listed :: "'s \<Rightarrow> ('k \<Rightarrow> bool) \<Rightarrow> ('k \<rightharpoonup> 's) \<Rightarrow> 'k \<rightharpoonup> 's" where
  "repoint_listed s listed t = (\<lambda>i. if listed i then map_option (\<lambda>_. s) (t i) else t i)"

definition move_sources_back :: "merge_undo \<Rightarrow> merge_db \<Rightarrow> merge_db" where
  "move_sources_back u db =
     db\<lparr>md_sources := repoint_listed (mu_absorbed_id u) (mu_moved_sources u) (md_sources db)\<rparr>"

definition delete_keys :: "series_id \<Rightarrow> ('k \<rightharpoonup> 'x) \<Rightarrow> ('k, 'r) child \<Rightarrow> ('k, 'r) child" where
  "delete_keys s keys t = t(s := (\<lambda>k. if keys k = None then t s k else None))"

definition insert_rows :: "series_id \<Rightarrow> ('k \<rightharpoonup> 'r) \<Rightarrow> ('k, 'r) child \<Rightarrow> ('k, 'r) child" where
  "insert_rows s rows t = t(s := t s ++ rows)"

definition remove_created_rows :: "merge_undo \<Rightarrow> merge_db \<Rightarrow> merge_db" where
  "remove_created_rows u db =
     (let keep = mu_survivor_id u
      in db\<lparr>md_titles := delete_keys keep (mu_inserted_titles u) (md_titles db),
            md_tags := delete_keys keep (mu_inserted_tags u) (md_tags db),
            md_authors := delete_keys keep (mu_inserted_authors u) (md_authors db),
            md_watchlist := delete_keys keep (mu_inserted_watchlist u) (md_watchlist db),
            md_mappings := delete_keys keep (mu_inserted_mappings u) (md_mappings db),
            md_dedup := delete_keys keep (mu_inserted_dedup u) (md_dedup db)\<rparr>)"

definition restore_overwritten_rows :: "merge_undo \<Rightarrow> merge_db \<Rightarrow> merge_db" where
  "restore_overwritten_rows u db =
     (let keep = mu_survivor_id u
      in db\<lparr>md_progress := insert_rows keep (mu_survivor_progress u)
                             (delete_keys keep (mu_progress u) (md_progress db)),
            md_overrides := insert_rows keep (mu_survivor_overrides u)
                              (delete_keys keep (mu_overrides u) (md_overrides db)),
            md_feedback := insert_rows keep (mu_survivor_feedback u)
                             (delete_keys keep (mu_feedback u) (md_feedback db))\<rparr>)"

definition restore_cascaded_children :: "merge_undo \<Rightarrow> merge_db \<Rightarrow> merge_db" where
  "restore_cascaded_children u db =
     (let absorbed = mu_absorbed_id u
      in db\<lparr>md_titles := insert_rows absorbed (mu_titles u) (md_titles db),
            md_tags := insert_rows absorbed (mu_tags u) (md_tags db),
            md_authors := insert_rows absorbed (mu_authors u) (md_authors db),
            md_watchlist := insert_rows absorbed (mu_watchlist u) (md_watchlist db),
            md_progress := insert_rows absorbed (mu_progress u) (md_progress db),
            md_mappings := insert_rows absorbed (mu_mappings u) (md_mappings db),
            md_overrides := insert_rows absorbed (mu_overrides u) (md_overrides db),
            md_dedup := insert_rows absorbed (mu_dedup u) (md_dedup db),
            md_feedback := insert_rows absorbed (mu_feedback u) (md_feedback db)\<rparr>)"

definition move_conflicts_back :: "series_id \<Rightarrow> nat list \<Rightarrow> conflict_row list \<Rightarrow> conflict_row list" where
  "move_conflicts_back s ids cs = map (\<lambda>c. if cf_id c \<in> set ids then c\<lparr>cf_series := s\<rparr> else c) cs"

definition move_blocks_back ::
  "series_id \<Rightarrow> series_id \<Rightarrow> (string \<times> string) list \<Rightarrow> ((string \<times> string \<times> series_id) \<times> string) list \<Rightarrow>
     ((string \<times> string \<times> series_id) \<times> string) list" where
  "move_blocks_back keep s keys bs =
     map (\<lambda>b. if block_series b = keep \<and> block_key b \<in> set keys then set_block_series s b else b) bs"

definition repoint_rows_back :: "merge_undo \<Rightarrow> merge_db \<Rightarrow> merge_db" where
  "repoint_rows_back u db =
     (let keep = mu_survivor_id u; absorbed = mu_absorbed_id u
      in db\<lparr>md_history := repoint_listed absorbed (mu_moved_history u) (md_history db),
            md_remote := repoint_listed (Some absorbed)
              (\<lambda>k. mu_moved_remote_entries u k \<and> md_remote db k = Some (Some keep)) (md_remote db),
            md_conflicts := move_conflicts_back absorbed (mu_moved_conflicts u) (md_conflicts db),
            md_decisions := repoint_listed (Some absorbed) (mu_moved_decisions u) (md_decisions db),
            md_blocks := move_blocks_back keep absorbed (mu_moved_match_blocks u) (md_blocks db)\<rparr>)"

definition reopen_listed :: "timestamp \<Rightarrow> nat list \<Rightarrow> candidate_row list \<Rightarrow> candidate_row list" where
  "reopen_listed now ids cs =
     map (\<lambda>c. if mc_id c \<in> set ids \<and> mc_outcome c \<in> {Some ''merged'', Some ''auto_merged''}
              then c\<lparr>mc_resolved := False, mc_outcome := None, mc_resolved_by := None,
                     mc_resolved_at := None, mc_updated_at := now\<rparr>
              else c) cs"

definition reopen_candidates :: "merge_undo \<Rightarrow> merge_db \<Rightarrow> merge_db" where
  "reopen_candidates u db =
     db\<lparr>md_candidates := reopen_listed (md_now db) (mu_resolved_candidates u) (md_candidates db)\<rparr>"

definition remove_forwarding :: "merge_undo \<Rightarrow> merge_db \<Rightarrow> merge_db" where
  "remove_forwarding u db =
     (let keep = mu_survivor_id u; absorbed = mu_absorbed_id u;
          uncompressed = compress_aliases absorbed (mu_recompressed u) (md_merges db)
      in db\<lparr>md_merges := (if map_option fw_survivor_id (uncompressed absorbed) = Some keep
                            then uncompressed(absorbed := None) else uncompressed)\<rparr>)"

definition mark_derived_state_stale :: "merge_undo \<Rightarrow> merge_db \<Rightarrow> merge_db" where
  "mark_derived_state_stale u db =
     (let keep = mu_survivor_id u; absorbed = mu_absorbed_id u
      in db\<lparr>md_repair := queue_repair ''merge_reverted'' absorbed
                            (queue_repair ''merge_reverted'' keep (md_repair db)),
            md_taste := mark_stale (\<lambda>r. md_watchlist db keep r \<noteq> None \<or> md_watchlist db absorbed r \<noteq> None)
                           (md_taste db)\<rparr>)"

definition revert_merge :: "merge_undo \<Rightarrow> merge_db \<Rightarrow> (merge_error, merge_db) result" where
  "revert_merge u db =
     (case check_revertible u db of
        Inl e \<Rightarrow> Err e
      | Inr row \<Rightarrow>
          Ok (mark_derived_state_stale u (remove_forwarding u (reopen_candidates u (repoint_rows_back u
               (restore_cascaded_children u (restore_overwritten_rows u (remove_created_rows u
                 (move_sources_back u (restore_absorbed_series u row db))))))))))"

text \<open>What a merge adds to the survivor's titles, and which conflicts outlive it.\<close>

definition new_titles :: "series_id \<Rightarrow> series_id \<Rightarrow> merge_db \<Rightarrow> utext \<rightharpoonup> title_row" where
  "new_titles keep absorbed db =
     created id (canonical_title (md_series db absorbed)) (md_titles db keep) ++
     created merge_title (md_titles db absorbed)
       (md_titles db keep ++ created id (canonical_title (md_series db absorbed)) (md_titles db keep))"

definition kept_conflict :: "series_id \<Rightarrow> series_id \<Rightarrow> conflict_row list \<Rightarrow> conflict_row \<Rightarrow> bool" where
  "kept_conflict keep absorbed cs c \<longleftrightarrow> cf_series c \<noteq> absorbed \<or> movable_conflict keep absorbed cs c"

lemma drop_moved_conflicts [simp]:
  assumes "keep \<noteq> absorbed"
  shows "filter (\<lambda>c. cf_series c \<noteq> absorbed) (move_conflicts keep absorbed cs) =
         map (\<lambda>c. if cf_series c = absorbed then c\<lparr>cf_series := keep\<rparr> else c)
           (filter (kept_conflict keep absorbed cs) cs)"
proof -
  have "filter (\<lambda>c. cf_series c \<noteq> absorbed)
           (map (\<lambda>c. if movable_conflict keep absorbed cs c then c\<lparr>cf_series := keep\<rparr> else c) xs) =
         map (\<lambda>c. if cf_series c = absorbed then c\<lparr>cf_series := keep\<rparr> else c)
           (filter (kept_conflict keep absorbed cs) xs)" for xs
    using assms by (induction xs) (auto simp: kept_conflict_def movable_conflict_def)
  then show ?thesis by (simp add: move_conflicts_def)
qed

lemma drop_resolved [simp]:
  "filter (\<lambda>c. mc_series_id c \<noteq> s \<and> mc_candidate_id c \<noteq> s) (map (resolve_naming actor outcome now s) cs) =
   filter (\<lambda>c. mc_series_id c \<noteq> s \<and> mc_candidate_id c \<noteq> s) cs"
  by (induction cs) (auto simp: open_naming_def resolve_naming_def)

lemmas merge_steps = move_catalogue_def fold_reader_state_def move_sync_state_def
  move_notification_dedup_def resolve_candidates_def fold_recommendations_def forward_merged_id_def
  delete_series_def capture_def new_undo_def

lemma drop_moved [simp]:
  assumes "keep \<noteq> absorbed"
  shows "drop_pointing absorbed (repoint_rows keep absorbed t) = repoint_rows keep absorbed t"
    and "repoint_rows s absorbed (repoint_rows keep absorbed t) = repoint_rows keep absorbed t"
  using assms by (auto simp: drop_pointing_def repoint_rows_def)

lemma drop_forwarded [simp]:
  assumes "keep \<noteq> absorbed" "fw_survivor_id r \<noteq> absorbed"
  shows "drop_aliases absorbed ((compress_aliases keep (aliases_of absorbed t) t)(absorbed \<mapsto> r)) =
         (compress_aliases keep (aliases_of absorbed t) t)(absorbed \<mapsto> r)"
  using assms by (intro ext) (auto simp: drop_aliases_def compress_aliases_def aliases_of_def)

lemma drop_blocks [simp]:
  assumes "keep \<noteq> absorbed"
  shows "filter (\<lambda>b. block_series b \<noteq> absorbed)
           (move_blocks keep absorbed bs) = move_blocks keep absorbed bs"
  using assms by (auto simp: move_blocks_def set_block_series_def block_series_def intro!: filter_True)

lemma merge_ok:
  assumes "merge_series keep absorbed actor outcome db = (Ok u, db1)"
  shows "keep \<noteq> absorbed" "\<exists>r. md_series db keep = Some r" "\<exists>r. md_series db absorbed = Some r"
    and "\<not> list_ex (\<lambda>k. k \<in> set (blocks_of keep (md_blocks db))) (blocks_of absorbed (md_blocks db))"
proof -
  show ka: "keep \<noteq> absorbed" and "\<exists>r. md_series db keep = Some r" "\<exists>r. md_series db absorbed = Some r"
    using assms by (auto simp: merge_series_def split: if_splits)
  show "\<not> list_ex (\<lambda>k. k \<in> set (blocks_of keep (md_blocks db))) (blocks_of absorbed (md_blocks db))"
    using assms by (clarsimp simp: merge_series_def merge_steps Let_def split: if_split_asm)
qed

lemma merge_fields:
  assumes m: "merge_series keep absorbed actor outcome db = (Ok u, db1)"
  shows "(mu_version u = undo_version) \<and>
    (mu_survivor_id u = keep) \<and>
    (mu_absorbed_id u = absorbed) \<and>
    (mu_series u = md_series db absorbed) \<and>
    (mu_titles u = md_titles db absorbed) \<and>
    (mu_tags u = md_tags db absorbed) \<and>
    (mu_authors u = md_authors db absorbed) \<and>
    (mu_watchlist u = md_watchlist db absorbed) \<and>
    (mu_progress u = md_progress db absorbed) \<and>
    (mu_mappings u = md_mappings db absorbed) \<and>
    (mu_overrides u = md_overrides db absorbed) \<and>
    (mu_dedup u = md_dedup db absorbed) \<and>
    (mu_feedback u = md_feedback db absorbed) \<and>
    (mu_survivor_progress u = at_keys (md_progress db absorbed) (md_progress db keep)) \<and>
    (mu_survivor_overrides u = at_keys (md_overrides db absorbed) (md_overrides db keep)) \<and>
    (mu_survivor_feedback u = at_keys (md_feedback db absorbed) (md_feedback db keep)) \<and>
    (mu_inserted_titles u = new_titles keep absorbed db) \<and>
    (mu_inserted_tags u = created default_tag (md_tags db absorbed) (md_tags db keep)) \<and>
    (mu_inserted_authors u = created id (md_authors db absorbed) (md_authors db keep)) \<and>
    (mu_inserted_watchlist u = created unpinned (md_watchlist db absorbed) (md_watchlist db keep)) \<and>
    (mu_inserted_mappings u =
           created (bare_mapping (md_now db)) (md_mappings db absorbed) (md_mappings db keep)) \<and>
    (mu_inserted_dedup u = created id (md_dedup db absorbed) (md_dedup db keep)) \<and>
    (mu_moved_sources u = pointing absorbed (md_sources db)) \<and>
    (mu_moved_history u = pointing absorbed (md_history db)) \<and>
    (mu_moved_conflicts u = map cf_id (filter (movable_conflict keep absorbed (md_conflicts db)) (md_conflicts db))) \<and>
    (mu_moved_decisions u = pointing (Some absorbed) (md_decisions db)) \<and>
    (mu_moved_remote_entries u = pointing (Some absorbed) (md_remote db)) \<and>
    (mu_moved_match_blocks u = blocks_of absorbed (md_blocks db)) \<and>
    (mu_resolved_candidates u = map mc_id (filter (open_naming absorbed) (md_candidates db))) \<and>
    (mu_recompressed u = aliases_of absorbed (md_merges db)) \<and>
    (md_series db1 = (md_series db)(absorbed := None)) \<and>
    (md_titles db1 = (md_titles db)(keep := md_titles db keep ++ new_titles keep absorbed db,
                                        absorbed := Map.empty)) \<and>
    (md_tags db1 = (union_nothing keep absorbed default_tag (md_tags db))(absorbed := Map.empty)) \<and>
    (md_authors db1 = (union_nothing keep absorbed id (md_authors db))(absorbed := Map.empty)) \<and>
    (md_watchlist db1 = (union_nothing keep absorbed unpinned (md_watchlist db))(absorbed := Map.empty)) \<and>
    (md_progress db1 = (union_update keep absorbed (merge_progress_rows (md_now db)) (md_progress db))
           (absorbed := Map.empty)) \<and>
    (md_mappings db1 = (union_nothing keep absorbed (bare_mapping (md_now db)) (md_mappings db))
           (absorbed := Map.empty)) \<and>
    (md_overrides db1 = (union_update keep absorbed (\<or>) (md_overrides db))(absorbed := Map.empty)) \<and>
    (md_dedup db1 = (union_nothing keep absorbed id (md_dedup db))(absorbed := Map.empty)) \<and>
    (md_feedback db1 = (union_update keep absorbed merge_feedback (md_feedback db))(absorbed := Map.empty)) \<and>
    (md_sources db1 = repoint_rows keep absorbed (md_sources db)) \<and>
    (md_history db1 = repoint_rows keep absorbed (md_history db)) \<and>
    (md_decisions db1 = repoint_rows (Some keep) (Some absorbed) (md_decisions db)) \<and>
    (md_remote db1 = repoint_rows (Some keep) (Some absorbed) (md_remote db)) \<and>
    (md_blocks db1 = move_blocks keep absorbed (md_blocks db)) \<and>
    (md_conflicts db1 = map (\<lambda>c. if cf_series c = absorbed then c\<lparr>cf_series := keep\<rparr> else c)
           (filter (kept_conflict keep absorbed (md_conflicts db)) (md_conflicts db))) \<and>
    (md_candidates db1 = filter (\<lambda>c. mc_series_id c \<noteq> absorbed \<and> mc_candidate_id c \<noteq> absorbed)
           (md_candidates db)) \<and>
    (md_merges db1 = (compress_aliases keep (aliases_of absorbed (md_merges db)) (md_merges db))
           (absorbed \<mapsto> \<lparr>fw_survivor_id = keep, fw_merged_at = md_now db, fw_merged_by = actor\<rparr>)) \<and>
    (md_now db1 = md_now db)"
proof -
  obtain r r' where r: "md_series db keep = Some r" "md_series db absorbed = Some r'"
    using merge_ok(2,3) [OF m] by blast
  show ?thesis
    using m merge_ok(1,4) [OF m]
    apply (simp add: merge_series_def merge_steps Let_def r del: fun_upd_apply)
    apply (elim conjE)
    apply hypsubst
    apply (simp add: new_titles_def union_nothing_def r fun_upd_same fun_upd_other map_add_assoc del: fun_upd_apply)
    done
qed

section \<open>The inverse of each statement\<close>

lemma undo_added:
  assumes "keep \<noteq> absorbed" "\<And>k. n k \<noteq> None \<Longrightarrow> t keep k = None"
  shows "insert_rows absorbed (t absorbed)
           (delete_keys keep n (t(keep := t keep ++ n, absorbed := Map.empty))) = t"
  using assms by (intro ext) (force simp: insert_rows_def delete_keys_def map_add_def split: option.split)

lemma created_fresh: "created f from own k \<noteq> None \<Longrightarrow> own k = None"
  by (simp add: created_def split: option.splits)

lemma undo_union_nothing:
  assumes "keep \<noteq> absorbed"
  shows "insert_rows absorbed (t absorbed)
           (delete_keys keep (created f (t absorbed) (t keep))
             ((union_nothing keep absorbed f t)(absorbed := Map.empty))) = t"
  unfolding union_nothing_def by (rule undo_added [OF assms created_fresh])

lemma new_titles_fresh: "new_titles keep absorbed db k \<noteq> None \<Longrightarrow> md_titles db keep k = None"
  by (auto simp: new_titles_def created_def map_add_def split: option.splits)

lemma undo_union_update:
  assumes "keep \<noteq> absorbed"
  shows "insert_rows absorbed (t absorbed)
           (insert_rows keep (at_keys (t absorbed) (t keep))
             (delete_keys keep (t absorbed) ((union_update keep absorbed f t)(absorbed := Map.empty)))) = t"
  using assms by (intro ext)
    (auto simp: insert_rows_def delete_keys_def union_update_def at_keys_def map_add_def split: option.split)

lemma undo_repoint:
  assumes "keep \<noteq> absorbed"
  shows "repoint_listed absorbed (pointing absorbed t) (repoint_rows keep absorbed t) = t"
    and "repoint_listed absorbed (\<lambda>k. pointing absorbed t k \<and> repoint_rows keep absorbed t k = Some keep)
           (repoint_rows keep absorbed t) = t"
  using assms by (intro ext; auto simp: repoint_listed_def repoint_rows_def pointing_def)+

lemma undo_forward:
  assumes "t absorbed = None"
  shows "(compress_aliases absorbed (aliases_of absorbed t)
            ((compress_aliases keep (aliases_of absorbed t) t)(absorbed \<mapsto> r)))(absorbed := None) = t"
  using assms by (intro ext) (auto simp: compress_aliases_def aliases_of_def)

lemma mem_blocks_of:
  "k \<in> set (blocks_of s bs) \<longleftrightarrow> (\<exists>b \<in> set bs. block_series b = s \<and> block_key b = k)"
  by (auto simp: blocks_of_def)

lemma set_block_series_sel [simp]:
  "block_series (set_block_series s b) = s" "block_key (set_block_series s b) = block_key b"
  "set_block_series s (set_block_series s' b) = set_block_series s b"
  "set_block_series (block_series b) b = b"
  by (cases b; simp add: set_block_series_def block_series_def block_key_def)+

lemma undo_blocks:
  assumes "keep \<noteq> absorbed"
    and "\<not> list_ex (\<lambda>k. k \<in> set (blocks_of keep bs)) (blocks_of absorbed bs)"
  shows "move_blocks_back keep absorbed (blocks_of absorbed bs) (move_blocks keep absorbed bs) = bs"
  unfolding move_blocks_back_def move_blocks_def map_map comp_def
proof (rule map_idI)
  fix b assume b: "b \<in> set bs"
  show "(if block_series (if block_series b = absorbed then set_block_series keep b else b) = keep \<and>
            block_key (if block_series b = absorbed then set_block_series keep b else b)
              \<in> set (blocks_of absorbed bs)
         then set_block_series absorbed (if block_series b = absorbed then set_block_series keep b else b)
         else (if block_series b = absorbed then set_block_series keep b else b)) = b"
  proof (cases "block_series b = absorbed")
    case True
    with b have "block_key b \<in> set (blocks_of absorbed bs)" by (auto simp: mem_blocks_of)
    then show ?thesis using True by auto
  next
    case False
    with b assms(2) show ?thesis by (auto simp: list_ex_iff mem_blocks_of)
  qed
qed

lemma undo_conflicts:
  assumes "distinct (map cf_id cs)"
  shows "move_conflicts_back absorbed (map cf_id (filter (movable_conflict keep absorbed cs) cs))
           (map (\<lambda>c. if cf_series c = absorbed then c\<lparr>cf_series := keep\<rparr> else c)
             (filter (kept_conflict keep absorbed cs) cs)) =
         filter (kept_conflict keep absorbed cs) cs"
proof -
  have same: "c = d" if "c \<in> set cs" "d \<in> set cs" "cf_id c = cf_id d" for c d
    using assms that by (auto simp: distinct_map inj_on_def)
  show ?thesis
    unfolding move_conflicts_back_def map_map comp_def
  proof (rule map_idI)
    fix c assume c: "c \<in> set (filter (kept_conflict keep absorbed cs) cs)"
    let ?c = "if cf_series c = absorbed then c\<lparr>cf_series := keep\<rparr> else c"
    have "cf_id ?c \<in> set (map cf_id (filter (movable_conflict keep absorbed cs) cs)) \<longleftrightarrow>
          movable_conflict keep absorbed cs c"
      using c same by (auto simp: image_iff)
    then show "(if cf_id ?c \<in> set (map cf_id (filter (movable_conflict keep absorbed cs) cs))
                then ?c\<lparr>cf_series := absorbed\<rparr> else ?c) = c"
      using c by (auto simp: kept_conflict_def movable_conflict_def)
  qed
qed

lemma undo_candidates:
  assumes "distinct (map mc_id cs)"
  shows "reopen_listed now (map mc_id (filter (open_naming s) cs))
           (filter (\<lambda>c. mc_series_id c \<noteq> s \<and> mc_candidate_id c \<noteq> s) cs) =
         filter (\<lambda>c. mc_series_id c \<noteq> s \<and> mc_candidate_id c \<noteq> s) cs"
  unfolding reopen_listed_def
proof (rule map_idI)
  fix c assume c: "c \<in> set (filter (\<lambda>c. mc_series_id c \<noteq> s \<and> mc_candidate_id c \<noteq> s) cs)"
  then have "mc_id c \<notin> set (map mc_id (filter (open_naming s) cs))"
    using assms by (auto simp: distinct_map inj_on_def open_naming_def)
  then show "(if mc_id c \<in> set (map mc_id (filter (open_naming s) cs)) \<and>
                 mc_outcome c \<in> {Some ''merged'', Some ''auto_merged''}
              then c\<lparr>mc_resolved := False, mc_outcome := None, mc_resolved_by := None,
                     mc_resolved_at := None, mc_updated_at := now\<rparr>
              else c) = c"
    by simp
qed

section \<open>Merging succeeds, and reverting undoes it\<close>

lemma merge_succeeds:
  assumes "keep \<noteq> absorbed" "md_series db keep \<noteq> None" "md_series db absorbed \<noteq> None"
    and "\<not> list_ex (\<lambda>k. k \<in> set (blocks_of keep (md_blocks db))) (blocks_of absorbed (md_blocks db))"
  shows "\<exists>u db1. merge_series keep absorbed actor outcome db = (Ok u, db1)"
  using assms
  by (simp add: merge_series_def move_sync_state_def fold_reader_state_def move_catalogue_def capture_def
      new_undo_def Let_def)

lemma merge_refused:
  "merge_series s s actor outcome db = (Err (ConflictError ''cannot merge a series into itself''), db)"
  "fst (merge_series keep absorbed actor outcome db) = Err e \<Longrightarrow>
     snd (merge_series keep absorbed actor outcome db) = db"
  by (auto simp: merge_series_def Let_def split: if_splits sum.splits)

lemmas revert_steps = restore_absorbed_series_def move_sources_back_def remove_created_rows_def
  restore_overwritten_rows_def restore_cascaded_children_def repoint_rows_back_def reopen_candidates_def
  remove_forwarding_def mark_derived_state_stale_def

text \<open>C5: A merge that is reverted at once leaves no trace in the journalled tables. The absorbed series
  is back under its own id with every child row it had (titles, tags, authors, readers' entries,
  progress, tracker mappings, exclusions, announced chapters, feedback), the survivor's rows are the
  ones it held before, rows the merge re-pointed (sources, sync history, decisions, remote entries,
  match blocks, open conflicts) point back, and every forwarding address is restored. What is lost is
  exactly the absorbed side's open conflicts that duplicated one of the survivor's, and the merge
  candidates that named the absorbed series.
\<close>
theorem merge_then_revert_restores:
  assumes m: "merge_series keep absorbed actor outcome db = (Ok u, db1)"
    and pk: "distinct (map cf_id (md_conflicts db))" "distinct (map mc_id (md_candidates db))"
    and fresh: "md_merges db absorbed = None"
  shows "\<exists>db2. revert_merge u db1 = Ok db2 \<and>
    md_series db2 = md_series db \<and> md_titles db2 = md_titles db \<and> md_tags db2 = md_tags db \<and>
    md_authors db2 = md_authors db \<and> md_watchlist db2 = md_watchlist db \<and>
    md_progress db2 = md_progress db \<and> md_mappings db2 = md_mappings db \<and>
    md_overrides db2 = md_overrides db \<and> md_dedup db2 = md_dedup db \<and>
    md_feedback db2 = md_feedback db \<and> md_sources db2 = md_sources db \<and>
    md_history db2 = md_history db \<and> md_decisions db2 = md_decisions db \<and>
    md_remote db2 = md_remote db \<and> md_blocks db2 = md_blocks db \<and> md_merges db2 = md_merges db \<and>
    md_conflicts db2 = filter (kept_conflict keep absorbed (md_conflicts db)) (md_conflicts db) \<and>
    md_candidates db2 =
      filter (\<lambda>c. mc_series_id c \<noteq> absorbed \<and> mc_candidate_id c \<noteq> absorbed) (md_candidates db)"
proof -
  note f = merge_fields [OF m] and ka = merge_ok(1) [OF m]
  obtain r r' where r: "md_series db keep = Some r" "md_series db absorbed = Some r'"
    using merge_ok(2,3) [OF m] by blast
  have "check_revertible u db1 = Ok r'"
    using r ka by (simp add: check_revertible_def f Let_def)
  moreover have "(md_series db)(absorbed := None, absorbed \<mapsto> r') = md_series db"
    using r by auto
  moreover have "map_option fw_survivor_id (compress_aliases absorbed (aliases_of absorbed (md_merges db))
      ((compress_aliases keep (aliases_of absorbed (md_merges db)) (md_merges db))
        (absorbed \<mapsto> \<lparr>fw_survivor_id = keep, fw_merged_at = md_now db, fw_merged_by = actor\<rparr>)) absorbed)
      = Some keep"
    using fresh by (simp add: compress_aliases_def aliases_of_def)
  moreover have "insert_rows absorbed (md_titles db absorbed)
      (delete_keys keep (new_titles keep absorbed db)
        ((md_titles db)(keep := md_titles db keep ++ new_titles keep absorbed db, absorbed := Map.empty)))
      = md_titles db"
    by (rule undo_added [OF ka]) (rule new_titles_fresh)
  ultimately show ?thesis
    by (simp add: revert_merge_def revert_steps Let_def f ka undo_union_nothing undo_union_update undo_repoint
        undo_forward [where keep = keep and t = "md_merges db", OF fresh] undo_blocks [OF ka merge_ok(4) [OF m]]
        undo_conflicts [OF pk(1)] undo_candidates [OF pk(2)]
        del: fun_upd_apply set_map)
qed


section \<open>What readers keep\<close>

definition row_reading :: "progress_row option \<Rightarrow> read_progress" where
  "row_reading r =
     (case r of
        None \<Rightarrow> read_progress_default
      | Some p \<Rightarrow> \<lparr>last_read_whole_number = from_milli (pr_whole p),
                   last_read_part_number = map_option from_milli (pr_part p)\<rparr>)"

lemma row_ok_bounds:
  assumes "row_ok r"
  shows "milli_ok (pr_whole r)" "pr_whole r div 10000 * 10000 = pr_whole r" "milli_ok (part_or_zero r)"
    and "pr_part r = Some p \<Longrightarrow> milli_ok p \<and> p mod 10000 \<noteq> 0"
  using assms
  by (cases "pr_part r"; auto simp: row_ok_def part_or_zero_def part_ahead_simps milli_ok_def milli_of_whole_def
      milli_scale_int_def)+

lemma milli_ok_max: "milli_ok a \<Longrightarrow> milli_ok b \<Longrightarrow> milli_ok (max a b)"
  by (simp add: milli_ok_def max_def)

lemma from_milli_max: "milli_ok a \<Longrightarrow> milli_ok b \<Longrightarrow> from_milli (max a b) = max (from_milli a) (from_milli b)"
  by (simp add: max_def from_milli_le)

lemma floor_below_whole:
  assumes "milli_ok p" "milli_ok w" "n \<le> from_milli p" "p div 10000 * 10000 \<le> w"
  shows "of_int \<lfloor>n\<rfloor> \<le> from_milli w"
proof -
  have p: "milli_ok (p div 10000 * 10000)" using milli_div_range [OF assms(1)] by (simp add: milli_ok_def)
  have "\<lfloor>n\<rfloor> \<le> p div 10000" using floor_mono [OF assms(3)] floor_from_milli [OF assms(1)] by simp
  then have "of_int \<lfloor>n\<rfloor> \<le> from_milli (p div 10000 * 10000)"
    using from_milli_eq_of_int [OF p] by simp
  also have "\<dots> \<le> from_milli w" using from_milli_le [OF p assms(2)] assms(4) by simp
  finally show ?thesis .
qed

lemma merged_row_ok:
  assumes "row_ok r" "row_ok e"
  shows "row_ok (merge_progress_rows now r e)"
proof -
  obtain w v where w: "pr_whole r = milli_of_whole w" "0 \<le> w" "w \<le> 200000"
    and v: "pr_whole e = milli_of_whole v" "0 \<le> v" "v \<le> 200000"
    using assms by (auto simp: row_ok_def)
  define part where "part = max (part_or_zero r) (part_or_zero e)"
  have whole: "max (pr_whole r) (pr_whole e) = milli_of_whole (max w v)"
    using w v by (simp add: max_def milli_of_whole_def milli_scale_int_def)
  have "milli_ok part \<and> part mod 10000 \<noteq> 0" if "milli_of_whole (max w v) < part div 10000 * 10000"
  proof -
    have "part \<noteq> 0" using that w(2) by (auto simp: milli_of_whole_def milli_scale_int_def max_def split: if_splits)
    then have "pr_part r = Some part \<or> pr_part e = Some part"
      using row_ok_bounds(3) [OF assms(1)] row_ok_bounds(3) [OF assms(2)]
      by (cases "pr_part r"; cases "pr_part e") (auto simp: part_def part_or_zero_def max_def split: if_splits)
    then show ?thesis using row_ok_bounds(4) [OF assms(1), of part] row_ok_bounds(4) [OF assms(2), of part] by auto
  qed
  then have "part_ahead (max w v) (if part div 10000 * 10000 \<le> milli_of_whole (max w v) then None else Some part)"
    by (auto simp: part_ahead_simps milli_of_whole_def milli_scale_int_def not_le)
  moreover have "0 \<le> max w v" "max w v \<le> 200000" using w v by auto
  ultimately show ?thesis
    unfolding row_ok_def
    by (intro exI [of _ "max w v"]) (auto simp: merge_progress_rows_def Let_def part_def whole split: if_splits)
qed

lemma covers_row:
  assumes "row_ok r"
  shows "covers (row_reading (Some r)) n \<longleftrightarrow>
    of_int \<lfloor>n\<rfloor> \<le> from_milli (pr_whole r) \<or> (\<not> is_whole n \<and> n \<le> from_milli (part_or_zero r))"
proof -
  have "of_int \<lfloor>n\<rfloor> \<le> from_milli (pr_whole r)" if "n \<le> 0"
  proof -
    have "of_int \<lfloor>n\<rfloor> \<le> (0 :: rat)" using that by (simp add: floor_le_iff)
    also have "0 \<le> from_milli (pr_whole r)"
      using row_ok_bounds(1) [OF assms] by (intro from_milli_nonneg) (simp add: milli_ok_def)
    finally show ?thesis .
  qed
  moreover have "from_milli 0 = 0" using from_milli_whole [of 0] by (simp add: milli_of_whole_def)
  ultimately show ?thesis
    by (cases "pr_part r") (auto simp: covers_def row_reading_def part_or_zero_def)
qed

lemma covers_merged_rows:
  assumes "row_ok r" "row_ok e"
  shows "covers (row_reading (Some (merge_progress_rows now r e))) n \<longleftrightarrow>
         covers (row_reading (Some r)) n \<or> covers (row_reading (Some e)) n"
proof -
  define whole where "whole = max (pr_whole r) (pr_whole e)"
  define part where "part = max (part_or_zero r) (part_or_zero e)"
  note r = row_ok_bounds [OF assms(1)] and e = row_ok_bounds [OF assms(2)]
  have ok: "milli_ok part" "milli_ok whole" using r e by (simp_all add: part_def whole_def milli_ok_max)
  have either: "covers (row_reading (Some r)) n \<or> covers (row_reading (Some e)) n \<longleftrightarrow>
      of_int \<lfloor>n\<rfloor> \<le> from_milli whole \<or> (\<not> is_whole n \<and> n \<le> from_milli part)"
    using r e by (auto simp: covers_row assms part_def whole_def from_milli_max le_max_iff_disj)
  have "merge_progress_rows now r e =
      \<lparr>pr_whole = whole, pr_part = (if part div 10000 * 10000 \<le> whole then None else Some part), pr_updated_at = now\<rparr>"
    by (simp add: merge_progress_rows_def Let_def whole_def part_def)
  then have "covers (row_reading (Some (merge_progress_rows now r e))) n \<longleftrightarrow>
      of_int \<lfloor>n\<rfloor> \<le> from_milli whole \<or>
      (\<not> is_whole n \<and> \<not> part div 10000 * 10000 \<le> whole \<and> n \<le> from_milli part)"
    by (simp add: covers_def row_reading_def)
  then show ?thesis using either floor_below_whole [OF ok] by blast
qed

lemma covers_default:
  assumes "covers read_progress_default n" "row_ok r"
  shows "covers (row_reading (Some r)) n"
proof -
  have "of_int \<lfloor>n\<rfloor> \<le> (0 :: rat)" using assms(1) by (simp add: covers_def read_progress_default_def)
  also have "0 \<le> from_milli (pr_whole r)"
    using row_ok_bounds(1) [OF assms(2)] by (intro from_milli_nonneg) (simp add: milli_ok_def)
  finally show ?thesis by (simp add: covers_row [OF assms(2)])
qed

text \<open>C10: what a reader has after a merge. The survivor counts a chapter as read exactly when the
  survivor or the absorbed series did before; a tracker exclusion of one provider set on either side
  is in force; a chapter announced under either series stays announced; and a series hidden for ever
  on either side stays hidden. Of watchlist entries a reader keeps one: the survivor's own, unchanged,
  if there was one, and then the absorbed one is gone with its status, its notification switch and its
  blanket exclusion from sync (\<open>merge_drops_exclusion\<close>); otherwise the absorbed one, with its
  status and switches but without its pinned source. The progress rows stay well formed.
\<close>
theorem merge_reader_state:
  assumes m: "merge_series keep absorbed actor outcome db = (Ok u, db1)"
    and rows: "\<forall>r \<in> ran (md_progress db keep) \<union> ran (md_progress db absorbed). row_ok r"
  shows "(\<forall>n. covers (row_reading (md_progress db1 keep v)) n \<longleftrightarrow>
           covers (row_reading (md_progress db keep v)) n \<or> covers (row_reading (md_progress db absorbed v)) n) \<and>
    (\<forall>r. md_progress db1 keep v = Some r \<longrightarrow> row_ok r) \<and>
    md_watchlist db1 keep v =
      (case md_watchlist db keep v of
         Some w \<Rightarrow> Some w | None \<Rightarrow> map_option unpinned (md_watchlist db absorbed v)) \<and>
    map_option wr_sync_excluded (md_watchlist db1 keep v) =
      map_option wr_sync_excluded (if md_watchlist db keep v = None then md_watchlist db absorbed v else md_watchlist db keep v) \<and>
    md_watchlist db1 absorbed v = None \<and>
    (\<forall>p. md_overrides db1 keep (v, p) = Some True \<longleftrightarrow>
           md_overrides db keep (v, p) = Some True \<or> md_overrides db absorbed (v, p) = Some True) \<and>
    (\<forall>c. md_dedup db1 keep (v, c) \<noteq> None \<longleftrightarrow>
           md_dedup db keep (v, c) \<noteq> None \<or> md_dedup db absorbed (v, c) \<noteq> None) \<and>
    (map_option fb_verdict (md_feedback db1 keep v) = Some ''hide_forever'' \<longleftrightarrow>
       map_option fb_verdict (md_feedback db keep v) = Some ''hide_forever'' \<or>
       map_option fb_verdict (md_feedback db absorbed v) = Some ''hide_forever'')"
proof -
  note f = merge_fields [OF m] and ka = merge_ok(1) [OF m]
  have ok: "md_progress db keep v = Some r \<Longrightarrow> row_ok r" "md_progress db absorbed v = Some r \<Longrightarrow> row_ok r" for r
    using rows by (auto simp: ran_def)
  have p: "md_progress db1 keep v =
      (case md_progress db absorbed v of
         None \<Rightarrow> md_progress db keep v
       | Some e \<Rightarrow> Some (case md_progress db keep v of
           None \<Rightarrow> e | Some r \<Rightarrow> merge_progress_rows (md_now db) r e))"
    using ka by (simp add: f union_update_def split: option.split)
  have "covers (row_reading (md_progress db1 keep v)) n \<longleftrightarrow>
      covers (row_reading (md_progress db keep v)) n \<or> covers (row_reading (md_progress db absorbed v)) n" for n
    using ok covers_default [of n]
    by (cases "md_progress db keep v") (auto simp: p covers_merged_rows row_reading_def [of None] split: option.split)
  moreover have "md_progress db1 keep v = Some r \<Longrightarrow> row_ok r" for r
    using ok merged_row_ok by (auto simp: p split: option.splits)
  ultimately show ?thesis
    using ka by (auto simp: f union_nothing_def union_update_def created_def map_add_def merge_feedback_def unpinned_def
        split: option.splits if_splits)
qed


section \<open>Forwarding\<close>

text \<open>No series forwards and exists, and every forwarding address is one hop from a live series.\<close>

definition forwards_flat :: "merge_db \<Rightarrow> bool" where
  "forwards_flat db \<longleftrightarrow>
     (\<forall>i r. md_merges db i = Some r \<longrightarrow> md_series db i = None \<and> md_series db (fw_survivor_id r) \<noteq> None)"

text \<open>C35: Forwarding stays one lookup deep. After a merge the absorbed id resolves to the survivor; an id
  that resolved to the absorbed series resolves to the survivor too; every other id resolves as
  before; and every address still names a live series, so a walk is never needed and no cycle
  can arise.
\<close>
theorem merge_keeps_forwarding_flat:
  assumes m: "merge_series keep absorbed actor outcome db = (Ok u, db1)" and flat: "forwards_flat db"
  shows "forwards_flat db1 \<and>
    resolve_merged_series db1 absorbed = Some keep \<and>
    (\<forall>i. i \<noteq> absorbed \<longrightarrow> resolve_merged_series db1 i =
       (if resolve_merged_series db i = Some absorbed then Some keep else resolve_merged_series db i)) \<and>
    (\<forall>i. resolve_merged_series db1 i \<noteq> Some absorbed)"
proof -
  note f = merge_fields [OF m] and ka = merge_ok(1) [OF m]
  obtain r where "md_series db keep = Some r" using merge_ok(2) [OF m] by blast
  then have "forwards_flat db1"
    using flat ka
    by (auto simp: forwards_flat_def f compress_aliases_def aliases_of_def split: if_splits)
  then show ?thesis
    using ka by (auto simp: f resolve_merged_series_def compress_aliases_def aliases_of_def)
qed

section \<open>A merge of two series\<close>

definition no_series :: series_row where
  "no_series = \<lparr>se_canonical_title = [], se_normalized_title = [], se_description = None,
     se_cover_url = None, se_content_type = Manga, se_status = Ongoing, se_release_year = None,
     se_created_at = 0, se_updated_at = 0, se_metadata_checked_at = None, se_is_adult = None,
     se_external_score = None, se_external_popularity = None, se_external_source = None,
     se_title_source = None, se_description_source = None, se_cover_source = None,
     se_content_type_source = None, se_status_source = None, se_release_year_source = None\<rparr>"

definition two_series :: merge_db where
  "two_series = \<lparr>md_series = [3 \<mapsto> no_series, 4 \<mapsto> no_series], md_titles = (\<lambda>_. Map.empty),
     md_tags = (\<lambda>_. Map.empty), md_authors = (\<lambda>_. Map.empty), md_watchlist = (\<lambda>_. Map.empty),
     md_progress = (\<lambda>s. if s = 4 then [7 \<mapsto> \<lparr>pr_whole = 120000, pr_part = None, pr_updated_at = 0\<rparr>]
                        else Map.empty),
     md_mappings = (\<lambda>_. Map.empty), md_overrides = (\<lambda>_. Map.empty), md_dedup = (\<lambda>_. Map.empty),
     md_feedback = (\<lambda>_. Map.empty), md_sources = [5 \<mapsto> 4], md_history = Map.empty,
     md_decisions = Map.empty, md_remote = Map.empty, md_blocks = [], md_conflicts = [],
     md_candidates = [], md_merges = [2 \<mapsto> \<lparr>fw_survivor_id = 4, fw_merged_at = 0, fw_merged_by = None\<rparr>],
     md_affinity = (\<lambda>_ _. False), md_taste = Map.empty, md_repair = Map.empty, md_now = 9\<rparr>"

lemma two_series_merge: "\<exists>u db1. merge_series 3 4 None ''merged'' two_series = (Ok u, db1)"
  by (rule merge_succeeds) (simp_all add: two_series_def blocks_of_def)

theorem merge_then_revert_restores_witness:
  "\<exists>u db1 db2. merge_series 3 4 None ''merged'' two_series = (Ok u, db1) \<and>
     revert_merge u db1 = Ok db2 \<and> md_sources db2 = [5 \<mapsto> 4]"
proof -
  obtain u db1 where m: "merge_series 3 4 None ''merged'' two_series = (Ok u, db1)"
    using two_series_merge by blast
  have "distinct (map cf_id (md_conflicts two_series))" "distinct (map mc_id (md_candidates two_series))"
    "md_merges two_series 4 = None" "md_sources two_series = [5 \<mapsto> 4]"
    by (simp_all add: two_series_def)
  with merge_then_revert_restores [OF m] m show ?thesis by fastforce
qed

theorem merge_reader_state_witness:
  "\<exists>u db1. merge_series 3 4 None ''merged'' two_series = (Ok u, db1) \<and>
     covers (row_reading (md_progress db1 3 7)) 12"
proof -
  obtain u db1 where m: "merge_series 3 4 None ''merged'' two_series = (Ok u, db1)"
    using two_series_merge by blast
  have "row_ok \<lparr>pr_whole = 120000, pr_part = None, pr_updated_at = 0\<rparr>"
    unfolding row_ok_def by (intro exI [of _ 12]) (simp add: milli_of_whole_def milli_scale_int_def part_ahead_simps)
  then have "\<forall>r \<in> ran (md_progress two_series 3) \<union> ran (md_progress two_series 4). row_ok r"
    by (simp add: two_series_def)
  moreover have "covers (row_reading (md_progress two_series 4 7)) 12"
    using from_milli_whole [of 12]
    by (simp add: two_series_def row_reading_def covers_def milli_of_whole_def milli_scale_int_def)
  ultimately show ?thesis using merge_reader_state [OF m, of 7] m by blast
qed

text \<open>A reader of both series who had switched the absorbed one out of tracker sync has it switched on again.\<close>

definition entry_of :: "bool \<Rightarrow> pinned_watch_row" where
  "entry_of excluded = \<lparr>wr_status = Reading, wr_notify = True, wr_sync_excluded = excluded, wr_added_at = 0,
     wr_updated_at = 0, wr_pinned_source_id = None\<rparr>"

definition both_listed :: merge_db where
  "both_listed = two_series\<lparr>md_watchlist := (\<lambda>s. if s = 3 then [7 \<mapsto> entry_of False]
     else if s = 4 then [7 \<mapsto> entry_of True] else Map.empty)\<rparr>"

lemma merge_drops_exclusion:
  "\<exists>u db1. merge_series 3 4 None ''merged'' both_listed = (Ok u, db1) \<and>
     md_watchlist db1 3 7 = Some (entry_of False) \<and> md_watchlist db1 4 7 = None"
proof -
  have "\<exists>u db1. merge_series 3 4 None ''merged'' both_listed = (Ok u, db1)"
    by (rule merge_succeeds) (simp_all add: both_listed_def two_series_def blocks_of_def)
  then obtain u db1 where m: "merge_series 3 4 None ''merged'' both_listed = (Ok u, db1)" by blast
  have "md_watchlist db1 3 7 = Some (entry_of False) \<and> md_watchlist db1 4 7 = None"
    by (simp add: merge_fields [OF m] union_nothing_def both_listed_def map_add_def created_def)
  then show ?thesis using m by blast
qed

theorem merge_keeps_forwarding_flat_witness:
  "\<exists>u db1. merge_series 3 4 None ''merged'' two_series = (Ok u, db1) \<and>
     resolve_merged_series db1 2 = Some 3 \<and> resolve_merged_series db1 4 = Some 3"
proof -
  obtain u db1 where m: "merge_series 3 4 None ''merged'' two_series = (Ok u, db1)"
    using two_series_merge by blast
  have "forwards_flat two_series" "resolve_merged_series two_series 2 = Some 4"
    by (simp_all add: forwards_flat_def two_series_def resolve_merged_series_def)
  with merge_keeps_forwarding_flat [OF m] m show ?thesis by fastforce
qed

end
