(* ===== verification/Merge_Journal.thy ===== *)
theory Merge_Journal
  imports Series_Merge
begin

text \<open>
  The merge queue and the decision journal (\<open>crates/db/src/repo/matching/\<close>: \<open>queue.rs\<close>, \<open>pairs.rs\<close>,
  \<open>decisions.rs\<close>, \<open>disentangle.rs\<close>, \<open>full_sweep.rs\<close>). The queue is the list of candidate rows of the
  merge tables, keyed by their pair; the journal adds the decisions, the listing titles of the sources
  and the chapters under them. Pair keys are sets, as the statement that finds colliding titles is a
  union of joins. The theorems: a dismissal is durable, a reverted decision separates its pair, a
  search is literal, and the exhaustive sweep has one holder.
\<close>

section \<open>The review queue\<close>

definition canonical_pair :: "series_id \<times> series_id \<Rightarrow> series_id \<times> series_id" where
  "canonical_pair p = (min (fst p) (snd p), max (fst p) (snd p))"

definition row_pair :: "candidate_row \<Rightarrow> series_id \<times> series_id" where
  "row_pair c = (mc_series_id c, mc_candidate_id c)"

datatype queue_outcome = Queue_Added | Queue_Refreshed | Queue_Reopened | Queue_Unchanged

record new_candidate =
  nc_pair :: "series_id \<times> series_id"
  nc_score :: rat
  nc_signals :: "string list"
  nc_reason :: string

record distinct_verdict =
  dv_pair :: "series_id \<times> series_id"
  dv_score :: rat
  dv_signals :: "string list"

fun check_batch ::
  "string \<Rightarrow> string \<Rightarrow> (series_id \<times> series_id) list \<Rightarrow> (series_id \<times> series_id) list \<Rightarrow>
     (merge_error, unit) result" where
  "check_batch self twice seen [] = Ok ()"
| "check_batch self twice seen (p # ps) =
     (if fst p = snd p then Err (ConflictError self)
      else if canonical_pair p \<in> set seen then Err (ConflictError twice)
      else check_batch self twice (canonical_pair p # seen) ps)"

text \<open>The fresh id stands for the one a call generates.\<close>

definition fresh_candidate_id :: "candidate_row list \<Rightarrow> nat" where
  "fresh_candidate_id cs = Suc (fold max (map mc_id cs) 0)"

definition row_of :: "candidate_row list \<Rightarrow> series_id \<times> series_id \<Rightarrow> candidate_row option" where
  "row_of cs p = find (\<lambda>c. row_pair c = canonical_pair p) cs"

definition live_pair :: "merge_db \<Rightarrow> series_id \<times> series_id \<Rightarrow> bool" where
  "live_pair db p \<longleftrightarrow> md_series db (fst p) \<noteq> None \<and> md_series db (snd p) \<noteq> None"

text \<open>\<open>INSERT ... ON CONFLICT (series_id, candidate_id) DO UPDATE ... WHERE\<close>.\<close>

definition upsert_row ::
  "(candidate_row \<Rightarrow> bool) \<Rightarrow> (candidate_row \<Rightarrow> candidate_row) \<Rightarrow> candidate_row \<Rightarrow>
     candidate_row list \<Rightarrow> candidate_row list" where
  "upsert_row writable update row cs =
     (if find (\<lambda>c. row_pair c = row_pair row) cs = None
      then cs @ [row\<lparr>mc_id := fresh_candidate_id cs\<rparr>]
      else map (\<lambda>c. if row_pair c = row_pair row \<and> writable c then update c else c) cs)"

definition open_row :: "timestamp \<Rightarrow> new_candidate \<Rightarrow> candidate_row" where
  "open_row now n =
     \<lparr>mc_id = 0, mc_series_id = fst (canonical_pair (nc_pair n)),
      mc_candidate_id = snd (canonical_pair (nc_pair n)), mc_score = nc_score n,
      mc_signals = nc_signals n, mc_reason = Some (nc_reason n), mc_resolved = False, mc_outcome = None,
      mc_resolved_by = None, mc_resolved_at = None, mc_created_at = now, mc_updated_at = now\<rparr>"

definition rewritable :: "candidate_row \<Rightarrow> bool" where
  "rewritable c \<longleftrightarrow> \<not> mc_resolved c \<or> mc_outcome c = Some ''distinct''"

definition reopen_row :: "timestamp \<Rightarrow> new_candidate \<Rightarrow> candidate_row \<Rightarrow> candidate_row" where
  "reopen_row now n c =
     c\<lparr>mc_score := nc_score n, mc_signals := nc_signals n, mc_reason := Some (nc_reason n),
       mc_resolved := False, mc_outcome := None, mc_resolved_by := None, mc_resolved_at := None,
       mc_updated_at := now\<rparr>"

definition upsert_candidate :: "timestamp \<Rightarrow> new_candidate \<Rightarrow> candidate_row list \<Rightarrow> candidate_row list" where
  "upsert_candidate now n = upsert_row rewritable (reopen_row now n) (open_row now n)"

definition queue_outcome_of :: "candidate_row option \<Rightarrow> queue_outcome" where
  "queue_outcome_of prior =
     (case prior of
        None \<Rightarrow> Queue_Added
      | Some c \<Rightarrow> if \<not> mc_resolved c then Queue_Refreshed
                  else if mc_outcome c = Some ''distinct'' then Queue_Reopened
                  else Queue_Unchanged)"

definition record_merge_candidates ::
  "new_candidate list \<Rightarrow> merge_db \<Rightarrow>
     (merge_error, (series_id \<times> series_id \<times> queue_outcome) list) result \<times> merge_db" where
  "record_merge_candidates ns db =
     (case check_batch ''cannot queue a series against itself''
             ''the same pair was queued twice in one batch'' [] (map nc_pair ns) of
        Inl e \<Rightarrow> (Err e, db)
      | Inr _ \<Rightarrow>
          (let live = filter (\<lambda>n. live_pair db (nc_pair n)) ns
           in (Ok (map (\<lambda>n. (fst (canonical_pair (nc_pair n)), snd (canonical_pair (nc_pair n)),
                        queue_outcome_of (row_of (md_candidates db) (nc_pair n)))) live),
               db\<lparr>md_candidates := fold (upsert_candidate (md_now db)) live (md_candidates db)\<rparr>)))"

definition record_merge_candidate ::
  "series_id \<Rightarrow> series_id \<Rightarrow> rat \<Rightarrow> string list \<Rightarrow> string \<Rightarrow> merge_db \<Rightarrow>
     (merge_error, queue_outcome) result \<times> merge_db" where
  "record_merge_candidate a b score signals reason db =
     (case record_merge_candidates
             [\<lparr>nc_pair = (a, b), nc_score = score, nc_signals = signals, nc_reason = reason\<rparr>] db of
        (Inl e, db') \<Rightarrow> (Err e, db')
      | (Inr outcomes, db') \<Rightarrow>
          (Ok (case outcomes of [] \<Rightarrow> Queue_Unchanged | x # _ \<Rightarrow> snd (snd x)), db'))"

definition distinct_row :: "timestamp \<Rightarrow> distinct_verdict \<Rightarrow> candidate_row" where
  "distinct_row now v =
     \<lparr>mc_id = 0, mc_series_id = fst (canonical_pair (dv_pair v)),
      mc_candidate_id = snd (canonical_pair (dv_pair v)), mc_score = dv_score v,
      mc_signals = dv_signals v, mc_reason = Some ''duplicate sweep: below the review floor'',
      mc_resolved = True, mc_outcome = Some ''distinct'', mc_resolved_by = None,
      mc_resolved_at = Some now, mc_created_at = now, mc_updated_at = now\<rparr>"

definition not_dismissed :: "candidate_row \<Rightarrow> bool" where
  "not_dismissed c \<longleftrightarrow> mc_outcome c \<noteq> Some ''dismissed''"

definition close_row :: "timestamp \<Rightarrow> distinct_verdict \<Rightarrow> candidate_row \<Rightarrow> candidate_row" where
  "close_row now v c =
     c\<lparr>mc_score := dv_score v, mc_signals := dv_signals v,
       mc_reason := Some ''duplicate sweep: below the review floor'', mc_resolved := True,
       mc_outcome := Some ''distinct'', mc_resolved_at := Some now, mc_updated_at := now\<rparr>"

definition upsert_distinct :: "timestamp \<Rightarrow> distinct_verdict \<Rightarrow> candidate_row list \<Rightarrow> candidate_row list" where
  "upsert_distinct now v = upsert_row not_dismissed (close_row now v) (distinct_row now v)"

definition was_open :: "candidate_row option \<Rightarrow> bool" where
  "was_open prior = (case prior of None \<Rightarrow> False | Some c \<Rightarrow> \<not> mc_resolved c)"

definition record_distinct_pairs ::
  "distinct_verdict list \<Rightarrow> merge_db \<Rightarrow>
     (merge_error, ((series_id \<times> series_id) \<times> bool) list) result \<times> merge_db" where
  "record_distinct_pairs vs db =
     (case check_batch ''cannot judge a series against itself''
             ''the same pair was judged twice in one batch'' [] (map dv_pair vs) of
        Inl e \<Rightarrow> (Err e, db)
      | Inr _ \<Rightarrow>
          (let live = filter (\<lambda>v. live_pair db (dv_pair v)) vs
           in (Ok (map (\<lambda>v. (canonical_pair (dv_pair v), was_open (row_of (md_candidates db) (dv_pair v)))) live),
               db\<lparr>md_candidates := fold (upsert_distinct (md_now db)) live (md_candidates db)\<rparr>)))"

definition record_distinct_pair ::
  "series_id \<Rightarrow> series_id \<Rightarrow> rat \<Rightarrow> string list \<Rightarrow> merge_db \<Rightarrow> (merge_error, bool) result \<times> merge_db" where
  "record_distinct_pair a b score signals db =
     (case record_distinct_pairs [\<lparr>dv_pair = (a, b), dv_score = score, dv_signals = signals\<rparr>] db of
        (Inl e, db') \<Rightarrow> (Err e, db')
      | (Inr outcomes, db') \<Rightarrow> (Ok (case outcomes of [] \<Rightarrow> False | x # _ \<Rightarrow> snd x), db'))"

definition dismiss_row :: "user_id option \<Rightarrow> timestamp \<Rightarrow> candidate_row \<Rightarrow> candidate_row" where
  "dismiss_row actor now c =
     c\<lparr>mc_resolved := True, mc_outcome := Some ''dismissed'', mc_resolved_by := actor,
       mc_resolved_at := Some now, mc_updated_at := now\<rparr>"

definition dismiss_merge_candidate :: "nat \<Rightarrow> user_id option \<Rightarrow> merge_db \<Rightarrow> bool \<times> merge_db" where
  "dismiss_merge_candidate i actor db =
     (let hit = (\<lambda>c. mc_id c = i \<and> \<not> mc_resolved c)
      in (list_ex hit (md_candidates db),
          db\<lparr>md_candidates := map (\<lambda>c. if hit c then dismiss_row actor (md_now db) c else c) (md_candidates db)\<rparr>))"

definition dismissed_row :: "series_id \<times> series_id \<Rightarrow> user_id option \<Rightarrow> timestamp \<Rightarrow> candidate_row" where
  "dismissed_row p actor now =
     \<lparr>mc_id = 0, mc_series_id = fst (canonical_pair p), mc_candidate_id = snd (canonical_pair p),
      mc_score = 0, mc_signals = [], mc_reason = Some ''operator marked distinct'', mc_resolved = True,
      mc_outcome = Some ''dismissed'', mc_resolved_by = actor, mc_resolved_at = Some now,
      mc_created_at = now, mc_updated_at = now\<rparr>"

definition suppress_pair ::
  "series_id \<Rightarrow> series_id \<Rightarrow> user_id option \<Rightarrow> merge_db \<Rightarrow> (merge_error, merge_db) result" where
  "suppress_pair a b actor db =
     (if a = b then Err (ConflictError ''cannot suppress a series against itself'')
      else if live_pair db (a, b)
      then Ok (db\<lparr>md_candidates := upsert_row (\<lambda>_. True) (dismiss_row actor (md_now db))
                                    (dismissed_row (a, b) actor (md_now db)) (md_candidates db)\<rparr>)
      else Ok db)"

section \<open>The shortlists of the sweep\<close>

definition sorted_by_update :: "candidate_row list \<Rightarrow> candidate_row list" where
  "sorted_by_update cs = sort_key mc_updated_at cs"

definition open_merge_pairs :: "merge_db \<Rightarrow> nat \<Rightarrow> (series_id \<times> series_id) list" where
  "open_merge_pairs db limit =
     map row_pair (take limit (sorted_by_update (filter (\<lambda>c. \<not> mc_resolved c) (md_candidates db))))"

definition distinct_merge_pairs :: "merge_db \<Rightarrow> nat \<Rightarrow> (series_id \<times> series_id) list" where
  "distinct_merge_pairs db limit =
     map row_pair (take limit (sorted_by_update
       (filter (\<lambda>c. mc_outcome c = Some ''distinct'') (md_candidates db))))"

definition max_key_fanout :: nat where "max_key_fanout = 16"

definition no_spaces :: "utext \<Rightarrow> utext" where
  "no_spaces t = filter (\<lambda>c. c \<noteq> 32) t"

text \<open>The keys of a series: its canonical title, its other titles, the titles its sources list it under.\<close>

definition canonical_keys :: "merge_db \<Rightarrow> series_id \<Rightarrow> utext set" where
  "canonical_keys db s =
     (case md_series db s of
        None \<Rightarrow> {}
      | Some r \<Rightarrow> if se_normalized_title r = [] then {} else {no_spaces (se_normalized_title r)})"

definition alias_keys :: "merge_db \<Rightarrow> series_id \<Rightarrow> utext set" where
  "alias_keys db s = {no_spaces n | n. n \<in> dom (md_titles db s) \<and> n \<noteq> []}"

definition listing_keys :: "(nat \<rightharpoonup> utext) \<Rightarrow> merge_db \<Rightarrow> series_id \<Rightarrow> utext set" where
  "listing_keys listed db s =
     {no_spaces n | n src. md_sources db src = Some s \<and> listed src = Some n \<and> n \<noteq> []}"

definition over_shared :: "(nat \<rightharpoonup> utext) \<Rightarrow> merge_db \<Rightarrow> utext \<Rightarrow> bool" where
  "over_shared listed db k \<longleftrightarrow>
     max_key_fanout < card {s. k \<in> canonical_keys db s \<union> alias_keys db s \<union> listing_keys listed db s}"

definition colliding :: "(nat \<rightharpoonup> utext) \<Rightarrow> merge_db \<Rightarrow> series_id \<Rightarrow> series_id \<Rightarrow> utext \<Rightarrow> bool" where
  "colliding listed db a b k \<longleftrightarrow>
     k \<in> canonical_keys db a \<inter> canonical_keys db b \<or>
     k \<in> canonical_keys db a \<inter> alias_keys db b \<or> k \<in> alias_keys db a \<inter> canonical_keys db b \<or>
     k \<in> alias_keys db a \<inter> alias_keys db b \<or>
     k \<in> listing_keys listed db a \<inter> (canonical_keys db b \<union> listing_keys listed db b) \<or>
     k \<in> listing_keys listed db b \<inter> (canonical_keys db a \<union> listing_keys listed db a)"

definition duplicate_pairs :: "(nat \<rightharpoonup> utext) \<Rightarrow> merge_db \<Rightarrow> (series_id \<times> series_id) set" where
  "duplicate_pairs listed db =
     {(a, b). a < b \<and> (\<exists>k. colliding listed db a b k \<and> \<not> over_shared listed db k) \<and>
              row_of (md_candidates db) (a, b) = None}"

text \<open>The statement has a \<open>LIMIT\<close> and no order: it answers any list of that many pairs.\<close>

definition find_duplicate_pairs ::
  "(nat \<rightharpoonup> utext) \<Rightarrow> merge_db \<Rightarrow> nat \<Rightarrow> (series_id \<times> series_id) list \<Rightarrow> bool" where
  "find_duplicate_pairs listed db limit ps \<longleftrightarrow>
     distinct ps \<and> set ps \<subseteq> duplicate_pairs listed db \<and>
     (length ps = limit \<or> length ps < limit \<and> set ps = duplicate_pairs listed db)"


section \<open>The decision journal\<close>

text \<open>A document of the journal (terms, evidence, policy) is opaque text here.\<close>

type_synonym json = string

record new_decision =
  nd_sweep_id :: "nat option"
  nd_trigger :: string
  nd_actor :: "user_id option"
  nd_pair :: "series_id \<times> series_id"
  nd_titles :: "utext \<times> utext"
  nd_verdict :: string
  nd_reason :: string
  nd_blocked_by :: "string list"
  nd_outcome :: string
  nd_survivor_id :: "series_id option"
  nd_absorbed_id :: "series_id option"
  nd_score :: rat
  nd_base_score :: rat
  nd_signals :: "string list"
  nd_terms :: json
  nd_evidence :: json
  nd_policy :: json
  nd_undo :: "merge_undo option"

record decision_row = new_decision +
  dr_id :: nat
  dr_decided_at :: timestamp
  dr_reverted_at :: "timestamp option"
  dr_reverted_by :: "user_id option"
  dr_revert_reason :: "string option"
  dr_flagged_at :: "timestamp option"
  dr_flagged_by :: "user_id option"
  dr_flag_reason :: "string option"

record journal_db =
  jd_db :: merge_db
  jd_decisions :: "decision_row list"
  jd_source_title :: "nat \<rightharpoonup> utext"
  jd_chapter_source :: "nat \<rightharpoonup> nat"

definition decision_row :: "timestamp \<Rightarrow> nat \<Rightarrow> new_decision \<Rightarrow> (merge_error, decision_row) result" where
  "decision_row now i d =
     (let a = fst (nd_pair d); b = snd (nd_pair d)
      in if a = b then Err (ConflictError ''cannot record a merge decision about one series'')
         else Ok (new_decision.extend
           (d\<lparr>nd_pair := (if a < b then (a, b) else (b, a)),
              nd_titles := (if a < b then nd_titles d else (snd (nd_titles d), fst (nd_titles d)))\<rparr>)
           (decision_row.fields i now None None None None None None)))"

fun decision_rows ::
  "timestamp \<Rightarrow> nat \<Rightarrow> new_decision list \<Rightarrow> (merge_error, decision_row list) result" where
  "decision_rows now i [] = Ok []"
| "decision_rows now i (d # ds) =
     bind_result (decision_row now i d) (\<lambda>r. bind_result (decision_rows now (Suc i) ds) (\<lambda>rs. Ok (r # rs)))"

definition fresh_decision_id :: "decision_row list \<Rightarrow> nat" where
  "fresh_decision_id rs = Suc (fold max (map dr_id rs) 0)"

text \<open>One statement for all rows; \<open>down\<close> says that it gets no answer, and then no row is written.\<close>

definition record_merge_decisions ::
  "bool \<Rightarrow> new_decision list \<Rightarrow> journal_db \<Rightarrow> (merge_error, nat list) result \<times> journal_db" where
  "record_merge_decisions down ds j =
     (if ds = [] then (Ok [], j)
      else case decision_rows (md_now (jd_db j)) (fresh_decision_id (jd_decisions j)) ds of
             Inl e \<Rightarrow> (Err e, j)
           | Inr rs \<Rightarrow>
               if down then (Err (SqlError NoAnswer), j)
               else (Ok (map dr_id rs), j\<lparr>jd_decisions := jd_decisions j @ rs\<rparr>))"

definition newest :: "decision_row list \<Rightarrow> decision_row option" where
  "newest rs =
     (case rs of
        [] \<Rightarrow> None
      | _ \<Rightarrow> Some (last (sort_key dr_decided_at rs)))"

definition pairs_already_deferred :: "journal_db \<Rightarrow> (series_id \<times> series_id) list \<Rightarrow> (series_id \<times> series_id) list" where
  "pairs_already_deferred j ps =
     filter (\<lambda>p. map_option nd_outcome (newest (filter (\<lambda>r. nd_pair r = p) (jd_decisions j))) = Some ''deferred'')
       (map canonical_pair ps)"

text \<open>
  Which rows a purge of a batch takes first is left to the database; here the first stored ones. Times
  are microseconds.
\<close>

definition purge_deferred_decisions :: "nat \<Rightarrow> nat \<Rightarrow> journal_db \<Rightarrow> nat \<times> journal_db" where
  "purge_deferred_decisions retention_days batch j =
     (let old = (\<lambda>r. nd_outcome r = ''deferred'' \<and>
                    dr_decided_at r < md_now (jd_db j) - int (min retention_days (2 ^ 31 - 1)) * 86400000000);
          ids = map dr_id (take batch (filter old (jd_decisions j)))
      in (length ids, j\<lparr>jd_decisions := filter (\<lambda>r. dr_id r \<notin> set ids) (jd_decisions j)\<rparr>))"

datatype revert_readiness = Ready | Reverted | NothingToUndo

definition readiness :: "decision_row \<Rightarrow> revert_readiness" where
  "readiness r =
     (if dr_reverted_at r \<noteq> None then Reverted else if nd_undo r \<noteq> None then Ready else NothingToUndo)"

definition newest_first :: "decision_row list \<Rightarrow> decision_row list" where
  "newest_first rs = rev (sort_key dr_decided_at (sort_key dr_id rs))"

definition revert_order :: "journal_db \<Rightarrow> nat list \<Rightarrow> (nat \<times> revert_readiness) list" where
  "revert_order j ids =
     map (\<lambda>r. (dr_id r, readiness r)) (newest_first (filter (\<lambda>r. dr_id r \<in> set ids) (jd_decisions j)))"

section \<open>Taking back the shared names\<close>

record disentangled =
  titles_removed :: nat
  sources_returned :: nat
  chapters_returned :: nat

definition names_of :: "merge_db \<Rightarrow> series_id \<Rightarrow> utext set" where
  "names_of db s =
     (case md_series db s of None \<Rightarrow> {} | Some r \<Rightarrow> {se_normalized_title r}) \<union> dom (md_titles db s)"

definition shared_name :: "merge_db \<Rightarrow> series_id \<Rightarrow> series_id \<Rightarrow> utext \<Rightarrow> bool" where
  "shared_name db keep back k \<longleftrightarrow>
     k \<in> names_of db keep \<and> k \<noteq> [] \<and> k \<in> names_of db back \<and>
     map_option se_normalized_title (md_series db keep) \<noteq> Some k"

text \<open>
  \<open>normalise\<close> is the database function that normalises a title. A run that finds no shared name, or no
  source under one, changes nothing more, which is what the general case amounts to.
\<close>

definition attracted :: "(utext \<Rightarrow> utext) \<Rightarrow> journal_db \<Rightarrow> series_id \<Rightarrow> (utext \<Rightarrow> bool) \<Rightarrow> nat \<Rightarrow> bool" where
  "attracted normalise j keep shared src \<longleftrightarrow>
     md_sources (jd_db j) src = Some keep \<and>
     (\<exists>t. jd_source_title j src = Some t \<and> shared (normalise t))"

definition disentangle ::
  "(utext \<Rightarrow> utext) \<Rightarrow> series_id \<Rightarrow> series_id \<Rightarrow> journal_db \<Rightarrow> disentangled \<times> journal_db" where
  "disentangle normalise keep back j =
     (let db = jd_db j; shared = shared_name db keep back;
          titles = (\<lambda>k. if shared k then None else md_titles db keep k);
          moved = attracted normalise j keep shared
      in (\<lparr>titles_removed = card {k. shared k \<and> md_titles db keep k \<noteq> None},
           sources_returned = card {src. moved src},
           chapters_returned = card {ch. \<exists>src. jd_chapter_source j ch = Some src \<and> moved src}\<rparr>,
          j\<lparr>jd_db := db\<lparr>md_titles := (md_titles db)(keep := titles),
                        md_sources := repoint_listed back moved (md_sources db)\<rparr>\<rparr>))"

section \<open>Reverting and flagging a decision\<close>

definition find_decision :: "journal_db \<Rightarrow> nat \<Rightarrow> decision_row option" where
  "find_decision j i = find (\<lambda>r. dr_id r = i) (jd_decisions j)"

definition stamp_reverted :: "nat \<Rightarrow> user_id option \<Rightarrow> string \<Rightarrow> timestamp \<Rightarrow> decision_row list \<Rightarrow> decision_row list" where
  "stamp_reverted i actor reason now rs =
     map (\<lambda>r. if dr_id r = i
              then r\<lparr>dr_reverted_at := Some now, dr_reverted_by := actor, dr_revert_reason := Some reason\<rparr>
              else r) rs"

definition revert_merge_decision ::
  "(utext \<Rightarrow> utext) \<Rightarrow> nat \<Rightarrow> user_id option \<Rightarrow> string \<Rightarrow> journal_db \<Rightarrow>
     (merge_error, merge_undo \<times> disentangled) result \<times> journal_db" where
  "revert_merge_decision normalise i actor reason j =
     (case find_decision j i of
        None \<Rightarrow> (Err NotFoundError, j)
      | Some row \<Rightarrow>
          if dr_reverted_at row \<noteq> None
          then (Err (ConflictError ''this merge decision has already been reverted''), j)
          else case nd_undo row of
             None \<Rightarrow> (Err (ConflictError ''this decision merged nothing, so there is nothing to undo''), j)
           | Some u \<Rightarrow>
               (case revert_merge u (jd_db j) of
                  Inl e \<Rightarrow> (Err e, j)
                | Inr db \<Rightarrow>
                    (let cleaned = disentangle normalise (mu_survivor_id u) (mu_absorbed_id u) (j\<lparr>jd_db := db\<rparr>);
                         j1 = snd cleaned;
                         j2 = j1\<lparr>jd_decisions := stamp_reverted i actor reason (md_now db) (jd_decisions j1)\<rparr>
                     in case suppress_pair (fst (nd_pair row)) (snd (nd_pair row)) actor (jd_db j2) of
                          Inl e \<Rightarrow> (Err e, j)
                        | Inr db' \<Rightarrow> (Ok (u, fst cleaned), j2\<lparr>jd_db := db'\<rparr>))))"

definition flag_merge_decision ::
  "nat \<Rightarrow> user_id option \<Rightarrow> string \<Rightarrow> journal_db \<Rightarrow> (merge_error, bool) result \<times> journal_db" where
  "flag_merge_decision i actor reason j =
     (case find_decision j i of
        None \<Rightarrow> (Err NotFoundError, j)
      | Some row \<Rightarrow>
          if dr_flagged_at row \<noteq> None then (Ok False, j)
          else
            (let j1 = j\<lparr>jd_decisions := map (\<lambda>r. if dr_id r = i
                   then r\<lparr>dr_flagged_at := Some (md_now (jd_db j)), dr_flagged_by := actor,
                          dr_flag_reason := Some reason\<rparr>
                   else r) (jd_decisions j)\<rparr>
             in case suppress_pair (fst (nd_pair row)) (snd (nd_pair row)) actor (jd_db j1) of
                  Inl e \<Rightarrow> (Err e, j1)
                | Inr db' \<Rightarrow> (Ok True, j1\<lparr>jd_db := db'\<rparr>)))"

section \<open>Searching the journal\<close>

text \<open>A term that parses as an id searches for that id; any other becomes an escaped pattern.\<close>

fun escape_like :: "utext \<Rightarrow> utext" where
  "escape_like [] = []"
| "escape_like (c # cs) =
     (if c = 92 \<or> c = 37 \<or> c = 95 then 92 # c # escape_like cs else c # escape_like cs)"

definition search_terms :: "(utext \<Rightarrow> nat option) \<Rightarrow> utext option \<Rightarrow> nat option \<times> utext option" where
  "search_terms parse_id search =
     (case map_option trim search of
        None \<Rightarrow> (None, None)
      | Some t \<Rightarrow>
          if t = [] then (None, None)
          else case parse_id t of
                 Some i \<Rightarrow> (Some i, None)
               | None \<Rightarrow> (None, Some (37 # escape_like t @ [37])))"


text \<open>What \<open>ILIKE\<close> matches: both sides folded, a backslash takes the next character literally.\<close>

fun like :: "utext \<Rightarrow> utext \<Rightarrow> bool" where
  "like [] s \<longleftrightarrow> s = []"
| "like (p # ps) s \<longleftrightarrow>
     (if p = 92 then
        (case ps of
           [] \<Rightarrow> False
         | q # qs \<Rightarrow> (case s of [] \<Rightarrow> False | c # cs \<Rightarrow> c = q \<and> like qs cs))
      else if p = 37 then
        like ps s \<or> (case s of [] \<Rightarrow> False | c # cs \<Rightarrow> like (p # ps) cs)
      else if p = 95 then (case s of [] \<Rightarrow> False | c # cs \<Rightarrow> like ps cs)
      else (case s of [] \<Rightarrow> False | c # cs \<Rightarrow> c = p \<and> like ps cs))"

definition ilike :: "(nat \<Rightarrow> nat) \<Rightarrow> utext \<Rightarrow> utext \<Rightarrow> bool" where
  "ilike lower pattern s \<longleftrightarrow> like (map lower pattern) (map lower s)"

record decision_filter =
  df_outcome :: "string option"
  df_series_id :: "series_id option"
  df_revertible_only :: bool
  df_flagged_only :: bool
  df_blocked_only :: bool
  df_reverted_only :: bool
  df_trigger :: "string option"
  df_search :: "utext option"

definition any_filter :: decision_filter where
  "any_filter = \<lparr>df_outcome = None, df_series_id = None, df_revertible_only = False,
     df_flagged_only = False, df_blocked_only = False, df_reverted_only = False, df_trigger = None,
     df_search = None\<rparr>"

definition decision_matches ::
  "(nat \<Rightarrow> nat) \<Rightarrow> (utext \<Rightarrow> nat option) \<Rightarrow> decision_filter \<Rightarrow> nat option \<Rightarrow> decision_row \<Rightarrow> bool" where
  "decision_matches lower parse_id f only_id r \<longleftrightarrow>
     (let names = (\<lambda>i. fst (nd_pair r) = i \<or> snd (nd_pair r) = i); search = search_terms parse_id (df_search f)
      in (df_outcome f = None \<or> df_outcome f = Some (nd_outcome r)) \<and>
         (case df_series_id f of None \<Rightarrow> True | Some i \<Rightarrow> names i) \<and>
         (df_revertible_only f \<longrightarrow> nd_undo r \<noteq> None \<and> dr_reverted_at r = None) \<and>
         (df_flagged_only f \<longrightarrow> dr_flagged_at r \<noteq> None) \<and>
         (df_blocked_only f \<longrightarrow> nd_blocked_by r \<noteq> []) \<and>
         (df_reverted_only f \<longrightarrow> dr_reverted_at r \<noteq> None) \<and>
         (df_trigger f = None \<or> df_trigger f = Some (nd_trigger r)) \<and>
         (case fst search of None \<Rightarrow> True | Some i \<Rightarrow> dr_id r = i \<or> names i) \<and>
         (case snd search of
            None \<Rightarrow> True
          | Some p \<Rightarrow> ilike lower p (fst (nd_titles r)) \<or> ilike lower p (snd (nd_titles r))) \<and>
         (only_id = None \<or> only_id = Some (dr_id r)))"

definition select_merge_decisions ::
  "(nat \<Rightarrow> nat) \<Rightarrow> (utext \<Rightarrow> nat option) \<Rightarrow> journal_db \<Rightarrow> decision_filter \<Rightarrow> nat option \<Rightarrow> nat \<Rightarrow> nat \<Rightarrow>
     decision_row list" where
  "select_merge_decisions lower parse_id j f only_id limit skip =
     take limit (drop skip (newest_first (filter (decision_matches lower parse_id f only_id) (jd_decisions j))))"

definition list_merge_decisions ::
  "(nat \<Rightarrow> nat) \<Rightarrow> (utext \<Rightarrow> nat option) \<Rightarrow> journal_db \<Rightarrow> decision_filter \<Rightarrow> nat \<Rightarrow> nat \<Rightarrow> decision_row list" where
  "list_merge_decisions lower parse_id j f limit skip =
     select_merge_decisions lower parse_id j f None limit skip"

definition get_merge_decision ::
  "(nat \<Rightarrow> nat) \<Rightarrow> (utext \<Rightarrow> nat option) \<Rightarrow> journal_db \<Rightarrow> nat \<Rightarrow> (merge_error, decision_row) result" where
  "get_merge_decision lower parse_id j i =
     (case select_merge_decisions lower parse_id j any_filter (Some i) 1 0 of
        [] \<Rightarrow> Err NotFoundError | r # _ \<Rightarrow> Ok r)"

section \<open>Search terms are literal\<close>

lemma like_plain:
  "c \<noteq> 92 \<Longrightarrow> c \<noteq> 37 \<Longrightarrow> c \<noteq> 95 \<Longrightarrow>
     like (c # ps) s \<longleftrightarrow> (\<exists>cs. s = c # cs \<and> like ps cs)"
  by (cases s) auto

lemma like_escaped: "like (92 # c # ps) s \<longleftrightarrow> (\<exists>cs. s = c # cs \<and> like ps cs)"
  by (cases s) auto

lemma like_any: "like (37 # ps) s \<longleftrightarrow> (\<exists>pre cs. s = pre @ cs \<and> like ps cs)"
proof (induction s)
  case Nil
  show ?case by simp
next
  case (Cons c s)
  have "like (37 # ps) (c # s) \<longleftrightarrow> like ps (c # s) \<or> like (37 # ps) s" by simp
  also have "\<dots> \<longleftrightarrow> (\<exists>pre cs. c # s = pre @ cs \<and> like ps cs)"
    unfolding Cons.IH by (auto simp: Cons_eq_append_conv)
  finally show ?case .
qed

declare like.simps(2) [simp del]

lemma like_escape: "like (escape_like t @ ps) s \<longleftrightarrow> (\<exists>cs. s = t @ cs \<and> like ps cs)"
  by (induction t arbitrary: s) (auto simp: like_escaped like_plain)

lemma map_escape:
  assumes "\<forall>m \<in> {92, 37, 95}. \<forall>c. lower c = m \<longleftrightarrow> c = m"
  shows "map lower (escape_like t) = escape_like (map lower t)"
  using assms by (induction t) auto

lemma literal_pattern:
  assumes "\<forall>m \<in> {92, 37, 95}. \<forall>c. lower c = m \<longleftrightarrow> c = m"
  shows "ilike lower (37 # escape_like t @ [37]) s \<longleftrightarrow>
         (\<exists>pre post. map lower s = pre @ map lower t @ post)"
proof -
  have "lower 37 = 37" using assms by simp
  then show ?thesis
    by (simp add: ilike_def map_escape [OF assms] like_any like_escape) blast
qed


text \<open>A search term is matched literally. Whatever the operator types, a per cent sign, an underscore
  or a backslash included, the pattern built from it finds exactly the titles that contain the
  trimmed term, up to case.
\<close>
theorem search_is_literal:
  assumes "\<forall>m \<in> {92, 37, 95}. \<forall>c. lower c = m \<longleftrightarrow> c = m"
    and "trim t \<noteq> []" "parse_id (trim t) = None"
  shows "\<exists>p. search_terms parse_id (Some t) = (None, Some p) \<and>
           (\<forall>s. ilike lower p s \<longleftrightarrow> (\<exists>pre post. map lower s = pre @ map lower (trim t) @ post))"
  using assms literal_pattern [OF assms(1)] by (simp add: search_terms_def)

theorem search_is_literal_witness:
  "\<exists>p. search_terms (\<lambda>_. None) (Some [37]) = (None, Some p) \<and> ilike id p [97, 37] \<and> \<not> ilike id p [97]"
proof -
  have t: "trim [37] = [37]" by (simp add: trim_def trim_start_def trim_end_def is_whitespace_def)
  obtain p where p: "search_terms (\<lambda>_. None) (Some [37]) = (None, Some p)"
    and lit: "\<forall>s. ilike id p s \<longleftrightarrow> (\<exists>pre post. map id s = pre @ map id (trim [37]) @ post)"
    using search_is_literal [of id "[37]" "\<lambda>_. None"] t by auto
  have "ilike id p [97, 37]" unfolding lit [rule_format] t by (intro exI [of _ "[97]"] exI [of _ "[]"]) simp
  moreover have "\<not> ilike id p [97]" unfolding lit [rule_format] t by (auto simp: Cons_eq_append_conv)
  ultimately show ?thesis using p by blast
qed

section \<open>Dismissals are durable\<close>

definition queue_ok :: "merge_db \<Rightarrow> bool" where
  "queue_ok db \<longleftrightarrow> distinct (map row_pair (md_candidates db))"

definition dismissed :: "merge_db \<Rightarrow> series_id \<times> series_id \<Rightarrow> bool" where
  "dismissed db p \<longleftrightarrow>
     (\<exists>c \<in> set (md_candidates db). row_pair c = p \<and> mc_resolved c \<and> mc_outcome c = Some ''dismissed'')"

lemma row_pair_upd [simp]:
  "row_pair (c\<lparr>mc_id := i\<rparr>) = row_pair c" "row_pair (reopen_row now n c) = row_pair c"
  "row_pair (close_row now v c) = row_pair c" "row_pair (dismiss_row actor now c) = row_pair c"
  by (simp_all add: row_pair_def reopen_row_def close_row_def dismiss_row_def)

lemma pairs_upsert_row:
  assumes "\<And>c. row_pair (update c) = row_pair c"
  shows "map row_pair (upsert_row writable update row cs) =
         (if row_pair row \<in> set (map row_pair cs) then map row_pair cs else map row_pair cs @ [row_pair row])"
proof (cases "find (\<lambda>c. row_pair c = row_pair row) cs")
  case None
  then have "row_pair row \<notin> row_pair ` set cs" by (auto simp: find_None_iff)
  then show ?thesis using None by (simp add: upsert_row_def)
next
  case (Some c)
  then obtain i where "i < length cs" "row_pair (cs ! i) = row_pair row" by (auto simp: find_Some_iff)
  then have "row_pair row \<in> row_pair ` set cs" by (metis image_eqI nth_mem)
  then show ?thesis using Some assms by (auto simp: upsert_row_def)
qed

lemma upsert_row_keeps:
  assumes "c \<in> set cs" "row_pair c \<noteq> row_pair row \<or> \<not> writable c"
  shows "c \<in> set (upsert_row writable update row cs)"
  using assms by (force simp: upsert_row_def)

lemma distinct_upsert_row:
  assumes "\<And>c. row_pair (update c) = row_pair c" "distinct (map row_pair cs)"
  shows "distinct (map row_pair (upsert_row writable update row cs))"
  unfolding pairs_upsert_row [OF assms(1)] using assms(2) by auto

lemma fold_candidates:
  shows "distinct (map row_pair cs) \<Longrightarrow> distinct (map row_pair (fold (upsert_candidate now) ns cs))"
    and "c \<in> set cs \<Longrightarrow> \<not> rewritable c \<Longrightarrow> c \<in> set (fold (upsert_candidate now) ns cs)"
  by (induction ns arbitrary: cs) (simp_all add: upsert_candidate_def distinct_upsert_row upsert_row_keeps)

lemma fold_verdicts:
  shows "distinct (map row_pair cs) \<Longrightarrow> distinct (map row_pair (fold (upsert_distinct now) vs cs))"
    and "c \<in> set cs \<Longrightarrow> \<not> not_dismissed c \<Longrightarrow> c \<in> set (fold (upsert_distinct now) vs cs)"
  by (induction vs arbitrary: cs) (simp_all add: upsert_distinct_def distinct_upsert_row upsert_row_keeps)

lemma record_candidates_queue:
  assumes "record_merge_candidates ns db = (r, db')"
  shows "\<exists>live. md_candidates db' = fold (upsert_candidate (md_now db)) live (md_candidates db)"
proof (cases "check_batch ''cannot queue a series against itself''
                ''the same pair was queued twice in one batch'' [] (map nc_pair ns)")
  case (Inl e)
  with assms show ?thesis by (intro exI [of _ "[]"]) (simp add: record_merge_candidates_def)
next
  case (Inr y)
  with assms show ?thesis by (auto simp: record_merge_candidates_def Let_def)
qed

lemma record_verdicts_queue:
  assumes "record_distinct_pairs vs db = (r, db')"
  shows "\<exists>live. md_candidates db' = fold (upsert_distinct (md_now db)) live (md_candidates db)"
proof (cases "check_batch ''cannot judge a series against itself''
                ''the same pair was judged twice in one batch'' [] (map dv_pair vs)")
  case (Inl e)
  with assms show ?thesis by (intro exI [of _ "[]"]) (simp add: record_distinct_pairs_def)
next
  case (Inr y)
  with assms show ?thesis by (auto simp: record_distinct_pairs_def Let_def)
qed

lemma pair_reopen_listed [simp]: "map row_pair (reopen_listed now ids cs) = map row_pair cs"
  by (auto simp: reopen_listed_def row_pair_def)

lemma revert_ok:
  assumes "revert_merge u db = Ok db'"
  obtains row where "check_revertible u db = Ok row" "md_series db' = (md_series db)(mu_absorbed_id u \<mapsto> row)"
    "md_candidates db' = reopen_listed (md_now db) (mu_resolved_candidates u) (md_candidates db)"
    "md_now db' = md_now db"
  using assms by (auto simp: revert_merge_def revert_steps Let_def split: sum.splits)

lemma check_revertible_ok:
  assumes "check_revertible u db = Ok row"
  shows "md_series db (mu_absorbed_id u) = None" "md_series db (mu_survivor_id u) \<noteq> None"
  using assms by (auto simp: check_revertible_def Let_def split: if_splits option.splits)

text \<open>Everything that happens to the queue while both series of the pair \<open>p\<close> stay: no merge that absorbs
  one of them and no deletion of one.\<close>

inductive queue_step :: "series_id \<times> series_id \<Rightarrow> merge_db \<Rightarrow> merge_db \<Rightarrow> bool" for p where
  tick: "queue_step p db (db\<lparr>md_now := now\<rparr>)"
| queue: "record_merge_candidates ns db = (r, db') \<Longrightarrow> queue_step p db db'"
| judge: "record_distinct_pairs vs db = (r', db') \<Longrightarrow> queue_step p db db'"
| dismiss: "dismiss_merge_candidate i actor db = (hit, db') \<Longrightarrow> queue_step p db db'"
| suppress: "suppress_pair a b actor db = Ok db' \<Longrightarrow> queue_step p db db'"
| merge: "merge_series keep absorbed actor outcome db = (Ok u, db') \<Longrightarrow>
            absorbed \<noteq> fst p \<Longrightarrow> absorbed \<noteq> snd p \<Longrightarrow> queue_step p db db'"
| revert: "revert_merge u db = Ok db' \<Longrightarrow> queue_step p db db'"
| delete: "s \<noteq> fst p \<Longrightarrow> s \<noteq> snd p \<Longrightarrow> queue_step p db (delete_series s db)"

lemma queue_step_ok: "queue_step p db db' \<Longrightarrow> queue_ok db \<Longrightarrow> queue_ok db'"
proof (induction rule: queue_step.induct)
  case (tick db now)
  then show ?case by (simp add: queue_ok_def)
next
  case (queue ns db r db')
  then show ?case using record_candidates_queue fold_candidates(1) by (metis queue_ok_def)
next
  case (judge vs db r' db')
  then show ?case using record_verdicts_queue fold_verdicts(1) by (metis queue_ok_def)
next
  case (dismiss i actor db hit db')
  then have "map row_pair (md_candidates db') = map row_pair (md_candidates db)"
    by (auto simp: dismiss_merge_candidate_def Let_def)
  with dismiss show ?case by (simp add: queue_ok_def)
next
  case (suppress a b actor db db')
  then show ?case by (auto simp: queue_ok_def suppress_pair_def distinct_upsert_row split: if_splits)
next
  case (merge keep absorbed actor outcome db u db')
  then show ?case by (simp add: queue_ok_def merge_fields [OF merge(1)] distinct_map_filter)
next
  case (revert u db db')
  from revert(1) show ?case by (rule revert_ok) (use revert(2) in \<open>simp add: queue_ok_def\<close>)
next
  case (delete s db)
  then show ?case by (simp add: queue_ok_def delete_series_def distinct_map_filter)
qed

lemma queue_step_dismissed: "queue_step p db db' \<Longrightarrow> dismissed db p \<Longrightarrow> dismissed db' p"
proof (induction rule: queue_step.induct)
  case (tick db now)
  then show ?case by (simp add: dismissed_def)
next
  case (queue ns db r db')
  obtain live where "md_candidates db' = fold (upsert_candidate (md_now db)) live (md_candidates db)"
    using record_candidates_queue [OF queue(1)] by blast
  moreover have "\<not> rewritable c" if "mc_resolved c" "mc_outcome c = Some ''dismissed''" for c
    using that by (simp add: rewritable_def)
  ultimately show ?case using queue(2) fold_candidates(2) by (auto simp: dismissed_def)
next
  case (judge vs db r' db')
  obtain live where "md_candidates db' = fold (upsert_distinct (md_now db)) live (md_candidates db)"
    using record_verdicts_queue [OF judge(1)] by blast
  moreover have "\<not> not_dismissed c" if "mc_outcome c = Some ''dismissed''" for c
    using that by (simp add: not_dismissed_def)
  ultimately show ?case using judge(2) fold_verdicts(2) by (auto simp: dismissed_def)
next
  case (dismiss i actor db hit db')
  then show ?case by (fastforce simp: dismissed_def dismiss_merge_candidate_def Let_def)
next
  case (suppress a b actor db db')
  have kept: "\<exists>c' \<in> set (upsert_row (\<lambda>_. True) (dismiss_row actor now) row cs).
      row_pair c' = p \<and> mc_resolved c' \<and> mc_outcome c' = Some ''dismissed''"
    if c: "c \<in> set cs" "row_pair c = p" "mc_resolved c" "mc_outcome c = Some ''dismissed''" for c cs row now
  proof (cases "row_pair c = row_pair row")
    case True
    then have "find (\<lambda>c. row_pair c = row_pair row) cs \<noteq> None" using c(1) by (auto simp: find_None_iff)
    then have "dismiss_row actor now c \<in> set (upsert_row (\<lambda>_. True) (dismiss_row actor now) row cs)"
      using True c(1) by (auto simp: upsert_row_def)
    then show ?thesis using c(2) by (intro bexI) (auto simp: dismiss_row_def row_pair_def)
  next
    case False
    then show ?thesis using c upsert_row_keeps by blast
  qed
  show ?case
  proof (cases "live_pair db (a, b)")
    case True
    with suppress kept show ?thesis by (auto simp: dismissed_def suppress_pair_def split: if_splits)
  next
    case False
    with suppress show ?thesis by (auto simp: suppress_pair_def split: if_splits)
  qed
next
  case (merge keep absorbed actor outcome db u db')
  then show ?case by (auto simp: dismissed_def merge_fields [OF merge(1)] row_pair_def)
next
  case (revert u db db')
  from revert(1) show ?case
    by (rule revert_ok) (use revert(2) in \<open>fastforce simp: dismissed_def reopen_listed_def\<close>)
next
  case (delete s db)
  then show ?case by (auto simp: dismissed_def delete_series_def row_pair_def)
qed

text \<open>A merge that absorbs a series of the pair takes the dismissal with it, and reverting the merge does
  not bring it back.\<close>

lemma merge_forgets_dismissal:
  assumes "merge_series keep absorbed actor outcome db = (Ok u, db1)" "absorbed = fst p \<or> absorbed = snd p"
  shows "\<not> dismissed db1 p" "revert_merge u db1 = Ok db2 \<Longrightarrow> \<not> dismissed db2 p"
proof -
  show gone: "\<not> dismissed db1 p"
    using assms by (auto simp: dismissed_def merge_fields [OF assms(1)] row_pair_def)
  assume "revert_merge u db1 = Ok db2"
  then show "\<not> dismissed db2 p"
    by (rule revert_ok) (use gone in \<open>auto simp: dismissed_def reopen_listed_def reopen_row_def split: if_splits\<close>)
qed


lemma dismissed_row_of:
  assumes "queue_ok db" "dismissed db p" "canonical_pair q = p"
  shows "\<exists>c. row_of (md_candidates db) q = Some c \<and> row_pair c = p \<and> mc_resolved c \<and> mc_outcome c = Some ''dismissed''"
proof -
  obtain c where c: "c \<in> set (md_candidates db)" "row_pair c = p" "mc_resolved c" "mc_outcome c = Some ''dismissed''"
    using assms(2) by (auto simp: dismissed_def)
  have "find (\<lambda>d. row_pair d = p) (md_candidates db) \<noteq> None" using c by (auto simp: find_None_iff)
  then obtain d where d: "find (\<lambda>d. row_pair d = p) (md_candidates db) = Some d" by blast
  then obtain i where i: "i < length (md_candidates db)" "row_pair d = p" "d = md_candidates db ! i"
    by (auto simp: find_Some_iff)
  then have "d \<in> set (md_candidates db)" by simp
  with c i(2) assms(1) have "d = c" by (auto simp: queue_ok_def distinct_map inj_on_def)
  with c d assms(3) show ?thesis by (auto simp: row_of_def)
qed

lemma dismissed_not_rewritten:
  assumes "queue_ok db" "dismissed db p"
  shows "p \<notin> set (open_merge_pairs db limit)" "p \<notin> set (distinct_merge_pairs db limit)"
proof -
  have same: "mc_resolved c \<and> mc_outcome c = Some ''dismissed''" if "c \<in> set (md_candidates db)" "row_pair c = p" for c
    using assms that by (auto simp: queue_ok_def dismissed_def distinct_map inj_on_def)
  show "p \<notin> set (open_merge_pairs db limit)" "p \<notin> set (distinct_merge_pairs db limit)"
    using same by (auto simp: open_merge_pairs_def distinct_merge_pairs_def sorted_by_update_def dest!: in_set_takeD)
qed

text \<open>C36: a dismissed pair is kept from the shortlists of the queue. Once an operator has marked a pair as
  not a duplicate it stays so through any sequence of sweeps, ingests, dismissals, suppressions, reverts,
  and merges and deletions of other series, and none of the three shortlists that the sweep takes from
  names and queue rows (new pairs, open rows, pairs judged apart) holds it. Two ways around it remain.
  The list of series without a source that an exhaustive run merges into a twin does not look at the
  queue (\<open>dismissed_twin_is_found\<close>), and a merge that absorbs one series of the pair into a third
  forgets the dismissal for good, also when it is reverted (\<open>merge_forgets_dismissal\<close>).
\<close>
theorem dismissed_pair_not_shortlisted:
  assumes "(queue_step (a, b))\<^sup>*\<^sup>* db db'" "queue_ok db" "dismissed db (a, b)" "a < b"
  shows "queue_ok db' \<and> dismissed db' (a, b) \<and> (a, b) \<notin> duplicate_pairs listed db' \<and>
    (a, b) \<notin> set (open_merge_pairs db' limit) \<and> (a, b) \<notin> set (distinct_merge_pairs db' limit')"
proof -
  from assms(1) have s: "queue_ok db' \<and> dismissed db' (a, b)"
    by (induction rule: rtranclp_induct) (use assms(2,3) queue_step_ok queue_step_dismissed in blast)+
  then show ?thesis
    using dismissed_not_rewritten [of db' "(a, b)"] dismissed_row_of [of db' "(a, b)" "(a, b)"] assms(4)
    by (auto simp: duplicate_pairs_def canonical_pair_def)
qed

definition dismissed_pair :: merge_db where
  "dismissed_pair = two_series\<lparr>md_candidates := [(dismissed_row (3, 4) (Some 7) 1)]\<rparr>"

theorem dismissed_pair_not_shortlisted_witness:
  "queue_step (3, 4) dismissed_pair
     (snd (record_merge_candidates [\<lparr>nc_pair = (4, 3), nc_score = 1, nc_signals = [], nc_reason = []\<rparr>] dismissed_pair)) \<and>
   (3, 4) \<notin> set (open_merge_pairs (snd (record_merge_candidates
       [\<lparr>nc_pair = (4, 3), nc_score = 1, nc_signals = [], nc_reason = []\<rparr>] dismissed_pair)) 5)"
proof -
  let ?n = "[\<lparr>nc_pair = (4, 3), nc_score = 1, nc_signals = [], nc_reason = []\<rparr>] :: new_candidate list"
  have s: "queue_step (3, 4) dismissed_pair (snd (record_merge_candidates ?n dismissed_pair))"
    by (rule queue_step.queue [OF prod.collapse [symmetric]])
  moreover have "queue_ok dismissed_pair" "dismissed dismissed_pair (3, 4)"
    by (simp_all add: queue_ok_def dismissed_def dismissed_pair_def dismissed_row_def row_pair_def canonical_pair_def)
  ultimately show ?thesis
    using dismissed_pair_not_shortlisted [OF r_into_rtranclp [of "queue_step (3, 4)"]] by simp
qed

section \<open>What reverting a decision leaves\<close>

lemma disentangle_names:
  assumes "keep \<noteq> back" "k \<noteq> []"
    and "k \<in> names_of (jd_db (snd (disentangle normalise keep back j))) keep"
    and "k \<in> names_of (jd_db (snd (disentangle normalise keep back j))) back"
  shows "map_option se_normalized_title (md_series (jd_db j) keep) = Some k"
proof (rule ccontr)
  let ?db = "jd_db j" and ?db' = "jd_db (snd (disentangle normalise keep back j))"
  assume own: "map_option se_normalized_title (md_series ?db keep) \<noteq> Some k"
  have restored: "k \<in> names_of ?db back"
    using assms(1,4) by (auto simp: names_of_def disentangle_def Let_def split: option.splits)
  have "md_titles ?db' keep k \<noteq> None"
    using assms(3) own by (auto simp: names_of_def disentangle_def Let_def split: option.splits if_splits)
  then have "\<not> shared_name ?db keep back k" "md_titles ?db keep k \<noteq> None"
    by (auto simp: disentangle_def Let_def split: if_splits)
  then show False using own restored assms(2) by (auto simp: shared_name_def names_of_def)
qed

lemma disentangle_other [simp]:
  "md_series (jd_db (snd (disentangle normalise keep back j))) = md_series (jd_db j)"
  "md_candidates (jd_db (snd (disentangle normalise keep back j))) = md_candidates (jd_db j)"
  "md_now (jd_db (snd (disentangle normalise keep back j))) = md_now (jd_db j)"
  "jd_decisions (snd (disentangle normalise keep back j)) = jd_decisions j"
  by (simp_all add: disentangle_def Let_def)

lemma suppress_fields:
  assumes "suppress_pair a b actor db = Ok db'"
  shows "md_series db' = md_series db" "md_titles db' = md_titles db"
  using assms by (auto simp: suppress_pair_def split: if_splits)

lemma suppress_dismisses:
  assumes "suppress_pair a b actor db = Ok db'" "live_pair db (a, b)"
  shows "dismissed db' (canonical_pair (a, b))"
proof -
  let ?row = "dismissed_row (a, b) actor (md_now db)"
  have db': "md_candidates db' = upsert_row (\<lambda>_. True) (dismiss_row actor (md_now db)) ?row (md_candidates db)"
    using assms by (auto simp: suppress_pair_def split: if_splits)
  have row: "row_pair ?row = canonical_pair (a, b)" by (simp add: row_pair_def dismissed_row_def)
  show ?thesis
  proof (cases "find (\<lambda>c. row_pair c = row_pair ?row) (md_candidates db)")
    case None
    then show ?thesis
      using row by (auto simp: dismissed_def db' upsert_row_def) (auto simp: dismissed_row_def)
  next
    case (Some c)
    then obtain i where "i < length (md_candidates db)" "row_pair (md_candidates db ! i) = row_pair ?row"
      by (auto simp: find_Some_iff)
    then have "dismiss_row actor (md_now db) (md_candidates db ! i) \<in> set (md_candidates db')"
      using Some by (auto simp: db' upsert_row_def)
    moreover have "row_pair (dismiss_row actor (md_now db) (md_candidates db ! i)) = canonical_pair (a, b)"
      using \<open>row_pair (md_candidates db ! i) = row_pair ?row\<close> row by simp
    ultimately show ?thesis unfolding dismissed_def by (intro bexI) (auto simp: dismiss_row_def)
  qed
qed

lemma find_stamped:
  "find (\<lambda>r. dr_id r = i) (stamp_reverted i actor reason now rs) =
   map_option (\<lambda>r. r\<lparr>dr_reverted_at := Some now, dr_reverted_by := actor, dr_revert_reason := Some reason\<rparr>)
     (find (\<lambda>r. dr_id r = i) rs)"
  by (induction rs) (auto simp: stamp_reverted_def)

text \<open>C37: Reverting a merge decision takes the two works apart. When it succeeds both series
  exist again, the pair is dismissed (which keeps it from the shortlists of the queue), no name but the
  survivor's own canonical title is answered to by both, and a second revert of the same decision
  is refused. When it fails nothing has changed.
\<close>
theorem revert_separates_pair:
  assumes "revert_merge_decision normalise i actor reason j = (res, j')"
    and "find_decision j i = Some row" "nd_undo row = Some undo"
    and "nd_pair row = canonical_pair (mu_survivor_id undo, mu_absorbed_id undo)"
  shows "case res of
      Inl e \<Rightarrow> j' = j
    | Inr x \<Rightarrow>
        fst x = undo \<and> live_pair (jd_db j') (mu_survivor_id undo, mu_absorbed_id undo) \<and>
        dismissed (jd_db j') (nd_pair row) \<and>
        (\<forall>k. k \<noteq> [] \<and> k \<in> names_of (jd_db j') (mu_survivor_id undo) \<and>
             k \<in> names_of (jd_db j') (mu_absorbed_id undo) \<longrightarrow>
             map_option se_normalized_title (md_series (jd_db j') (mu_survivor_id undo)) = Some k) \<and>
        fst (revert_merge_decision normalise i actor reason j') =
          Err (ConflictError ''this merge decision has already been reverted'')"
proof (cases res)
  case (Inl e)
  then show ?thesis using assms by (auto simp: revert_merge_decision_def Let_def split: if_splits sum.splits)
next
  case (Inr x)
  let ?keep = "mu_survivor_id undo" and ?gone = "mu_absorbed_id undo"
  obtain db where r: "revert_merge undo (jd_db j) = Ok db"
    using assms Inr by (auto simp: revert_merge_decision_def Let_def split: if_splits sum.splits)
  define c where "c = disentangle normalise ?keep ?gone (j\<lparr>jd_db := db\<rparr>)"
  let ?j2 = "(snd c)\<lparr>jd_decisions := stamp_reverted i actor reason (md_now db) (jd_decisions (snd c))\<rparr>"
  obtain db' where s: "suppress_pair (fst (nd_pair row)) (snd (nd_pair row)) actor (jd_db (snd c)) = Ok db'"
    and x: "x = (undo, fst c)" and j': "j' = ?j2\<lparr>jd_db := db'\<rparr>"
    using assms Inr r by (auto simp: revert_merge_decision_def Let_def c_def [symmetric] split: if_splits sum.splits)
  from r obtain sr where sr: "check_revertible undo (jd_db j) = Ok sr"
    and series: "md_series db = (md_series (jd_db j))(?gone \<mapsto> sr)"
    by (rule revert_ok)
  have kb: "?keep \<noteq> ?gone" and keep: "md_series (jd_db j) ?keep \<noteq> None"
    using check_revertible_ok [OF sr] by auto
  have same: "md_series (jd_db j') = md_series db"
    using suppress_fields [OF s] by (simp add: j' c_def)
  then have live: "live_pair (jd_db j') (?keep, ?gone)" using keep series by (simp add: live_pair_def)
  have "live_pair (jd_db (snd c)) (fst (nd_pair row), snd (nd_pair row))"
    using live same by (auto simp: assms(4) c_def live_pair_def canonical_pair_def min_def max_def)
  then have dis: "dismissed (jd_db j') (nd_pair row)"
    using suppress_dismisses [OF s] by (simp add: j' assms(4) canonical_pair_def)
  have names: "names_of (jd_db j') y = names_of (jd_db (snd c)) y" for y
    using suppress_fields [OF s] by (simp add: j' names_of_def)
  have "map_option se_normalized_title (md_series (jd_db j') ?keep) = Some k"
    if "k \<noteq> []" "k \<in> names_of (jd_db j') ?keep" "k \<in> names_of (jd_db j') ?gone" for k
    using disentangle_names [OF kb that(1), of normalise "j\<lparr>jd_db := db\<rparr>"] that(2,3)
    unfolding names c_def same by simp
  moreover have "find_decision j' i = Some (row\<lparr>dr_reverted_at := Some (md_now db), dr_reverted_by := actor,
      dr_revert_reason := Some reason\<rparr>)"
    using assms(2) by (simp add: find_decision_def j' c_def find_stamped)
  then have "fst (revert_merge_decision normalise i actor reason j') =
      Err (ConflictError ''this merge decision has already been reverted'')"
    by (simp add: revert_merge_decision_def)
  ultimately show ?thesis using Inr x live dis by simp
qed


lemma merge_revertible:
  assumes m: "merge_series keep absorbed actor outcome db = (Ok u, db1)"
  shows "\<exists>db2. revert_merge u db1 = Ok db2"
proof -
  obtain r r' where r: "md_series db keep = Some r" "md_series db absorbed = Some r'"
    using merge_ok(2,3) [OF m] by blast
  then have "check_revertible u db1 = Ok r'"
    using merge_ok(1) [OF m] by (simp add: check_revertible_def merge_fields [OF m] Let_def)
  then show ?thesis by (simp add: revert_merge_def)
qed

lemma suppress_succeeds: "a \<noteq> b \<Longrightarrow> \<exists>db'. suppress_pair a b actor db = Ok db'"
  by (simp add: suppress_pair_def)

definition merged_decision :: "merge_undo \<Rightarrow> decision_row" where
  "merged_decision u = \<lparr>nd_sweep_id = None, nd_trigger = ''operator'', nd_actor = None, nd_pair = (3, 4),
     nd_titles = ([], []), nd_verdict = ''auto'', nd_reason = [], nd_blocked_by = [], nd_outcome = ''merged'',
     nd_survivor_id = Some 3, nd_absorbed_id = Some 4, nd_score = 1, nd_base_score = 1, nd_signals = [],
     nd_terms = [], nd_evidence = [], nd_policy = [], nd_undo = Some u, dr_id = 2, dr_decided_at = 0,
     dr_reverted_at = None, dr_reverted_by = None, dr_revert_reason = None, dr_flagged_at = None,
     dr_flagged_by = None, dr_flag_reason = None\<rparr>"

theorem revert_separates_pair_witness:
  "\<exists>j x j'. revert_merge_decision id 2 None ''split'' j = (Ok x, j') \<and> dismissed (jd_db j') (3, 4)"
proof -
  obtain u db1 where m: "merge_series 3 4 None ''merged'' two_series = (Ok u, db1)"
    using two_series_merge by blast
  obtain db2 where r: "revert_merge u db1 = Ok db2" using merge_revertible [OF m] by blast
  let ?j = "\<lparr>jd_db = db1, jd_decisions = [merged_decision u], jd_source_title = Map.empty,
              jd_chapter_source = Map.empty\<rparr>"
  have f: "find_decision ?j 2 = Some (merged_decision u)" "nd_undo (merged_decision u) = Some u"
    "nd_pair (merged_decision u) = canonical_pair (mu_survivor_id u, mu_absorbed_id u)"
    "dr_reverted_at (merged_decision u) = None" "nd_pair (merged_decision u) = (3, 4)"
    by (simp_all add: find_decision_def merged_decision_def merge_fields [OF m] canonical_pair_def)
  obtain x j' where e: "revert_merge_decision id 2 None ''split'' ?j = (Ok x, j')"
    using r f(1,2,4) suppress_succeeds [of 3 4]
    by (simp add: revert_merge_decision_def Let_def f(5)) (metis (no_types, lifting) old.sum.simps(6))
  have "dismissed (jd_db j') (3, 4)" using revert_separates_pair [OF e f(1-3)] f(5) by simp
  with e show ?thesis by blast
qed

section \<open>The claim of the exhaustive sweep\<close>

definition lease_secs :: int where "lease_secs = 300"

record full_sweep_counters =
  fc_pairs_examined :: int
  fc_auto_merged :: int
  fc_queued :: int
  fc_requeued :: int
  fc_reopened :: int
  fc_withdrawn :: int
  fc_distinct :: int
  fc_deferred :: int
  fc_blocked :: int

definition no_counters :: full_sweep_counters where
  "no_counters = \<lparr>fc_pairs_examined = 0, fc_auto_merged = 0, fc_queued = 0, fc_requeued = 0,
     fc_reopened = 0, fc_withdrawn = 0, fc_distinct = 0, fc_deferred = 0, fc_blocked = 0\<rparr>"

record full_sweep_row =
  fs_running :: bool
  fs_claim_id :: "nat option"
  fs_heartbeat_at :: "int option"
  fs_started_at :: "int option"
  fs_finished_at :: "int option"
  fs_rounds :: int
  fs_counters :: full_sweep_counters
  fs_stopped :: "string option"
  fs_error :: "string option"

text \<open>Times are seconds; \<open>claim\<close> is the random id the call draws.\<close>

definition claim_full_sweep :: "nat \<Rightarrow> int \<Rightarrow> full_sweep_row \<Rightarrow> nat option \<times> full_sweep_row" where
  "claim_full_sweep claim now s =
     (if \<not> fs_running s \<or> (case fs_heartbeat_at s of None \<Rightarrow> True | Some h \<Rightarrow> h < now - lease_secs)
      then (Some claim, s\<lparr>fs_running := True, fs_claim_id := Some claim, fs_heartbeat_at := Some now,
              fs_started_at := Some now, fs_finished_at := None, fs_rounds := 0,
              fs_counters := no_counters, fs_stopped := None, fs_error := None\<rparr>)
      else (None, s))"

definition advance_full_sweep ::
  "nat \<Rightarrow> int \<Rightarrow> full_sweep_counters \<Rightarrow> int \<Rightarrow> full_sweep_row \<Rightarrow> full_sweep_row" where
  "advance_full_sweep claim rounds counters now s =
     (if fs_claim_id s = Some claim
      then s\<lparr>fs_heartbeat_at := Some now, fs_rounds := rounds, fs_counters := counters\<rparr> else s)"

definition finish_full_sweep ::
  "nat \<Rightarrow> string \<Rightarrow> string option \<Rightarrow> int \<Rightarrow> full_sweep_row \<Rightarrow> full_sweep_row" where
  "finish_full_sweep claim stopped err now s =
     (if fs_claim_id s = Some claim
      then s\<lparr>fs_running := False, fs_heartbeat_at := Some now, fs_finished_at := Some now,
             fs_stopped := Some stopped, fs_error := err\<rparr> else s)"

definition sweep_running :: "int \<Rightarrow> full_sweep_row \<Rightarrow> bool" where
  "sweep_running now s \<longleftrightarrow>
     fs_running s \<and> (case fs_heartbeat_at s of None \<Rightarrow> False | Some h \<Rightarrow> now - lease_secs \<le> h)"

definition read_full_sweep_state :: "int \<Rightarrow> full_sweep_row \<Rightarrow> full_sweep_row" where
  "read_full_sweep_state now s = s\<lparr>fs_running := sweep_running now s\<rparr>"

text \<open>The exhaustive sweep has one holder. A claim is granted exactly when the console reads the
  sweep as not running; a refused claim changes nothing; a granted one is running from then on and
  owns the row, so that nothing an earlier run stamps or finishes can change it.
\<close>
theorem full_sweep_one_holder:
  "(case claim_full_sweep c now s of
      (None, s') \<Rightarrow> fs_running (read_full_sweep_state now s) \<and> s' = s
    | (Some c', s') \<Rightarrow>
        \<not> fs_running (read_full_sweep_state now s) \<and> c' = c \<and> fs_running (read_full_sweep_state now s') \<and>
        fst (claim_full_sweep d now s') = None \<and>
        (d \<noteq> c \<longrightarrow> advance_full_sweep d rounds counters t s' = s' \<and> finish_full_sweep d stopped err t s' = s') \<and>
        \<not> fs_running (read_full_sweep_state t (finish_full_sweep c stopped err t s')))"
  by (auto simp: claim_full_sweep_def read_full_sweep_state_def sweep_running_def advance_full_sweep_def
      finish_full_sweep_def lease_secs_def split: option.splits)

theorem full_sweep_one_holder_witness:
  "(let s = \<lparr>fs_running = True, fs_claim_id = Some 3, fs_heartbeat_at = Some 0, fs_started_at = Some 0,
             fs_finished_at = None, fs_rounds = 2, fs_counters = no_counters, fs_stopped = None, fs_error = None\<rparr>;
        s' = snd (claim_full_sweep 2 301 s)
    in fst (claim_full_sweep 2 301 s) = Some 2 \<and> finish_full_sweep 3 ''exhausted'' None 302 s' = s')"
proof -
  let ?s = "\<lparr>fs_running = True, fs_claim_id = Some 3, fs_heartbeat_at = Some 0, fs_started_at = Some 0,
             fs_finished_at = None, fs_rounds = 2, fs_counters = no_counters, fs_stopped = None, fs_error = None\<rparr>"
  obtain s' where c: "claim_full_sweep 2 301 ?s = (Some 2, s')"
    by (simp add: claim_full_sweep_def lease_secs_def)
  then have "finish_full_sweep 3 ''exhausted'' None 302 s' = s'"
    using full_sweep_one_holder [where c = 2 and now = 301 and s = ?s and d = 3 and t = 302
      and stopped = "''exhausted''" and err = None] by simp
  with c show ?thesis by (simp add: Let_def)
qed

end
