(* ===== verification/Dedupe_Sweep.thy ===== *)
theory Dedupe_Sweep
  imports Match_Decide Merge_Journal
begin

text \<open>
  The duplicate sweep (\<open>dedupe/pass.rs\<close>, \<open>run.rs\<close>, \<open>judgement.rs\<close>,
  \<open>journal.rs\<close>): a pass over the shortlists, which merges the certain pairs as it judges them and
  writes the other verdicts and their journal rows afterwards; a sweep of at most three passes under one
  merge ceiling; the rounds of the exhaustive run. Below them: what a sweep can take away and how it is
  journalled, that the exhaustive run ends, and that a pass fails only where the database does.
\<close>

section \<open>What a pass reads\<close>

record series_facts =
  sf_series_id :: series_id
  sf_canonical_title :: utext
  sf_normalized_title :: utext
  sf_alt_normalized_titles :: "utext list"
  sf_source_titles :: "utext list"
  sf_anilist_id :: "utext option"
  sf_content_type :: content_type
  sf_release_year :: "int option"
  sf_tags :: "utext list"
  sf_authors :: "utext list"
  sf_source_count :: int
  sf_chapter_count :: int
  sf_watcher_count :: int

definition weight :: "series_facts \<Rightarrow> int \<times> int \<times> int" where
  "weight f = (sf_source_count f, sf_chapter_count f, sf_watcher_count f)"

definition side :: "series_facts \<Rightarrow> pair_side" where
  "side f =
     \<lparr>ps_series_id = sf_series_id f, ps_normalized_title = sf_normalized_title f,
      ps_alt_normalized_titles = sf_alt_normalized_titles f, ps_source_titles = sf_source_titles f,
      ps_anilist_id = sf_anilist_id f, ps_content_type = sf_content_type f,
      ps_release_year = sf_release_year f, ps_tags = sf_tags f, ps_authors = sf_authors f\<rparr>"

text \<open>
  What a pass takes from the database besides the queue: the facts of a series, the trigram
  similarity of a pair, the live timing of two series, and the answer of the statement that finds
  colliding titles (any list of them, since it has no order). The documents of the journal are
  serialised by parameters too. Every statement is sent on its own and may fail: \<open>en_down\<close> says which
  gets no answer, on which tables; one that gets none has changed nothing.
\<close>

datatype sweep_stmt =
    Find_Pairs | Open_Pairs | Distinct_Pairs | Read_Facts | Read_Similarities | Read_Timing | Merge_Pair
  | Write_Reviews | Write_Distinct | Read_Deferrals | Write_Journal
  | Find_Twins | Delete_Orphans | Claim_Run | Advance_Run int | Finish_Run

record sweep_env =
  en_down :: "sweep_stmt \<Rightarrow> journal_db \<Rightarrow> bool"
  en_lower :: "utext \<Rightarrow> utext"
  en_facts :: "journal_db \<Rightarrow> series_id \<Rightarrow> series_facts option"
  en_similarity :: "journal_db \<Rightarrow> series_id \<times> series_id \<Rightarrow> rat option"
  en_timing :: "journal_db \<Rightarrow> series_id \<Rightarrow> series_id \<Rightarrow> live_timing"
  en_pick :: "journal_db \<Rightarrow> nat \<Rightarrow> (series_id \<times> series_id) list"
  en_terms :: "pair_reading \<Rightarrow> json"
  en_evidence :: "series_facts \<Rightarrow> series_facts \<Rightarrow> rat \<Rightarrow> pair_reading \<Rightarrow> live_timing option \<Rightarrow>
                    (series_facts \<times> series_facts) option \<Rightarrow> json"
  en_policy :: "thresholds \<Rightarrow> json"

definition ask :: "sweep_env \<Rightarrow> sweep_stmt \<Rightarrow> journal_db \<Rightarrow> (merge_error, unit) result" where
  "ask env q j = (if en_down env q j then Err (SqlError NoAnswer) else Ok ())"

section \<open>Judgements\<close>

datatype sweep_trigger = TriggerNew | TriggerRequeue | TriggerRecheck

fun trigger_as_str :: "sweep_trigger \<Rightarrow> string" where
  "trigger_as_str TriggerNew = ''sweep_new''"
| "trigger_as_str TriggerRequeue = ''sweep_requeue''"
| "trigger_as_str TriggerRecheck = ''sweep_recheck''"

datatype sweep_action =
    ActMerged series_facts series_facts
  | ActDeferred
  | ActReview
  | ActDistinct

record judged_pair =
  jp_pair :: "series_id \<times> series_id"
  jp_trigger :: sweep_trigger
  jp_left :: series_facts
  jp_right :: series_facts
  jp_trigram :: rat
  jp_reading :: pair_reading
  jp_live_timing :: "live_timing option"
  jp_verdict :: adjudication
  jp_signals :: "string list"
  jp_reason :: "string option"
  jp_action :: sweep_action

record sweep_view =
  sv_pairs_examined :: int
  sv_auto_merged :: int
  sv_queued :: int
  sv_requeued :: int
  sv_reopened :: int
  sv_withdrawn :: int
  sv_distinct :: int
  sv_deferred :: int
  sv_blocked :: int
  sv_chains_deferred :: int

definition empty_view :: sweep_view where
  "empty_view = \<lparr>sv_pairs_examined = 0, sv_auto_merged = 0, sv_queued = 0, sv_requeued = 0,
     sv_reopened = 0, sv_withdrawn = 0, sv_distinct = 0, sv_deferred = 0, sv_blocked = 0,
     sv_chains_deferred = 0\<rparr>"

record sweep_budget =
  sb_pairs :: nat
  sb_requeue :: nat
  sb_recheck :: nat
  sb_max_auto_merges :: int

datatype sweep_scope = FullScope | RotationScope

definition review_reason :: "adjudication \<Rightarrow> string" where
  "review_reason v =
     (if aj_reason v = ''no_structural_identity''
      then ''duplicate sweep: titles are similar but not the same string''
      else if aj_reason v = ''below_auto_merge_threshold''
      then ''duplicate sweep: identical titles, below the automatic-merge threshold''
      else if aj_reason v = ''alias_uncorroborated''
      then ''duplicate sweep: an alternative title matches, and nothing else confirms it''
      else if aj_reason v = ''external_id_conflict'' \<or> aj_reason v = ''live_timing_conflict''
      then ''duplicate sweep: titles match, but '' @ aj_reason v @ '' says these are different works''
      else ''duplicate sweep: would have merged automatically, held back by '' @ aj_reason v)"

section \<open>The journal rows of a sweep\<close>

record journal_context =
  jc_sweep_id :: nat
  jc_actor :: "user_id option"
  jc_policy :: json

definition merged_sides :: "judged_pair \<Rightarrow> (series_facts \<times> series_facts) option" where
  "merged_sides p = (case jp_action p of ActMerged k d \<Rightarrow> Some (k, d) | _ \<Rightarrow> None)"

definition judged_decision ::
  "sweep_env \<Rightarrow> journal_context \<Rightarrow> string \<Rightarrow> merge_undo option \<Rightarrow> judged_pair \<Rightarrow> new_decision" where
  "judged_decision env ctx outcome u p =
     \<lparr>nd_sweep_id = Some (jc_sweep_id ctx), nd_trigger = trigger_as_str (jp_trigger p),
      nd_actor = jc_actor ctx, nd_pair = (sf_series_id (jp_left p), sf_series_id (jp_right p)),
      nd_titles = (sf_canonical_title (jp_left p), sf_canonical_title (jp_right p)),
      nd_verdict = merge_verdict_as_str (aj_verdict (jp_verdict p)), nd_reason = aj_reason (jp_verdict p),
      nd_blocked_by = aj_blocked_by (jp_verdict p), nd_outcome = outcome,
      nd_survivor_id = map_option (sf_series_id \<circ> fst) (merged_sides p),
      nd_absorbed_id = map_option (sf_series_id \<circ> snd) (merged_sides p),
      nd_score = as_score (pr_assessment (jp_reading p)), nd_base_score = pr_base (jp_reading p),
      nd_signals = jp_signals p, nd_terms = en_terms env (jp_reading p),
      nd_evidence = en_evidence env (jp_left p) (jp_right p) (jp_trigram p) (jp_reading p)
                      (jp_live_timing p) (merged_sides p),
      nd_policy = jc_policy ctx, nd_undo = u\<rparr>"

text \<open>Best effort: a batch that cannot be written is logged and dropped.\<close>

definition journal_rows :: "sweep_env \<Rightarrow> new_decision list \<Rightarrow> journal_db \<Rightarrow> journal_db" where
  "journal_rows env ds j =
     (if ds = [] then j else snd (record_merge_decisions (en_down env Write_Journal j) ds j))"

datatype queue_write = Reviewed queue_outcome | JudgedApart bool

definition journal_outcome ::
  "(series_id \<times> series_id \<rightharpoonup> queue_write) \<Rightarrow> judged_pair \<Rightarrow> string option" where
  "journal_outcome writes p =
     (case jp_action p of
        ActMerged _ _ \<Rightarrow> None
      | ActDeferred \<Rightarrow> Some ''deferred''
      | ActReview \<Rightarrow>
          (case writes (jp_pair p) of
             Some (Reviewed Queue_Added) \<Rightarrow> Some ''queued''
           | Some (Reviewed Queue_Reopened) \<Rightarrow> Some ''reopened''
           | Some (Reviewed Queue_Refreshed) \<Rightarrow>
               (if aj_blocked_by (jp_verdict p) \<noteq> [] then Some ''requeued'' else None)
           | _ \<Rightarrow> None)
      | ActDistinct \<Rightarrow>
          (case writes (jp_pair p) of
             Some (JudgedApart True) \<Rightarrow> Some ''withdrawn''
           | _ \<Rightarrow> None))"

definition journal_payloads ::
  "judged_pair list \<Rightarrow> (series_id \<times> series_id \<rightharpoonup> queue_write) \<Rightarrow> (series_id \<times> series_id) list \<Rightarrow>
     (judged_pair \<times> string) list" where
  "journal_payloads js writes repeats =
     concat (map (\<lambda>p. case journal_outcome writes p of None \<Rightarrow> [] | Some out \<Rightarrow> [(p, out)])
       (filter (\<lambda>p. \<not> (jp_action p = ActDeferred \<and> canonical_pair (jp_pair p) \<in> set repeats)) js))"

section \<open>One pass\<close>

definition shortlist_entries ::
  "sweep_env \<Rightarrow> sweep_budget \<Rightarrow> sweep_scope \<Rightarrow> journal_db \<Rightarrow> ((series_id \<times> series_id) \<times> sweep_trigger) list" where
  "shortlist_entries env budget scope j =
     map (\<lambda>p. (p, TriggerNew)) (if scope = FullScope then en_pick env j (sb_pairs budget) else []) @
     map (\<lambda>p. (p, TriggerRequeue)) (open_merge_pairs (jd_db j) (sb_requeue budget)) @
     map (\<lambda>p. (p, TriggerRecheck)) (distinct_merge_pairs (jd_db j) (sb_recheck budget))"

definition shortlist ::
  "sweep_env \<Rightarrow> sweep_budget \<Rightarrow> sweep_scope \<Rightarrow> journal_db \<Rightarrow>
     (merge_error, (series_id \<times> series_id) list \<times> (series_id \<times> series_id \<rightharpoonup> sweep_trigger)) result" where
  "shortlist env budget scope j =
     bind_result (if scope = FullScope then ask env Find_Pairs j else Ok ()) (\<lambda>_.
     bind_result (ask env Open_Pairs j) (\<lambda>_.
     bind_result (ask env Distinct_Pairs j) (\<lambda>_.
       let es = shortlist_entries env budget scope j
       in Ok (sort (remdups (map fst es)), map_of es))))"

record judge_state =
  js_absorbed :: "series_id list"
  js_judged :: "judged_pair list"
  js_report :: sweep_view
  js_db :: journal_db

record sweep_pass =
  pa_env :: sweep_env
  pa_thresholds :: thresholds
  pa_budget :: sweep_budget
  pa_triggers :: "series_id \<times> series_id \<rightharpoonup> sweep_trigger"
  pa_ctx :: journal_context
  pa_facts :: "series_id \<Rightarrow> series_facts option"
  pa_similarity :: "series_id \<times> series_id \<Rightarrow> rat option"

definition judgement ::
  "sweep_pass \<Rightarrow> series_id \<times> series_id \<Rightarrow> series_facts \<Rightarrow> series_facts \<Rightarrow> rat \<Rightarrow>
     pair_reading \<times> adjudication \<times> live_timing option \<Rightarrow> string option \<Rightarrow> sweep_action \<Rightarrow> judged_pair" where
  "judgement pa p l r trigram rd reason action =
     \<lparr>jp_pair = p, jp_trigger = (case pa_triggers pa p of None \<Rightarrow> TriggerNew | Some t \<Rightarrow> t), jp_left = l,
      jp_right = r, jp_trigram = trigram, jp_reading = fst rd, jp_live_timing = snd (snd rd),
      jp_verdict = fst (snd rd), jp_signals = labels (as_signals (pr_assessment (fst rd))),
      jp_reason = reason, jp_action = action\<rparr>"

definition merge_in_pass ::
  "sweep_pass \<Rightarrow> series_facts \<Rightarrow> series_facts \<Rightarrow> judged_pair \<Rightarrow> judge_state \<Rightarrow> (merge_error, unit) result \<times> judge_state" where
  "merge_in_pass pa keep absorbed entry s =
     (if en_down (pa_env pa) Merge_Pair (js_db s) then (Err (SqlError NoAnswer), s)
      else case merge_series (sf_series_id keep) (sf_series_id absorbed) (jc_actor (pa_ctx pa)) ''auto_merged''
             (jd_db (js_db s)) of
        (Inl e, _) \<Rightarrow> (Err e, s)
      | (Inr u, db) \<Rightarrow>
          (Ok (),
           s\<lparr>js_absorbed := sf_series_id absorbed # js_absorbed s,
             js_report := (js_report s)\<lparr>sv_auto_merged := sv_auto_merged (js_report s) + 1\<rparr>,
             js_db := journal_rows (pa_env pa) [judged_decision (pa_env pa) (pa_ctx pa) ''merged'' (Some u) entry]
                        ((js_db s)\<lparr>jd_db := db\<rparr>),
             js_judged := js_judged s @ [entry]\<rparr>))"

text \<open>The live timing is asked for only when a reading wants it, and then it is part of what comes back.\<close>

definition judge_one ::
  "sweep_pass \<Rightarrow> series_id \<times> series_id \<Rightarrow> judge_state \<Rightarrow> (merge_error, unit) result \<times> judge_state" where
  "judge_one pa p s =
     (if fst p \<in> set (js_absorbed s) \<or> snd p \<in> set (js_absorbed s)
      then (Ok (), s\<lparr>js_report := (js_report s)\<lparr>sv_chains_deferred := sv_chains_deferred (js_report s) + 1\<rparr>\<rparr>)
      else case (pa_facts pa (fst p), pa_facts pa (snd p)) of
        (Some l, Some r) \<Rightarrow>
          (let trigram = (case pa_similarity pa p of None \<Rightarrow> 0 | Some t \<Rightarrow> t)
           in case judge_pair (en_lower (pa_env pa)) (side l) (side r) trigram (pa_thresholds pa)
                     (en_timing (pa_env pa) (js_db s) (sf_series_id l) (sf_series_id r)) of
                None \<Rightarrow> (Ok (), s)
              | Some rd \<Rightarrow>
                  if snd (snd rd) \<noteq> None \<and> en_down (pa_env pa) Read_Timing (js_db s)
                  then (Err (SqlError NoAnswer), s)
                  else
                  (let verdict = fst (snd rd); entry = judgement pa p l r trigram rd
                   in case aj_verdict verdict of
                        Auto \<Rightarrow>
                          if sv_auto_merged (js_report s) < sb_max_auto_merges (pa_budget pa)
                          then (let keep = (if weight r \<le> weight l then l else r);
                                    absorbed = (if weight r \<le> weight l then r else l)
                                in merge_in_pass pa keep absorbed (entry None (ActMerged keep absorbed)) s)
                          else (Ok (), s\<lparr>js_judged := js_judged s @ [entry None ActDeferred]\<rparr>)
                      | Review \<Rightarrow>
                          (Ok (), s\<lparr>js_judged := js_judged s @ [entry (Some (review_reason verdict)) ActReview]\<rparr>)
                      | Distinct \<Rightarrow> (Ok (), s\<lparr>js_judged := js_judged s @ [entry None ActDistinct]\<rparr>)))
      | _ \<Rightarrow> (Ok (), s))"

fun judge_pairs ::
  "sweep_pass \<Rightarrow> (series_id \<times> series_id) list \<Rightarrow> judge_state \<Rightarrow> (merge_error, unit) result \<times> judge_state" where
  "judge_pairs pa [] s = (Ok (), s)"
| "judge_pairs pa (p # ps) s =
     (case judge_one pa p s of
        (Inl e, s') \<Rightarrow> (Err e, s')
      | (Inr _, s') \<Rightarrow> judge_pairs pa ps s')"

definition is_merged :: "judged_pair \<Rightarrow> bool" where
  "is_merged p \<longleftrightarrow> (case jp_action p of ActMerged _ _ \<Rightarrow> True | _ \<Rightarrow> False)"

definition stale :: "series_id list \<Rightarrow> judged_pair \<Rightarrow> bool" where
  "stale absorbed p \<longleftrightarrow>
     \<not> is_merged p \<and> (fst (jp_pair p) \<in> set absorbed \<or> snd (jp_pair p) \<in> set absorbed)"

definition retract_absorbed :: "series_id list \<Rightarrow> judged_pair list \<Rightarrow> int \<times> judged_pair list" where
  "retract_absorbed absorbed js =
     (int (length (filter (stale absorbed) js)), filter (\<lambda>p. \<not> stale absorbed p) js)"

definition count_judgements :: "judged_pair list \<Rightarrow> sweep_view \<Rightarrow> sweep_view" where
  "count_judgements js report =
     report\<lparr>sv_pairs_examined := sv_pairs_examined report + int (length js),
            sv_blocked := sv_blocked report + int (length (filter (\<lambda>p. aj_blocked_by (jp_verdict p) \<noteq> []) js)),
            sv_deferred := sv_deferred report + int (length (filter (\<lambda>p. jp_action p = ActDeferred) js))\<rparr>"

definition judge ::
  "sweep_pass \<Rightarrow> (series_id \<times> series_id) list \<Rightarrow> sweep_view \<Rightarrow> journal_db \<Rightarrow>
     (merge_error, judged_pair list \<times> sweep_view) result \<times> journal_db" where
  "judge pa ps report j =
     (case judge_pairs pa ps \<lparr>js_absorbed = [], js_judged = [], js_report = report, js_db = j\<rparr> of
        (Inl e, s) \<Rightarrow> (Err e, js_db s)
      | (Inr _, s) \<Rightarrow>
          (let kept = retract_absorbed (js_absorbed s) (js_judged s);
               report' = (js_report s)\<lparr>sv_chains_deferred := sv_chains_deferred (js_report s) + fst kept\<rparr>
           in (Ok (snd kept, count_judgements (snd kept) report'), js_db s)))"


text \<open>A batch without rows sends no statement.\<close>

definition write_reviews ::
  "sweep_env \<Rightarrow> new_candidate list \<Rightarrow> journal_db \<Rightarrow>
     (merge_error, (series_id \<times> series_id \<times> queue_outcome) list) result \<times> journal_db" where
  "write_reviews env ns j =
     (if ns \<noteq> [] \<and> en_down env Write_Reviews j then (Err (SqlError NoAnswer), j)
      else case record_merge_candidates ns (jd_db j) of (res, db) \<Rightarrow> (res, j\<lparr>jd_db := db\<rparr>))"

definition write_distinct ::
  "sweep_env \<Rightarrow> distinct_verdict list \<Rightarrow> journal_db \<Rightarrow>
     (merge_error, ((series_id \<times> series_id) \<times> bool) list) result \<times> journal_db" where
  "write_distinct env vs j =
     (if vs \<noteq> [] \<and> en_down env Write_Distinct j then (Err (SqlError NoAnswer), j)
      else case record_distinct_pairs vs (jd_db j) of (res, db) \<Rightarrow> (res, j\<lparr>jd_db := db\<rparr>))"

definition flush_queue_writes ::
  "sweep_env \<Rightarrow> judged_pair list \<Rightarrow> sweep_view \<Rightarrow> journal_db \<Rightarrow>
     (merge_error, (series_id \<times> series_id \<rightharpoonup> queue_write) \<times> sweep_view) result \<times> journal_db" where
  "flush_queue_writes env js report j =
     (let reviews = map (\<lambda>p. \<lparr>nc_pair = jp_pair p, nc_score = as_score (pr_assessment (jp_reading p)),
                           nc_signals = jp_signals p,
                           nc_reason = (case jp_reason p of None \<Rightarrow> [] | Some r \<Rightarrow> r)\<rparr>)
                       (filter (\<lambda>p. jp_action p = ActReview) js);
          apart = map (\<lambda>p. \<lparr>dv_pair = jp_pair p, dv_score = as_score (pr_assessment (jp_reading p)),
                         dv_signals = jp_signals p\<rparr>)
                     (filter (\<lambda>p. jp_action p = ActDistinct) js)
      in case write_reviews env reviews j of
           (Inl e, j1) \<Rightarrow> (Err e, j1)
         | (Inr outcomes, j1) \<Rightarrow>
             (case write_distinct env apart j1 of
                (Inl e, j2) \<Rightarrow> (Err e, j2)
              | (Inr shut, j2) \<Rightarrow>
                  (let count = (\<lambda>q. int (length (filter (\<lambda>x. snd (snd x) = q) outcomes)));
                       withdrawn = int (length (filter snd shut))
                   in (Ok (map_of (rev (map (\<lambda>x. ((fst x, fst (snd x)), Reviewed (snd (snd x)))) outcomes @
                                        map (\<lambda>x. (fst x, JudgedApart (snd x))) shut)),
                           report\<lparr>sv_queued := sv_queued report + count Queue_Added,
                                  sv_requeued := sv_requeued report + count Queue_Refreshed,
                                  sv_reopened := sv_reopened report + count Queue_Reopened,
                                  sv_withdrawn := sv_withdrawn report + withdrawn,
                                  sv_distinct := sv_distinct report + (int (length shut) - withdrawn)\<rparr>),
                       j2))))"

text \<open>A failed lookup journals every deferral.\<close>

definition repeat_deferrals :: "sweep_env \<Rightarrow> judged_pair list \<Rightarrow> journal_db \<Rightarrow> (series_id \<times> series_id) list" where
  "repeat_deferrals env js j =
     (if en_down env Read_Deferrals j then []
      else pairs_already_deferred j (map jp_pair (filter (\<lambda>p. jp_action p = ActDeferred) js)))"

definition new_pass ::
  "sweep_env \<Rightarrow> thresholds \<Rightarrow> sweep_budget \<Rightarrow> nat \<Rightarrow> user_id option \<Rightarrow>
     (series_id \<times> series_id \<rightharpoonup> sweep_trigger) \<Rightarrow> journal_db \<Rightarrow> sweep_pass" where
  "new_pass env policy budget sweep_id actor triggers j =
     \<lparr>pa_env = env, pa_thresholds = policy, pa_budget = budget, pa_triggers = triggers,
      pa_ctx = \<lparr>jc_sweep_id = sweep_id, jc_actor = actor, jc_policy = en_policy env policy\<rparr>,
      pa_facts = en_facts env j, pa_similarity = en_similarity env j\<rparr>"

definition sweep_once ::
  "sweep_env \<Rightarrow> thresholds \<Rightarrow> sweep_budget \<Rightarrow> sweep_scope \<Rightarrow> nat \<Rightarrow> user_id option \<Rightarrow> journal_db \<Rightarrow>
     (merge_error, sweep_view \<times> (series_id \<times> series_id) list) result \<times> journal_db" where
  "sweep_once env policy budget scope sweep_id actor j =
     (case shortlist env budget scope j of
        Inl e \<Rightarrow> (Err e, j)
      | Inr (ps, triggers) \<Rightarrow>
          if ps = [] then (Ok (empty_view, []), j)
          else case bind_result (ask env Read_Facts j) (\<lambda>_. ask env Read_Similarities j) of
            Inl e \<Rightarrow> (Err e, j)
          | Inr _ \<Rightarrow>
           (let pa = new_pass env policy budget sweep_id actor triggers j
            in case judge pa ps empty_view j of
                 (Inl e, j1) \<Rightarrow> (Err e, j1)
               | (Inr judged, j1) \<Rightarrow>
                   (case flush_queue_writes env (fst judged) (snd judged) j1 of
                      (Inl e, j2) \<Rightarrow> (Err e, j2)
                    | (Inr writes, j2) \<Rightarrow>
                        (let payloads = journal_payloads (fst judged) (fst writes)
                                          (repeat_deferrals env (fst judged) j2)
                         in (Ok (snd writes, ps),
                             journal_rows env
                               (map (\<lambda>x. judged_decision env (pa_ctx pa) (snd x) None (fst x)) payloads) j2)))))"

section \<open>A sweep and the exhaustive run\<close>

definition max_passes :: nat where "max_passes = 3"

definition accumulate :: "sweep_view \<Rightarrow> sweep_view \<Rightarrow> sweep_view" where
  "accumulate so_far p =
     \<lparr>sv_pairs_examined = sv_pairs_examined so_far + sv_pairs_examined p,
      sv_auto_merged = sv_auto_merged so_far + sv_auto_merged p,
      sv_queued = sv_queued so_far + sv_queued p, sv_requeued = sv_requeued so_far + sv_requeued p,
      sv_reopened = sv_reopened so_far + sv_reopened p, sv_withdrawn = sv_withdrawn so_far + sv_withdrawn p,
      sv_distinct = sv_distinct so_far + sv_distinct p, sv_deferred = sv_deferred so_far + sv_deferred p,
      sv_blocked = sv_blocked so_far + sv_blocked p, sv_chains_deferred = sv_chains_deferred p\<rparr>"

text \<open>The passes that are left, the ceiling that is left, what the run has done and listed.\<close>

fun sweep_passes ::
  "nat \<Rightarrow> sweep_env \<Rightarrow> thresholds \<Rightarrow> sweep_budget \<Rightarrow> sweep_scope \<Rightarrow> (nat \<Rightarrow> nat) \<Rightarrow> user_id option \<Rightarrow>
     sweep_view \<Rightarrow> (series_id \<times> series_id) list \<Rightarrow> journal_db \<Rightarrow>
     (merge_error, sweep_view \<times> (series_id \<times> series_id) list) result \<times> journal_db" where
  "sweep_passes 0 env policy remaining scope ids actor so_far listed j = (Ok (so_far, listed), j)"
| "sweep_passes (Suc n) env policy remaining scope ids actor so_far listed j =
     (case sweep_once env policy remaining scope (ids n) actor j of
        (Inl e, j') \<Rightarrow> (Err e, j')
      | (Inr done_pass, j') \<Rightarrow>
          (let report = fst done_pass; so_far' = accumulate so_far report; listed' = listed @ snd done_pass;
               remaining' = remaining\<lparr>sb_max_auto_merges := sb_max_auto_merges remaining - sv_auto_merged report\<rparr>
           in if sv_chains_deferred report = 0 \<or> sb_max_auto_merges remaining' \<le> 0
              then (Ok (so_far', listed'), j')
              else sweep_passes n env policy remaining' scope ids actor so_far' listed' j'))"

definition sweep ::
  "sweep_env \<Rightarrow> thresholds \<Rightarrow> sweep_budget \<Rightarrow> sweep_scope \<Rightarrow> (nat \<Rightarrow> nat) \<Rightarrow> user_id option \<Rightarrow> journal_db \<Rightarrow>
     (merge_error, sweep_view \<times> (series_id \<times> series_id) list) result \<times> journal_db" where
  "sweep env policy budget scope ids actor j =
     sweep_passes max_passes env policy budget scope ids actor empty_view [] j"

definition exhaustive_budget :: "sweep_budget \<Rightarrow> sweep_budget" where
  "exhaustive_budget b = b\<lparr>sb_max_auto_merges := 2 ^ 63 - 1\<rparr>"

record round_loop =
  rl_seen :: "(series_id \<times> series_id) list"
  rl_rounds :: int

definition new_round_loop :: round_loop where
  "new_round_loop = \<lparr>rl_seen = [], rl_rounds = 0\<rparr>"

definition admit :: "(series_id \<times> series_id) list \<Rightarrow> round_loop \<Rightarrow> bool \<times> round_loop" where
  "admit listed r =
     (let fresh = filter (\<lambda>p. p \<notin> set (rl_seen r)) (remdups listed)
      in (fresh = [], \<lparr>rl_seen = rl_seen r @ fresh, rl_rounds = min (rl_rounds r + 1) (2 ^ 31 - 1)\<rparr>))"

definition counters :: "sweep_view \<Rightarrow> full_sweep_counters" where
  "counters v = \<lparr>fc_pairs_examined = sv_pairs_examined v, fc_auto_merged = sv_auto_merged v,
     fc_queued = sv_queued v, fc_requeued = sv_requeued v, fc_reopened = sv_reopened v,
     fc_withdrawn = sv_withdrawn v, fc_distinct = sv_distinct v, fc_deferred = sv_deferred v,
     fc_blocked = sv_blocked v\<rparr>"

text \<open>
  The rounds of the exhaustive run, on the tables and the progress row. Nothing bounds them in the
  code, so the recursion may be undefined: that it is not is a theorem. \<open>clock\<close> gives the time at
  which the progress after a round is stamped.
\<close>

partial_function (option) full_rounds ::
  "sweep_env \<Rightarrow> thresholds \<Rightarrow> sweep_budget \<Rightarrow> (int \<Rightarrow> nat \<Rightarrow> nat) \<Rightarrow> user_id option \<Rightarrow> nat \<Rightarrow> (int \<Rightarrow> int) \<Rightarrow>
     round_loop \<Rightarrow> sweep_view \<Rightarrow> journal_db \<Rightarrow> full_sweep_row \<Rightarrow>
     ((merge_error, unit) result \<times> journal_db \<times> full_sweep_row) option" where
  "full_rounds env policy budget ids actor claim clock r so_far j row =
     (case sweep env policy budget FullScope (ids (rl_rounds r)) actor j of
        (Inl e, j') \<Rightarrow> Some (Err e, j', row)
      | (Inr run, j') \<Rightarrow>
          (let so_far' = accumulate so_far (fst run); admitted = admit (snd run) r;
               row' = advance_full_sweep claim (rl_rounds (snd admitted)) (counters so_far')
                        (clock (rl_rounds (snd admitted))) row
           in if en_down env (Advance_Run (rl_rounds (snd admitted))) j' then Some (Err (SqlError NoAnswer), j', row)
              else if fst admitted then Some (Ok (), j', row')
              else full_rounds env policy budget ids actor claim clock (snd admitted) so_far' j' row'))"


section \<open>One judgement\<close>

lemma jd_decisions_journal [simp]: "jd_db (journal_rows env ds j) = jd_db j"
  by (auto simp: journal_rows_def record_merge_decisions_def split: sum.splits)

text \<open>
  A row the sweep writes for a merge: it names the absorbed series and carries the undo, whose copy of
  the deleted row is the row the series had.
\<close>

definition merge_row :: "(series_id \<rightharpoonup> series_row) \<Rightarrow> decision_row \<Rightarrow> bool" where
  "merge_row m r \<longleftrightarrow> nd_outcome r = ''merged'' \<and> nd_verdict r = ''auto'' \<and> nd_survivor_id r \<noteq> None \<and>
     (\<exists>u s. nd_undo r = Some u \<and> nd_absorbed_id r = Some s \<and> mu_absorbed_id u = s \<and>
        m s \<noteq> None \<and> mu_series u = m s)"

lemma journal_one:
  assumes "fst (nd_pair d) \<noteq> snd (nd_pair d)"
  shows "\<exists>rs. jd_decisions (journal_rows env [d] j) = jd_decisions j @ rs \<and>
    (rs = [] \<and> en_down env Write_Journal j \<or>
     (\<exists>r. rs = [r] \<and> nd_outcome r = nd_outcome d \<and> nd_undo r = nd_undo d \<and> nd_verdict r = nd_verdict d \<and>
        nd_survivor_id r = nd_survivor_id d \<and> nd_absorbed_id r = nd_absorbed_id d))"
  using assms
  by (simp add: journal_rows_def record_merge_decisions_def decision_row_def Let_def new_decision.defs
      decision_row.defs)

text \<open>The rows a merge of \<open>absorbed\<close> that left \<open>db\<close> puts into the journal: its row, or none when the insert
  got no answer.\<close>

definition merge_journalled ::
  "sweep_env \<Rightarrow> (series_id \<rightharpoonup> series_row) \<Rightarrow> series_id \<Rightarrow> merge_db \<Rightarrow> decision_row list \<Rightarrow> bool" where
  "merge_journalled env m absorbed db rs \<longleftrightarrow>
     rs = [] \<and> (\<exists>j. jd_db j = db \<and> en_down env Write_Journal j) \<or>
     (\<exists>r. rs = [r] \<and> merge_row m r \<and> nd_absorbed_id r = Some absorbed)"

datatype judge_event = Skipped | Noted judged_pair | Merged_away series_id series_id merge_undo judged_pair

text \<open>What one step of the judging loop did.\<close>

definition judge_event :: "sweep_pass \<Rightarrow> series_id \<times> series_id \<Rightarrow> judge_state \<Rightarrow> judge_event \<Rightarrow> judge_state \<Rightarrow> bool" where
  "judge_event pa p s ev s' \<longleftrightarrow>
     (case ev of
        Skipped \<Rightarrow>
          js_db s' = js_db s \<and> js_absorbed s' = js_absorbed s \<and> js_judged s' = js_judged s \<and>
          sv_auto_merged (js_report s') = sv_auto_merged (js_report s)
      | Noted e \<Rightarrow>
          s' = s\<lparr>js_judged := js_judged s @ [e]\<rparr> \<and> \<not> is_merged e \<and> jp_pair e = p \<and>
          pa_facts pa (fst p) = Some (jp_left e) \<and> pa_facts pa (snd p) = Some (jp_right e) \<and>
          fst p \<notin> set (js_absorbed s) \<and> snd p \<notin> set (js_absorbed s)
      | Merged_away keep absorbed u e \<Rightarrow>
          (\<exists>db rs. merge_series keep absorbed (jc_actor (pa_ctx pa)) ''auto_merged'' (jd_db (js_db s)) = (Ok u, db) \<and>
             jd_db (js_db s') = db \<and> jd_decisions (js_db s') = jd_decisions (js_db s) @ rs \<and>
             merge_journalled (pa_env pa) (md_series (jd_db (js_db s))) absorbed db rs) \<and>
          js_absorbed s' = absorbed # js_absorbed s \<and> js_judged s' = js_judged s @ [e] \<and> is_merged e \<and>
          jp_pair e = p \<and> sv_auto_merged (js_report s) < sb_max_auto_merges (pa_budget pa) \<and>
          sv_auto_merged (js_report s') = sv_auto_merged (js_report s) + 1 \<and>
          (\<exists>l r. pa_facts pa (fst p) = Some l \<and> pa_facts pa (snd p) = Some r \<and>
             {keep, absorbed} = {sf_series_id l, sf_series_id r}))"

lemma merge_in_pass_event:
  assumes "merge_in_pass pa keep absorbed e s = (Ok (), s')"
    and "jp_action e = ActMerged keep absorbed" "aj_verdict (jp_verdict e) = Auto" "jp_pair e = p"
    and "sv_auto_merged (js_report s) < sb_max_auto_merges (pa_budget pa)"
    and "pa_facts pa (fst p) = Some (jp_left e)" "pa_facts pa (snd p) = Some (jp_right e)"
    and "{keep, absorbed} = {jp_left e, jp_right e}"
  shows "\<exists>u. judge_event pa p s (Merged_away (sf_series_id keep) (sf_series_id absorbed) u e) s'"
proof -
  obtain u db where m: "merge_series (sf_series_id keep) (sf_series_id absorbed) (jc_actor (pa_ctx pa))
      ''auto_merged'' (jd_db (js_db s)) = (Ok u, db)"
    using assms(1) by (auto simp: merge_in_pass_def split: prod.splits sum.splits if_splits)
  let ?d = "judged_decision (pa_env pa) (pa_ctx pa) ''merged'' (Some u) e" and ?j = "(js_db s)\<lparr>jd_db := db\<rparr>"
  have ids: "{sf_series_id keep, sf_series_id absorbed} = {sf_series_id (jp_left e), sf_series_id (jp_right e)}"
    using assms(8) by (metis image_empty image_insert)
  have "fst (nd_pair ?d) \<noteq> snd (nd_pair ?d)"
    using merge_ok(1) [OF m] ids by (auto simp: judged_decision_def)
  from journal_one [OF this, of "pa_env pa" ?j]
  obtain rs where j: "jd_decisions (journal_rows (pa_env pa) [?d] ?j) = jd_decisions (js_db s) @ rs"
    and d: "rs = [] \<and> en_down (pa_env pa) Write_Journal ?j \<or>
      (\<exists>r. rs = [r] \<and> nd_outcome r = nd_outcome ?d \<and> nd_undo r = nd_undo ?d \<and> nd_verdict r = nd_verdict ?d \<and>
         nd_survivor_id r = nd_survivor_id ?d \<and> nd_absorbed_id r = nd_absorbed_id ?d)"
    by auto
  have row: "merge_row (md_series (jd_db (js_db s))) r \<and> nd_absorbed_id r = Some (sf_series_id absorbed)"
    if "nd_outcome r = nd_outcome ?d" "nd_undo r = nd_undo ?d" "nd_verdict r = nd_verdict ?d"
      "nd_survivor_id r = nd_survivor_id ?d" "nd_absorbed_id r = nd_absorbed_id ?d" for r
    using that assms(2,3) merge_ok(3) [OF m] merge_fields [OF m]
    by (auto simp: merge_row_def judged_decision_def merged_sides_def)
  have "\<exists>j. jd_db j = db \<and> en_down (pa_env pa) Write_Journal j" if "en_down (pa_env pa) Write_Journal ?j"
    using that by (intro exI [of _ ?j]) simp
  then have rs: "merge_journalled (pa_env pa) (md_series (jd_db (js_db s))) (sf_series_id absorbed) db rs"
    using d row unfolding merge_journalled_def by blast
  have "s' = s\<lparr>js_absorbed := sf_series_id absorbed # js_absorbed s,
      js_report := (js_report s)\<lparr>sv_auto_merged := sv_auto_merged (js_report s) + 1\<rparr>,
      js_db := journal_rows (pa_env pa) [?d] ?j, js_judged := js_judged s @ [e]\<rparr>"
    using assms(1) m by (simp add: merge_in_pass_def split: if_splits)
  then show ?thesis
    using m rs j assms ids by (auto simp: judge_event_def is_merged_def)
qed

lemma judge_one_event:
  assumes "judge_one pa p s = (Ok (), s')"
  shows "\<exists>ev. judge_event pa p s ev s'"
proof (cases "fst p \<in> set (js_absorbed s) \<or> snd p \<in> set (js_absorbed s)")
  case True
  then show ?thesis
    using assms by (intro exI [of _ Skipped]) (auto simp: judge_one_def judge_event_def)
next
  case fresh: False
  show ?thesis
  proof (cases "pa_facts pa (fst p) = None \<or> pa_facts pa (snd p) = None")
    case True
    then show ?thesis
      using assms fresh by (intro exI [of _ Skipped]) (auto simp: judge_one_def judge_event_def split: option.splits)
  next
    case False
    then obtain l r where lr: "pa_facts pa (fst p) = Some l" "pa_facts pa (snd p) = Some r" by auto
    define trigram where "trigram = (case pa_similarity pa p of None \<Rightarrow> 0 | Some t \<Rightarrow> t)"
    let ?j = "judge_pair (en_lower (pa_env pa)) (side l) (side r) trigram (pa_thresholds pa)
                (en_timing (pa_env pa) (js_db s) (sf_series_id l) (sf_series_id r))"
    show ?thesis
    proof (cases ?j)
      case None
      then show ?thesis
        using assms fresh lr
        by (intro exI [of _ Skipped]) (auto simp: judge_one_def judge_event_def Let_def trigram_def)
    next
      case (Some rd)
      let ?e = "judgement pa p l r trigram rd"
      have sides: "jp_left (?e x a) = l" "jp_right (?e x a) = r" "jp_pair (?e x a) = p"
        "jp_action (?e x a) = a" "jp_verdict (?e x a) = fst (snd rd)" for x a
        by (simp_all add: judgement_def)
      let ?keep = "if weight r \<le> weight l then l else r" and ?gone = "if weight r \<le> weight l then r else l"
      consider (merge) "aj_verdict (fst (snd rd)) = Auto" "sv_auto_merged (js_report s) < sb_max_auto_merges (pa_budget pa)"
          "merge_in_pass pa ?keep ?gone (?e None (ActMerged ?keep ?gone)) s = (Ok (), s')"
        | (note_pair) x a where "a \<in> {ActDeferred, ActReview, ActDistinct}" "s' = s\<lparr>js_judged := js_judged s @ [?e x a]\<rparr>"
        using assms fresh lr Some
        by (cases "aj_verdict (fst (snd rd))") (auto simp: judge_one_def Let_def trigram_def split: if_splits)
      then show ?thesis
      proof cases
        case merge
        have "{?keep, ?gone} = {l, r}" by auto
        then show ?thesis
          using merge_in_pass_event [OF merge(3), of p] merge(1,2) lr by (auto simp: sides)
      next
        case (note_pair x a)
        then show ?thesis
          using lr fresh by (intro exI [of _ "Noted (?e x a)"]) (auto simp: judge_event_def sides is_merged_def)
      qed
    qed
  qed
qed

text \<open>How a step fails: at a merge the tables refuse, or at a statement that gets no answer.\<close>

definition step_fails ::
  "sweep_env \<Rightarrow> sweep_stmt set \<Rightarrow> user_id option \<Rightarrow> merge_error \<Rightarrow> journal_db \<Rightarrow> bool" where
  "step_fails env qs actor e j \<longleftrightarrow>
     (\<exists>keep absorbed. fst (merge_series keep absorbed actor ''auto_merged'' (jd_db j)) = Err e) \<or>
     e = SqlError NoAnswer \<and> (\<exists>q\<in>qs. en_down env q j)"

lemma merge_in_pass_error:
  assumes "merge_in_pass pa keep absorbed x s = (Err e, s')"
  shows "s' = s \<and> step_fails (pa_env pa) {Merge_Pair} (jc_actor (pa_ctx pa)) e (js_db s)"
proof -
  consider "en_down (pa_env pa) Merge_Pair (js_db s)" "s' = s" "e = SqlError NoAnswer"
    | db where "merge_series (sf_series_id keep) (sf_series_id absorbed) (jc_actor (pa_ctx pa)) ''auto_merged''
        (jd_db (js_db s)) = (Err e, db)" "s' = s"
    using assms by (auto simp: merge_in_pass_def split: prod.splits sum.splits if_splits)
  then show ?thesis
  proof cases
    case (2 db)
    then show ?thesis unfolding step_fails_def by (metis fst_conv)
  qed (simp add: step_fails_def)
qed

lemma judge_one_error:
  assumes "judge_one pa p s = (Err e, s')"
  shows "s' = s \<and> step_fails (pa_env pa) {Read_Timing, Merge_Pair} (jc_actor (pa_ctx pa)) e (js_db s)"
proof -
  obtain l r where lr: "pa_facts pa (fst p) = Some l" "pa_facts pa (snd p) = Some r"
    using assms by (auto simp: judge_one_def split: if_splits option.splits)
  define trigram where "trigram = (case pa_similarity pa p of None \<Rightarrow> 0 | Some t \<Rightarrow> t)"
  let ?j = "judge_pair (en_lower (pa_env pa)) (side l) (side r) trigram (pa_thresholds pa)
              (en_timing (pa_env pa) (js_db s) (sf_series_id l) (sf_series_id r))"
  have fresh: "fst p \<notin> set (js_absorbed s)" "snd p \<notin> set (js_absorbed s)"
    using assms by (auto simp: judge_one_def split: if_splits)
  obtain rd where rd: "?j = Some rd"
    using assms fresh lr by (cases ?j) (auto simp: judge_one_def Let_def trigram_def)
  have "(\<exists>keep absorbed x. merge_in_pass pa keep absorbed x s = (Err e, s')) \<or>
      en_down (pa_env pa) Read_Timing (js_db s) \<and> s' = s \<and> e = SqlError NoAnswer"
    using assms fresh lr rd
    by (cases "aj_verdict (fst (snd rd))") (auto simp: judge_one_def Let_def trigram_def split: if_split_asm)
  then consider keep absorbed x where "merge_in_pass pa keep absorbed x s = (Err e, s')"
    | "en_down (pa_env pa) Read_Timing (js_db s)" "s' = s" "e = SqlError NoAnswer"
    by blast
  then show ?thesis
  proof cases
    case 1
    from merge_in_pass_error [OF this] show ?thesis by (auto simp: step_fails_def)
  qed (simp add: step_fails_def)
qed


section \<open>The ceiling of a run\<close>

definition absorbed_in :: "decision_row list \<Rightarrow> series_id set" where
  "absorbed_in rs = {s. \<exists>r\<in>set rs. nd_outcome r = ''merged'' \<and> nd_absorbed_id r = Some s}"

definition merge_count :: "decision_row list \<Rightarrow> int" where
  "merge_count rs = int (length (filter (\<lambda>r. nd_outcome r = ''merged'') rs))"

lemma absorbed_in_append [simp]: "absorbed_in (rs @ qs) = absorbed_in rs \<union> absorbed_in qs"
  by (auto simp: absorbed_in_def)

lemma merge_count_append [simp]: "merge_count (rs @ qs) = merge_count rs + merge_count qs"
  by (simp add: merge_count_def)

text \<open>
  What a stretch of a sweep did: it appended rows to the journal and took the series of a set away. Each
  merge row names one of these series and carries its undo; one without a row is a series whose insert
  into the journal got no answer.
\<close>

definition journalled ::
  "sweep_env \<Rightarrow> journal_db \<Rightarrow> journal_db \<Rightarrow> decision_row list \<Rightarrow> series_id set \<Rightarrow> bool" where
  "journalled env j j' rs gone \<longleftrightarrow>
     jd_decisions j' = jd_decisions j @ rs \<and> finite gone \<and> gone \<subseteq> dom (md_series (jd_db j)) \<and>
     md_series (jd_db j') = md_series (jd_db j) |` (- gone) \<and>
     absorbed_in rs \<subseteq> gone \<and> merge_count rs = int (card (absorbed_in rs)) \<and>
     (\<forall>r\<in>set rs. nd_outcome r = ''merged'' \<longrightarrow> merge_row (md_series (jd_db j)) r) \<and>
     (\<forall>s\<in>gone. s \<notin> absorbed_in rs \<longrightarrow> (\<exists>j1. md_series (jd_db j1) s = None \<and> en_down env Write_Journal j1))"

definition sweep_rows :: "sweep_env \<Rightarrow> journal_db \<Rightarrow> journal_db \<Rightarrow> int \<Rightarrow> bool" where
  "sweep_rows env j j' n \<longleftrightarrow> (\<exists>rs gone. journalled env j j' rs gone \<and> int (card gone) = n)"

lemma restrict_map_UNIV: "m |` UNIV = m"
  by (simp add: restrict_map_def)

lemma sweep_rows_same:
  "jd_decisions j' = jd_decisions j \<Longrightarrow> md_series (jd_db j') = md_series (jd_db j) \<Longrightarrow> sweep_rows env j j' 0"
  unfolding sweep_rows_def
  by (intro exI [of _ "[]"] exI [of _ "{}"]) (simp add: journalled_def merge_count_def absorbed_in_def restrict_map_UNIV)

lemma merge_row_restrict: "merge_row (m |` A) r \<Longrightarrow> merge_row m r"
  by (auto simp: merge_row_def restrict_map_def split: if_split_asm)

lemma sweep_rows_trans:
  assumes "sweep_rows env j j1 a" "sweep_rows env j1 j2 b"
  shows "sweep_rows env j j2 (a + b)"
proof -
  obtain rs gone where rs: "journalled env j j1 rs gone" "int (card gone) = a"
    using assms(1) by (auto simp: sweep_rows_def)
  obtain qs more where qs: "journalled env j1 j2 qs more" "int (card more) = b"
    using assms(2) by (auto simp: sweep_rows_def)
  have "more \<subseteq> dom (md_series (jd_db j)) - gone" using rs(1) qs(1) by (auto simp: journalled_def)
  then have apart: "gone \<inter> more = {}" by blast
  then have "absorbed_in rs \<inter> absorbed_in qs = {}" using rs(1) qs(1) by (auto simp: journalled_def)
  moreover have "finite (absorbed_in rs)" "finite (absorbed_in qs)"
    using rs(1) qs(1) finite_subset by (auto simp: journalled_def)
  ultimately have count: "int (card (absorbed_in rs \<union> absorbed_in qs)) = int (card (absorbed_in rs)) + int (card (absorbed_in qs))"
    by (simp add: card_Un_disjoint)
  have "journalled env j j2 (rs @ qs) (gone \<union> more)"
    unfolding journalled_def
  proof (intro conjI ballI impI)
    show "merge_row (md_series (jd_db j)) r" if "r \<in> set (rs @ qs)" "nd_outcome r = ''merged''" for r
      using that rs(1) qs(1) merge_row_restrict [of "md_series (jd_db j)" "- gone"] by (auto simp: journalled_def)
    show "\<exists>j1. md_series (jd_db j1) s = None \<and> en_down env Write_Journal j1"
      if "s \<in> gone \<union> more" "s \<notin> absorbed_in (rs @ qs)" for s
      using that rs(1) qs(1) unfolding journalled_def by auto
  qed (use rs(1) qs(1) count in \<open>auto simp: journalled_def Int_commute\<close>)
  moreover have "int (card (gone \<union> more)) = a + b"
    using apart rs qs by (simp add: card_Un_disjoint journalled_def)
  ultimately show ?thesis unfolding sweep_rows_def by blast
qed

lemma merged_rows:
  assumes "merge_series keep absorbed actor outcome (jd_db j) = (Ok u, jd_db j')"
    "jd_decisions j' = jd_decisions j @ rs" "merge_journalled env (md_series (jd_db j)) absorbed (jd_db j') rs"
  shows "sweep_rows env j j' 1"
proof -
  have s: "md_series (jd_db j') = md_series (jd_db j) |` (- {absorbed})" "md_series (jd_db j') absorbed = None"
    using merge_fields [OF assms(1)] by (simp_all add: restrict_complement_singleton_eq)
  have live: "{absorbed} \<subseteq> dom (md_series (jd_db j))" using merge_ok(3) [OF assms(1)] by auto
  have rows: "absorbed_in rs \<subseteq> {absorbed} \<and> merge_count rs = int (card (absorbed_in rs)) \<and>
      (\<forall>r\<in>set rs. merge_row (md_series (jd_db j)) r) \<and>
      (absorbed \<notin> absorbed_in rs \<longrightarrow> (\<exists>j1. md_series (jd_db j1) absorbed = None \<and> en_down env Write_Journal j1))"
  proof (cases "rs = []")
    case True
    then have "\<exists>j1. jd_db j1 = jd_db j' \<and> en_down env Write_Journal j1" using assms(3) by (simp add: merge_journalled_def)
    then have "\<exists>j1. md_series (jd_db j1) absorbed = None \<and> en_down env Write_Journal j1" using s(2) by metis
    then show ?thesis using True by (simp add: absorbed_in_def merge_count_def)
  next
    case False
    then obtain r where r: "rs = [r]" "merge_row (md_series (jd_db j)) r" "nd_absorbed_id r = Some absorbed"
      using assms(3) by (auto simp: merge_journalled_def)
    then have "nd_outcome r = ''merged''" by (simp add: merge_row_def)
    with r have "absorbed_in rs = {absorbed}" "merge_count rs = 1" by (auto simp: absorbed_in_def merge_count_def)
    then show ?thesis using r by simp
  qed
  have "journalled env j j' rs {absorbed}"
    unfolding journalled_def using assms(2) s(1) live rows by simp
  then show ?thesis unfolding sweep_rows_def by (intro exI [of _ rs] exI [of _ "{absorbed}"]) simp
qed

lemma judge_event_rows:
  assumes "judge_event pa p s ev s'"
  shows "sweep_rows (pa_env pa) (js_db s) (js_db s') (sv_auto_merged (js_report s') - sv_auto_merged (js_report s)) \<and>
    sv_auto_merged (js_report s') \<le> max (sv_auto_merged (js_report s)) (sb_max_auto_merges (pa_budget pa))"
proof (cases ev)
  case (Merged_away keep absorbed u e)
  then obtain rs where
    m: "merge_series keep absorbed (jc_actor (pa_ctx pa)) ''auto_merged'' (jd_db (js_db s)) = (Ok u, jd_db (js_db s'))"
      "jd_decisions (js_db s') = jd_decisions (js_db s) @ rs"
      "merge_journalled (pa_env pa) (md_series (jd_db (js_db s))) absorbed (jd_db (js_db s')) rs"
    using assms by (auto simp: judge_event_def)
  from merged_rows [OF this] show ?thesis using assms Merged_away by (simp add: judge_event_def)
qed (use assms in \<open>auto simp: judge_event_def intro: sweep_rows_same\<close>)

lemma judge_pairs_rows:
  assumes "judge_pairs pa ps s = (res, s')"
  shows "sweep_rows (pa_env pa) (js_db s) (js_db s') (sv_auto_merged (js_report s') - sv_auto_merged (js_report s)) \<and>
    sv_auto_merged (js_report s') \<le> max (sv_auto_merged (js_report s)) (sb_max_auto_merges (pa_budget pa))"
  using assms
proof (induction ps arbitrary: s)
  case (Cons p ps)
  obtain out s1 where one: "judge_one pa p s = (out, s1)" by fastforce
  show ?case
  proof (cases out)
    case (Inl e)
    then show ?thesis
      using Cons.prems one judge_one_error [of pa p s e s1] by (auto intro: sweep_rows_same)
  next
    case (Inr u)
    then obtain ev where "judge_event pa p s ev s1" using judge_one_event one by (metis unit.exhaust)
    note first = judge_event_rows [OF this]
    have "judge_pairs pa ps s1 = (res, s')" using Cons.prems one Inr by simp
    note rest = Cons.IH [OF this]
    show ?thesis using sweep_rows_trans first rest by fastforce
  qed
qed (auto intro: sweep_rows_same)

lemma judge_rows:
  assumes "judge pa ps report j = (res, j')"
  shows "\<exists>n. sweep_rows (pa_env pa) j j' n \<and> sv_auto_merged report + n \<le> max (sv_auto_merged report) (sb_max_auto_merges (pa_budget pa)) \<and>
    (\<forall>js v. res = Ok (js, v) \<longrightarrow> sv_auto_merged v = sv_auto_merged report + n)"
proof -
  obtain out s where "judge_pairs pa ps \<lparr>js_absorbed = [], js_judged = [], js_report = report, js_db = j\<rparr> = (out, s)"
    by fastforce
  with judge_pairs_rows [OF this] assms show ?thesis
    by (intro exI [of _ "sv_auto_merged (js_report s) - sv_auto_merged report"])
      (auto simp: judge_def count_judgements_def Let_def split: sum.splits)
qed

lemma queue_writes_series:
  "record_merge_candidates ns db = (res, db') \<Longrightarrow> md_series db' = md_series db"
  "record_distinct_pairs vs db = (res', db') \<Longrightarrow> md_series db' = md_series db"
  by (auto simp: record_merge_candidates_def record_distinct_pairs_def Let_def split: sum.splits)

lemma write_same:
  "write_reviews env ns j = (res, j') \<Longrightarrow> jd_decisions j' = jd_decisions j \<and> md_series (jd_db j') = md_series (jd_db j)"
  "write_distinct env vs j = (res', j') \<Longrightarrow> jd_decisions j' = jd_decisions j \<and> md_series (jd_db j') = md_series (jd_db j)"
  by (auto simp: write_reviews_def write_distinct_def queue_writes_series split: if_splits prod.splits)

lemma flush_rows:
  assumes "flush_queue_writes env js report j = (res, j')"
  shows "jd_decisions j' = jd_decisions j" "md_series (jd_db j') = md_series (jd_db j)"
    and "\<forall>w v. res = Ok (w, v) \<longrightarrow> sv_auto_merged v = sv_auto_merged report"
  using assms
  by (auto simp: flush_queue_writes_def Let_def dest!: write_same split: prod.splits sum.splits)

lemma decision_row_outcome: "decision_row now i d = Ok r \<Longrightarrow> nd_outcome r = nd_outcome d"
  by (auto simp: decision_row_def Let_def new_decision.defs decision_row.defs split: if_splits)

lemma decision_rows_outcomes: "decision_rows now i ds = Ok rs \<Longrightarrow> map nd_outcome rs = map nd_outcome ds"
  by (induction ds arbitrary: i rs) (auto simp: bind_result_ok_iff decision_row_outcome)

lemma journal_outcome_late: "journal_outcome writes p = Some out \<Longrightarrow> out \<noteq> ''merged''"
proof (cases "jp_action p")
  case ActReview
  moreover assume "journal_outcome writes p = Some out"
  ultimately show ?thesis
    by (cases "writes (jp_pair p)" rule: option.exhaust)
      (auto simp: journal_outcome_def split: queue_write.split_asm queue_outcome.split_asm if_split_asm)
next
  case ActDistinct
  moreover assume "journal_outcome writes p = Some out"
  ultimately show ?thesis
    by (cases "writes (jp_pair p)")
      (auto simp: journal_outcome_def split: queue_write.split_asm bool.split_asm)
qed (auto simp: journal_outcome_def)

lemma payload_outcomes: "x \<in> set (journal_payloads js writes repeats) \<Longrightarrow> snd x \<noteq> ''merged''"
  using journal_outcome_late
  by (fastforce simp: journal_payloads_def split: option.split_asm)

lemma late_rows:
  assumes "\<forall>d\<in>set ds. nd_outcome d \<noteq> ''merged''"
  shows "sweep_rows env j (journal_rows env ds j) 0"
proof -
  obtain rs where rs: "jd_decisions (journal_rows env ds j) = jd_decisions j @ rs"
    "rs = [] \<or> decision_rows (md_now (jd_db j)) (fresh_decision_id (jd_decisions j)) ds = Ok rs"
  proof (cases "ds = [] \<or> en_down env Write_Journal j")
    case True
    then show thesis
      using that [of "[]"] by (auto simp: journal_rows_def record_merge_decisions_def split: sum.splits)
  next
    case False
    then show thesis
      using that by (cases "decision_rows (md_now (jd_db j)) (fresh_decision_id (jd_decisions j)) ds")
        (auto simp: journal_rows_def record_merge_decisions_def)
  qed
  have "nd_outcome ` set rs \<subseteq> nd_outcome ` set ds"
    using rs(2)
  proof
    assume "decision_rows (md_now (jd_db j)) (fresh_decision_id (jd_decisions j)) ds = Ok rs"
    from arg_cong [OF decision_rows_outcomes [OF this], of set] show ?thesis by simp
  qed simp
  then have "\<forall>r\<in>set rs. nd_outcome r \<noteq> ''merged''" using assms by (metis imageE imageI subsetD)
  then have "journalled env j (journal_rows env ds j) rs {}"
    using rs(1) by (auto simp: journalled_def absorbed_in_def merge_count_def restrict_map_UNIV)
  then show ?thesis unfolding sweep_rows_def by (intro exI [of _ rs] exI [of _ "{}"]) simp
qed

text \<open>What is left of a pass once its shortlist and its reads have been answered.\<close>

lemma sweep_once_cases:
  assumes "sweep_once env policy budget scope i actor j = (res, j')"
  obtains e q where "res = Err e" "j' = j" "e = SqlError NoAnswer"
      "q \<in> {Find_Pairs, Open_Pairs, Distinct_Pairs, Read_Facts, Read_Similarities}" "en_down env q j"
  | triggers where "shortlist env budget scope j = Ok ([], triggers)" "res = Ok (empty_view, [])" "j' = j"
  | ps triggers e where "shortlist env budget scope j = Ok (ps, triggers)"
      "judge (new_pass env policy budget i actor triggers j) ps empty_view j = (Err e, j')" "res = Err e"
  | ps triggers judged j1 e where "shortlist env budget scope j = Ok (ps, triggers)"
      "judge (new_pass env policy budget i actor triggers j) ps empty_view j = (Ok judged, j1)"
      "flush_queue_writes env (fst judged) (snd judged) j1 = (Err e, j')" "res = Err e"
  | ps triggers judged j1 writes j2 where "shortlist env budget scope j = Ok (ps, triggers)"
      "judge (new_pass env policy budget i actor triggers j) ps empty_view j = (Ok judged, j1)"
      "flush_queue_writes env (fst judged) (snd judged) j1 = (Ok writes, j2)" "res = Ok (snd writes, ps)"
      "j' = journal_rows env (map (\<lambda>x. judged_decision env (pa_ctx (new_pass env policy budget i actor triggers j))
              (snd x) None (fst x)) (journal_payloads (fst judged) (fst writes) (repeat_deferrals env (fst judged) j2))) j2"
proof -
  consider e where "shortlist env budget scope j = Err e" | ps triggers where "shortlist env budget scope j = Ok (ps, triggers)"
    by (metis old.prod.exhaust old.sum.exhaust)
  then show thesis
  proof cases
    case (1 e)
    then obtain q where "q \<in> {Find_Pairs, Open_Pairs, Distinct_Pairs}" "en_down env q j" "e = SqlError NoAnswer"
      by (auto simp: shortlist_def ask_def bind_result_def Let_def split: sum.splits if_splits)
    then show thesis using that(1) [of e q] assms 1 by (auto simp: sweep_once_def)
  next
    case (2 ps triggers)
    note listed = 2
    show thesis
    proof (cases "ps = [] \<or> en_down env Read_Facts j \<or> en_down env Read_Similarities j")
      case True
      then have out: "(res, j') = (if ps = [] then (Ok (empty_view, []), j) else (Err (SqlError NoAnswer), j))"
        using assms 2 by (simp add: sweep_once_def ask_def split: if_split_asm)
      show thesis
      proof (cases "ps = []")
        case True
        then show thesis using that(2) [of triggers] out listed by simp
      next
        case False
        then have "en_down env Read_Facts j \<or> en_down env Read_Similarities j" using True by simp
        then show thesis using that(1) [of "SqlError NoAnswer"] out False by fastforce
      qed
    next
      case False
      let ?pa = "new_pass env policy budget i actor triggers j"
      obtain out j1 where jd: "judge ?pa ps empty_view j = (out, j1)" by fastforce
      show thesis
      proof (cases out)
        case (Inl e)
        then show thesis using assms listed False jd that(3) [of ps triggers e] by (simp add: sweep_once_def ask_def Let_def)
      next
        case (Inr judged)
        obtain w j2 where fl: "flush_queue_writes env (fst judged) (snd judged) j1 = (w, j2)" by fastforce
        show thesis
        proof (cases w)
          case (Inl e)
          then show thesis
            using assms listed False jd Inr fl that(4) [of ps triggers judged j1 e] by (simp add: sweep_once_def ask_def Let_def)
        next
          case (Inr writes)
          then show thesis
            using assms listed False jd \<open>out = Inr judged\<close> fl that(5) [of ps triggers judged j1 writes j2]
            by (simp add: sweep_once_def ask_def Let_def)
        qed
      qed
    qed
  qed
qed

lemma sweep_once_rows:
  assumes "sweep_once env policy budget scope i actor j = (res, j')"
  shows "\<exists>n. sweep_rows env j j' n \<and> n \<le> max 0 (sb_max_auto_merges budget) \<and>
    (\<forall>v l. res = Ok (v, l) \<longrightarrow> sv_auto_merged v = n)"
proof -
  have judged: "\<exists>n. sweep_rows env j j1 n \<and> n \<le> max 0 (sb_max_auto_merges budget) \<and>
      (\<forall>js v. out = Ok (js, v) \<longrightarrow> sv_auto_merged v = n)"
    if "judge (new_pass env policy budget i actor triggers j) ps empty_view j = (out, j1)" for ps triggers out j1
    using judge_rows [OF that] by (auto simp: empty_view_def new_pass_def)
  from assms show ?thesis
  proof (cases rule: sweep_once_cases)
    case (3 ps triggers e)
    then show ?thesis using judged [OF 3(2)] by auto
  next
    case (4 ps triggers judged j1 e)
    obtain n where n: "sweep_rows env j j1 n" "n \<le> max 0 (sb_max_auto_merges budget)" using judged [OF 4(2)] by blast
    have "sweep_rows env j j' n" using n(1) flush_rows(1,2) [OF 4(3)] by (simp only: sweep_rows_def journalled_def)
    with n 4(4) show ?thesis by auto
  next
    case (5 ps triggers judged j1 writes j2)
    obtain n where n: "sweep_rows env j j1 n" "n \<le> max 0 (sb_max_auto_merges budget)" "sv_auto_merged (snd judged) = n"
      using judged [OF 5(2)] by (metis prod.collapse)
    note same = flush_rows [OF 5(3)]
    have two: "sweep_rows env j j2 n" using n(1) same(1,2) by (simp only: sweep_rows_def journalled_def)
    have "sweep_rows env j2 j' 0"
      unfolding 5(5) by (rule late_rows) (auto simp: judged_decision_def dest: payload_outcomes)
    from sweep_rows_trans [OF two this] show ?thesis
      using n same(3) 5(4) by (intro exI [of _ n]) (cases writes; auto)
  qed (auto intro!: exI [of _ 0] sweep_rows_same simp: empty_view_def)
qed

lemma sweep_passes_rows:
  assumes "sweep_passes k env policy remaining scope ids actor so_far listed j = (res, j')"
  shows "\<exists>n. sweep_rows env j j' n \<and> n \<le> max 0 (sb_max_auto_merges remaining) \<and>
    (\<forall>v l. res = Ok (v, l) \<longrightarrow> sv_auto_merged v = sv_auto_merged so_far + n)"
  using assms
proof (induction k arbitrary: remaining so_far listed j)
  case 0
  then show ?case by (auto intro!: exI [of _ 0] sweep_rows_same)
next
  case (Suc k)
  obtain out j1 where one: "sweep_once env policy remaining scope (ids k) actor j = (out, j1)" by fastforce
  obtain n where n: "sweep_rows env j j1 n" "n \<le> max 0 (sb_max_auto_merges remaining)"
      "\<forall>v l. out = Ok (v, l) \<longrightarrow> sv_auto_merged v = n"
    using sweep_once_rows [OF one] by blast
  show ?case
  proof (cases out)
    case (Inl e)
    then show ?thesis using Suc.prems one n by auto
  next
    case (Inr pass)
    obtain v l where vl: "pass = (v, l)" by (cases pass)
    let ?left = "remaining\<lparr>sb_max_auto_merges := sb_max_auto_merges remaining - n\<rparr>"
    have v: "sv_auto_merged v = n" using n(3) Inr vl by simp
    show ?thesis
    proof (cases "sv_chains_deferred v = 0 \<or> sb_max_auto_merges ?left \<le> 0")
      case True
      then show ?thesis
        using Suc.prems one n Inr vl v by (intro exI [of _ n]) (auto simp: Let_def accumulate_def)
    next
      case False
      then have "sweep_passes k env policy ?left scope ids actor (accumulate so_far v) (listed @ l) j1 = (res, j')"
        using Suc.prems one Inr vl v by (auto simp: Let_def)
      from Suc.IH [OF this] obtain m where m: "sweep_rows env j1 j' m" "m \<le> max 0 (sb_max_auto_merges ?left)"
          "\<forall>w q. res = Ok (w, q) \<longrightarrow> sv_auto_merged w = sv_auto_merged (accumulate so_far v) + m"
        by blast
      show ?thesis
        using sweep_rows_trans [OF n(1) m(1)] m(2,3) v False
        by (intro exI [of _ "n + m"]) (auto simp: accumulate_def)
    qed
  qed
qed


text \<open>C11: a sweep stays under its ceiling, and what it deletes it journals as far as the journal answers.
  Whatever it returns, also when a statement fails half way, the series table has lost a set of series of
  at most the ceiling the sweep was given, across all its passes, and a sweep that returns reports their
  number. Every merge row it wrote was judged an automatic merge, names one of these series and carries
  the deleted row in its undo, one row per series; and a series without such a row is one whose insert
  into the journal got no answer after it was gone (\<open>unjournalled_merge\<close>: then nothing can be undone).
  So with a journal that answers, the rows name exactly the series that are gone.
\<close>

theorem sweep_within_ceiling:
  "\<exists>rs gone. jd_decisions (snd (sweep env policy budget scope ids actor j)) = jd_decisions j @ rs \<and>
     gone \<subseteq> dom (md_series (jd_db j)) \<and>
     md_series (jd_db (snd (sweep env policy budget scope ids actor j))) = md_series (jd_db j) |` (- gone) \<and>
     int (card gone) \<le> max 0 (sb_max_auto_merges budget) \<and>
     (\<forall>v l. fst (sweep env policy budget scope ids actor j) = Ok (v, l) \<longrightarrow> sv_auto_merged v = int (card gone)) \<and>
     (\<forall>r\<in>set rs. nd_outcome r = ''merged'' \<longrightarrow> merge_row (md_series (jd_db j)) r) \<and>
     absorbed_in rs \<subseteq> gone \<and> merge_count rs = int (card (absorbed_in rs)) \<and>
     (\<forall>s\<in>gone. s \<notin> absorbed_in rs \<longrightarrow> (\<exists>j1. md_series (jd_db j1) s = None \<and> en_down env Write_Journal j1))"
proof -
  obtain res j' where s: "sweep_passes max_passes env policy budget scope ids actor empty_view [] j = (res, j')"
    by fastforce
  from sweep_passes_rows [OF this] obtain rs gone where g: "journalled env j j' rs gone"
      "int (card gone) \<le> max 0 (sb_max_auto_merges budget)"
      "\<forall>v l. res = Ok (v, l) \<longrightarrow> sv_auto_merged v = int (card gone)"
    by (auto simp: sweep_rows_def empty_view_def)
  show ?thesis
    unfolding sweep_def s fst_conv snd_conv
    using g unfolding journalled_def by (intro exI [of _ rs] exI [of _ gone]) blast
qed

definition plain_facts :: "series_id \<Rightarrow> utext \<Rightarrow> series_facts" where
  "plain_facts i t =
     \<lparr>sf_series_id = i, sf_canonical_title = t, sf_normalized_title = t, sf_alt_normalized_titles = [],
      sf_source_titles = [], sf_anilist_id = None, sf_content_type = content_type.Unknown,
      sf_release_year = None, sf_tags = [], sf_authors = [], sf_source_count = 1, sf_chapter_count = 1,
      sf_watcher_count = 0\<rparr>"

definition plain_env :: sweep_env where
  "plain_env =
     \<lparr>en_down = (\<lambda>_ _. False), en_lower = id, en_facts = (\<lambda>j s. if md_series (jd_db j) s = None then None else Some (plain_facts s (lit ''a b''))),
      en_similarity = (\<lambda>_ _. None), en_timing = (\<lambda>_ _ _. \<lparr>lt_shared_live_chapters = 0, lt_median_gap_hours = None\<rparr>),
      en_pick = (\<lambda>j n. if md_series (jd_db j) 3 = None \<or> md_series (jd_db j) 4 = None then [] else take n [(3, 4)]),
      en_terms = (\<lambda>_. ''{}''), en_evidence = (\<lambda>_ _ _ _ _ _. ''{}''),
      en_policy = (\<lambda>_. ''{}'')\<rparr>"

definition plain_journal :: journal_db where
  "plain_journal = \<lparr>jd_db = two_series, jd_decisions = [], jd_source_title = Map.empty, jd_chapter_source = Map.empty\<rparr>"

definition plain_budget :: "int \<Rightarrow> sweep_budget" where
  "plain_budget n = \<lparr>sb_pairs = 10, sb_requeue = 10, sb_recheck = 10, sb_max_auto_merges = n\<rparr>"

lemma plain_judged:
  "\<exists>rd. judge_pair id (side (plain_facts 3 (lit ''a b''))) (side (plain_facts 4 (lit ''a b''))) 0 default_thresholds
     \<lparr>lt_shared_live_chapters = 0, lt_median_gap_hours = None\<rparr> = Some rd \<and> aj_verdict (fst (snd rd)) = Auto"
proof -
  have s: "side (plain_facts i (lit ''a b'')) = plain_side i (lit ''a b'')" for i
    by (simp add: side_def plain_facts_def plain_side_def)
  have "lit ''a b'' \<noteq> []" "compact_key (lit ''a b'') \<noteq> []" by (simp_all add: text_eval)
  from own_reading [OF this, of id 3 4] obtain rd
    where rd: "read_pair id (plain_side 3 (lit ''a b'')) (plain_side 4 (lit ''a b'')) 0 = Some rd"
      "pr_assessment rd = \<lparr>as_score = 1, as_signals = own_signals (lit ''a b'')\<rparr>" by blast
  let ?v = "adjudicate (pr_assessment rd) default_thresholds"
  have le: "f32 0.97 \<le> 1" "f32 0.6 \<le> 1" by code_simp+
  have v: "aj_verdict ?v = Auto"
    using le by (simp add: adjudicate_auto_iff rd)
      (simp add: own_signals_def no_signals_def is_primary_identity_def default_thresholds_def
        default_guards_def blocking_def)
  have "judge_pair id (plain_side 3 (lit ''a b'')) (plain_side 4 (lit ''a b'')) 0 default_thresholds
      \<lparr>lt_shared_live_chapters = 0, lt_median_gap_hours = None\<rparr> = Some (rd, ?v, None)"
    using v by (simp add: judge_pair_def adjudicate_pair_def rd wants_live_timing_def)
      (simp add: own_signals_def no_signals_def)
  then show ?thesis unfolding s using v by auto
qed

lemma plain_merge: "\<exists>u db. merge_series 3 4 None ''auto_merged'' two_series = (Ok u, db)"
  by (rule merge_succeeds) (simp_all add: two_series_def blocks_of_def)

lemma plain_shortlist:
  "shortlist (plain_env\<lparr>en_down := down\<rparr>) (plain_budget n) FullScope plain_journal =
     (if down Find_Pairs plain_journal \<or> down Open_Pairs plain_journal \<or> down Distinct_Pairs plain_journal
      then Err (SqlError NoAnswer) else Ok ([(3, 4)], [(3, 4) \<mapsto> TriggerNew]))"
proof -
  obtain a b where "md_series two_series 3 = Some a" "md_series two_series 4 = Some b" "md_candidates two_series = []"
    by (simp add: two_series_def)
  then show ?thesis
    by (simp add: shortlist_def shortlist_entries_def plain_env_def plain_journal_def plain_budget_def ask_def
        open_merge_pairs_def distinct_merge_pairs_def sorted_by_update_def)
qed

lemma plain_answers: "plain_env\<lparr>en_down := \<lambda>_ _. False\<rparr> = plain_env" "\<not> en_down plain_env q j"
  by (simp_all add: plain_env_def)

lemma plain_judge:
  assumes "0 < n"
  shows "\<exists>e v j'. judge (new_pass plain_env default_thresholds (plain_budget n) i None trig plain_journal) [(3, 4)]
      empty_view plain_journal = (Ok ([e], v), j') \<and> is_merged e \<and> sv_auto_merged v = 1 \<and> sv_chains_deferred v = 0"
proof -
  define pa where "pa = new_pass plain_env default_thresholds (plain_budget n) i None trig plain_journal"
  define s where "s = \<lparr>js_absorbed = [], js_judged = [], js_report = empty_view, js_db = plain_journal\<rparr>"
  obtain rd where rd: "judge_pair id (side (plain_facts 3 (lit ''a b''))) (side (plain_facts 4 (lit ''a b''))) 0
      default_thresholds \<lparr>lt_shared_live_chapters = 0, lt_median_gap_hours = None\<rparr> = Some rd"
      "aj_verdict (fst (snd rd)) = Auto"
    using plain_judged by blast
  obtain u db where m: "merge_series 3 4 None ''auto_merged'' two_series = (Ok u, db)"
    using plain_merge by blast
  have live: "md_series two_series 3 \<noteq> None" "md_series two_series 4 \<noteq> None"
    by (simp_all add: two_series_def)
  have facts: "pa_facts pa 3 = Some (plain_facts 3 (lit ''a b''))" "pa_facts pa 4 = Some (plain_facts 4 (lit ''a b''))"
    "pa_similarity pa p = None" "pa_thresholds pa = default_thresholds" "pa_env pa = plain_env"
    "jc_actor (pa_ctx pa) = None" "sb_max_auto_merges (pa_budget pa) = n" for p
    using live by (simp_all add: pa_def new_pass_def plain_env_def plain_journal_def plain_budget_def)
  have env: "en_lower plain_env = id"
    "en_timing plain_env j x y = \<lparr>lt_shared_live_chapters = 0, lt_median_gap_hours = None\<rparr>" for j x y
    by (simp_all add: plain_env_def)
  have ids: "sf_series_id (plain_facts k t) = k" "weight (plain_facts k t) = (1, 1, 0)" for k t
    by (simp_all add: plain_facts_def weight_def)
  have start: "js_absorbed s = []" "jd_db (js_db s) = two_series" "sv_auto_merged (js_report s) = 0"
    "sv_chains_deferred (js_report s) = 0" "js_judged s = []"
    by (simp_all add: s_def plain_journal_def empty_view_def)
  have "\<exists>e s'. judge_one pa (3, 4) s = (Ok (), s') \<and> js_judged s' = [e] \<and> is_merged e \<and>
      js_absorbed s' = [4] \<and> sv_auto_merged (js_report s') = 1 \<and> sv_chains_deferred (js_report s') = 0"
    using assms rd m
    by (simp add: judge_one_def merge_in_pass_def facts env ids start Let_def judgement_def is_merged_def plain_answers)
  then obtain e s' where one: "judge_one pa (3, 4) s = (Ok (), s')" "js_judged s' = [e]" "is_merged e"
      "js_absorbed s' = [4]" "sv_auto_merged (js_report s') = 1" "sv_chains_deferred (js_report s') = 0"
    by blast
  then have "judge_pairs pa [(3, 4)] s = (Ok (), s')" by simp
  with one show ?thesis
    unfolding pa_def [symmetric] by (simp add: judge_def s_def [symmetric] retract_absorbed_def stale_def count_judgements_def Let_def)
qed

lemma max_passes_Suc: "max_passes = Suc 2"
  by (simp add: max_passes_def)

lemma plain_listed:
  "shortlist plain_env (plain_budget n) FullScope plain_journal = Ok ([(3, 4)], [(3, 4) \<mapsto> TriggerNew])"
  using plain_shortlist [of "\<lambda>_ _. False" n] by (simp add: plain_answers)

lemma plain_sweep:
  assumes "0 < n"
  shows "\<exists>v l. fst (sweep plain_env default_thresholds (plain_budget n) FullScope id None plain_journal) = Ok (v, l) \<and>
    sv_auto_merged v = 1"
proof -
  obtain e v j' where j: "judge (new_pass plain_env default_thresholds (plain_budget n) (id 2) None
      [(3, 4) \<mapsto> TriggerNew] plain_journal) [(3, 4)] empty_view plain_journal = (Ok ([e], v), j')"
      and v: "is_merged e" "sv_auto_merged v = 1" "sv_chains_deferred v = 0"
    using plain_judge [OF assms] by blast
  have flush: "flush_queue_writes plain_env [e] v j' = (Ok (Map.empty, v), j')"
    using v(1) by (cases "jp_action e")
      (simp_all add: flush_queue_writes_def write_reviews_def write_distinct_def is_merged_def
        record_merge_candidates_def record_distinct_pairs_def)
  have "\<exists>j2. sweep_once plain_env default_thresholds (plain_budget n) FullScope (id 2) None plain_journal =
      (Ok (v, [(3, 4)]), j2)"
    by (simp add: sweep_once_def plain_listed plain_answers ask_def Let_def j [simplified] flush)
  then obtain j2 where "sweep_once plain_env default_thresholds (plain_budget n) FullScope (id 2) None plain_journal =
      (Ok (v, [(3, 4)]), j2)" by blast
  then show ?thesis
    unfolding sweep_def max_passes_Suc sweep_passes.simps(2)
    using v by (simp add: Let_def accumulate_def empty_view_def)
qed

theorem sweep_within_ceiling_witness:
  "\<exists>rs gone. jd_decisions (snd (sweep plain_env default_thresholds (plain_budget 1) FullScope id None plain_journal)) = rs \<and>
     md_series (jd_db (snd (sweep plain_env default_thresholds (plain_budget 1) FullScope id None plain_journal))) =
       md_series two_series |` (- gone) \<and> card gone = 1 \<and> absorbed_in rs = gone \<and>
     (\<forall>r\<in>set rs. nd_outcome r = ''merged'' \<longrightarrow> merge_row (md_series two_series) r) \<and> merge_count rs = 1"
proof -
  have j: "jd_decisions plain_journal = []" "jd_db plain_journal = two_series"
    by (simp_all add: plain_journal_def)
  obtain v l where v: "fst (sweep plain_env default_thresholds (plain_budget 1) FullScope id None plain_journal) = Ok (v, l)"
      "sv_auto_merged v = 1"
    using plain_sweep [of 1] by auto
  obtain rs gone where "jd_decisions (snd (sweep plain_env default_thresholds (plain_budget 1) FullScope id None plain_journal)) = rs"
      "md_series (jd_db (snd (sweep plain_env default_thresholds (plain_budget 1) FullScope id None plain_journal))) =
       md_series two_series |` (- gone)"
      "\<forall>v l. fst (sweep plain_env default_thresholds (plain_budget 1) FullScope id None plain_journal) = Ok (v, l) \<longrightarrow>
         sv_auto_merged v = int (card gone)"
      "\<forall>r\<in>set rs. nd_outcome r = ''merged'' \<longrightarrow> merge_row (md_series two_series) r"
      "absorbed_in rs \<subseteq> gone" "merge_count rs = int (card (absorbed_in rs))" "\<forall>s\<in>gone. s \<in> absorbed_in rs"
    using sweep_within_ceiling [of plain_env default_thresholds "plain_budget 1" FullScope id None plain_journal]
    unfolding j by (auto simp: plain_answers)
  moreover from this(3) v have "card gone = 1" by simp
  moreover have "absorbed_in rs = gone" using calculation by blast
  ultimately show ?thesis by (intro exI [of _ rs] exI [of _ gone]) simp
qed

text \<open>
  The journal is best effort: when the insert gets no answer, the merge it was for stands, no row keeps
  its undo and the pass goes on. The series is gone for good.
\<close>

definition mute_journal :: "sweep_stmt \<Rightarrow> journal_db \<Rightarrow> bool" where
  "mute_journal q j \<longleftrightarrow> q = Write_Journal"

lemma unjournalled_merge:
  "\<exists>e s'. judge_one (new_pass (plain_env\<lparr>en_down := mute_journal\<rparr>) default_thresholds (plain_budget 1) i None trig plain_journal)
      (3, 4) \<lparr>js_absorbed = [], js_judged = [], js_report = empty_view, js_db = plain_journal\<rparr> = (Ok (), s') \<and>
     js_judged s' = [e] \<and> is_merged e \<and> md_series (jd_db (js_db s')) 4 = None \<and> jd_decisions (js_db s') = []"
proof -
  let ?env = "plain_env\<lparr>en_down := mute_journal\<rparr>"
  define s where "s = \<lparr>js_absorbed = [], js_judged = [], js_report = empty_view, js_db = plain_journal\<rparr>"
  define pa where "pa = new_pass ?env default_thresholds (plain_budget 1) i None trig plain_journal"
  obtain rd where rd: "judge_pair id (side (plain_facts 3 (lit ''a b''))) (side (plain_facts 4 (lit ''a b''))) 0
      default_thresholds \<lparr>lt_shared_live_chapters = 0, lt_median_gap_hours = None\<rparr> = Some rd"
      "aj_verdict (fst (snd rd)) = Auto"
    using plain_judged by blast
  obtain u db where m: "merge_series 3 4 None ''auto_merged'' two_series = (Ok u, db)"
    using plain_merge by blast
  have live: "md_series two_series 3 \<noteq> None" "md_series two_series 4 \<noteq> None"
    by (simp_all add: two_series_def)
  have facts: "pa_facts pa 3 = Some (plain_facts 3 (lit ''a b''))" "pa_facts pa 4 = Some (plain_facts 4 (lit ''a b''))"
    "pa_similarity pa p = None" "pa_thresholds pa = default_thresholds" "pa_env pa = ?env"
    "jc_actor (pa_ctx pa) = None" "sb_max_auto_merges (pa_budget pa) = 1" for p
    using live by (simp_all add: pa_def new_pass_def plain_env_def plain_journal_def plain_budget_def)
  have env: "en_lower plain_env = id" "en_down ?env = mute_journal"
    "en_timing plain_env j x y = \<lparr>lt_shared_live_chapters = 0, lt_median_gap_hours = None\<rparr>" for j x y
    by (simp_all add: plain_env_def)
  have ids: "sf_series_id (plain_facts k t) = k" "weight (plain_facts k t) = (1, 1, 0)" for k t
    by (simp_all add: plain_facts_def weight_def)
  have gone: "md_series db 4 = None" using merge_fields [OF m] by simp
  have start: "js_absorbed s = []" "js_db s = plain_journal" "sv_auto_merged (js_report s) = 0" "js_judged s = []"
    "jd_db plain_journal = two_series" "jd_decisions plain_journal = []"
    by (simp_all add: s_def plain_journal_def empty_view_def)
  have lost: "journal_rows ?env [d] j = j" for d j
    by (simp add: journal_rows_def record_merge_decisions_def env mute_journal_def split: sum.split)
  have up: "\<not> mute_journal Read_Timing j" "\<not> mute_journal Merge_Pair j" for j by (simp_all add: mute_journal_def)
  show ?thesis
    unfolding pa_def [symmetric] s_def [symmetric]
    using rd m gone
    by (simp add: judge_one_def merge_in_pass_def facts env ids start Let_def judgement_def is_merged_def lost up)
qed


section \<open>The exhaustive run returns\<close>

text \<open>Every live series is in \<open>U\<close>, and so is every series a queue row names.\<close>

definition within_set :: "series_id set \<Rightarrow> merge_db \<Rightarrow> bool" where
  "within_set U db \<longleftrightarrow> dom (md_series db) \<subseteq> U \<and>
     (\<forall>c\<in>set (md_candidates db). mc_series_id c \<in> U \<and> mc_candidate_id c \<in> U)"

lemma canonical_pair_in: "fst p \<in> U \<Longrightarrow> snd p \<in> U \<Longrightarrow> fst (canonical_pair p) \<in> U \<and> snd (canonical_pair p) \<in> U"
  by (simp add: canonical_pair_def min_def max_def)

lemma upsert_row_ids:
  assumes "c \<in> set (upsert_row w f row cs)" "\<And>x. mc_series_id (f x) = mc_series_id x \<and> mc_candidate_id (f x) = mc_candidate_id x"
  shows "row_pair c = row_pair row \<or> row_pair c \<in> row_pair ` set cs"
  using assms by (fastforce simp: upsert_row_def row_pair_def split: if_split_asm)

lemma upsert_within:
  assumes "\<forall>c\<in>set cs. mc_series_id c \<in> U \<and> mc_candidate_id c \<in> U" "mc_series_id row \<in> U" "mc_candidate_id row \<in> U"
    and "\<And>x. mc_series_id (f x) = mc_series_id x \<and> mc_candidate_id (f x) = mc_candidate_id x"
  shows "\<forall>c\<in>set (upsert_row w f row cs). mc_series_id c \<in> U \<and> mc_candidate_id c \<in> U"
  using assms by (auto simp: upsert_row_def)

lemma fold_within:
  assumes "\<forall>c\<in>set cs. P c" "\<And>n cs. n \<in> set ns \<Longrightarrow> \<forall>c\<in>set cs. P c \<Longrightarrow> \<forall>c\<in>set (f n cs). P c"
  shows "\<forall>c\<in>set (fold f ns cs). P c"
  using assms
proof (induction ns arbitrary: cs)
  case (Cons n ns)
  have "\<forall>c\<in>set (f n cs). P c" by (rule Cons.prems(2)) (use Cons.prems(1) in auto)
  then have "\<forall>c\<in>set (fold f ns (f n cs)). P c" by (rule Cons.IH) (rule Cons.prems(2), auto)
  then show ?case by simp
qed simp

lemma live_pair_in: "within_set U db \<Longrightarrow> live_pair db p \<Longrightarrow> fst (canonical_pair p) \<in> U \<and> snd (canonical_pair p) \<in> U"
  by (rule canonical_pair_in) (auto simp: within_set_def live_pair_def)

lemma queue_writes_within:
  "record_merge_candidates ns db = (res, db') \<Longrightarrow> within_set U db \<Longrightarrow> within_set U db'"
  "record_distinct_pairs vs db = (res', db') \<Longrightarrow> within_set U db \<Longrightarrow> within_set U db'"
proof -
  assume r: "record_merge_candidates ns db = (res, db')" and w: "within_set U db"
  have "\<forall>c\<in>set (fold (upsert_candidate (md_now db)) (filter (\<lambda>n. live_pair db (nc_pair n)) ns) (md_candidates db)).
      mc_series_id c \<in> U \<and> mc_candidate_id c \<in> U"
    unfolding upsert_candidate_def
    by (intro fold_within upsert_within)
      (use w in \<open>auto simp: within_set_def open_row_def reopen_row_def dest: live_pair_in [OF w]\<close>)
  with r w show "within_set U db'"
    by (auto simp: record_merge_candidates_def Let_def within_set_def split: sum.splits)
next
  assume r: "record_distinct_pairs vs db = (res', db')" and w: "within_set U db"
  have "\<forall>c\<in>set (fold (upsert_distinct (md_now db)) (filter (\<lambda>v. live_pair db (dv_pair v)) vs) (md_candidates db)).
      mc_series_id c \<in> U \<and> mc_candidate_id c \<in> U"
    unfolding upsert_distinct_def
    by (intro fold_within upsert_within)
      (use w in \<open>auto simp: within_set_def distinct_row_def close_row_def dest: live_pair_in [OF w]\<close>)
  with r w show "within_set U db'"
    by (auto simp: record_distinct_pairs_def Let_def within_set_def split: sum.splits)
qed

lemma merge_within:
  assumes "merge_series keep absorbed actor outcome db = (Ok u, db')" "within_set U db"
  shows "within_set U db'"
  using merge_fields [OF assms(1)] assms(2) by (auto simp: within_set_def)

lemma judge_pairs_within:
  assumes "judge_pairs pa ps s = (res, s')" "within_set U (jd_db (js_db s))"
  shows "within_set U (jd_db (js_db s'))"
  using assms
proof (induction ps arbitrary: s)
  case (Cons p ps)
  obtain out s1 where one: "judge_one pa p s = (out, s1)" by fastforce
  show ?case
  proof (cases out)
    case (Inl e)
    then show ?thesis using Cons.prems one judge_one_error [of pa p s e s1] by auto
  next
    case (Inr u)
    then obtain ev where "judge_event pa p s ev s1" using judge_one_event one by (metis unit.exhaust)
    then have "within_set U (jd_db (js_db s1))"
      using Cons.prems(2) by (cases ev) (auto simp: judge_event_def intro: merge_within)
    moreover have "judge_pairs pa ps s1 = (res, s')" using Cons.prems one Inr by simp
    ultimately show ?thesis by (rule Cons.IH [rotated])
  qed
qed auto

lemma judge_within:
  assumes "judge pa ps report j = (res, j')" "within_set U (jd_db j)"
  shows "within_set U (jd_db j')"
proof -
  obtain out s where p: "judge_pairs pa ps \<lparr>js_absorbed = [], js_judged = [], js_report = report, js_db = j\<rparr> = (out, s)"
    by fastforce
  have "js_db s = j'" using assms(1) p by (auto simp: judge_def Let_def split: sum.splits)
  then show ?thesis using judge_pairs_within [OF p] assms(2) by simp
qed

lemma write_within:
  "write_reviews env ns j = (res, j') \<Longrightarrow> within_set U (jd_db j) \<Longrightarrow> within_set U (jd_db j')"
  "write_distinct env vs j = (res', j') \<Longrightarrow> within_set U (jd_db j) \<Longrightarrow> within_set U (jd_db j')"
  by (auto simp: write_reviews_def write_distinct_def split: if_splits prod.splits dest: queue_writes_within)

lemma flush_within:
  assumes "flush_queue_writes env js report j = (res, j')" "within_set U (jd_db j)"
  shows "within_set U (jd_db j')"
  using assms by (auto simp: flush_queue_writes_def Let_def split: prod.splits sum.splits dest: write_within)

text \<open>What the statement that finds pairs reads: series that exist.\<close>

definition picks_live :: "sweep_env \<Rightarrow> bool" where
  "picks_live env \<longleftrightarrow> (\<forall>j n. \<forall>p\<in>set (en_pick env j n). live_pair (jd_db j) p)"

lemma shortlist_ok:
  assumes "shortlist env budget scope j = Ok (ps, triggers)"
  shows "distinct ps" "set ps = fst ` set (shortlist_entries env budget scope j)"
proof -
  have "ps = sort (remdups (map fst (shortlist_entries env budget scope j)))"
    using assms by (auto simp: shortlist_def bind_result_ok_iff Let_def)
  then show "distinct ps" "set ps = fst ` set (shortlist_entries env budget scope j)" by simp_all
qed

lemma shortlist_within:
  assumes "within_set U (jd_db j)" "picks_live env" "shortlist env budget scope j = Ok (ps, triggers)"
  shows "set ps \<subseteq> U \<times> U"
proof -
  have rows: "row_pair ` set (md_candidates (jd_db j)) \<subseteq> U \<times> U"
    using assms(1) by (auto simp: within_set_def row_pair_def)
  moreover have "set (open_merge_pairs (jd_db j) n) \<subseteq> row_pair ` set (md_candidates (jd_db j))"
    "set (distinct_merge_pairs (jd_db j) n) \<subseteq> row_pair ` set (md_candidates (jd_db j))" for n
    by (auto simp: open_merge_pairs_def distinct_merge_pairs_def sorted_by_update_def dest!: in_set_takeD)
  moreover have "fst p \<in> U \<and> snd p \<in> U" if "p \<in> set (en_pick env j n)" for p n
    using assms that unfolding picks_live_def live_pair_def within_set_def by blast
  then have "set (en_pick env j n) \<subseteq> U \<times> U" for n by (fastforce simp: mem_Times_iff)
  moreover have "set ps \<subseteq> set (en_pick env j (sb_pairs budget)) \<union>
      set (open_merge_pairs (jd_db j) (sb_requeue budget)) \<union> set (distinct_merge_pairs (jd_db j) (sb_recheck budget))"
    unfolding shortlist_ok(2) [OF assms(3)] by (auto simp: shortlist_entries_def)
  ultimately show ?thesis by (meson Un_least order_trans)
qed

lemma sweep_once_within:
  assumes "sweep_once env policy budget scope i actor j = (res, j')" "within_set U (jd_db j)" "picks_live env"
  shows "within_set U (jd_db j')" "res = Ok (v, l) \<Longrightarrow> set l \<subseteq> U \<times> U"
proof -
  note short = shortlist_within [OF assms(2,3), of budget scope]
  from assms(1) have "within_set U (jd_db j') \<and> (\<forall>v l. res = Ok (v, l) \<longrightarrow> set l \<subseteq> U \<times> U)"
  proof (cases rule: sweep_once_cases)
    case (3 ps triggers e)
    then show ?thesis using judge_within [OF 3(2) assms(2)] by simp
  next
    case (4 ps triggers judged j1 e)
    then show ?thesis using flush_within [OF 4(3) judge_within [OF 4(2) assms(2)]] by simp
  next
    case (5 ps triggers judged j1 writes j2)
    then show ?thesis using flush_within [OF 5(3) judge_within [OF 5(2) assms(2)]] short [OF 5(1)] by simp
  qed (use assms(2) in auto)
  then show "within_set U (jd_db j')" "res = Ok (v, l) \<Longrightarrow> set l \<subseteq> U \<times> U" by auto
qed

lemma sweep_passes_within:
  assumes "sweep_passes k env policy remaining scope ids actor so_far listed j = (res, j')"
    and "within_set U (jd_db j)" "picks_live env" "set listed \<subseteq> U \<times> U"
  shows "within_set U (jd_db j') \<and> (\<forall>v l. res = Ok (v, l) \<longrightarrow> set l \<subseteq> U \<times> U)"
  using assms
proof (induction k arbitrary: remaining so_far listed j)
  case (Suc k)
  obtain out j1 where one: "sweep_once env policy remaining scope (ids k) actor j = (out, j1)" by fastforce
  note in1 = sweep_once_within [OF one Suc.prems(2,3)]
  show ?case
  proof (cases out)
    case (Inl e)
    then show ?thesis using Suc.prems one in1 by auto
  next
    case (Inr pass)
    have l: "set (listed @ snd pass) \<subseteq> U \<times> U" using in1(2) [of "fst pass" "snd pass"] Inr Suc.prems(4) by simp
    let ?left = "remaining\<lparr>sb_max_auto_merges := sb_max_auto_merges remaining - sv_auto_merged (fst pass)\<rparr>"
    show ?thesis
    proof (cases "sv_chains_deferred (fst pass) = 0 \<or> sb_max_auto_merges ?left \<le> 0")
      case True
      then have "j' = j1" "res = Ok (accumulate so_far (fst pass), listed @ snd pass)"
        using Suc.prems(1) one Inr by (auto simp: Let_def)
      then show ?thesis using in1(1) l by simp
    next
      case False
      then have "sweep_passes k env policy ?left scope ids actor (accumulate so_far (fst pass)) (listed @ snd pass) j1 =
          (res, j')"
        using Suc.prems(1) one Inr by (auto simp: Let_def)
      from Suc.IH [OF this in1(1) Suc.prems(3) l] show ?thesis .
    qed
  qed
qed auto

text \<open>
  Nothing in the code bounds the rounds, but each round that goes on has listed a pair it had not seen,
  every pair names series that were live or queued at the start, and a merge never brings one back.
\<close>

text \<open>The row while a run holds it: claimed, not stopped, its heartbeat one of the times it was stamped.\<close>

definition held :: "nat \<Rightarrow> int set \<Rightarrow> full_sweep_row \<Rightarrow> bool" where
  "held claim stamps row \<longleftrightarrow>
     fs_running row \<and> fs_claim_id row = Some claim \<and> fs_stopped row = None \<and> fs_error row = None \<and>
     fs_heartbeat_at row \<in> Some ` stamps"

lemma held_advance: "held claim stamps row \<Longrightarrow> t \<in> stamps \<Longrightarrow> held claim stamps (advance_full_sweep claim n c t row)"
  by (simp add: held_def advance_full_sweep_def)

lemma full_rounds_return:
  assumes "finite (dom (md_series (jd_db j)))" "picks_live env" "range clock \<subseteq> stamps" "held claim stamps row"
  shows "\<exists>res j' row'. full_rounds env policy budget ids actor claim clock r so_far j row = Some (res, j', row') \<and>
    held claim stamps row'"
proof -
  define U where "U = dom (md_series (jd_db j)) \<union>
    (\<Union>c\<in>set (md_candidates (jd_db j)). {mc_series_id c, mc_candidate_id c})"
  have fin: "finite U" using assms(1) by (simp add: U_def)
  have "within_set U (jd_db j)" by (auto simp: within_set_def U_def)
  then show ?thesis using assms(4)
  proof (induction "card (U \<times> U - set (rl_seen r))" arbitrary: r so_far j row rule: less_induct)
    case less
    obtain res j' where sw: "sweep env policy budget FullScope (ids (rl_rounds r)) actor j = (res, j')" by fastforce
    have inv: "within_set U (jd_db j')" "res = Ok (v, l) \<Longrightarrow> set l \<subseteq> U \<times> U" for v l
      using sweep_passes_within [OF sw [unfolded sweep_def] less.prems(1) assms(2)] by auto
    show ?case
    proof (cases res)
      case (Inl e)
      then show ?thesis using less.prems(2) by (subst full_rounds.simps) (simp add: sw)
    next
      case (Inr run)
      let ?fresh = "filter (\<lambda>p. p \<notin> set (rl_seen r)) (remdups (snd run))"
      let ?r = "snd (admit (snd run) r)" and ?so_far = "accumulate so_far (fst run)"
      let ?row = "advance_full_sweep claim (rl_rounds ?r) (counters ?so_far) (clock (rl_rounds ?r)) row"
      have h: "held claim stamps ?row" using less.prems(2) assms(3) by (intro held_advance) auto
      have step: "full_rounds env policy budget ids actor claim clock r so_far j row =
          (if en_down env (Advance_Run (rl_rounds ?r)) j' then Some (Err (SqlError NoAnswer), j', row)
           else if ?fresh = [] then Some (Ok (), j', ?row)
           else full_rounds env policy budget ids actor claim clock ?r ?so_far j' ?row)"
        by (subst full_rounds.simps) (simp add: sw Inr admit_def Let_def)
      show ?thesis
      proof (cases "en_down env (Advance_Run (rl_rounds ?r)) j' \<or> ?fresh = []")
        case True
        then show ?thesis unfolding step using h less.prems(2) by auto
      next
        case False
        then obtain p where p: "p \<in> set (snd run)" "p \<notin> set (rl_seen r)" by (auto simp: filter_empty_conv)
        then have "p \<in> U \<times> U" using inv(2) [of "fst run" "snd run"] Inr by auto
        then have "U \<times> U - set (rl_seen ?r) \<subset> U \<times> U - set (rl_seen r)"
          using p by (auto simp: admit_def Let_def)
        then have "card (U \<times> U - set (rl_seen ?r)) < card (U \<times> U - set (rl_seen r))"
          using fin by (intro psubset_card_mono) auto
        from less.hyps [OF this inv(1) h, of ?so_far] show ?thesis unfolding step using False by simp
      qed
    qed
  qed
qed


section \<open>A pass fails only with the database\<close>

lemma check_batch_ok:
  assumes "distinct ps" "\<forall>p\<in>set ps. fst p < snd p" "set ps \<inter> set seen = {}"
  shows "check_batch self twice seen ps = Ok ()"
  using assms
proof (induction ps arbitrary: seen)
  case (Cons p ps)
  have "canonical_pair p = p" using Cons.prems(2) by (cases p) (simp add: canonical_pair_def)
  then show ?case using Cons by (auto simp: Cons.IH)
qed simp

text \<open>What the judging loop has when it ends: each pair at most once, and the series table less the absorbed.\<close>

lemma judge_pairs_judged:
  assumes "judge_pairs pa ps s = (Ok (), s')" "distinct ps"
    and "md_series (jd_db (js_db s)) = m |` (- set (js_absorbed s))"
  shows "\<exists>es. js_judged s' = js_judged s @ es \<and> distinct (map jp_pair es) \<and> jp_pair ` set es \<subseteq> set ps \<and>
      (\<forall>e\<in>set es. pa_facts pa (fst (jp_pair e)) \<noteq> None \<and> pa_facts pa (snd (jp_pair e)) \<noteq> None) \<and>
      md_series (jd_db (js_db s')) = m |` (- set (js_absorbed s'))"
  using assms
proof (induction ps arbitrary: s)
  case Nil
  then show ?case by (intro exI [of _ "[]"]) auto
next
  case (Cons p ps)
  obtain s1 where one: "judge_one pa p s = (Ok (), s1)" and rest: "judge_pairs pa ps s1 = (Ok (), s')"
    using Cons.prems(1) by (cases "judge_one pa p s") (auto split: sum.splits)
  obtain ev where ev: "judge_event pa p s ev s1" using judge_one_event [OF one] by blast
  obtain es1 where es1: "js_judged s1 = js_judged s @ es1" "es1 = [] \<or> (\<exists>e. es1 = [e] \<and> jp_pair e = p)"
      "\<forall>e\<in>set es1. pa_facts pa (fst p) \<noteq> None \<and> pa_facts pa (snd p) \<noteq> None"
    using ev by (cases ev) (auto simp: judge_event_def)
  have m: "md_series (jd_db (js_db s1)) = m |` (- set (js_absorbed s1))"
  proof (cases ev)
    case (Merged_away keep absorbed u e)
    then obtain db where "merge_series keep absorbed (jc_actor (pa_ctx pa)) ''auto_merged'' (jd_db (js_db s)) = (Ok u, db)"
        "jd_db (js_db s1) = db" "js_absorbed s1 = absorbed # js_absorbed s"
      using ev by (auto simp: judge_event_def)
    then show ?thesis
      using merge_fields Cons.prems(3) by (auto simp: restrict_map_def fun_eq_iff)
  qed (use ev Cons.prems(3) in \<open>auto simp: judge_event_def\<close>)
  obtain es where "js_judged s' = js_judged s1 @ es" "distinct (map jp_pair es)" "jp_pair ` set es \<subseteq> set ps"
      "\<forall>e\<in>set es. pa_facts pa (fst (jp_pair e)) \<noteq> None \<and> pa_facts pa (snd (jp_pair e)) \<noteq> None"
      "md_series (jd_db (js_db s')) = m |` (- set (js_absorbed s'))"
    using Cons.IH [OF rest _ m] Cons.prems(2) by auto
  then show ?case
    using es1 Cons.prems(2) by (intro exI [of _ "es1 @ es"]) auto
qed

lemma judge_pairs_error:
  "judge_pairs pa ps s = (Err e, s') \<Longrightarrow>
     step_fails (pa_env pa) {Read_Timing, Merge_Pair} (jc_actor (pa_ctx pa)) e (js_db s')"
  by (induction ps arbitrary: s) (auto split: prod.splits sum.splits dest!: judge_one_error)

lemma judge_kept:
  assumes "judge pa ps report j = (Ok (js, v), j')" "distinct ps"
    and "\<And>s. pa_facts pa s \<noteq> None \<Longrightarrow> md_series (jd_db j) s \<noteq> None"
  shows "distinct (map jp_pair js) \<and> jp_pair ` set js \<subseteq> set ps \<and>
    (\<forall>p\<in>set js. \<not> is_merged p \<longrightarrow> live_pair (jd_db j') (jp_pair p))"
proof -
  obtain s where p: "judge_pairs pa ps \<lparr>js_absorbed = [], js_judged = [], js_report = report, js_db = j\<rparr> = (Ok (), s)"
      "js = filter (\<lambda>p. \<not> stale (js_absorbed s) p) (js_judged s)" "j' = js_db s"
    using assms(1) by (auto simp: judge_def retract_absorbed_def Let_def split: prod.splits sum.splits)
  from judge_pairs_judged [OF p(1) assms(2), of "md_series (jd_db j)"]
  have es: "distinct (map jp_pair (js_judged s))" "jp_pair ` set (js_judged s) \<subseteq> set ps"
      "\<forall>e\<in>set (js_judged s). pa_facts pa (fst (jp_pair e)) \<noteq> None \<and> pa_facts pa (snd (jp_pair e)) \<noteq> None"
      "md_series (jd_db j') = md_series (jd_db j) |` (- set (js_absorbed s))"
    using p(3) by (auto simp: restrict_map_UNIV)
  have "live_pair (jd_db j') (jp_pair q)" if "q \<in> set js" "\<not> is_merged q" for q
    using that es(3,4) assms(3) by (auto simp: p(2) stale_def live_pair_def restrict_map_def)
  then show ?thesis using es(1,2) p(2) by (auto simp: distinct_map_filter)
qed

lemma flush_fails:
  assumes "distinct (map jp_pair js)" "\<forall>p\<in>set js. fst (jp_pair p) < snd (jp_pair p)"
    and "flush_queue_writes env js report j = (Err e, j')"
  shows "e = SqlError NoAnswer \<and> (en_down env Write_Reviews j' \<or> en_down env Write_Distinct j')"
proof -
  have ok: "check_batch self twice [] (map jp_pair (filter P js)) = Ok ()" for self twice P
    using assms(1,2) by (intro check_batch_ok) (auto simp: distinct_map_filter)
  show ?thesis
    using assms(3)
    by (auto simp: flush_queue_writes_def write_reviews_def write_distinct_def record_merge_candidates_def
        record_distinct_pairs_def Let_def comp_def ok split: if_splits prod.splits)
qed

text \<open>The statements a pass cannot do without; the journal and the lookup of repeated deferrals are not
  among them.\<close>

definition pass_stmts :: "sweep_stmt set" where
  "pass_stmts = {Find_Pairs, Open_Pairs, Distinct_Pairs, Read_Facts, Read_Similarities, Read_Timing, Merge_Pair,
     Write_Reviews, Write_Distinct}"

lemma step_fails_mono: "step_fails env qs actor e j \<Longrightarrow> qs \<subseteq> qs' \<Longrightarrow> step_fails env qs' actor e j"
  by (auto simp: step_fails_def)

lemma listed_ordered:
  assumes "\<forall>c\<in>set (md_candidates (jd_db j)). mc_series_id c < mc_candidate_id c"
    and "\<forall>p\<in>set (en_pick env j (sb_pairs budget)). fst p < snd p"
    and "shortlist env budget scope j = Ok (ps, triggers)"
  shows "\<forall>p\<in>set ps. fst p < snd p"
proof
  fix p
  assume "p \<in> set ps"
  have rows: "\<forall>p \<in> row_pair ` set (md_candidates (jd_db j)). fst p < snd p"
    using assms(1) by (auto simp: row_pair_def)
  have sub: "set (open_merge_pairs (jd_db j) n) \<subseteq> row_pair ` set (md_candidates (jd_db j))"
    "set (distinct_merge_pairs (jd_db j) n) \<subseteq> row_pair ` set (md_candidates (jd_db j))" for n
    by (auto simp: open_merge_pairs_def distinct_merge_pairs_def sorted_by_update_def dest!: in_set_takeD)
  have "p \<in> set (en_pick env j (sb_pairs budget)) \<or> p \<in> set (open_merge_pairs (jd_db j) (sb_requeue budget)) \<or>
      p \<in> set (distinct_merge_pairs (jd_db j) (sb_recheck budget))"
    using \<open>p \<in> set ps\<close> unfolding shortlist_ok(2) [OF assms(3)] by (auto simp: shortlist_entries_def split: if_splits)
  then show "fst p < snd p"
    using assms(2) by (elim disjE) (simp, use rows sub in \<open>meson subsetD\<close>, use rows sub in \<open>meson subsetD\<close>)
qed

text \<open>C17: a pass fails only with the database, never on its own bookkeeping. If pairs are ordered, as the
  queue and the statement that finds them have them, and facts are read for series that exist, then every
  verdict left after the merges of the pass, apart from the merges, names two series that still exist, so
  its row can be written; and when the pass fails it is because a merge was refused on the tables it leaves
  behind, or because a statement other than the journal's and the lookup of repeated deferrals got no
  answer on them. In particular no batch of verdicts is refused for its rows.
\<close>

theorem pass_fails_with_database:
  assumes ordered: "\<forall>c\<in>set (md_candidates (jd_db j)). mc_series_id c < mc_candidate_id c"
    and pick: "\<forall>p\<in>set (en_pick env j (sb_pairs budget)). fst p < snd p"
    and facts: "\<forall>s. en_facts env j s \<noteq> None \<longrightarrow> md_series (jd_db j) s \<noteq> None"
  shows "(\<forall>ps triggers js v j1. shortlist env budget scope j = Ok (ps, triggers) \<longrightarrow>
            judge (new_pass env policy budget i actor triggers j) ps empty_view j = (Ok (js, v), j1) \<longrightarrow>
            (\<forall>p\<in>set js. \<not> is_merged p \<longrightarrow> live_pair (jd_db j1) (jp_pair p))) \<and>
    (\<forall>e j'. sweep_once env policy budget scope i actor j = (Err e, j') \<longrightarrow>
       step_fails env pass_stmts actor e j')"
proof -
  have f: "pa_facts (new_pass env policy budget i actor triggers j) s \<noteq> None \<Longrightarrow> md_series (jd_db j) s \<noteq> None"
    for triggers s
    using facts by (simp add: new_pass_def)
  have kept: "distinct (map jp_pair js) \<and> jp_pair ` set js \<subseteq> set ps \<and>
      (\<forall>p\<in>set js. \<not> is_merged p \<longrightarrow> live_pair (jd_db j1) (jp_pair p))"
    if "shortlist env budget scope j = Ok (ps, triggers)"
      "judge (new_pass env policy budget i actor triggers j) ps empty_view j = (Ok (js, v), j1)" for ps triggers js v j1
    using judge_kept [OF that(2) shortlist_ok(1) [OF that(1)] f] .
  have "step_fails env pass_stmts actor e j'"
    if fail: "sweep_once env policy budget scope i actor j = (Err e, j')" for e j'
    using fail
  proof (cases rule: sweep_once_cases)
    case (1 e' q)
    then show ?thesis by (auto simp: step_fails_def pass_stmts_def)
  next
    case (3 ps triggers e')
    then obtain s where "judge_pairs (new_pass env policy budget i actor triggers j) ps
        \<lparr>js_absorbed = [], js_judged = [], js_report = empty_view, js_db = j\<rparr> = (Err e, s)" "j' = js_db s"
      by (auto simp: judge_def Let_def split: prod.splits sum.splits)
    from judge_pairs_error [OF this(1)] this(2) have "step_fails env {Read_Timing, Merge_Pair} actor e j'"
      by (simp add: new_pass_def)
    then show ?thesis by (rule step_fails_mono) (simp add: pass_stmts_def)
  next
    case (4 ps triggers judged j1 e')
    have k: "distinct (map jp_pair (fst judged))" "jp_pair ` set (fst judged) \<subseteq> set ps"
      using kept [OF 4(1), of "fst judged" "snd judged" j1] 4(2) by auto
    then have "\<forall>p\<in>set (fst judged). fst (jp_pair p) < snd (jp_pair p)"
      using listed_ordered [OF ordered pick 4(1)] by blast
    from flush_fails [OF k(1) this] 4(3,4) show ?thesis by (auto simp: step_fails_def pass_stmts_def)
  qed auto
  then show ?thesis using kept by blast
qed


text \<open>Two copies of a work that carry a match block for one tracker entry: the pass stops there.\<close>

definition clash_journal :: journal_db where
  "clash_journal = plain_journal\<lparr>jd_db := two_series\<lparr>md_blocks :=
     [((''u'', ''anilist'', 3), ''9''), ((''u'', ''anilist'', 4), ''9'')]\<rparr>\<rparr>"

lemma clash_merge:
  "\<exists>e. merge_series 3 4 None ''auto_merged'' (jd_db clash_journal) = (Err e, jd_db clash_journal)"
proof -
  obtain out db where m: "merge_series 3 4 None ''auto_merged'' (jd_db clash_journal) = (out, db)" by fastforce
  show ?thesis
  proof (cases out)
    case (Inl e)
    then show ?thesis using m merge_refused(2) [of 3 4 None "''auto_merged''" "jd_db clash_journal" e] by simp
  next
    case (Inr u)
    from merge_ok(4) [OF m [unfolded Inr]] show ?thesis
      by (simp add: clash_journal_def blocks_of_def block_series_def block_key_def)
  qed
qed

lemma clash_shortlist:
  "shortlist plain_env (plain_budget n) FullScope clash_journal = Ok ([(3, 4)], [(3, 4) \<mapsto> TriggerNew])"
proof -
  obtain a b where "md_series two_series 3 = Some a" "md_series two_series 4 = Some b" "md_candidates two_series = []"
    by (simp add: two_series_def)
  then show ?thesis
    by (simp add: shortlist_def shortlist_entries_def plain_env_def clash_journal_def plain_budget_def ask_def
        open_merge_pairs_def distinct_merge_pairs_def sorted_by_update_def)
qed

lemma clash_judge:
  "\<exists>e. judge (new_pass plain_env default_thresholds (plain_budget 1) i None trig clash_journal) [(3, 4)]
      empty_view clash_journal = (Err e, clash_journal)"
proof -
  define pa where "pa = new_pass plain_env default_thresholds (plain_budget 1) i None trig clash_journal"
  define s where "s = \<lparr>js_absorbed = [], js_judged = [], js_report = empty_view, js_db = clash_journal\<rparr>"
  obtain rd where rd: "judge_pair id (side (plain_facts 3 (lit ''a b''))) (side (plain_facts 4 (lit ''a b''))) 0
      default_thresholds \<lparr>lt_shared_live_chapters = 0, lt_median_gap_hours = None\<rparr> = Some rd"
      "aj_verdict (fst (snd rd)) = Auto"
    using plain_judged by blast
  obtain e where m: "merge_series 3 4 None ''auto_merged'' (jd_db clash_journal) = (Err e, jd_db clash_journal)"
    using clash_merge by blast
  have live: "md_series two_series 3 \<noteq> None" "md_series two_series 4 \<noteq> None"
    by (simp_all add: two_series_def)
  have facts: "pa_facts pa 3 = Some (plain_facts 3 (lit ''a b''))" "pa_facts pa 4 = Some (plain_facts 4 (lit ''a b''))"
    "pa_similarity pa p = None" "pa_thresholds pa = default_thresholds" "pa_env pa = plain_env"
    "jc_actor (pa_ctx pa) = None" "sb_max_auto_merges (pa_budget pa) = 1" for p
    using live by (simp_all add: pa_def new_pass_def plain_env_def clash_journal_def plain_budget_def)
  have env: "en_lower plain_env = id"
    "en_timing plain_env j x y = \<lparr>lt_shared_live_chapters = 0, lt_median_gap_hours = None\<rparr>" for j x y
    by (simp_all add: plain_env_def)
  have ids: "sf_series_id (plain_facts k t) = k" "weight (plain_facts k t) = (1, 1, 0)" for k t
    by (simp_all add: plain_facts_def weight_def)
  have start: "js_absorbed s = []" "js_db s = clash_journal" "sv_auto_merged (js_report s) = 0"
    by (simp_all add: s_def empty_view_def)
  have "judge_one pa (3, 4) s = (Err e, s)"
    using rd m
    by (simp add: judge_one_def merge_in_pass_def facts env ids start Let_def judgement_def plain_answers)
  then show ?thesis
    unfolding pa_def [symmetric] by (simp add: judge_def s_def [symmetric] start)
qed

theorem pass_fails_with_database_witness:
  "\<exists>e j' keep absorbed. sweep_once plain_env default_thresholds (plain_budget 1) FullScope 2 None clash_journal = (Err e, j') \<and>
     fst (merge_series keep absorbed None ''auto_merged'' (jd_db j')) = Err e"
proof -
  have h: "\<forall>c\<in>set (md_candidates (jd_db clash_journal)). mc_series_id c < mc_candidate_id c"
    "\<forall>p\<in>set (en_pick plain_env clash_journal (sb_pairs (plain_budget 1))). fst p < snd p"
    "\<forall>s. en_facts plain_env clash_journal s \<noteq> None \<longrightarrow> md_series (jd_db clash_journal) s \<noteq> None"
    by (auto simp: clash_journal_def two_series_def plain_env_def plain_budget_def split: if_splits)
  obtain e where "judge (new_pass plain_env default_thresholds (plain_budget 1) 2 None
      [(3, 4) \<mapsto> TriggerNew] clash_journal) [(3, 4)] empty_view clash_journal = (Err e, clash_journal)"
    using clash_judge by blast
  then have "sweep_once plain_env default_thresholds (plain_budget 1) FullScope 2 None clash_journal = (Err e, clash_journal)"
    by (simp add: sweep_once_def clash_shortlist ask_def plain_answers Let_def)
  then show ?thesis
    using pass_fails_with_database [OF h, where policy = default_thresholds and i = 2 and actor = None and scope = FullScope]
    unfolding step_fails_def by (metis plain_answers(2))
qed

end
