(* ===== verification/Dedupe_Orphans.thy ===== *)
theory Dedupe_Orphans
  imports Dedupe_Sweep
begin

text \<open>
  Series without a source (\<open>dedupe/orphans.rs\<close>, \<open>find_orphan_twins\<close> of
  \<open>matching/pairs.rs\<close>, \<open>delete_unreferenced_orphans\<close> of \<open>catalog/maintenance.rs\<close>): merged into a sourced
  twin, or deleted when nothing refers to them; and the exhaustive run around them (the end of
  \<open>dedupe/run.rs\<close>). Below: the run ends, and what becomes of its claim; what the deletion takes along.
\<close>

section \<open>Series nothing lists\<close>

definition sourceless :: "merge_db \<Rightarrow> series_id \<Rightarrow> bool" where
  "sourceless db s \<longleftrightarrow> (\<forall>x. md_sources db x \<noteq> Some s)"

definition source_count :: "merge_db \<Rightarrow> series_id \<Rightarrow> nat" where
  "source_count db s = card {x. md_sources db x = Some s}"

definition trackers_differ :: "merge_db \<Rightarrow> series_id \<Rightarrow> series_id \<Rightarrow> bool" where
  "trackers_differ db a b \<longleftrightarrow>
     (case (md_mappings db a ''anilist'', md_mappings db b ''anilist'') of
        (Some m, Some n) \<Rightarrow> mr_external_id m \<noteq> mr_external_id n
      | _ \<Rightarrow> False)"

definition orphan_twins :: "merge_db \<Rightarrow> series_id \<Rightarrow> series_id \<Rightarrow> bool" where
  "orphan_twins db a b \<longleftrightarrow>
     (case (md_series db a, md_series db b) of
        (Some o', Some t) \<Rightarrow>
          no_spaces (se_normalized_title t) = no_spaces (se_normalized_title o') \<and>
          se_normalized_title t = se_normalized_title o' \<and> b \<noteq> a \<and> se_normalized_title o' \<noteq> [] \<and>
          sourceless db a \<and> \<not> sourceless db b \<and> \<not> trackers_differ db a b
      | _ \<Rightarrow> False)"

text \<open>\<open>DISTINCT ON (o.id) ... ORDER BY o.id, count(*) DESC, t.id\<close>.\<close>

definition chosen_twin :: "merge_db \<Rightarrow> series_id \<Rightarrow> series_id \<Rightarrow> bool" where
  "chosen_twin db a b \<longleftrightarrow>
     orphan_twins db a b \<and>
     (\<forall>c. orphan_twins db a c \<longrightarrow>
        source_count db c < source_count db b \<or> source_count db c = source_count db b \<and> b \<le> c)"

definition find_orphan_twins :: "merge_db \<Rightarrow> nat \<Rightarrow> (series_id \<times> series_id) list" where
  "find_orphan_twins db limit = take limit (sorted_list_of_set {(a, b). chosen_twin db a b})"

definition twin_batch :: nat where "twin_batch = 500"

definition orphan_delete_batch :: nat where "orphan_delete_batch = 1000"

section \<open>Merging them into their twins\<close>

definition twin_decision ::
  "sweep_env \<Rightarrow> journal_context \<Rightarrow> merge_undo \<Rightarrow> series_facts \<Rightarrow> series_facts \<Rightarrow> pair_reading \<Rightarrow> new_decision" where
  "twin_decision env ctx u keep gone rd =
     \<lparr>nd_sweep_id = Some (jc_sweep_id ctx), nd_trigger = ''sweep_twin'', nd_actor = jc_actor ctx,
      nd_pair = (sf_series_id keep, sf_series_id gone),
      nd_titles = (sf_canonical_title keep, sf_canonical_title gone),
      nd_verdict = merge_verdict_as_str Auto, nd_reason = ''orphan_twin'', nd_blocked_by = [],
      nd_outcome = ''merged'', nd_survivor_id = Some (sf_series_id keep),
      nd_absorbed_id = Some (sf_series_id gone), nd_score = as_score (pr_assessment rd),
      nd_base_score = pr_base rd, nd_signals = labels (as_signals (pr_assessment rd)),
      nd_terms = en_terms env rd, nd_evidence = en_evidence env keep gone 1 rd None (Some (keep, gone)),
      nd_policy = jc_policy ctx, nd_undo = Some u\<rparr>"

text \<open>A reading always exists (\<open>read_pair_total\<close>).\<close>

definition merge_twin ::
  "sweep_env \<Rightarrow> journal_context \<Rightarrow> series_facts \<Rightarrow> series_facts \<Rightarrow> journal_db \<Rightarrow>
     (merge_error, unit) result \<times> journal_db" where
  "merge_twin env ctx keep gone j =
     (if en_down env Merge_Pair j then (Err (SqlError NoAnswer), j)
      else case merge_series (sf_series_id keep) (sf_series_id gone) (jc_actor ctx) ''auto_merged'' (jd_db j) of
        (Inl e, _) \<Rightarrow> (Err e, j)
      | (Inr u, db) \<Rightarrow>
          (let rd = the (read_pair (en_lower env) (side keep) (side gone) 1)
           in (Ok (), journal_rows env [twin_decision env ctx u keep gone rd] (j\<lparr>jd_db := db\<rparr>))))"

text \<open>One batch: how many were merged, with the facts read before the first merge.\<close>

fun merge_twins ::
  "sweep_env \<Rightarrow> journal_context \<Rightarrow> (series_id \<Rightarrow> series_facts option) \<Rightarrow> (series_id \<times> series_id) list \<Rightarrow>
     nat \<Rightarrow> journal_db \<Rightarrow> (merge_error, nat) result \<times> journal_db" where
  "merge_twins env ctx facts [] n j = (Ok n, j)"
| "merge_twins env ctx facts (p # ps) n j =
     (case (facts (fst p), facts (snd p)) of
        (Some gone, Some keep) \<Rightarrow>
          if sf_source_count gone \<noteq> 0 \<or> sf_source_count keep = 0 then merge_twins env ctx facts ps n j
          else (case merge_twin env ctx keep gone j of
                  (Inl e, j') \<Rightarrow> (Err e, j')
                | (Inr _, j') \<Rightarrow> merge_twins env ctx facts ps (Suc n) j')
      | _ \<Rightarrow> merge_twins env ctx facts ps n j)"

partial_function (option) twin_batches ::
  "sweep_env \<Rightarrow> journal_context \<Rightarrow> nat \<Rightarrow> journal_db \<Rightarrow> ((merge_error, nat) result \<times> journal_db) option" where
  "twin_batches env ctx merged j =
     (if en_down env Find_Twins j \<or> find_orphan_twins (jd_db j) twin_batch \<noteq> [] \<and> en_down env Read_Facts j
      then Some (Err (SqlError NoAnswer), j)
      else case merge_twins env ctx (en_facts env j) (find_orphan_twins (jd_db j) twin_batch) 0 j of
        (Inl e, j') \<Rightarrow> Some (Err e, j')
      | (Inr n, j') \<Rightarrow>
          if n = 0 then Some (Ok merged, j') else twin_batches env ctx (merged + n) j')"

section \<open>Deleting the series nothing refers to\<close>

definition unreferenced :: "merge_db \<Rightarrow> series_id \<Rightarrow> bool" where
  "unreferenced db s \<longleftrightarrow>
     md_series db s \<noteq> None \<and> sourceless db s \<and> md_watchlist db s = Map.empty \<and>
     md_progress db s = Map.empty \<and> md_mappings db s = Map.empty \<and> md_overrides db s = Map.empty \<and>
     (\<forall>c\<in>set (md_conflicts db). cf_series c \<noteq> s) \<and> (\<forall>b\<in>set (md_blocks db). block_series b \<noteq> s) \<and>
     (\<forall>x. md_history db x \<noteq> Some s) \<and> (\<forall>i. \<not> aliases_of s (md_merges db) i)"

text \<open>
  The statement that locks the candidates takes any of them, and skips those another transaction holds:
  \<open>ids\<close> is what it answered. The delete looks at the condition again.
\<close>

definition locked_orphans :: "merge_db \<Rightarrow> nat \<Rightarrow> series_id list \<Rightarrow> bool" where
  "locked_orphans db batch ids \<longleftrightarrow>
     distinct ids \<and> length ids \<le> max batch 1 \<and> (\<forall>s\<in>set ids. unreferenced db s)"

definition delete_unreferenced_orphans :: "series_id list \<Rightarrow> merge_db \<Rightarrow> nat \<times> merge_db" where
  "delete_unreferenced_orphans ids db =
     (if ids = [] then (0, db)
      else (let gone = filter (unreferenced db) ids in (length gone, fold delete_series gone db)))"

partial_function (option) delete_batches ::
  "sweep_env \<Rightarrow> (merge_db \<Rightarrow> nat \<Rightarrow> series_id list) \<Rightarrow> nat \<Rightarrow> journal_db \<Rightarrow>
     ((merge_error, nat) result \<times> journal_db) option" where
  "delete_batches env idle deleted j =
     (if en_down env Delete_Orphans j then Some (Err (SqlError NoAnswer), j)
      else case delete_unreferenced_orphans (idle (jd_db j) orphan_delete_batch) (jd_db j) of
        (n, db) \<Rightarrow>
          if n = 0 then Some (Ok deleted, j\<lparr>jd_db := db\<rparr>)
          else delete_batches env idle (deleted + n) (j\<lparr>jd_db := db\<rparr>))"

definition clean_up_orphans ::
  "sweep_env \<Rightarrow> (merge_db \<Rightarrow> nat \<Rightarrow> series_id list) \<Rightarrow> thresholds \<Rightarrow> nat \<Rightarrow> user_id option \<Rightarrow> journal_db \<Rightarrow>
     ((merge_error, nat) result \<times> journal_db) option" where
  "clean_up_orphans env idle policy sweep_id actor j =
     Option.bind
       (twin_batches env \<lparr>jc_sweep_id = sweep_id, jc_actor = actor, jc_policy = en_policy env policy\<rparr> 0 j)
       (\<lambda>out. case out of
          (Inl e, j') \<Rightarrow> Some (Err e, j')
        | (Inr merged, j') \<Rightarrow>
            map_option (\<lambda>x. (bind_result (fst x) (\<lambda>_. Ok merged), snd x)) (delete_batches env idle 0 j'))"

section \<open>The exhaustive run\<close>

text \<open>
  \<open>clock\<close> gives the time at which the progress after a round is stamped; round 0 is the clean-up.
\<close>

definition run_full_sweep ::
  "sweep_env \<Rightarrow> (merge_db \<Rightarrow> nat \<Rightarrow> series_id list) \<Rightarrow> thresholds \<Rightarrow> sweep_budget \<Rightarrow> nat \<Rightarrow> (int \<Rightarrow> nat \<Rightarrow> nat) \<Rightarrow>
     user_id option \<Rightarrow> nat \<Rightarrow> (int \<Rightarrow> int) \<Rightarrow> journal_db \<Rightarrow> full_sweep_row \<Rightarrow>
     ((merge_error, unit) result \<times> journal_db \<times> full_sweep_row) option" where
  "run_full_sweep env idle policy budget twin_id ids actor claim clock j row =
     Option.bind (clean_up_orphans env idle policy twin_id actor j)
       (\<lambda>out. case out of
          (Inl e, j') \<Rightarrow> Some (Err e, j', row)
        | (Inr merged, j') \<Rightarrow>
            (let so_far = empty_view\<lparr>sv_auto_merged := sv_auto_merged empty_view + int merged\<rparr>
             in if en_down env (Advance_Run 0) j' then Some (Err (SqlError NoAnswer), j', row)
                else full_rounds env policy budget ids actor claim clock new_round_loop so_far j'
                  (advance_full_sweep claim 0 (counters so_far) (clock 0) row)))"

text \<open>
  The call and the detached task of a claim that was granted; \<open>message\<close> is the text of an error,
  \<open>finished\<close> the time the claim is released. A release that gets no answer is logged and leaves the row
  as the run left it.
\<close>

definition release_claim ::
  "sweep_env \<Rightarrow> nat \<Rightarrow> string \<Rightarrow> string option \<Rightarrow> int \<Rightarrow> journal_db \<Rightarrow> full_sweep_row \<Rightarrow> full_sweep_row" where
  "release_claim env claim stopped err finished j row =
     (if en_down env Finish_Run j then row else finish_full_sweep claim stopped err finished row)"

definition sweep_all_detached ::
  "sweep_env \<Rightarrow> (merge_db \<Rightarrow> nat \<Rightarrow> series_id list) \<Rightarrow> (merge_error \<Rightarrow> string) \<Rightarrow> thresholds \<Rightarrow> sweep_budget \<Rightarrow> nat \<Rightarrow>
     (int \<Rightarrow> nat \<Rightarrow> nat) \<Rightarrow> user_id option \<Rightarrow> nat \<Rightarrow> int \<Rightarrow> (int \<Rightarrow> int) \<Rightarrow> int \<Rightarrow> journal_db \<Rightarrow> full_sweep_row \<Rightarrow>
     ((merge_error, bool) result \<times> journal_db \<times> full_sweep_row) option" where
  "sweep_all_detached env idle message policy budget twin_id ids actor fresh now clock finished j row =
     (if en_down env Claim_Run j then Some (Err (SqlError NoAnswer), j, row)
      else case claim_full_sweep fresh now row of
        (None, row1) \<Rightarrow> Some (Ok False, j, row1)
      | (Some claim, row1) \<Rightarrow>
          map_option
            (\<lambda>out. case out of
               (Inl e, j', row2) \<Rightarrow>
                 (Ok True, j', release_claim env claim ''failed'' (Some (message e)) finished j' row2)
             | (Inr _, j', row2) \<Rightarrow> (Ok True, j', release_claim env claim ''exhausted'' None finished j' row2))
            (run_full_sweep env idle policy (exhaustive_budget budget) twin_id ids actor claim clock j row1))"

section \<open>The clean-up ends\<close>

lemma merge_twin_shrinks:
  assumes "merge_twin env ctx keep gone j = (Ok (), j')"
  shows "dom (md_series (jd_db j')) \<subset> dom (md_series (jd_db j))"
proof -
  obtain u db where m: "merge_series (sf_series_id keep) (sf_series_id gone) (jc_actor ctx) ''auto_merged'' (jd_db j) = (Ok u, db)"
    and j': "jd_db j' = db"
    using assms by (auto simp: merge_twin_def Let_def split: prod.splits sum.splits if_splits)
  then show ?thesis using merge_fields [OF m] merge_ok(3) [OF m] by auto
qed

lemma merge_twins_skip:
  assumes "\<not> (\<exists>gone keep. facts (fst p) = Some gone \<and> facts (snd p) = Some keep \<and> sf_source_count gone = 0 \<and>
      sf_source_count keep \<noteq> 0)"
  shows "merge_twins env ctx facts (p # ps) n j = merge_twins env ctx facts ps n j"
proof (cases "facts (fst p)")
  case (Some gone)
  then show ?thesis using assms by (cases "facts (snd p)") simp_all
qed simp

lemma merge_twin_error: "merge_twin env ctx keep gone j = (Err e, j') \<Longrightarrow> j' = j"
  by (auto simp: merge_twin_def Let_def split: prod.splits sum.splits if_splits)

lemma merge_twins_shrink:
  assumes "merge_twins env ctx facts ps n j = (res, j')"
  shows "dom (md_series (jd_db j')) \<subseteq> dom (md_series (jd_db j)) \<and>
    (\<forall>m. res = Ok m \<longrightarrow> n \<le> m \<and> (n < m \<longrightarrow> dom (md_series (jd_db j')) \<subset> dom (md_series (jd_db j))))"
  using assms
proof (induction ps arbitrary: n j)
  case (Cons p ps)
  show ?case
  proof (cases "\<exists>gone keep. facts (fst p) = Some gone \<and> facts (snd p) = Some keep \<and> sf_source_count gone = 0 \<and>
      sf_source_count keep \<noteq> 0")
    case False
    have "merge_twins env ctx facts ps n j = (res, j')"
      using Cons.prems unfolding merge_twins_skip [OF False] .
    then show ?thesis by (rule Cons.IH)
  next
    case True
    then obtain gone keep where k: "facts (fst p) = Some gone" "facts (snd p) = Some keep"
      "sf_source_count gone = 0" "sf_source_count keep \<noteq> 0" by blast
    obtain out j1 where one: "merge_twin env ctx keep gone j = (out, j1)" by fastforce
    show ?thesis
    proof (cases out)
      case (Inl e)
      then show ?thesis using Cons.prems k one merge_twin_error [of env ctx keep gone j e j1] by auto
    next
      case (Inr x)
      have sub: "dom (md_series (jd_db j1)) \<subset> dom (md_series (jd_db j))"
        using one Inr by (intro merge_twin_shrinks) simp
      have "merge_twins env ctx facts ps (Suc n) j1 = (res, j')" using Cons.prems k one Inr by simp
      note rest = Cons.IH [OF this]
      have less: "dom (md_series (jd_db j')) \<subset> dom (md_series (jd_db j))"
        using rest sub by (meson subset_psubset_trans)
      show ?thesis
      proof (intro conjI allI impI)
        show "dom (md_series (jd_db j')) \<subseteq> dom (md_series (jd_db j))"
          using less by (rule psubset_imp_subset)
      next
        fix m
        assume "res = Ok m"
        then show "n \<le> m" using rest by simp
      qed (rule less)
    qed
  qed
qed auto

lemma twin_batches_return:
  assumes "finite (dom (md_series (jd_db j)))"
  shows "\<exists>res j'. twin_batches env ctx n j = Some (res, j') \<and> dom (md_series (jd_db j')) \<subseteq> dom (md_series (jd_db j))"
  using assms
proof (induction "card (dom (md_series (jd_db j)))" arbitrary: n j rule: less_induct)
  case less
  obtain out j1 where one: "merge_twins env ctx (en_facts env j) (find_orphan_twins (jd_db j) twin_batch) 0 j = (out, j1)"
    by fastforce
  note shrink = merge_twins_shrink [OF one]
  let ?down = "en_down env Find_Twins j \<or> find_orphan_twins (jd_db j) twin_batch \<noteq> [] \<and> en_down env Read_Facts j"
  have step: "twin_batches env ctx n j =
      (if ?down then Some (Err (SqlError NoAnswer), j)
       else case out of Inl e \<Rightarrow> Some (Err e, j1)
         | Inr m \<Rightarrow> if m = 0 then Some (Ok n, j1) else twin_batches env ctx (n + m) j1)"
    by (subst twin_batches.simps) (simp add: one split: sum.split)
  show ?case
  proof (cases "\<not> ?down \<and> (\<exists>m. out = Ok m \<and> m \<noteq> 0)")
    case True
    then obtain m where m: "out = Ok m" "m \<noteq> 0" by blast
    have sub: "dom (md_series (jd_db j1)) \<subset> dom (md_series (jd_db j))" using shrink m by simp
    from less.hyps [OF psubset_card_mono [OF less.prems sub]] finite_subset [OF _ less.prems] sub
    obtain res j' where "twin_batches env ctx (n + m) j1 = Some (res, j')"
        "dom (md_series (jd_db j')) \<subseteq> dom (md_series (jd_db j1))" by blast
    then show ?thesis unfolding step using sub m True by auto
  next
    case False
    then show ?thesis unfolding step using shrink by (cases out) auto
  qed
qed


lemma delete_series_dom: "dom (md_series (fold delete_series ids db)) = dom (md_series db) - set ids"
  by (induction ids arbitrary: db) (auto simp: delete_series_def)

lemma delete_batches_return:
  assumes "finite (dom (md_series (jd_db j)))"
  shows "\<exists>res j'. delete_batches env idle n j = Some (res, j') \<and> dom (md_series (jd_db j')) \<subseteq> dom (md_series (jd_db j))"
  using assms
proof (induction "card (dom (md_series (jd_db j)))" arbitrary: n j rule: less_induct)
  case less
  let ?ids = "idle (jd_db j) orphan_delete_batch"
  let ?gone = "filter (unreferenced (jd_db j)) ?ids"
  show ?case
  proof (cases "?gone = [] \<or> en_down env Delete_Orphans j")
    case True
    then show ?thesis
      by (subst delete_batches.simps) (auto simp: delete_unreferenced_orphans_def Let_def)
  next
    case False
    let ?j = "j\<lparr>jd_db := fold delete_series ?gone (jd_db j)\<rparr>"
    have ne: "?gone \<noteq> []" using False by simp
    then obtain s where s: "s \<in> set ?gone" by (metis list.set_intros(1) neq_Nil_conv)
    then have "s \<in> dom (md_series (jd_db j))" by (auto simp: unreferenced_def)
    then have sub: "dom (md_series (jd_db ?j)) \<subset> dom (md_series (jd_db j))"
      using s by (auto simp: delete_series_dom)
    from less.hyps [OF psubset_card_mono [OF less.prems sub]] finite_subset [OF _ less.prems] sub
    obtain res j' where "delete_batches env idle (n + length ?gone) ?j = Some (res, j')"
        "dom (md_series (jd_db j')) \<subseteq> dom (md_series (jd_db ?j))" by blast
    moreover have "delete_unreferenced_orphans ?ids (jd_db j) = (length ?gone, fold delete_series ?gone (jd_db j))"
      using ne by (auto simp: delete_unreferenced_orphans_def Let_def)
    ultimately show ?thesis using sub ne False by (subst delete_batches.simps) auto
  qed
qed

lemma clean_up_returns:
  assumes "finite (dom (md_series (jd_db j)))"
  shows "\<exists>res j'. clean_up_orphans env idle policy i actor j = Some (res, j') \<and>
    dom (md_series (jd_db j')) \<subseteq> dom (md_series (jd_db j))"
proof -
  let ?ctx = "\<lparr>jc_sweep_id = i, jc_actor = actor, jc_policy = en_policy env policy\<rparr>"
  obtain res j1 where one: "twin_batches env ?ctx 0 j = Some (res, j1)"
      "dom (md_series (jd_db j1)) \<subseteq> dom (md_series (jd_db j))"
    using twin_batches_return [OF assms] by blast
  obtain out j2 where "delete_batches env idle 0 j1 = Some (out, j2)" "dom (md_series (jd_db j2)) \<subseteq> dom (md_series (jd_db j1))"
    using delete_batches_return finite_subset [OF one(2) assms] by blast
  then show ?thesis using one by (cases res) (auto simp: clean_up_orphans_def)
qed

lemma run_full_sweep_returns:
  assumes "finite (dom (md_series (jd_db j)))" "picks_live env" "range clock \<subseteq> stamps" "held claim stamps row"
  shows "\<exists>res j' row'. run_full_sweep env idle policy budget i ids actor claim clock j row = Some (res, j', row') \<and>
    held claim stamps row'"
proof -
  obtain res j1 where one: "clean_up_orphans env idle policy i actor j = Some (res, j1)"
      "dom (md_series (jd_db j1)) \<subseteq> dom (md_series (jd_db j))"
    using clean_up_returns [OF assms(1)] by blast
  have fin: "finite (dom (md_series (jd_db j1)))" by (rule finite_subset [OF one(2) assms(1)])
  show ?thesis
  proof (cases res)
    case (Inr merged)
    let ?so_far = "empty_view\<lparr>sv_auto_merged := sv_auto_merged empty_view + int merged\<rparr>"
    have "held claim stamps (advance_full_sweep claim 0 (counters ?so_far) (clock 0) row)"
      using assms(3,4) by (intro held_advance) auto
    from full_rounds_return [OF fin assms(2,3) this, of policy budget ids actor new_round_loop ?so_far]
    show ?thesis using one(1) Inr assms(4) by (simp add: run_full_sweep_def Let_def)
  qed (use one assms(4) in \<open>simp add: run_full_sweep_def\<close>)
qed

text \<open>C12: the exhaustive run ends, and its claim ends with it unless the release itself fails. Nothing in
  the code bounds its loops, but a batch that goes on has merged or deleted a series, and a round that
  goes on has listed a pair it had not seen, so for finitely many series the run returns, whatever its
  statements find and whichever of them get no answer. The call fails only when the claim gets no answer,
  and then nothing has changed; a call that was refused changes nothing either. One that started leaves
  the row not running, stopped as exhausted without an error or as failed with one, and the next call can
  start; if the release gets no answer, the row stays the run's own, still running and not stopped, its
  heartbeat the last it was stamped with, and the next call can start once the lease on it is over and
  no sooner.
\<close>

theorem exhaustive_run_returns:
  assumes "finite (dom (md_series (jd_db j)))" "picks_live env"
  shows "\<exists>res j' row'. sweep_all_detached env idle message policy budget i ids actor fresh now clock finished j row =
      Some (res, j', row') \<and>
    (case res of
       Inl e \<Rightarrow> en_down env Claim_Run j \<and> e = SqlError NoAnswer \<and> j' = j \<and> row' = row
     | Inr started \<Rightarrow>
         started = (fst (claim_full_sweep fresh now row) \<noteq> None) \<and>
         (if \<not> started then j' = j \<and> row' = row
          else if en_down env Finish_Run j'
          then held fresh (insert now (range clock)) row' \<and>
            fst (claim_full_sweep again later row') =
              (if the (fs_heartbeat_at row') + lease_secs < later then Some again else None)
          else \<not> fs_running row' \<and>
            (fs_stopped row', fs_error row' = None) \<in> {(Some ''exhausted'', True), (Some ''failed'', False)} \<and>
            fst (claim_full_sweep again later row') = Some again))"
proof (cases "en_down env Claim_Run j")
  case True
  then show ?thesis by (simp add: sweep_all_detached_def)
next
  case up: False
  show ?thesis
  proof (cases "claim_full_sweep fresh now row")
    case (Pair got row1)
    show ?thesis
    proof (cases got)
      case None
      then have "row1 = row" using Pair by (auto simp: claim_full_sweep_def split: if_split_asm)
      then have "sweep_all_detached env idle message policy budget i ids actor fresh now clock finished j row =
          Some (Ok False, j, row)"
        using Pair None up by (simp add: sweep_all_detached_def)
      then show ?thesis using Pair None by (intro exI [of _ "Ok False"] exI [of _ j] exI [of _ row]) simp
    next
      case (Some claim)
      then have own: "claim = fresh" "held fresh (insert now (range clock)) row1"
        using Pair by (auto simp: claim_full_sweep_def held_def split: if_split_asm)
      obtain res j' row' where run: "run_full_sweep env idle policy (exhaustive_budget budget) i ids actor fresh clock j row1 =
          Some (res, j', row')" "held fresh (insert now (range clock)) row'"
        using run_full_sweep_returns [OF assms _ own(2)] by blast
      define stopped where "stopped = (case res of Inl _ \<Rightarrow> ''failed'' | Inr _ \<Rightarrow> ''exhausted'')"
      define err where "err = (case res of Inl e \<Rightarrow> Some (message e) | Inr _ \<Rightarrow> None)"
      have out: "sweep_all_detached env idle message policy budget i ids actor fresh now clock finished j row =
          Some (Ok True, j', release_claim env fresh stopped err finished j' row')"
        using Pair Some up own(1) run(1)
        by (cases res) (simp_all add: sweep_all_detached_def stopped_def err_def)
      show ?thesis
      proof (cases "en_down env Finish_Run j'")
        case True
        have "fst (claim_full_sweep again later row') =
            (if the (fs_heartbeat_at row') + lease_secs < later then Some again else None)"
          using run(2) by (auto simp: held_def claim_full_sweep_def)
        then show ?thesis using True out run(2) Pair Some
          by (intro exI [of _ "Ok True"] exI [of _ j'] exI [of _ row']) (simp add: release_claim_def)
      next
        case False
        then show ?thesis using out run(2) Pair Some
          by (intro exI [of _ "Ok True"] exI [of _ j'] exI [of _ "finish_full_sweep fresh stopped err finished row'"])
            (auto simp: release_claim_def finish_full_sweep_def held_def claim_full_sweep_def stopped_def err_def
              split: sum.split)
      qed
    qed
  qed
qed

definition idle_row :: full_sweep_row where
  "idle_row = \<lparr>fs_running = False, fs_claim_id = None, fs_heartbeat_at = None, fs_started_at = None,
     fs_finished_at = None, fs_rounds = 0, fs_counters = no_counters, fs_stopped = None, fs_error = None\<rparr>"

theorem exhaustive_run_returns_witness:
  "(\<exists>j' row'. sweep_all_detached plain_env (\<lambda>_ _. []) (\<lambda>_. ''failed'') default_thresholds (plain_budget 1) 1 (\<lambda>_. id) None
      7 0 id 9 plain_journal idle_row = Some (Ok True, j', row') \<and> \<not> fs_running row' \<and>
    fs_stopped row' \<in> {Some ''exhausted'', Some ''failed''}) \<and>
   (\<exists>j' row'. sweep_all_detached (plain_env\<lparr>en_down := \<lambda>q _. q = Finish_Run\<rparr>) (\<lambda>_ _. []) (\<lambda>_. ''failed'') default_thresholds
      (plain_budget 1) 1 (\<lambda>_. id) None 7 0 (\<lambda>_. 0) 9 plain_journal idle_row = Some (Ok True, j', row') \<and>
    fs_running row' \<and> fst (claim_full_sweep 8 lease_secs row') = None)"
proof
  have fin: "finite (dom (md_series (jd_db plain_journal)))" by (simp add: plain_journal_def two_series_def)
  have live: "picks_live plain_env" "picks_live (plain_env\<lparr>en_down := down\<rparr>)" for down
    by (auto simp: picks_live_def plain_env_def live_pair_def dest!: in_set_takeD split: if_splits)
  have got: "fst (claim_full_sweep 7 0 idle_row) \<noteq> None" by (simp add: claim_full_sweep_def idle_row_def)
  have ends: "\<exists>j' row'. out = Some (Ok True, j', row') \<and> R row'"
    if "\<exists>res j' row'. out = Some (res, j', row') \<and> (case res of Inl e \<Rightarrow> P e j' row' | Inr started \<Rightarrow> Q started j' row')"
      "\<And>e j' row'. \<not> P e j' row'" "\<And>started j' row'. Q started j' row' \<Longrightarrow> started \<and> R row'"
    for out :: "((merge_error, bool) result \<times> journal_db \<times> full_sweep_row) option" and P Q R
    using that(1)
  proof (elim exE conjE)
    fix res j' row'
    assume "out = Some (res, j', row')" "case res of Inl e \<Rightarrow> P e j' row' | Inr started \<Rightarrow> Q started j' row'"
    then show ?thesis using that(2,3) by (cases res) fastforce+
  qed
  show "\<exists>j' row'. sweep_all_detached plain_env (\<lambda>_ _. []) (\<lambda>_. ''failed'') default_thresholds (plain_budget 1) 1 (\<lambda>_. id) None
      7 0 id 9 plain_journal idle_row = Some (Ok True, j', row') \<and> \<not> fs_running row' \<and>
    fs_stopped row' \<in> {Some ''exhausted'', Some ''failed''}"
    by (rule ends [OF exhaustive_run_returns [OF fin live(1), of _ _ _ _ _ _ _ _ _ _ _ _ 8 10]])
      (use got in \<open>auto simp: plain_answers split: if_split_asm\<close>)
  show "\<exists>j' row'. sweep_all_detached (plain_env\<lparr>en_down := \<lambda>q _. q = Finish_Run\<rparr>) (\<lambda>_ _. []) (\<lambda>_. ''failed'') default_thresholds
      (plain_budget 1) 1 (\<lambda>_. id) None 7 0 (\<lambda>_. 0) 9 plain_journal idle_row = Some (Ok True, j', row') \<and>
    fs_running row' \<and> fst (claim_full_sweep 8 lease_secs row') = None"
    by (rule ends [OF exhaustive_run_returns [OF fin live(2), of _ _ _ _ _ _ _ _ _ _ _ _ _ 8 lease_secs]])
      (use got in \<open>auto simp: held_def split: if_split_asm\<close>)
qed


section \<open>What the deletion takes, and what it leaves alone\<close>













definition lone_series :: merge_db where
  "lone_series = two_series\<lparr>md_series := (md_series two_series)(9 \<mapsto> no_series),
     md_feedback := (md_feedback two_series)(9 := [7 \<mapsto> \<lparr>fb_verdict = ''not_interested'', fb_created_at = 0\<rparr>])\<rparr>"

lemma lone_unreferenced: "unreferenced lone_series 9" "\<not> unreferenced lone_series 4"
  by (auto simp: unreferenced_def lone_series_def two_series_def sourceless_def aliases_of_def split: if_splits)


lemma orphan_delete_drops_refusal:
  "unreferenced lone_series 9 \<and> md_feedback lone_series 9 7 \<noteq> None \<and>
   md_feedback (snd (delete_unreferenced_orphans [9] lone_series)) 9 7 = None"
  using lone_unreferenced
  by (simp add: delete_unreferenced_orphans_def delete_series_def) (simp add: lone_series_def)

text \<open>The queue is not looked at: a pair an operator dismissed is found like any other.\<close>

lemma dismissed_twin_is_found: "find_orphan_twins (db\<lparr>md_candidates := cs\<rparr>) n = find_orphan_twins db n"
proof -
  have "sourceless (db\<lparr>md_candidates := cs\<rparr>) = sourceless db"
    "trackers_differ (db\<lparr>md_candidates := cs\<rparr>) = trackers_differ db"
    "source_count (db\<lparr>md_candidates := cs\<rparr>) = source_count db"
    by (simp_all add: sourceless_def trackers_differ_def source_count_def fun_eq_iff)
  moreover from this have "orphan_twins (db\<lparr>md_candidates := cs\<rparr>) = orphan_twins db"
    by (intro ext) (simp add: orphan_twins_def split: option.split)
  ultimately have "orphan_twins (db\<lparr>md_candidates := cs\<rparr>) = orphan_twins db"
    "source_count (db\<lparr>md_candidates := cs\<rparr>) = source_count db" by simp_all
  then show ?thesis by (simp add: find_orphan_twins_def chosen_twin_def)
qed

end
