(* ===== verification/Catalogue_Policy.thy ===== *)
theory Catalogue_Policy
  imports Title_Text Domain_Enums Rust_Float
begin

text \<open>
  Rules over what a scrape brings in (crate \<open>domain\<close>): which chapter numbers of a listing are implausible
  (\<open>chapter_outliers.rs\<close>), which source decides a field of a series (\<open>metadata_priority.rs\<close>), which terms
  are refused (\<open>term_filter.rs\<close>) and which mark a series adult (\<open>adult.rs\<close>).
\<close>

section \<open>Implausible chapter numbers\<close>

record outlier_policy =
  op_min_sample :: nat
  op_min_body :: nat
  op_min_gap :: rat
  op_gap_factor :: rat
  op_sparse_factor :: rat
  op_max_rejected_fraction :: rat

definition default_outlier_policy :: outlier_policy where
  "default_outlier_policy = \<lparr>op_min_sample = 6, op_min_body = 5, op_min_gap = 10, op_gap_factor = 20,
     op_sparse_factor = 20, op_max_rejected_fraction = 1 / 4\<rparr>"

record outlier_entry =
  oe_index :: nat
  oe_number :: rat

definition gap_above :: "outlier_entry list \<Rightarrow> nat \<Rightarrow> rat" where
  "gap_above es i = f64 (oe_number (es ! i) - oe_number (es ! (i - 1)))"

text \<open>Half the rounded sum is what \<open>f64::midpoint\<close> answers away from overflow.\<close>

definition typical_spacing :: "outlier_entry list \<Rightarrow> rat option" where
  "typical_spacing es =
     (let gaps = sort (filter (\<lambda>g. 0 < g) (map (gap_above es) [1..<length es])); mid = length gaps div 2
      in if gaps = [] then None
         else Some (max (if even (length gaps) then f64 (gaps ! (mid - 1) + gaps ! mid) / 2 else gaps ! mid) 1))"

definition topmost_jump :: "outlier_entry list \<Rightarrow> rat \<Rightarrow> nat option" where
  "topmost_jump es suspicious = find (\<lambda>i. suspicious < gap_above es i) (rev [1..<length es])"

definition rejection_budget :: "nat \<Rightarrow> rat \<Rightarrow> nat" where
  "rejection_budget len fraction = max (min (nat \<lfloor>f64 (f64 (of_nat len) * fraction)\<rfloor>) (2 ^ 64 - 1)) 1"

lemma topmost_jump_bounds:
  assumes "topmost_jump es g = Some i"
  shows "1 \<le> i" "i < length es" "g < gap_above es i"
proof -
  have "i \<in> set (rev [1..<length es])" "g < gap_above es i"
    using find_Some_mem [OF assms [unfolded topmost_jump_def]] by auto
  then show "1 \<le> i" "i < length es" "g < gap_above es i" by auto
qed

text \<open>The loop: how much of the listing is left, how many entries went.\<close>

function peel ::
  "outlier_policy \<Rightarrow> outlier_entry list \<Rightarrow> rat \<Rightarrow> rat \<Rightarrow> nat \<Rightarrow> nat \<Rightarrow> nat \<Rightarrow> nat \<times> nat" where
  "peel pol es suspicious sparse budget end_at rejected =
     (case topmost_jump (take end_at es) suspicious of
        None \<Rightarrow> (end_at, rejected)
      | Some start \<Rightarrow>
          (let run = end_at - start; span = f64 (oe_number (es ! (end_at - 1)) - oe_number (es ! (start - 1)));
               spacing = f64 (span / f64 (of_nat run))
           in if start < op_min_body pol \<or> budget < rejected + run \<or> spacing \<le> sparse then (end_at, rejected)
              else peel pol es suspicious sparse budget start (rejected + run)))"
  by pat_completeness auto
termination
  by (relation "measure (\<lambda>(_, _, _, _, _, end_at, _). end_at)")
    (auto dest!: topmost_jump_bounds(2) simp: min_def split: if_splits)

declare peel.simps [simp del]

definition plausible_len :: "outlier_entry list \<Rightarrow> outlier_policy \<Rightarrow> nat option" where
  "plausible_len es pol =
     (if length es < op_min_sample pol then None
      else case typical_spacing es of
        None \<Rightarrow> None
      | Some typical \<Rightarrow>
          (let out = peel pol es (max (op_min_gap pol) (f64 (op_gap_factor pol * typical)))
                       (f64 (op_sparse_factor pol * typical))
                       (rejection_budget (length es) (op_max_rejected_fraction pol)) (length es) 0
           in if 0 < snd out then Some (fst out) else None))"

text \<open>A number that is not finite is \<open>None\<close>.\<close>

definition finite_entries :: "rat option list \<Rightarrow> outlier_entry list" where
  "finite_entries numbers =
     sort_key oe_number
       (map (\<lambda>p. \<lparr>oe_index = fst p, oe_number = the (snd p)\<rparr>)
         (filter (\<lambda>p. snd p \<noteq> None) (enumerate 0 numbers)))"

definition implausible_indices :: "rat option list \<Rightarrow> outlier_policy \<Rightarrow> nat list" where
  "implausible_indices numbers pol =
     (let es = finite_entries numbers
      in case plausible_len es pol of
           None \<Rightarrow> []
         | Some kept \<Rightarrow> sort (map oe_index (drop kept es)))"

lemma fl_nonpos:
  assumes "x \<le> 0"
  shows "f64 x \<le> 0"
proof -
  have "exp2 (- int 53) * \<bar>x\<bar> \<le> 1 * \<bar>x\<bar>"
    by (rule mult_right_mono) (simp_all add: exp2_def)
  then show ?thesis using fl_error [of 53 x] assms by linarith
qed

lemma gap_above_pos:
  assumes "g < gap_above es i" "0 \<le> g"
  shows "oe_number (es ! (i - 1)) < oe_number (es ! i)"
proof (rule ccontr)
  assume "\<not> ?thesis"
  then have "oe_number (es ! i) - oe_number (es ! (i - 1)) \<le> 0" by simp
  from fl_nonpos [OF this] have "gap_above es i \<le> 0" by (simp add: gap_above_def)
  then show False using assms by simp
qed

lemma gap_above_take: "i < n \<Longrightarrow> gap_above (take n es) i = gap_above es i"
  by (simp add: gap_above_def)

lemma peel_keeps:
  assumes "peel pol es g sparse budget e r = (e', r')" "e \<le> length es" "0 \<le> g" "r \<le> budget"
  shows "e' \<le> e \<and> r' = r + (e - e') \<and> r' \<le> budget \<and>
    (e' < e \<longrightarrow> 1 \<le> e' \<and> op_min_body pol \<le> e' \<and> oe_number (es ! (e' - 1)) < oe_number (es ! e'))"
  using assms
proof (induction pol es g sparse budget e r rule: peel.induct)
  case (1 pol es g sparse budget e r)
  show ?case
  proof (cases "topmost_jump (take e es) g")
    case None
    then show ?thesis using "1.prems" by (simp add: peel.simps)
  next
    case (Some start)
    note b = topmost_jump_bounds [OF Some]
    let ?run = "e - start"
    let ?stop = "start < op_min_body pol \<or> budget < r + ?run \<or>
      f64 (f64 (oe_number (es ! (e - 1)) - oe_number (es ! (start - 1))) / f64 (of_nat ?run)) \<le> sparse"
    have start: "1 \<le> start" "start < e" "start < length es" using b by auto
    have up: "oe_number (es ! (start - 1)) < oe_number (es ! start)"
      using gap_above_pos [of g es start] b(3) gap_above_take [of start e es] start "1.prems"(3) by simp
    show ?thesis
    proof (cases ?stop)
      case True
      then show ?thesis using "1.prems" Some by (subst (asm) peel.simps) (simp add: Let_def)
    next
      case False
      then have rest: "peel pol es g sparse budget start (r + ?run) = (e', r')"
        using "1.prems"(1) Some by (subst (asm) peel.simps) (simp add: Let_def)
      have "e' \<le> start \<and> r' = r + ?run + (start - e') \<and> r' \<le> budget \<and>
        (e' < start \<longrightarrow> 1 \<le> e' \<and> op_min_body pol \<le> e' \<and> oe_number (es ! (e' - 1)) < oe_number (es ! e'))"
        by (rule "1.IH" [OF Some refl refl refl False rest]) (use start "1.prems" False in auto)
      then show ?thesis using start up False by (cases "e' = start") auto
    qed
  qed
qed


lemma finite_entries_facts:
  "sorted (map oe_number (finite_entries numbers))"
  "distinct (map oe_index (finite_entries numbers))"
  "set (finite_entries numbers) =
     {\<lparr>oe_index = i, oe_number = x\<rparr> | i x. i < length numbers \<and> numbers ! i = Some x}"
  "length (finite_entries numbers) = length (filter (\<lambda>x. x \<noteq> None) numbers)"
proof -
  let ?ps = "filter (\<lambda>p. snd p \<noteq> None) (enumerate 0 numbers)"
  let ?f = "\<lambda>p. \<lparr>oe_index = fst p, oe_number = the (snd p)\<rparr>"
  show "sorted (map oe_number (finite_entries numbers))" by (simp add: finite_entries_def)
  have "distinct (map oe_index (map ?f ?ps))"
    using distinct_map_filter [of fst "enumerate 0 numbers" "\<lambda>p. snd p \<noteq> None"] by (simp add: comp_def)
  then have "distinct (map ?f ?ps) \<and> inj_on oe_index (set (map ?f ?ps))"
    by (simp only: distinct_map [of oe_index "map ?f ?ps"])
  then show "distinct (map oe_index (finite_entries numbers))"
    by (simp only: finite_entries_def distinct_map [of oe_index] distinct_sort set_sort)
  show "set (finite_entries numbers) =
     {\<lparr>oe_index = i, oe_number = x\<rparr> | i x. i < length numbers \<and> numbers ! i = Some x}"
    by (force simp: finite_entries_def in_set_enumerate_eq image_iff)
  have "length ?ps = length (filter (\<lambda>x. x \<noteq> None) (map snd (enumerate 0 numbers)))"
    by (simp only: filter_map length_map comp_def)
  then show "length (finite_entries numbers) = length (filter (\<lambda>x. x \<noteq> None) numbers)"
    by (simp add: finite_entries_def)
qed

definition finite_count :: "rat option list \<Rightarrow> nat" where
  "finite_count numbers = length (filter (\<lambda>x. x \<noteq> None) numbers)"

lemma plausible_len_keeps:
  assumes "plausible_len es pol = Some kept" "0 \<le> op_min_gap pol"
  shows "op_min_sample pol \<le> length es" "1 \<le> kept" "op_min_body pol \<le> kept" "kept < length es"
    "length es - kept \<le> rejection_budget (length es) (op_max_rejected_fraction pol)"
    "oe_number (es ! (kept - 1)) < oe_number (es ! kept)"
proof -
  obtain typical where t: "typical_spacing es = Some typical" and s: "op_min_sample pol \<le> length es"
    using assms(1) by (auto simp: plausible_len_def split: if_split_asm option.split_asm)
  define rejected where "rejected = snd (peel pol es (max (op_min_gap pol) (f64 (op_gap_factor pol * typical)))
      (f64 (op_sparse_factor pol * typical)) (rejection_budget (length es) (op_max_rejected_fraction pol)) (length es) 0)"
  have p: "peel pol es (max (op_min_gap pol) (f64 (op_gap_factor pol * typical)))
      (f64 (op_sparse_factor pol * typical)) (rejection_budget (length es) (op_max_rejected_fraction pol)) (length es) 0 =
      (kept, rejected)" "0 < rejected"
    using assms(1) t s by (auto simp: plausible_len_def rejected_def Let_def split: if_split_asm)
  have "kept \<le> length es \<and> rejected = 0 + (length es - kept) \<and>
      rejected \<le> rejection_budget (length es) (op_max_rejected_fraction pol) \<and>
      (kept < length es \<longrightarrow> 1 \<le> kept \<and> op_min_body pol \<le> kept \<and> oe_number (es ! (kept - 1)) < oe_number (es ! kept))"
    by (rule peel_keeps [OF p(1)]) (use assms(2) in auto)
  then show "op_min_sample pol \<le> length es" "1 \<le> kept" "op_min_body pol \<le> kept" "kept < length es"
    "length es - kept \<le> rejection_budget (length es) (op_max_rejected_fraction pol)"
    "oe_number (es ! (kept - 1)) < oe_number (es ! kept)"
    using p(2) s by auto
qed

lemma sorted_jump:
  assumes "sorted (map oe_number es)" "1 \<le> kept" "kept < length es"
    "oe_number (es ! (kept - 1)) < oe_number (es ! kept)" "a \<in> set (take kept es)" "b \<in> set (drop kept es)"
  shows "oe_number a < oe_number b"
proof -
  obtain i where i: "i < kept" "a = es ! i" using assms(3,5) by (auto simp: in_set_conv_nth)
  obtain k where "k < length (drop kept es)" "b = drop kept es ! k"
    using assms(6) by (metis in_set_conv_nth)
  then have k: "kept + k < length es" "b = es ! (kept + k)" by simp_all
  have "oe_number (es ! i) \<le> oe_number (es ! (kept - 1))"
    using sorted_nth_mono [OF assms(1), of i "kept - 1"] i(1) assms(2,3) by simp
  moreover have "oe_number (es ! kept) \<le> oe_number (es ! (kept + k))"
    using sorted_nth_mono [OF assms(1), of kept "kept + k"] k(1) assms(3) by simp
  ultimately show ?thesis using assms(4) i(2) k(2) by simp
qed

text \<open>C39: the judge of a listing is conservative. What it rejects are entries of the listing, each once and in
  order; never more than the budget of the policy (at least one, at most the allowed fraction); never
  from a listing below the sample size, and never so much that fewer than the minimum body of chapters
  is left; and every rejected number is larger than every number it keeps, so only the tail of a listing
  is ever cut. Entries that are not finite are neither judged nor rejected.
\<close>

theorem outliers_conservative:
  assumes "0 \<le> op_min_gap pol"
  shows "sorted (implausible_indices numbers pol) \<and> distinct (implausible_indices numbers pol) \<and>
    length (implausible_indices numbers pol) \<le>
      rejection_budget (finite_count numbers) (op_max_rejected_fraction pol) \<and>
    (implausible_indices numbers pol \<noteq> [] \<longrightarrow> op_min_sample pol \<le> finite_count numbers \<and>
       op_min_body pol + length (implausible_indices numbers pol) \<le> finite_count numbers) \<and>
    (\<forall>i\<in>set (implausible_indices numbers pol). i < length numbers \<and>
       (\<exists>x. numbers ! i = Some x \<and>
         (\<forall>k<length numbers. \<forall>y. k \<notin> set (implausible_indices numbers pol) \<longrightarrow> numbers ! k = Some y \<longrightarrow> y < x)))"
proof (cases "plausible_len (finite_entries numbers) pol")
  case None
  then show ?thesis by (simp add: implausible_indices_def)
next
  case (Some kept)
  let ?es = "finite_entries numbers"
  note k = plausible_len_keeps [OF Some assms] and f = finite_entries_facts [of numbers]
  have bad: "implausible_indices numbers pol = sort (map oe_index (drop kept ?es))"
    using Some by (simp add: implausible_indices_def)
  have len: "length ?es = finite_count numbers" using f(4) by (simp add: finite_count_def)
  have dis: "distinct (map oe_index (drop kept ?es))"
    using f(2) by (simp add: distinct_drop flip: drop_map)
  have entry: "i < length numbers \<and> (\<exists>x. numbers ! i = Some x \<and>
      (\<forall>m<length numbers. \<forall>y. m \<notin> set (implausible_indices numbers pol) \<longrightarrow> numbers ! m = Some y \<longrightarrow> y < x))"
    if i: "i \<in> set (implausible_indices numbers pol)" for i
  proof -
    obtain e where e: "e \<in> set (drop kept ?es)" "i = oe_index e" using i by (auto simp: bad)
    then obtain x where x: "e = \<lparr>oe_index = i, oe_number = x\<rparr>" "i < length numbers" "numbers ! i = Some x"
      using f(3) set_drop_subset [of kept ?es] by auto
    have "y < x" if m: "m < length numbers" "m \<notin> set (implausible_indices numbers pol)" "numbers ! m = Some y" for m y
    proof -
      have "\<lparr>oe_index = m, oe_number = y\<rparr> \<in> set ?es" using m f(3) by auto
      moreover have "\<lparr>oe_index = m, oe_number = y\<rparr> \<notin> set (drop kept ?es)" using m(2) by (force simp: bad)
      ultimately have "\<lparr>oe_index = m, oe_number = y\<rparr> \<in> set (take kept ?es)"
        by (metis UnE append_take_drop_id set_append)
      from sorted_jump [OF f(1) k(2,4,6) this e(1)] show ?thesis using x(1) by simp
    qed
    then show ?thesis using x by auto
  qed
  show ?thesis using dis k entry len by (auto simp: bad)
qed


definition stray_listing :: "rat option list" where
  "stray_listing = [Some 1, Some 180302, Some 2, Some 3, Some 4, Some 5, None, Some 6]"

lemma stray_entries:
  "finite_entries stray_listing =
     [\<lparr>oe_index = 0, oe_number = 1\<rparr>, \<lparr>oe_index = 2, oe_number = 2\<rparr>, \<lparr>oe_index = 3, oe_number = 3\<rparr>,
      \<lparr>oe_index = 4, oe_number = 4\<rparr>, \<lparr>oe_index = 5, oe_number = 5\<rparr>, \<lparr>oe_index = 7, oe_number = 6\<rparr>,
      \<lparr>oe_index = 1, oe_number = 180302\<rparr>]"
  by code_simp

lemma stray_spacing: "typical_spacing (finite_entries stray_listing) = Some 1"
  unfolding stray_entries by code_simp

lemma stray_len: "plausible_len (finite_entries stray_listing) default_outlier_policy = Some 6"
proof -
  have jump: "topmost_jump (finite_entries stray_listing) 20 = Some 6"
    "topmost_jump (take 6 (finite_entries stray_listing)) 20 = None"
    unfolding stray_entries by code_simp+
  have "f64 (f64 (of_nat 7) * (1 / 4)) = 7 / 4" by code_simp
  moreover have "\<lfloor>7 / 4 :: rat\<rfloor> = 1" by (simp add: floor_eq_iff)
  ultimately have budget: "rejection_budget 7 (1 / 4) = 1" by (simp only: rejection_budget_def)
  have num: "f64 (20 * 1) = 20" "max 10 20 = (20 :: rat)" "\<not> f64 (f64 (180302 - 6) / f64 (of_nat 1)) \<le> 20"
    by code_simp+
  have body: "op_min_body default_outlier_policy = 5" by (simp add: default_outlier_policy_def)
  have at: "oe_number (finite_entries stray_listing ! 6) = 180302" "oe_number (finite_entries stray_listing ! 5) = 6"
    "length (finite_entries stray_listing) = 7"
    unfolding stray_entries by simp_all
  have "peel default_outlier_policy (finite_entries stray_listing) 20 20 1 6 1 = (6, 1)"
    by (subst peel.simps) (simp add: jump)
  then have "peel default_outlier_policy (finite_entries stray_listing) 20 20 1 7 0 = (6, 1)"
    using num(3) body by (subst peel.simps) (simp add: jump at Let_def)
  then show ?thesis
    using num budget by (simp add: plausible_len_def stray_spacing at Let_def)
      (simp add: default_outlier_policy_def)
qed

theorem outliers_conservative_witness:
  "implausible_indices stray_listing default_outlier_policy = [1] \<and> 1 + op_min_body default_outlier_policy \<le> finite_count stray_listing"
proof -
  have "0 \<le> op_min_gap default_outlier_policy" by (simp add: default_outlier_policy_def)
  moreover have "implausible_indices stray_listing default_outlier_policy = [1]"
    unfolding implausible_indices_def stray_len Let_def option.case unfolding stray_entries by simp
  ultimately show ?thesis
    using outliers_conservative [of default_outlier_policy stray_listing] by simp
qed


section \<open>Which source decides a field\<close>

datatype metadata_source = From_AniList | From_Adapter

fun metadata_source_as_str :: "metadata_source \<Rightarrow> string" where
  "metadata_source_as_str From_AniList = ''anilist''"
| "metadata_source_as_str From_Adapter = ''adapter''"

datatype metadata_field =
  Field_Description | Field_Title | Field_Cover | Field_Content_Type | Field_Status | Field_Release_Year

record metadata_priority =
  mp_description :: "metadata_source list"
  mp_title :: "metadata_source list"
  mp_cover :: "metadata_source list"
  mp_content_type :: "metadata_source list"
  mp_status :: "metadata_source list"
  mp_release_year :: "metadata_source list"
  mp_default :: "metadata_source list"

definition default_order :: "metadata_source list" where
  "default_order = [From_AniList, From_Adapter]"

definition default_metadata_priority :: metadata_priority where
  "default_metadata_priority = \<lparr>mp_description = default_order, mp_title = default_order,
     mp_cover = default_order, mp_content_type = default_order, mp_status = default_order,
     mp_release_year = default_order, mp_default = default_order\<rparr>"

fun priority_list :: "metadata_priority \<Rightarrow> metadata_field \<Rightarrow> metadata_source list" where
  "priority_list p Field_Description = mp_description p"
| "priority_list p Field_Title = mp_title p"
| "priority_list p Field_Cover = mp_cover p"
| "priority_list p Field_Content_Type = mp_content_type p"
| "priority_list p Field_Status = mp_status p"
| "priority_list p Field_Release_Year = mp_release_year p"

definition order_for :: "metadata_priority \<Rightarrow> metadata_field \<Rightarrow> metadata_source list" where
  "order_for p f = (if priority_list p f = [] then mp_default p else priority_list p f)"

text \<open>The trait \<open>MetadataValue\<close>: when a value counts as an answer.\<close>

definition text_is_answer :: "utext \<Rightarrow> bool" where
  "text_is_answer s \<longleftrightarrow> trim s \<noteq> []"

definition content_type_is_answer :: "content_type \<Rightarrow> bool" where
  "content_type_is_answer c \<longleftrightarrow> c \<noteq> content_type.Unknown"

definition series_status_is_answer :: "series_status \<Rightarrow> bool" where
  "series_status_is_answer s \<longleftrightarrow> s \<noteq> series_status.Unknown"

definition year_is_answer :: "int \<Rightarrow> bool" where
  "year_is_answer y \<longleftrightarrow> True"

definition answers :: "('a \<Rightarrow> bool) \<Rightarrow> metadata_source \<times> 'a option \<Rightarrow> bool" where
  "answers is_answer c \<longleftrightarrow> (case snd c of None \<Rightarrow> False | Some v \<Rightarrow> is_answer v)"

fun resolve_in ::
  "('a \<Rightarrow> bool) \<Rightarrow> metadata_source list \<Rightarrow> (metadata_source \<times> 'a option) list \<Rightarrow>
     (metadata_source \<times> 'a option) option" where
  "resolve_in is_answer [] cs = None"
| "resolve_in is_answer (s # ss) cs =
     (case find (\<lambda>c. fst c = s \<and> answers is_answer c) cs of
        Some c \<Rightarrow> Some c
      | None \<Rightarrow> resolve_in is_answer ss cs)"

definition resolve_metadata ::
  "('a \<Rightarrow> bool) \<Rightarrow> metadata_priority \<Rightarrow> metadata_field \<Rightarrow> (metadata_source \<times> 'a option) list \<Rightarrow>
     (metadata_source \<times> 'a) option" where
  "resolve_metadata is_answer p f cs =
     map_option (\<lambda>c. (fst c, the (snd c)))
       (case resolve_in is_answer (order_for p f) cs of
          Some c \<Rightarrow> Some c
        | None \<Rightarrow> find (answers is_answer) cs)"

lemma resolve_in_None:
  "resolve_in is_answer ss cs = None \<longleftrightarrow> (\<forall>c\<in>set cs. answers is_answer c \<longrightarrow> fst c \<notin> set ss)"
  by (induction ss) (auto split: option.splits simp: find_None_iff dest: find_Some_mem)

lemma resolve_in_Some:
  assumes "resolve_in is_answer ss cs = Some c"
  shows "c \<in> set cs \<and> answers is_answer c \<and> fst c \<in> set ss \<and>
    (\<forall>d\<in>set cs. answers is_answer d \<longrightarrow> fst d \<notin> set (takeWhile (\<lambda>s. s \<noteq> fst c) ss)) \<and>
    find (\<lambda>d. fst d = fst c \<and> answers is_answer d) cs = Some c"
  using assms
proof (induction ss)
  case (Cons s ss)
  show ?case
  proof (cases "find (\<lambda>c. fst c = s \<and> answers is_answer c) cs")
    case None
    then have none: "\<forall>d\<in>set cs. answers is_answer d \<longrightarrow> fst d \<noteq> s" by (auto simp: find_None_iff)
    have "resolve_in is_answer ss cs = Some c" using Cons.prems None by simp
    note ih = Cons.IH [OF this]
    then have "fst c \<noteq> s" using none by auto
    then show ?thesis using ih none by auto
  next
    case (Some d)
    then have "d = c" using Cons.prems by simp
    then show ?thesis using Some find_Some_mem [OF Some] by auto
  qed
qed simp

text \<open>A field is decided by the priority of its sources. There is a value exactly when some source has an
  answer; the value is an answer the winning source gave, the first of that source; and no source with
  an answer stands before the winner in the order of the field, so a source that is not listed wins only
  when none of the listed ones has an answer.
\<close>

theorem resolve_metadata_by_priority:
  "case resolve_metadata is_answer p f cs of
     None \<Rightarrow> (\<forall>c\<in>set cs. \<not> answers is_answer c)
   | Some (s, v) \<Rightarrow> (s, Some v) \<in> set cs \<and> is_answer v \<and>
       (\<forall>c\<in>set cs. answers is_answer c \<longrightarrow> fst c \<notin> set (takeWhile (\<lambda>x. x \<noteq> s) (order_for p f))) \<and>
       find (\<lambda>c. fst c = s \<and> answers is_answer c) cs = Some (s, Some v)"
proof (cases "resolve_in is_answer (order_for p f) cs")
  case None
  note unlisted = None [unfolded resolve_in_None]
  show ?thesis
  proof (cases "find (answers is_answer) cs")
    case None
    then have "\<forall>c\<in>set cs. \<not> answers is_answer c" by (auto simp: find_None_iff)
    then show ?thesis
      using \<open>resolve_in is_answer (order_for p f) cs = None\<close> None by (simp add: resolve_metadata_def)
  next
    case (Some c)
    then have c: "c \<in> set cs" "answers is_answer c" using find_Some_mem by metis+
    obtain s v where sv: "c = (s, Some v)" "is_answer v"
      using c(2) by (cases c) (auto simp: answers_def split: option.splits)
    have "\<forall>c\<in>set cs. answers is_answer c \<longrightarrow> fst c \<notin> set (takeWhile (\<lambda>x. x \<noteq> s) (order_for p f))"
      using unlisted by (meson set_takeWhileD)
    moreover have "find (\<lambda>c. fst c = s \<and> answers is_answer c) cs = Some c"
      using Some sv(1) by (induction cs) (auto split: if_splits)
    ultimately show ?thesis
      using \<open>resolve_in is_answer (order_for p f) cs = None\<close> Some c sv
      by (simp add: resolve_metadata_def)
  qed
next
  case (Some c)
  note r = resolve_in_Some [OF Some]
  then obtain s v where sv: "c = (s, Some v)" "is_answer v"
    by (cases c) (auto simp: answers_def split: option.splits)
  then show ?thesis using r Some by (simp add: resolve_metadata_def)
qed

definition offered_titles :: "(metadata_source \<times> utext option) list" where
  "offered_titles = [(From_Adapter, Some [83]), (From_AniList, Some [32]), (From_AniList, Some [84])]"

theorem resolve_metadata_by_priority_witness:
  "resolve_metadata text_is_answer default_metadata_priority Field_Title offered_titles = Some (From_AniList, [84]) \<and>
   (From_AniList, Some [84]) \<in> set offered_titles"
proof -
  have "resolve_metadata text_is_answer default_metadata_priority Field_Title offered_titles = Some (From_AniList, [84])"
    by (simp add: resolve_metadata_def order_for_def default_metadata_priority_def default_order_def answers_def
        text_is_answer_def trim_def trim_start_def trim_end_def is_whitespace_def offered_titles_def)
  then show ?thesis
    using resolve_metadata_by_priority [where is_answer = text_is_answer and p = default_metadata_priority and
        f = Field_Title and cs = offered_titles] by simp
qed


section \<open>Terms a scrape may not intern, and terms that mark a series adult\<close>

text \<open>
  \<open>L\<close> is the lower-case form of a text, \<open>U\<close> the alphanumeric characters: the tables of the Unicode
  standard. The code's own dash is 45.
\<close>

fun slug_from :: "(nat \<Rightarrow> bool) \<Rightarrow> bool \<Rightarrow> utext \<Rightarrow> utext" where
  "slug_from U dash [] = []"
| "slug_from U dash (c # cs) =
     (if U c then c # slug_from U False cs
      else if \<not> dash then 45 # slug_from U True cs
      else slug_from U dash cs)"

definition trim_dashes :: "utext \<Rightarrow> utext" where
  "trim_dashes s = rev (dropWhile (\<lambda>c. c = 45) (rev s))"

definition slugify :: "(utext \<Rightarrow> utext) \<Rightarrow> (nat \<Rightarrow> bool) \<Rightarrow> utext \<Rightarrow> utext" where
  "slugify L U name = trim_dashes (slug_from U True (L name))"

definition default_blocked_terms :: "utext list" where
  "default_blocked_terms = map lit
     [''updating'', ''update'', ''updated'', ''unknown'', ''none'', ''null'', ''n-a'', ''na'', ''tbd'',
      ''coming-soon'', ''no-genre'', ''no-genres'', ''status'', ''genre'', ''genres'', ''alternative'',
      ''alternative-name'', ''alternative-names'', ''author'', ''authors'', ''artist'', ''artists'',
      ''type'', ''release'', ''released'', ''rating'', ''view'', ''views'', ''summary'', ''description'',
      ''tags'', ''chapter'', ''chapters'', ''manga'', ''manhwa'', ''manhua'', ''webtoon'', ''webtoons'',
      ''webcomic'', ''comic'', ''comics'', ''raw'', ''scan'', ''scans'', ''scanlation'']"

definition new_blocklist :: "(utext \<Rightarrow> utext) \<Rightarrow> (nat \<Rightarrow> bool) \<Rightarrow> utext list \<Rightarrow> utext set" where
  "new_blocklist L U terms = {s \<in> set (map (slugify L U) terms). s \<noteq> []}"

definition default_blocklist :: "(utext \<Rightarrow> utext) \<Rightarrow> (nat \<Rightarrow> bool) \<Rightarrow> utext set" where
  "default_blocklist L U = new_blocklist L U default_blocked_terms"

definition blocks_term :: "(utext \<Rightarrow> utext) \<Rightarrow> (nat \<Rightarrow> bool) \<Rightarrow> utext set \<Rightarrow> utext \<Rightarrow> bool" where
  "blocks_term L U slugs name \<longleftrightarrow> slugs \<noteq> {} \<and> slugify L U name \<in> slugs"

definition default_adult_tags :: "utext list" where
  "default_adult_tags = map lit
     [''adult'', ''hentai'', ''smut'', ''erotica'', ''erotic'', ''pornographic'', ''porn'', ''nsfw'', ''18'',
      ''18-plus'', ''r18'', ''r-18'']"

definition adult_with_extra :: "(utext \<Rightarrow> utext) \<Rightarrow> (nat \<Rightarrow> bool) \<Rightarrow> utext list \<Rightarrow> utext set" where
  "adult_with_extra L U extra =
     {s \<in> set (default_adult_tags @ map (slugify L U) extra). s \<noteq> []}"

definition adult_classifies :: "(utext \<Rightarrow> utext) \<Rightarrow> (nat \<Rightarrow> bool) \<Rightarrow> utext set \<Rightarrow> utext \<Rightarrow> bool" where
  "adult_classifies L U slugs name \<longleftrightarrow> slugify L U name \<in> slugs"

definition classifies_any :: "(utext \<Rightarrow> utext) \<Rightarrow> (nat \<Rightarrow> bool) \<Rightarrow> utext set \<Rightarrow> utext list \<Rightarrow> bool" where
  "classifies_any L U slugs names \<longleftrightarrow> list_ex (adult_classifies L U slugs) names"

text \<open>What a slug is: the maximal runs of alphanumeric characters, joined by single dashes.\<close>

fun runs_from :: "(nat \<Rightarrow> bool) \<Rightarrow> utext \<Rightarrow> utext \<Rightarrow> utext list" where
  "runs_from U cur [] = (if cur = [] then [] else [cur])"
| "runs_from U cur (c # cs) =
     (if U c then runs_from U (cur @ [c]) cs
      else if cur = [] then runs_from U [] cs else cur # runs_from U [] cs)"

fun join_dash :: "utext list \<Rightarrow> utext" where
  "join_dash [] = []"
| "join_dash [r] = r"
| "join_dash (r # rs) = r @ [45] @ join_dash rs"

lemma trim_dashes_snoc: "trim_dashes (s @ [45]) = trim_dashes s"
  by (simp add: trim_dashes_def)

lemma trim_dashes_kept: "s \<noteq> [] \<Longrightarrow> last s \<noteq> 45 \<Longrightarrow> trim_dashes s = s"
  by (cases s rule: rev_cases) (simp_all add: trim_dashes_def)

lemma trim_dashes_append:
  "trim_dashes t \<noteq> [] \<Longrightarrow> trim_dashes (s @ t) = s @ trim_dashes t"
  by (auto simp: trim_dashes_def dropWhile_append)

lemma runs_from_nonempty: "r \<in> set (runs_from U cur cs) \<Longrightarrow> r \<noteq> []"
  by (induction U cur cs rule: runs_from.induct) (auto split: if_splits)

lemma join_dash_nonempty: "(\<And>r. r \<in> set rs \<Longrightarrow> r \<noteq> []) \<Longrightarrow> join_dash rs = [] \<longleftrightarrow> rs = []"
  by (cases rs rule: join_dash.cases) auto

lemma slug_runs:
  assumes "\<not> U 45" "\<forall>c\<in>set cur. U c"
  shows "trim_dashes (cur @ slug_from U (cur = []) cs) = join_dash (runs_from U cur cs)"
  using assms(2)
proof (induction cs arbitrary: cur)
  case Nil
  show ?case
  proof (cases "cur = []")
    case True
    then show ?thesis by (simp add: trim_dashes_def)
  next
    case False
    then have "trim_dashes cur = cur"
      using assms(1) Nil by (intro trim_dashes_kept) (auto dest: last_in_set)
    then show ?thesis using False by simp
  qed
next
  case (Cons c cs)
  show ?case
  proof (cases "U c")
    case True
    then show ?thesis using Cons.IH [of "cur @ [c]"] Cons.prems by simp
  next
    case off: False
    show ?thesis
    proof (cases "cur = []")
      case True
      then show ?thesis using off Cons.IH [of "[]"] by simp
    next
      case False
      have ih: "trim_dashes (slug_from U True cs) = join_dash (runs_from U [] cs)"
        using Cons.IH [of "[]"] by simp
      show ?thesis
      proof (cases "runs_from U [] cs")
        case Nil
        then have "trim_dashes (slug_from U True cs) = []" using ih by simp
        then have "trim_dashes (cur @ 45 # slug_from U True cs) = trim_dashes cur"
          by (auto simp: trim_dashes_def dropWhile_append dropWhile_eq_Nil_conv)
        also have "\<dots> = cur"
          using False assms(1) Cons.prems by (intro trim_dashes_kept) (auto dest: last_in_set)
        finally show ?thesis using off False Nil by simp
      next
        case (Cons r rs)
        then have "trim_dashes (slug_from U True cs) \<noteq> []"
          using ih join_dash_nonempty [of "runs_from U [] cs"] runs_from_nonempty [of _ U "[]" cs] by auto
        then have "trim_dashes ((cur @ [45]) @ slug_from U True cs) = (cur @ [45]) @ join_dash (runs_from U [] cs)"
          unfolding ih [symmetric] by (intro trim_dashes_append) simp
        then show ?thesis using off False Cons by simp
      qed
    qed
  qed
qed

theorem slugify_runs:
  assumes "\<not> U 45"
  shows "slugify L U name = join_dash (runs_from U [] (L name))"
  using slug_runs [of U "[]" "L name"] assms by (simp add: slugify_def)

text \<open>The comment on \<open>with_extra\<close> takes these for one term.\<close>

lemma r18_is_two_terms:
  "slugify ascii_lowercase is_ascii_alphanumeric (lit ''R-18'') \<noteq> slugify ascii_lowercase is_ascii_alphanumeric (lit ''r18'')"
  by code_simp

text \<open>The shipped terms cannot be taken away, and an addition means every spelling with its slug.\<close>

theorem adult_terms_only_grow:
  "adult_classifies L U (adult_with_extra L U extra) name \<longleftrightarrow>
     slugify L U name \<noteq> [] \<and>
     (slugify L U name \<in> set default_adult_tags \<or> slugify L U name \<in> slugify L U ` set extra)"
  by (auto simp: adult_classifies_def adult_with_extra_def)

theorem blocklist_matches_slug:
  "blocks_term L U (new_blocklist L U terms) name \<longleftrightarrow>
     slugify L U name \<noteq> [] \<and> slugify L U name \<in> slugify L U ` set terms"
  by (auto simp: blocks_term_def new_blocklist_def)

end
