(* ===== verification/Access_Policy.thy ===== *)
theory Access_Policy
  imports Domain_Enums Title_Text "HOL-Library.Multiset"
begin

text \<open>
  Who may do what, and what is switched on: permissions (\<open>domain/permissions.rs\<close>), features
  (\<open>domain/features.rs\<close>) with the gate that resolves and enforces them (\<open>service/flags.rs\<close>), their
  stored overrides (\<open>db/repo/flags.rs\<close>) and the console's handlers (\<open>api/admin/flags.rs\<close>), and a
  reader's notification preferences (\<open>domain/notifications.rs\<close>).
\<close>

section \<open>Tokens\<close>

lemma find_codec:
  assumes complete: "\<And>x. x \<in> set variants" and tokens: "distinct (map enc variants)"
    and dec: "\<And>s. dec s = (case find (\<lambda>v. enc v = s) variants of None \<Rightarrow> Err (e s) | Some v \<Rightarrow> Ok v)"
  shows "token_codec enc dec variants"
proof
  note base = str_enum_codec [of variants enc "[]", OF complete tokens]
  fix x
  show "x \<in> set variants" by (rule complete)
  have "str_enum_from_str [] enc variants (enc x) = Ok x" by (rule token_codec.dec_enc [OF base])
  then show "dec (enc x) = Ok x" by (auto simp: dec str_enum_from_str_def split: option.splits)
next
  fix s x
  assume "dec s = Ok x"
  then show "enc x = s" by (auto simp: dec dest: find_Some_mem split: option.splits)
qed

section \<open>Permissions\<close>

datatype permission =
    ProvidersRead | ProvidersWrite | ProvidersCreate | ProvidersDelete | ProvidersState |
    ProvidersTest | ScansRead | ScansRun | MergeRead | MergeWrite | MergeAudit | MergeRevert |
    CatalogueRead | CatalogueDelete | RecsysRead | RecsysWrite | SyncAdminRead | SyncAdminWrite |
    SyncAudit | SyncRevert | UsersRead | UsersWrite | UsersPermissions | UsersDelete |
    UsersSessions | PrivacyRead | PrivacyWrite | PrivacyExport | SystemStats | AuditRead |
    FlagsRead | FlagsWrite | SuperUser

datatype permission_group =
    Group_Providers | Group_Scanning | Group_Catalogue | Group_Sync | Group_Users |
    Group_Privacy | Group_Observability | Group_Flags

fun permission_as_str :: "permission \<Rightarrow> string" where
  "permission_as_str ProvidersRead = ''providers.read''"
| "permission_as_str ProvidersWrite = ''providers.write''"
| "permission_as_str ProvidersCreate = ''providers.create''"
| "permission_as_str ProvidersDelete = ''providers.delete''"
| "permission_as_str ProvidersState = ''providers.state''"
| "permission_as_str ProvidersTest = ''providers.test''"
| "permission_as_str ScansRead = ''scans.read''"
| "permission_as_str ScansRun = ''scans.run''"
| "permission_as_str MergeRead = ''merge.read''"
| "permission_as_str MergeWrite = ''merge.write''"
| "permission_as_str MergeAudit = ''merge.audit''"
| "permission_as_str MergeRevert = ''merge.revert''"
| "permission_as_str CatalogueRead = ''catalogue.read''"
| "permission_as_str CatalogueDelete = ''catalogue.delete''"
| "permission_as_str RecsysRead = ''recsys.read''"
| "permission_as_str RecsysWrite = ''recsys.write''"
| "permission_as_str SyncAdminRead = ''sync.admin.read''"
| "permission_as_str SyncAdminWrite = ''sync.admin.write''"
| "permission_as_str SyncAudit = ''sync.audit''"
| "permission_as_str SyncRevert = ''sync.revert''"
| "permission_as_str UsersRead = ''users.read''"
| "permission_as_str UsersWrite = ''users.write''"
| "permission_as_str UsersPermissions = ''users.permissions''"
| "permission_as_str UsersDelete = ''users.delete''"
| "permission_as_str UsersSessions = ''users.sessions''"
| "permission_as_str PrivacyRead = ''privacy.read''"
| "permission_as_str PrivacyWrite = ''privacy.write''"
| "permission_as_str PrivacyExport = ''privacy.export''"
| "permission_as_str SystemStats = ''system.stats''"
| "permission_as_str AuditRead = ''audit.read''"
| "permission_as_str FlagsRead = ''flags.read''"
| "permission_as_str FlagsWrite = ''flags.write''"
| "permission_as_str SuperUser = ''system.superuser''"

definition permission_all :: "permission list" where
  [codec_simps]: "permission_all =
     [ProvidersRead, ProvidersWrite, ProvidersCreate, ProvidersDelete, ProvidersState,
      ProvidersTest, ScansRead, ScansRun, MergeRead, MergeWrite, MergeAudit, MergeRevert,
      CatalogueRead, CatalogueDelete, RecsysRead, RecsysWrite, SyncAdminRead, SyncAdminWrite,
      SyncAudit, SyncRevert, UsersRead, UsersWrite, UsersPermissions, UsersDelete, UsersSessions,
      PrivacyRead, PrivacyWrite, PrivacyExport, SystemStats, AuditRead, FlagsRead, FlagsWrite,
      SuperUser]"

definition is_super_permission :: "permission \<Rightarrow> bool" where
  "is_super_permission p \<longleftrightarrow> p = SuperUser"

definition grantable :: "permission list" where
  "grantable = filter (\<lambda>p. \<not> is_super_permission p) permission_all"

definition is_mutating :: "permission \<Rightarrow> bool" where
  "is_mutating p \<longleftrightarrow> p \<notin>
     {ProvidersRead, ProvidersTest, ScansRead, MergeRead, MergeAudit, CatalogueRead, RecsysRead,
      SyncAdminRead, SyncAudit, UsersRead, PrivacyRead, SystemStats, AuditRead, FlagsRead}"

fun permission_group_of :: "permission \<Rightarrow> permission_group" where
  "permission_group_of ProvidersRead = Group_Providers"
| "permission_group_of ProvidersWrite = Group_Providers"
| "permission_group_of ProvidersCreate = Group_Providers"
| "permission_group_of ProvidersDelete = Group_Providers"
| "permission_group_of ProvidersState = Group_Providers"
| "permission_group_of ProvidersTest = Group_Providers"
| "permission_group_of ScansRead = Group_Scanning"
| "permission_group_of ScansRun = Group_Scanning"
| "permission_group_of MergeRead = Group_Catalogue"
| "permission_group_of MergeWrite = Group_Catalogue"
| "permission_group_of MergeAudit = Group_Catalogue"
| "permission_group_of MergeRevert = Group_Catalogue"
| "permission_group_of CatalogueRead = Group_Catalogue"
| "permission_group_of CatalogueDelete = Group_Catalogue"
| "permission_group_of RecsysRead = Group_Catalogue"
| "permission_group_of RecsysWrite = Group_Catalogue"
| "permission_group_of SyncAdminRead = Group_Sync"
| "permission_group_of SyncAdminWrite = Group_Sync"
| "permission_group_of SyncAudit = Group_Sync"
| "permission_group_of SyncRevert = Group_Sync"
| "permission_group_of UsersRead = Group_Users"
| "permission_group_of UsersWrite = Group_Users"
| "permission_group_of UsersPermissions = Group_Users"
| "permission_group_of UsersDelete = Group_Users"
| "permission_group_of UsersSessions = Group_Users"
| "permission_group_of PrivacyRead = Group_Privacy"
| "permission_group_of PrivacyWrite = Group_Privacy"
| "permission_group_of PrivacyExport = Group_Privacy"
| "permission_group_of SystemStats = Group_Observability"
| "permission_group_of AuditRead = Group_Observability"
| "permission_group_of FlagsRead = Group_Flags"
| "permission_group_of FlagsWrite = Group_Flags"
| "permission_group_of SuperUser = Group_Users"

fun permission_group_as_str :: "permission_group \<Rightarrow> string" where
  "permission_group_as_str Group_Providers = ''providers''"
| "permission_group_as_str Group_Scanning = ''scanning''"
| "permission_group_as_str Group_Catalogue = ''catalogue''"
| "permission_group_as_str Group_Sync = ''sync''"
| "permission_group_as_str Group_Users = ''users''"
| "permission_group_as_str Group_Privacy = ''privacy''"
| "permission_group_as_str Group_Observability = ''observability''"
| "permission_group_as_str Group_Flags = ''flags''"

definition permission_from_str :: "string \<Rightarrow> (string, permission) result" where
  "permission_from_str s =
     (case find (\<lambda>p. permission_as_str p = s) permission_all of None \<Rightarrow> Err s | Some p \<Rightarrow> Ok p)"

datatype permission_preset = Preset_Reader | Preset_Operator | Preset_Administrator

fun preset_as_str :: "permission_preset \<Rightarrow> string" where
  "preset_as_str Preset_Reader = ''reader''"
| "preset_as_str Preset_Operator = ''operator''"
| "preset_as_str Preset_Administrator = ''administrator''"

fun preset_permissions :: "permission_preset \<Rightarrow> permission list" where
  "preset_permissions Preset_Reader = []"
| "preset_permissions Preset_Operator =
     [ProvidersRead, ProvidersWrite, ProvidersState, ProvidersTest, ScansRead, ScansRun,
      MergeRead, MergeWrite, MergeAudit, CatalogueRead, RecsysRead, SyncAdminRead, SystemStats,
      AuditRead, FlagsRead]"
| "preset_permissions Preset_Administrator = grantable"

text \<open>
  What a principal holds. \<open>BTreeSet\<close> lists its members in declaration order.
\<close>

definition from_tokens :: "string list \<Rightarrow> permission set \<times> string list" where
  "from_tokens tokens =
     ({p. \<exists>t\<in>set tokens. permission_from_str t = Ok p},
      filter (\<lambda>t. \<not> is_ok (permission_from_str t)) tokens)"

definition is_super_user :: "permission set \<Rightarrow> bool" where
  "is_super_user ps \<longleftrightarrow> SuperUser \<in> ps"

definition has_permission :: "permission set \<Rightarrow> permission \<Rightarrow> bool" where
  "has_permission ps p \<longleftrightarrow> is_super_user ps \<or> p \<in> ps"

definition has_all :: "permission set \<Rightarrow> permission list \<Rightarrow> bool" where
  "has_all ps qs \<longleftrightarrow> list_all (has_permission ps) qs"

definition has_any :: "permission set \<Rightarrow> permission list \<Rightarrow> bool" where
  "has_any ps qs \<longleftrightarrow> list_ex (has_permission ps) qs"

definition permission_tokens :: "permission set \<Rightarrow> string list" where
  "permission_tokens ps = map permission_as_str (filter (\<lambda>p. p \<in> ps) permission_all)"

interpretation permission_codec:
  token_codec permission_as_str permission_from_str permission_all
  by (rule find_codec [where e = id], case_tac x) (simp_all add: codec_simps permission_from_str_def)

lemma mem_permission_all [simp]: "p \<in> set permission_all"
  by (rule permission_codec.complete)

text \<open>Stored grants survive being written and read; a token of another build only narrows them.\<close>

theorem grants_round_trip: "from_tokens (permission_tokens ps) = (ps, [])"
  by (auto simp: from_tokens_def permission_tokens_def permission_codec.dec_enc filter_empty_conv)

theorem stored_grants_decide:
  "has_permission (fst (from_tokens tokens)) p \<longleftrightarrow>
     permission_as_str p \<in> set tokens \<or> ''system.superuser'' \<in> set tokens"
proof -
  have held: "q \<in> fst (from_tokens tokens) \<longleftrightarrow> permission_as_str q \<in> set tokens" for q
    by (auto simp: from_tokens_def permission_codec.dec_ok_iff)
  show ?thesis
    unfolding has_permission_def is_super_user_def held by auto
qed

text \<open>Nothing that hands out permissions can hand out the one that answers every check.\<close>

theorem presets_stay_grantable:
  "set (preset_permissions q) \<subseteq> set grantable \<and> \<not> is_super_user (set (preset_permissions q)) \<and>
   set grantable = UNIV - {SuperUser} \<and> is_mutating SuperUser"
proof -
  have "set grantable = UNIV - {SuperUser}" by (auto simp: grantable_def is_super_permission_def)
  then show ?thesis by (cases q) (auto simp: is_super_user_def is_mutating_def)
qed

section \<open>Features\<close>

datatype feature =
    CatalogueBrowse | CatalogueSearch | CatalogueRecommendations | CatalogueAdultContent |
    AccountsRequired | AccountsRegistration | AccountsPasswordReset | AccountsEmailVerification |
    AccountsProfile | AccountsSessions | AccountsPasskeys | AccountsMfa | AccountsMfaRequired |
    PrivacySelfExport | PrivacySelfErasure | PrivacyRequests | TrackingWatchlist |
    TrackingProgress | TrackingFeed | TrackingStats | NotificationsInApp | NotificationsLive |
    NotificationsPreferences | NotificationsEmail | NotificationsWebhook | NotificationsDiscord |
    SyncExternal | SyncAutoPush | SyncScheduledPull | SyncConflictReview | SyncHistory |
    ScanningScheduler | ScanningManual | ScanningFull | ScanningMergeQueue | ScanningAutoMerge |
    AdminCatalogue | AdminProviders | AdminAdapterTest | AdminSync | AdminAudit | AdminStats |
    AdminUsers | AdminFeatureFlags | AdminRecommendations

fun feature_key :: "feature \<Rightarrow> string" where
  "feature_key CatalogueBrowse = ''catalogue.browse''"
| "feature_key CatalogueSearch = ''catalogue.search''"
| "feature_key CatalogueRecommendations = ''catalogue.recommendations''"
| "feature_key CatalogueAdultContent = ''catalogue.adult_content''"
| "feature_key AccountsRequired = ''accounts.required''"
| "feature_key AccountsRegistration = ''accounts.registration''"
| "feature_key AccountsPasswordReset = ''accounts.password_reset''"
| "feature_key AccountsEmailVerification = ''accounts.email_verification''"
| "feature_key AccountsProfile = ''accounts.profile''"
| "feature_key AccountsSessions = ''accounts.sessions''"
| "feature_key AccountsPasskeys = ''accounts.passkeys''"
| "feature_key AccountsMfa = ''accounts.mfa''"
| "feature_key AccountsMfaRequired = ''accounts.mfa_required''"
| "feature_key PrivacySelfExport = ''privacy.self_export''"
| "feature_key PrivacySelfErasure = ''privacy.self_erasure''"
| "feature_key PrivacyRequests = ''privacy.requests''"
| "feature_key TrackingWatchlist = ''tracking.watchlist''"
| "feature_key TrackingProgress = ''tracking.progress''"
| "feature_key TrackingFeed = ''tracking.feed''"
| "feature_key TrackingStats = ''tracking.stats''"
| "feature_key NotificationsInApp = ''notifications.in_app''"
| "feature_key NotificationsLive = ''notifications.live''"
| "feature_key NotificationsPreferences = ''notifications.preferences''"
| "feature_key NotificationsEmail = ''notifications.email''"
| "feature_key NotificationsWebhook = ''notifications.webhook''"
| "feature_key NotificationsDiscord = ''notifications.discord''"
| "feature_key SyncExternal = ''sync.external''"
| "feature_key SyncAutoPush = ''sync.auto_push''"
| "feature_key SyncScheduledPull = ''sync.scheduled_pull''"
| "feature_key SyncConflictReview = ''sync.conflict_review''"
| "feature_key SyncHistory = ''sync.history''"
| "feature_key ScanningScheduler = ''scanning.scheduler''"
| "feature_key ScanningManual = ''scanning.manual''"
| "feature_key ScanningFull = ''scanning.full''"
| "feature_key ScanningMergeQueue = ''scanning.merge_queue''"
| "feature_key ScanningAutoMerge = ''scanning.auto_merge''"
| "feature_key AdminCatalogue = ''admin.catalogue''"
| "feature_key AdminProviders = ''admin.providers''"
| "feature_key AdminAdapterTest = ''admin.adapter_test''"
| "feature_key AdminSync = ''admin.sync''"
| "feature_key AdminAudit = ''admin.audit''"
| "feature_key AdminStats = ''admin.stats''"
| "feature_key AdminUsers = ''admin.users''"
| "feature_key AdminFeatureFlags = ''admin.feature_flags''"
| "feature_key AdminRecommendations = ''admin.recommendations''"

definition feature_all :: "feature list" where
  [codec_simps]: "feature_all =
     [CatalogueBrowse, CatalogueSearch, CatalogueRecommendations, CatalogueAdultContent,
      AccountsRequired, AccountsRegistration, AccountsPasswordReset, AccountsEmailVerification,
      AccountsProfile, AccountsSessions, AccountsPasskeys, AccountsMfa, AccountsMfaRequired,
      PrivacySelfExport, PrivacySelfErasure, PrivacyRequests, TrackingWatchlist,
      TrackingProgress, TrackingFeed, TrackingStats, NotificationsInApp, NotificationsLive,
      NotificationsPreferences, NotificationsEmail, NotificationsWebhook, NotificationsDiscord,
      SyncExternal, SyncAutoPush, SyncScheduledPull, SyncConflictReview, SyncHistory,
      ScanningScheduler, ScanningManual, ScanningFull, ScanningMergeQueue, ScanningAutoMerge,
      AdminCatalogue, AdminProviders, AdminAdapterTest, AdminSync, AdminAudit, AdminStats,
      AdminUsers, AdminFeatureFlags, AdminRecommendations]"

definition default_enabled :: "feature \<Rightarrow> bool" where
  "default_enabled f \<longleftrightarrow> f \<notin>
     {NotificationsWebhook, NotificationsDiscord, CatalogueAdultContent, AccountsMfaRequired,
      AccountsRequired}"

definition is_locked :: "feature \<Rightarrow> bool" where
  "is_locked f \<longleftrightarrow> f \<in> {AdminFeatureFlags, AdminUsers}"

datatype feature_group =
    Features_Catalogue | Features_Accounts | Features_Privacy | Features_Tracking |
    Features_Notifications | Features_Sync | Features_Scanning | Features_Operations

fun feature_group_of :: "feature \<Rightarrow> feature_group" where
  "feature_group_of CatalogueBrowse = Features_Catalogue"
| "feature_group_of CatalogueSearch = Features_Catalogue"
| "feature_group_of CatalogueRecommendations = Features_Catalogue"
| "feature_group_of CatalogueAdultContent = Features_Catalogue"
| "feature_group_of AccountsRequired = Features_Accounts"
| "feature_group_of AccountsRegistration = Features_Accounts"
| "feature_group_of AccountsPasswordReset = Features_Accounts"
| "feature_group_of AccountsEmailVerification = Features_Accounts"
| "feature_group_of AccountsProfile = Features_Accounts"
| "feature_group_of AccountsSessions = Features_Accounts"
| "feature_group_of AccountsPasskeys = Features_Accounts"
| "feature_group_of AccountsMfa = Features_Accounts"
| "feature_group_of AccountsMfaRequired = Features_Accounts"
| "feature_group_of PrivacySelfExport = Features_Privacy"
| "feature_group_of PrivacySelfErasure = Features_Privacy"
| "feature_group_of PrivacyRequests = Features_Privacy"
| "feature_group_of TrackingWatchlist = Features_Tracking"
| "feature_group_of TrackingProgress = Features_Tracking"
| "feature_group_of TrackingFeed = Features_Tracking"
| "feature_group_of TrackingStats = Features_Tracking"
| "feature_group_of NotificationsInApp = Features_Notifications"
| "feature_group_of NotificationsLive = Features_Notifications"
| "feature_group_of NotificationsPreferences = Features_Notifications"
| "feature_group_of NotificationsEmail = Features_Notifications"
| "feature_group_of NotificationsWebhook = Features_Notifications"
| "feature_group_of NotificationsDiscord = Features_Notifications"
| "feature_group_of SyncExternal = Features_Sync"
| "feature_group_of SyncAutoPush = Features_Sync"
| "feature_group_of SyncScheduledPull = Features_Sync"
| "feature_group_of SyncConflictReview = Features_Sync"
| "feature_group_of SyncHistory = Features_Sync"
| "feature_group_of ScanningScheduler = Features_Scanning"
| "feature_group_of ScanningManual = Features_Scanning"
| "feature_group_of ScanningFull = Features_Scanning"
| "feature_group_of ScanningMergeQueue = Features_Scanning"
| "feature_group_of ScanningAutoMerge = Features_Scanning"
| "feature_group_of AdminCatalogue = Features_Operations"
| "feature_group_of AdminProviders = Features_Operations"
| "feature_group_of AdminAdapterTest = Features_Operations"
| "feature_group_of AdminSync = Features_Operations"
| "feature_group_of AdminAudit = Features_Operations"
| "feature_group_of AdminStats = Features_Operations"
| "feature_group_of AdminUsers = Features_Operations"
| "feature_group_of AdminFeatureFlags = Features_Operations"
| "feature_group_of AdminRecommendations = Features_Operations"

definition feature_from_str :: "string \<Rightarrow> (string, feature) result" where
  "feature_from_str s =
     (case find (\<lambda>f. feature_key f = s) feature_all of None \<Rightarrow> Err s | Some f \<Rightarrow> Ok f)"

interpretation feature_codec:
  token_codec feature_key feature_from_str feature_all
  by (rule find_codec [where e = id], case_tac x) (simp_all add: codec_simps feature_from_str_def)

section \<open>The gate\<close>

definition snapshot_defaults :: "feature set" where
  "snapshot_defaults = {f \<in> set feature_all. default_enabled f}"

definition apply_override :: "string \<times> bool \<Rightarrow> feature set \<Rightarrow> feature set" where
  "apply_override o' snapshot =
     (case feature_from_str (fst o') of
        Inl _ \<Rightarrow> snapshot
      | Inr f \<Rightarrow>
          if is_locked f then snapshot
          else if snd o' then insert f snapshot else snapshot - {f})"

definition resolve_snapshot :: "(string \<times> bool) list \<Rightarrow> feature set" where
  "resolve_snapshot overrides = fold apply_override overrides snapshot_defaults"

text \<open>A refresh: what the source answers, or its failure.\<close>

definition refresh_gate :: "(string, (string \<times> bool) list) result \<Rightarrow> feature set \<Rightarrow> feature set" where
  "refresh_gate answer snapshot =
     (case answer of Inl _ \<Rightarrow> snapshot | Inr overrides \<Rightarrow> resolve_snapshot overrides)"

definition enabled_features :: "feature set \<Rightarrow> feature list" where
  "enabled_features snapshot = filter (\<lambda>f. f \<in> snapshot) feature_all"

section \<open>The stored overrides and the console\<close>

record override_row =
  or_feature_key :: string
  or_enabled :: bool
  or_note :: "utext option"
  or_updated_by :: nat

definition list_overrides :: "override_row list \<Rightarrow> override_row list" where
  "list_overrides rows = sort_key or_feature_key rows"

definition effective_overrides :: "override_row list \<Rightarrow> (string \<times> bool) list" where
  "effective_overrides rows = map (\<lambda>r. (or_feature_key r, or_enabled r)) rows"

definition set_override :: "string \<Rightarrow> bool \<Rightarrow> utext option \<Rightarrow> nat \<Rightarrow> override_row list \<Rightarrow> override_row list" where
  "set_override key on note who rows =
     (let row = \<lparr>or_feature_key = key, or_enabled = on, or_note = note, or_updated_by = who\<rparr>
      in if key \<in> or_feature_key ` set rows
         then map (\<lambda>r. if or_feature_key r = key then row else r) rows
         else rows @ [row])"

definition clear_override :: "string \<Rightarrow> override_row list \<Rightarrow> bool \<times> override_row list" where
  "clear_override key rows =
     (key \<in> or_feature_key ` set rows, filter (\<lambda>r. or_feature_key r \<noteq> key) rows)"

datatype flag_error = Unknown_Feature string | Feature_Locked feature

definition parse_feature :: "string \<Rightarrow> (flag_error, feature) result" where
  "parse_feature key = (case feature_from_str key of Inl e \<Rightarrow> Err (Unknown_Feature e) | Inr f \<Rightarrow> Ok f)"

definition clean_note :: "utext option \<Rightarrow> utext option" where
  "clean_note note =
     (case note of None \<Rightarrow> None | Some s \<Rightarrow> if trim s = [] then None else Some (trim s))"

text \<open>The handlers, after the check of the caller's permission; the refresh at the end may fail.\<close>

definition set_flag ::
  "bool \<Rightarrow> string \<Rightarrow> bool \<Rightarrow> utext option \<Rightarrow> nat \<Rightarrow> override_row list \<times> feature set \<Rightarrow>
     (flag_error, unit) result \<times> override_row list \<times> feature set" where
  "set_flag reachable key on note who st =
     (case parse_feature key of
        Inl e \<Rightarrow> (Err e, st)
      | Inr f \<Rightarrow>
          if is_locked f \<and> \<not> on then (Err (Feature_Locked f), st)
          else (let rows = set_override (feature_key f) on (clean_note note) who (fst st)
                in (Ok (), rows,
                    refresh_gate (if reachable then Ok (effective_overrides rows) else Err ''unreachable'') (snd st))))"

definition reset_flag ::
  "bool \<Rightarrow> string \<Rightarrow> override_row list \<times> feature set \<Rightarrow>
     (flag_error, bool) result \<times> override_row list \<times> feature set" where
  "reset_flag reachable key st =
     (case parse_feature key of
        Inl e \<Rightarrow> (Err e, st)
      | Inr f \<Rightarrow>
          (let cleared = clear_override (feature_key f) (fst st)
           in (Ok (fst cleared), snd cleared,
               refresh_gate (if reachable then Ok (effective_overrides (snd cleared)) else Err ''unreachable'') (snd st))))"

text \<open>The columns that are only shown (group, title, description, note, author, time) are left out.\<close>

record flag_view =
  fv_key :: feature
  fv_enabled :: bool
  fv_default_enabled :: bool
  fv_overridden :: bool
  fv_locked :: bool

definition flag_view_of :: "override_row list \<Rightarrow> feature \<Rightarrow> flag_view" where
  "flag_view_of rows f =
     (let stored = map_of (rev (map (\<lambda>r. (or_feature_key r, r)) (list_overrides rows))) (feature_key f)
      in \<lparr>fv_key = f,
          fv_enabled = (if is_locked f then default_enabled f
                        else case stored of None \<Rightarrow> default_enabled f | Some r \<Rightarrow> or_enabled r),
          fv_default_enabled = default_enabled f,
          fv_overridden = (stored \<noteq> None \<and> \<not> is_locked f),
          fv_locked = is_locked f\<rparr>)"

definition flag_views :: "override_row list \<Rightarrow> flag_view list" where
  "flag_views rows = map (flag_view_of rows) feature_all"

lemma map_of_key: "map_of xs k = map_of (filter (\<lambda>p. fst p = k) xs) k"
  by (induction xs) auto

lemma stored_row:
  "map_of (rev (map (\<lambda>r. (or_feature_key r, r)) (list_overrides rows))) k =
     map_of (rev (map (\<lambda>r. (or_feature_key r, r)) rows)) k"
proof -
  have part: "filter (\<lambda>p. fst p = k) (rev (map (\<lambda>r. (or_feature_key r, r)) rs)) =
      rev (map (\<lambda>r. (or_feature_key r, r)) (filter (\<lambda>r. or_feature_key r = k) rs))" for rs
    by (simp add: filter_map comp_def flip: rev_filter)
  have "map_of (rev (map (\<lambda>r. (or_feature_key r, r)) rs)) k =
      map_of (rev (map (\<lambda>r. (or_feature_key r, r)) (filter (\<lambda>r. or_feature_key r = k) rs))) k" for rs
    by (subst map_of_key) (simp only: part)
  from this [of "sort_key or_feature_key rows"] this [of rows] show ?thesis
    by (simp only: list_overrides_def sort_key_stable)
qed

lemma default_mem: "f \<in> snapshot_defaults \<longleftrightarrow> default_enabled f"
  by (simp add: snapshot_defaults_def feature_codec.complete)

lemma locked_default: "is_locked f \<Longrightarrow> default_enabled f"
  by (auto simp: is_locked_def default_enabled_def)

lemma apply_override_other:
  "fst x \<noteq> feature_key f \<or> is_locked f \<Longrightarrow> f \<in> apply_override x s \<longleftrightarrow> f \<in> s"
  by (auto simp: apply_override_def feature_codec.dec_ok_iff split: sum.splits)

lemma fold_override_other:
  "feature_key f \<notin> fst ` set os \<or> is_locked f \<Longrightarrow> f \<in> fold apply_override os s \<longleftrightarrow> f \<in> s"
proof (induction os arbitrary: s)
  case (Cons x os)
  have "f \<in> apply_override x s \<longleftrightarrow> f \<in> s" by (rule apply_override_other) (use Cons.prems in auto)
  moreover have "f \<in> fold apply_override os (apply_override x s) \<longleftrightarrow> f \<in> apply_override x s"
    by (rule Cons.IH) (use Cons.prems in auto)
  ultimately show ?case by simp
qed simp

lemma apply_override_hit: "\<not> is_locked f \<Longrightarrow> f \<in> apply_override (feature_key f, on) s \<longleftrightarrow> on"
  by (simp add: apply_override_def feature_codec.dec_enc)

lemma fold_override_last:
  assumes "\<not> is_locked f"
  shows "f \<in> fold apply_override os s \<longleftrightarrow>
    (case map_of (rev os) (feature_key f) of None \<Rightarrow> f \<in> s | Some on \<Rightarrow> on)"
proof (induction os rule: rev_induct)
  case (snoc x os)
  then show ?case
    using assms apply_override_hit [OF assms] apply_override_other [of x f]
    by (cases x) (auto simp: map_of_append)
qed simp

text \<open>C40: the console shows what the gate enforces. For every feature the state on the page is the state
  the gate resolves from the same stored rows, whatever rows there are: unknown keys, several rows for a
  key, rows for a feature that is locked. A locked feature is on in both.
\<close>

theorem console_shows_enforced:
  "map fv_key (filter fv_enabled (flag_views rows)) = enabled_features (resolve_snapshot (effective_overrides rows)) \<and>
   {f. is_locked f} \<subseteq> resolve_snapshot (effective_overrides rows)"
proof -
  have m: "map_of (rev (effective_overrides rows)) k = map_option or_enabled (map_of (rev (map (\<lambda>r. (or_feature_key r, r)) rows)) k)" for k
    by (induction rows rule: rev_induct) (auto simp: effective_overrides_def)
  have "fv_enabled (flag_view_of rows f) \<longleftrightarrow> f \<in> resolve_snapshot (effective_overrides rows)" for f
  proof (cases "is_locked f")
    case True
    then show ?thesis
      by (simp add: flag_view_of_def Let_def resolve_snapshot_def fold_override_other default_mem)
  next
    case False
    then show ?thesis
      by (simp add: flag_view_of_def Let_def resolve_snapshot_def fold_override_last m default_mem stored_row
          split: option.split)
  qed
  then have "filter fv_enabled (flag_views rows) =
      map (flag_view_of rows) (filter (\<lambda>f. f \<in> resolve_snapshot (effective_overrides rows)) feature_all)"
    by (simp add: flag_views_def filter_map comp_def)
  moreover have "fv_key (flag_view_of rows f) = f" for f by (simp add: flag_view_of_def Let_def)
  ultimately show ?thesis
    by (auto simp: enabled_features_def comp_def resolve_snapshot_def fold_override_other default_mem locked_default)
qed

section \<open>The routes a feature gates\<close>

record gate_rule =
  gr_prefix :: string
  gr_feature :: feature
  gr_writes_only :: bool
  gr_exact :: bool

text \<open>Longest first, exact before prefix, then by the text of the prefix.\<close>

definition rule_key :: "gate_rule \<Rightarrow> int \<times> bool \<times> string" where
  "rule_key r = (- int (length (gr_prefix r)), \<not> gr_exact r, gr_prefix r)"

definition add_rule :: "gate_rule \<Rightarrow> gate_rule list \<Rightarrow> gate_rule list" where
  "add_rule r rules = sort_key rule_key (rules @ [r])"

definition gate_all :: "string \<Rightarrow> feature \<Rightarrow> gate_rule list \<Rightarrow> gate_rule list" where
  "gate_all prefix f = add_rule \<lparr>gr_prefix = prefix, gr_feature = f, gr_writes_only = False, gr_exact = False\<rparr>"

definition gate_writes :: "string \<Rightarrow> feature \<Rightarrow> gate_rule list \<Rightarrow> gate_rule list" where
  "gate_writes prefix f = add_rule \<lparr>gr_prefix = prefix, gr_feature = f, gr_writes_only = True, gr_exact = False\<rparr>"

definition gate_path :: "string \<Rightarrow> feature \<Rightarrow> gate_rule list \<Rightarrow> gate_rule list" where
  "gate_path path f = add_rule \<lparr>gr_prefix = path, gr_feature = f, gr_writes_only = False, gr_exact = True\<rparr>"

definition gate_path_writes :: "string \<Rightarrow> feature \<Rightarrow> gate_rule list \<Rightarrow> gate_rule list" where
  "gate_path_writes path f = add_rule \<lparr>gr_prefix = path, gr_feature = f, gr_writes_only = True, gr_exact = True\<rparr>"

definition rule_matches :: "bool \<Rightarrow> string \<Rightarrow> gate_rule \<Rightarrow> bool" where
  "rule_matches is_write path r \<longleftrightarrow>
     (if gr_exact r then path = gr_prefix r else take (length (gr_prefix r)) path = gr_prefix r) \<and>
     (\<not> gr_writes_only r \<or> is_write)"

definition required_feature :: "gate_rule list \<Rightarrow> bool \<Rightarrow> string \<Rightarrow> feature option" where
  "required_feature rules is_write path = map_option gr_feature (find (rule_matches is_write path) rules)"

definition declared_features :: "gate_rule list \<Rightarrow> feature set" where
  "declared_features rules = gr_feature ` set rules"

text \<open>\<open>None\<close> is the refusal with status 404; \<open>matched\<close> is the route pattern, where there is one.\<close>

definition enforce_gate :: "feature set \<Rightarrow> gate_rule list \<Rightarrow> bool \<Rightarrow> string option \<Rightarrow> 'r \<Rightarrow> (feature, 'r) result" where
  "enforce_gate snapshot rules is_write matched response =
     (case Option.bind matched (required_feature rules is_write) of
        None \<Rightarrow> Ok response
      | Some f \<Rightarrow> if f \<in> snapshot then Ok response else Err f)"

definition build_rules :: "gate_rule list \<Rightarrow> gate_rule list" where
  "build_rules = foldl (\<lambda>rules r. add_rule r rules) []"

lemma build_rules_sorted: "build_rules rs = sort_key rule_key rs"
proof (induction rs rule: rev_induct)
  case (snoc r rs)
  have st: "filter (\<lambda>x. c = rule_key x) (sort_key rule_key zs) = filter (\<lambda>x. c = rule_key x) zs" for c zs
    using sort_key_stable [of rule_key c zs] unfolding eq_commute [of _ c] .
  have "sort_key rule_key (sort_key rule_key rs @ [r]) = sort_key rule_key (rs @ [r])"
    by (rule properties_for_sort_key) (simp_all add: st)
  with snoc show ?case by (simp add: build_rules_def add_rule_def)
qed (simp add: build_rules_def)

text \<open>The table does not depend on the order the routes were declared in.\<close>

theorem gate_order_free:
  assumes "distinct (map rule_key rs)" "mset rs' = mset rs"
  shows "build_rules rs' = build_rules rs"
proof -
  have "set rs' = set rs" by (rule mset_eq_setD [OF assms(2)])
  moreover have "mset (map rule_key rs') = mset (map rule_key rs)" by (simp only: mset_map assms(2))
  then have "distinct (map rule_key rs')" using assms(1) by (metis mset_eq_imp_distinct_iff)
  moreover have "inj_on rule_key (set rs)" using assms(1) by (simp add: distinct_map)
  moreover have "distinct (map rule_key (sort_key rule_key xs)) \<longleftrightarrow> distinct (map rule_key xs)" for xs
    by (simp add: distinct_map)
  ultimately show ?thesis
    using assms(1) unfolding build_rules_sorted
    by (intro map_sorted_distinct_set_unique [of rule_key]) simp_all
qed

text \<open>The most specific rule that matches decides.\<close>

theorem gate_most_specific:
  "case required_feature (build_rules rs) is_write path of
     None \<Rightarrow> \<forall>r\<in>set rs. \<not> rule_matches is_write path r
   | Some f \<Rightarrow> \<exists>r\<in>set rs. rule_matches is_write path r \<and> gr_feature r = f \<and>
       (\<forall>q\<in>set rs. rule_matches is_write path q \<longrightarrow> rule_key r \<le> rule_key q)"
proof (cases "find (rule_matches is_write path) (build_rules rs)")
  case None
  then have "\<forall>r\<in>set rs. \<not> rule_matches is_write path r" by (auto simp: find_None_iff build_rules_sorted)
  then show ?thesis using None by (simp add: required_feature_def)
next
  case (Some r)
  then obtain k where k: "k < length (build_rules rs)" "rule_matches is_write path r" "build_rules rs ! k = r"
      "\<forall>i<k. \<not> rule_matches is_write path (build_rules rs ! i)"
    by (auto simp: find_Some_iff)
  have "rule_key r \<le> rule_key q" if q: "q \<in> set rs" "rule_matches is_write path q" for q
  proof -
    have "q \<in> set (build_rules rs)" using q(1) by (simp add: build_rules_sorted)
    then obtain i where i: "i < length (build_rules rs)" "build_rules rs ! i = q" by (auto simp: in_set_conv_nth)
    then have "k \<le> i" using k(4) q(2) by (metis not_le)
    have "sorted (map rule_key (build_rules rs))" by (simp add: build_rules_sorted)
    from sorted_nth_mono [OF this \<open>k \<le> i\<close>] show ?thesis using i k by simp
  qed
  moreover have "r \<in> set rs" using k(1,3) by (metis build_rules_sorted nth_mem set_sort)
  ultimately show ?thesis using Some k(2) by (auto simp: required_feature_def)
qed

section \<open>What a reader is told\<close>

datatype notification_kind = NewChapter | SeriesCompleted | SourceAdded | SyncConflict | Announcement

fun notification_kind_as_str :: "notification_kind \<Rightarrow> string" where
  "notification_kind_as_str NewChapter = ''new_chapter''"
| "notification_kind_as_str SeriesCompleted = ''series_completed''"
| "notification_kind_as_str SourceAdded = ''source_added''"
| "notification_kind_as_str SyncConflict = ''sync_conflict''"
| "notification_kind_as_str Announcement = ''announcement''"

definition notification_kind_all :: "notification_kind list" where
  [codec_simps]: "notification_kind_all = [NewChapter, SeriesCompleted, SourceAdded, SyncConflict, Announcement]"

definition notification_kind_from_str :: "string \<Rightarrow> (parse_enum_error, notification_kind) result" where
  "notification_kind_from_str = str_enum_from_str ''NotificationKind'' notification_kind_as_str notification_kind_all"

interpretation notification_kind_codec:
  token_codec notification_kind_as_str notification_kind_from_str notification_kind_all
  unfolding notification_kind_from_str_def
  by (rule str_enum_codec, case_tac x) (simp_all add: codec_simps)

definition prefs_version :: nat where "prefs_version = 1"

definition minutes_per_day :: int where "minutes_per_day = 24 * 60"

definition max_offset_minutes :: int where "max_offset_minutes = 18 * 60"

text \<open>The last one is the arithmetic overflow check of the release profile, which panics.\<close>

datatype prefs_error = Unknown_Version nat | Minute_Out_Of_Range int | Offset_Out_Of_Range int | Overflow_Panic

record quiet_hours =
  qh_enabled :: bool
  qh_start_minute :: int
  qh_end_minute :: int
  qh_utc_offset_minutes :: int

definition default_quiet_hours :: quiet_hours where
  "default_quiet_hours = \<lparr>qh_enabled = False, qh_start_minute = 23 * 60, qh_end_minute = 7 * 60,
     qh_utc_offset_minutes = 0\<rparr>"

text \<open>
  \<open>at\<close> is in seconds; \<open>offset_ok\<close> says which offsets, in seconds, the time library can represent.
\<close>

definition local_minute :: "int \<Rightarrow> int \<Rightarrow> int" where
  "local_minute t offset_minutes = ((t + offset_minutes * 60) mod 86400) div 60"

definition quiet_covers :: "(int \<Rightarrow> bool) \<Rightarrow> quiet_hours \<Rightarrow> int \<Rightarrow> bool" where
  "quiet_covers offset_ok q t \<longleftrightarrow>
     (if \<not> qh_enabled q \<or> qh_start_minute q = qh_end_minute q then False
      else if \<not> offset_ok (qh_utc_offset_minutes q * 60) then False
      else (let minute = local_minute t (qh_utc_offset_minutes q)
            in if qh_start_minute q < qh_end_minute q
               then qh_start_minute q \<le> minute \<and> minute < qh_end_minute q
               else qh_start_minute q \<le> minute \<or> minute < qh_end_minute q))"

definition abs_i16 :: "int \<Rightarrow> int option" where
  "abs_i16 n = (if n = - (2 ^ 15) then None else Some \<bar>n\<bar>)"

definition validate_quiet_hours :: "quiet_hours \<Rightarrow> (prefs_error, unit) result" where
  "validate_quiet_hours q =
     (if minutes_per_day \<le> qh_start_minute q then Err (Minute_Out_Of_Range (qh_start_minute q))
      else if minutes_per_day \<le> qh_end_minute q then Err (Minute_Out_Of_Range (qh_end_minute q))
      else case abs_i16 (qh_utc_offset_minutes q) of
        None \<Rightarrow> Err Overflow_Panic
      | Some n \<Rightarrow> if max_offset_minutes < n then Err (Offset_Out_Of_Range (qh_utc_offset_minutes q)) else Ok ())"

record kind_prefs =
  kp_new_chapter :: bool
  kp_series_completed :: bool
  kp_source_added :: bool
  kp_sync_conflict :: bool
  kp_announcement :: bool

record status_prefs =
  sp_reading :: bool
  sp_planned :: bool
  sp_paused :: bool
  sp_dropped :: bool
  sp_completed :: bool

record channel_prefs =
  ch_in_app :: bool
  ch_live :: bool

record notification_prefs =
  np_version :: nat
  np_kinds :: kind_prefs
  np_watch_status :: status_prefs
  np_channels :: channel_prefs
  np_quiet_hours :: quiet_hours
  np_group_unread :: bool

definition default_notification_prefs :: notification_prefs where
  "default_notification_prefs = \<lparr>np_version = prefs_version,
     np_kinds = \<lparr>kp_new_chapter = True, kp_series_completed = True, kp_source_added = True,
       kp_sync_conflict = True, kp_announcement = True\<rparr>,
     np_watch_status = \<lparr>sp_reading = True, sp_planned = True, sp_paused = True, sp_dropped = False,
       sp_completed = False\<rparr>,
     np_channels = \<lparr>ch_in_app = True, ch_live = True\<rparr>,
     np_quiet_hours = default_quiet_hours, np_group_unread = True\<rparr>"

fun kind_allows :: "kind_prefs \<Rightarrow> notification_kind \<Rightarrow> bool" where
  "kind_allows k NewChapter = kp_new_chapter k"
| "kind_allows k SeriesCompleted = kp_series_completed k"
| "kind_allows k SourceAdded = kp_source_added k"
| "kind_allows k SyncConflict = kp_sync_conflict k"
| "kind_allows k Announcement = kp_announcement k"

fun status_allows :: "status_prefs \<Rightarrow> watch_status \<Rightarrow> bool" where
  "status_allows p watch_status.Reading = sp_reading p"
| "status_allows p watch_status.Planned = sp_planned p"
| "status_allows p watch_status.Paused = sp_paused p"
| "status_allows p watch_status.Dropped = sp_dropped p"
| "status_allows p watch_status.Completed = sp_completed p"

definition prefs_allow :: "notification_prefs \<Rightarrow> notification_kind \<Rightarrow> watch_status \<Rightarrow> bool" where
  "prefs_allow p k s \<longleftrightarrow> ch_in_app (np_channels p) \<and> kind_allows (np_kinds p) k \<and> status_allows (np_watch_status p) s"

definition prefs_allow_live :: "(int \<Rightarrow> bool) \<Rightarrow> notification_prefs \<Rightarrow> int \<Rightarrow> bool" where
  "prefs_allow_live offset_ok p t \<longleftrightarrow> ch_live (np_channels p) \<and> \<not> quiet_covers offset_ok (np_quiet_hours p) t"

definition validate_prefs :: "notification_prefs \<Rightarrow> (prefs_error, unit) result" where
  "validate_prefs p =
     (if prefs_version < np_version p then Err (Unknown_Version (np_version p))
      else validate_quiet_hours (np_quiet_hours p))"

text \<open>
  A document that passed validation is silent exactly for the minutes from its start to its end, counted
  around midnight; an empty window never silences. \<open>u16\<close> fields are not negative.
\<close>

theorem quiet_window_exact:
  assumes "validate_quiet_hours q = Ok ()" "0 \<le> qh_start_minute q" "0 \<le> qh_end_minute q"
    and "\<And>s. \<bar>s\<bar> \<le> 18 * 3600 \<Longrightarrow> offset_ok s"
  shows "quiet_covers offset_ok q t \<longleftrightarrow> qh_enabled q \<and>
    (local_minute t (qh_utc_offset_minutes q) - qh_start_minute q) mod 1440 <
      (qh_end_minute q - qh_start_minute q) mod 1440"
proof -
  let ?m = "local_minute t (qh_utc_offset_minutes q)" and ?s = "qh_start_minute q" and ?e = "qh_end_minute q"
  have b: "?s < 1440" "?e < 1440" "\<bar>qh_utc_offset_minutes q\<bar> \<le> 1080"
    using assms(1) by (auto simp: validate_quiet_hours_def minutes_per_day_def max_offset_minutes_def abs_i16_def
        split: if_split_asm)
  have m: "0 \<le> ?m" "?m < 1440"
    using pos_mod_bound [of 86400 "t + qh_utc_offset_minutes q * 60"] by (simp_all add: local_minute_def)
  have ok: "offset_ok (qh_utc_offset_minutes q * 60)" by (rule assms(4)) (use b(3) in linarith)
  have wrap: "x mod 1440 = (if x < 0 then x + 1440 else x)" if "- 1440 < x" "x < 1440" for x :: int
  proof (cases "x < 0")
    case True
    have "x mod 1440 = (x + 1440) mod 1440" by simp
    also have "\<dots> = x + 1440" using True that by (intro mod_pos_pos_trivial) auto
    finally show ?thesis using True by simp
  qed (use that in \<open>simp add: mod_pos_pos_trivial\<close>)
  show ?thesis
    using m b assms(2,3) ok wrap [of "?m - ?s"] wrap [of "?e - ?s"]
    by (auto simp: quiet_covers_def Let_def split: if_split_asm)
qed

text \<open>An offset of \<open>i16::MIN\<close> is not refused: the check itself overflows.\<close>

lemma offset_check_overflows:
  "validate_quiet_hours (default_quiet_hours\<lparr>qh_utc_offset_minutes := - 32768\<rparr>) = Err Overflow_Panic"
  by code_simp

end
