(* ===== verification/Spec2Isabelle.thy ===== *)
theory Spec2Isabelle
  imports Domain_Enums Reading_Progress Sync_Actions Scan_Pipeline Watchlist_Store Fetch_Stack Match_Decide Dedupe_Orphans Catalogue_Policy Access_Policy
begin

text \<open>
  This development models the core of TankoVault, a self-hosted service that crawls reading sites,
  keeps one catalogue of series and chapters, tracks what its readers have read and keeps external
  trackers in step with it. The program is a Rust workspace: domain rules in \<open>src/crates/domain\<close>,
  SQL statements in \<open>src/crates/db\<close>, and services under \<open>src/services\<close> (\<open>control-plane\<close> plans scans,
  \<open>worker\<close> runs them, \<open>sync\<close> talks to trackers, \<open>api\<close> serves readers).

  Theories, in the order in which they build on each other:

  \<^item> \<open>Vault_Prelude\<close>: results, clamping, tables as association lists, state-passing actions, the
    locales \<open>row_store\<close> (a table read and written by key) and \<open>token_codec\<close> (an enumeration stored
    as a string), and the collections of simplification rules.
  \<^item> \<open>Domain_Enums\<close>: \<open>crates/domain/src/enums.rs\<close> and \<open>scan_stage.rs\<close>. Every enumeration is an
    interpretation of \<open>token_codec\<close>.
  \<^item> \<open>Rust_Float\<close>, \<open>Chapter_Number\<close>: \<open>f64\<close> as the rationals it can represent, with rounding to
    nearest even written out (\<open>fl\<close>), and \<open>chapter_number.rs\<close> over it.
  \<^item> \<open>Reading_Progress\<close>: \<open>crates/db/src/repo/tracking/progress.rs\<close>, the two read frontiers.
  \<^item> \<open>Sync_Merge\<close>, \<open>Sync_Store\<close>, \<open>Sync_Linked\<close>, \<open>Sync_Reconcile\<close>, \<open>Sync_Actions\<close>: the three-way merge
    and its plan (\<open>services/sync/src/mapping.rs\<close>, \<open>engine/plan.rs\<close>), the tables of
    \<open>crates/db/src/repo/sync\<close>, the group of local series behind one remote entry
    (\<open>engine/linked.rs\<close>), the reconciliation of a group (\<open>engine/reconcile.rs\<close>), and the requests
    that resolve a conflict, undo a decision or push one series (\<open>conflicts.rs\<close>, \<open>revert.rs\<close>,
    \<open>push.rs\<close>).
  \<^item> \<open>Scan_Store\<close>, \<open>Scan_Planning\<close>, \<open>Scan_Worker\<close>, \<open>Scan_Pipeline\<close>: the rows and statements of
    \<open>crates/db/src/repo/scans\<close>, planning, finalising and repairing in \<open>services/control-plane\<close>, the
    life of a task message in \<open>services/worker\<close>, and the step relation in which all of them
    interleave.
  \<^item> \<open>Title_Text\<close>, \<open>Links\<close>: \<open>crates/domain/src/normalize.rs\<close> and \<open>link.rs\<close> over text as a list of
    Unicode scalar values.
  \<^item> \<open>Watchlist_Transfer\<close>, \<open>Watchlist_Store\<close>: \<open>crates/domain/src/watchlist_transfer.rs\<close>, backup and
    restore of a watchlist, and the transaction of \<open>crates/db/src/repo/tracking/watchlist/transfer.rs\<close>
    that applies it with its queue of entries that are not in the catalogue yet.
  \<^item> \<open>Match_Similarity\<close>, \<open>Match_Score\<close>, \<open>Match_Decide\<close>: the crate \<open>matcher\<close> with the signals of
    \<open>crates/domain/src/matching.rs\<close>: how two titles compare, the score of a candidate with its
    itemised account, where an incoming source belongs, and whether two series are one work.
  \<^item> \<open>Series_Merge\<close>, \<open>Merge_Journal\<close>: \<open>crates/db/src/repo/matching\<close>: merging two series with the undo
    journal and its inverse, the queue of candidate pairs, the shortlists, the decisions and their
    revert, the claim of the exhaustive sweep.
  \<^item> \<open>Dedupe_Sweep\<close>, \<open>Dedupe_Orphans\<close>: \<open>services/control-plane/src/dedupe\<close>: a pass over the shortlists,
    the sweep under its merge ceiling, the clean-up of series without a source, the exhaustive run.
  \<^item> \<open>Ssrf_Guard\<close>: \<open>crates/domain/src/ssrf.rs\<close> with the resolver and the redirect policy of the crate
    \<open>fetch\<close>, over addresses as machine words.
  \<^item> \<open>Crawl_Pacing\<close>: \<open>crates/domain/src/politeness.rs\<close> and \<open>pacing.rs\<close>, configured rates and the
    adaptive pacer.
  \<^item> \<open>Challenge_Detection\<close>, \<open>Browser_Identity\<close>, \<open>Fetch_Stack\<close>: the classifier of
    \<open>crates/solver/src/detection.rs\<close>, the choice of client of \<open>crates/fetch\<close>, and the layers of a
    provider's fetch stack with their composition. The layers are instances of the locale
    \<open>fetch_layer\<close>: the base fetcher by interpretation, the others by its lemmas.
  \<^item> \<open>Catalogue_Policy\<close>: \<open>crates/domain/src/chapter_outliers.rs\<close>, \<open>metadata_priority.rs\<close>,
    \<open>term_filter.rs\<close> and \<open>adult.rs\<close>: which chapter numbers of a listing are implausible, which source
    may overwrite the metadata of a series, which tags are refused or adult.
  \<^item> \<open>Access_Policy\<close>: \<open>permissions.rs\<close>, \<open>features.rs\<close> and \<open>notifications.rs\<close> of \<open>crates/domain\<close>, the
    feature gate of \<open>crates/service/src/flags.rs\<close>, its overrides in \<open>crates/db/src/repo/flags.rs\<close> and the
    console handlers of \<open>services/api/src/admin/flags.rs\<close>.

  What the groups of lemmas show.

  \<^item> Enumerations: parsing a stored token gives back the value it was printed from and every other
    token is an error.
  \<^item> Progress: a mark of a chapter as read or unread changes exactly the chapters it should, for the
    whole table and for every other reader, up to the exceptions the properties name (a chapter below 1
    cannot be unread, nor a part whose bound is not exact); the part frontier never outlives the whole one.
  \<^item> Synchronisation: the three-way merge converges, a reconciled group of linked series ends in step
    with the remote entry and with the recorded ancestor, and the requests that resolve, revert or
    push do what their callers rely on.
  \<^item> Scans: the invariant of the step relation of \<open>Scan_Pipeline\<close> holds of every reachable state, so
    counters agree with the tasks, the tasks still open in a finalised run are no more than those inserted and
    never counted, and a run whose tasks are settled can be finalised; a run whose planning failed
    and was marked so suppresses nothing, one whose failure could not be written does; repairs are
    conservative, pruning keeps a streak of failures, a cancelled run hands out no task while it stays
    cancelled.
  \<^item> Titles, links, watchlists: the matching key of a title is a fixed point, a stored path resolves to
    the address it came from, a sanitised backup validates, an import repeated on numbers of at
    most four decimals changes nothing more, accounts for every entry and never loses progress.

  \<^item> Matching: the edit distance is the least number of edits, the account of a score adds up to it,
    a source attaches only under a series' own title, an automatic merge needs more than a score.
  \<^item> Merging: a merge that is reverted restores every journalled table; what a reader has on the
    survivor after a merge, and what of the absorbed series is lost; forwarding stays one lookup deep; a
    dismissed pair stays off the shortlists while both series stay; a reverted decision separates its
    pair; a sweep stays within its ceiling and a series it took away without a journal row is one whose
    insert got no answer; a pass fails only with the database; the exhaustive run ends, and what becomes
    of its claim; exactly what the clean-up deletes and what goes with it.
  \<^item> Policies: a chapter number is called implausible only with a large gap and little behind it;
    the field of a series comes from the best placed source that has an answer; a slug is its runs of letters and digits joined
    by dashes; grants parse back; the console shows for every feature exactly what the gate
    enforces; the most specific rule of the gate wins whatever the order of the rules; the quiet
    window holds exactly the minutes between its ends. The foreign key of an override to the
    account that set it is not modelled.
  \<^item> Fetching: the guard refuses exactly the listed address blocks and no connection of a guarded
    fetch is to one of them (an address embedded in an IPv6 one is not looked into); slots of a pacer are
    spaced; a fetch ends within its budget of transfers, solves and waits, those of the rate limiter
    included, and never answers with a challenge page.

  How the model stands to the code.

  \<^item> An \<open>f64\<close> that the code computes with is a rational number, and every arithmetic operation is
    followed by \<open>fl\<close>, the rounding of IEEE 754 binary64 written out. Infinities and NaN are excluded
    where the code excludes them (\<open>is_finite\<close>); the numbers involved stay far below overflow.
  \<^item> A table is an association list from its primary key to a record (\<open>row_store\<close>), in insertion
    order. A statement is a function on the whole database record; an \<open>ORDER BY\<close> is \<open>sort_key\<close>,
    \<open>ON CONFLICT\<close> and \<open>WHERE\<close> conditions are written out. \<open>now()\<close> is a clock field of the state, and a
    range check of a column (\<open>int4\<close>, \<open>numeric(10,4)\<close>) is a branch with an error.
  \<^item> An operation that can fail returns \<open>error + 'a\<close> and the state; a database transaction that fails
    leaves the state as it was. Where the code has an arm for a statement that gets no answer (planning,
    the duplicate sweep and its journal and claim), whether it gets one is an argument of the model
    (\<open>down\<close>, \<open>en_down\<close>), and an unanswered statement has changed nothing.
  \<^item> Code outside the repository is an argument: the tracker behind a \<open>provider\<close> record of functions, the
    message broker, the vault of access tokens, the URL parser, the Unicode tables (and the lower-case
    form of a name), the name resolver, an HTTP transfer with its decompression, the solver back-end,
    random draws, the clock. What a property needs of it is a named predicate, with a witness on a
    concrete instance.
  \<^item> An \<open>f32\<close> of the matcher is a rational too, rounded to 24 bits after each operation; the \<open>pg_trgm\<close>
    similarity is an input. The phrases that explain a score to an operator are left out.
  \<^item> The requests of one fetch stack run one after the other, as the locks of its layers order them.
    Where the code walks a hash map, the order is an argument; text sorts by code point.
  \<^item> Text is a list of code points; a byte length is computed from them as UTF-8 defines it.
  \<^item> The step relation of \<open>Scan_Pipeline\<close> interleaves the planner, the repair loops, any number of
    workers and administrators. Its guards say what it assumes of the broker: a message is worked on
    by one worker at a time, and a repair does not resend the tasks of a batch whose rows are younger
    than its grace period.

  Bounds and fuel. No definition uses fuel: every loop of the modelled code is a recursion over the
  rows, entries or characters it walks, or (the retry, solve and backoff loops) over the attempts that
  are left, with the termination proved. The loops of the exhaustive run, which nothing in the code
  bounds, are \<open>partial_function\<close>s, and that they return is the property \<open>exhaustive_run_returns\<close>.

  Not modelled. \<open>PROJECT.json\<close> lists every component. The crates \<open>adapters\<close>, \<open>bus\<close>, \<open>email\<close>,
  \<open>render\<close> and \<open>auth\<close>, and the back-ends of \<open>solver\<close>, call third-party libraries; \<open>api-client\<close> is generated; \<open>config\<close>, \<open>contracts\<close> and the
  entities are plain data; the web client is a user interface. Statements that only fill a listing
  of the console are left out, and so are the recommendations, whose scores are \<open>f32\<close> vector
  arithmetic over learned embeddings.
\<close>

end
